(* ===== verification/Prelude.thy ===== *)
theory Prelude
  imports Complex_Main "HOL-Library.AList"
begin

text \<open>
  What every component of the model shares: JavaScript values and strings, exceptions as the
  \<open>Inl\<close> branch of a sum, the insertion-ordered \<open>Map\<close>, the first-occurrence order of
  \<open>new Set(xs)\<close>, and the lemma collections the component proofs use.

  Conventions.  An \<open>async\<close> method is the function of its effect: it takes the state of the
  object it belongs to and returns the new one.  \<open>throw new Error("CODE")\<close> is
  \<open>Inl\<close> of the error's code; the human-readable message beside a code is not modelled.
  A JavaScript number that the code compares, adds or tests with \<open>Number.isInteger\<close> is a
  rational (\<open>num\<close>): rounding, NaN and the infinities are not modelled.  A counter the code
  only increments is a \<open>nat\<close> or an \<open>int\<close>.  A string is a \<open>char list\<close>, one
  character per code unit below 256.
\<close>

section \<open>Lemma collections\<close>

named_theorems result_simps \<open>how a computation that may throw returns or throws\<close>
named_theorems map_simps \<open>reading an insertion-ordered map after writing it\<close>
named_theorems state_defs \<open>definitions of the state-changing operations of a component\<close>

section \<open>JavaScript values\<close>

type_synonym num = rat

datatype json =
    JNull
  | JBool bool
  | JNum num
  | JStr string
  | JArr "json list"
  | JObj "(string \<times> json) list"

text \<open>\<open>Number.isInteger\<close> on a finite number.\<close>

definition js_is_integer :: "num \<Rightarrow> bool" where
  "js_is_integer x \<longleftrightarrow> of_int \<lfloor>x\<rfloor> = x"

lemma js_is_integer_of_int [simp]: "js_is_integer (of_int i)"
  by (simp add: js_is_integer_def)

lemma js_is_integer_numeral [simp]:
  "js_is_integer (numeral n)" "js_is_integer 0" "js_is_integer 1"
  using js_is_integer_of_int [of "numeral n"] js_is_integer_of_int [of 0]
    js_is_integer_of_int [of 1] by simp_all

lemma js_is_integer_iff: "js_is_integer x \<longleftrightarrow> (\<exists>i. x = of_int i)"
  by (metis js_is_integer_def js_is_integer_of_int)

section \<open>Computations that may throw\<close>

definition throw_if :: "bool \<Rightarrow> 'e \<Rightarrow> 'e + 'a \<Rightarrow> 'e + 'a" where
  "throw_if b e k = (if b then Inl e else k)"

definition rbind :: "'e + 'a \<Rightarrow> ('a \<Rightarrow> 'e + 'b) \<Rightarrow> 'e + 'b" where
  "rbind m k = (case m of Inl e \<Rightarrow> Inl e | Inr x \<Rightarrow> k x)"

definition require_some :: "'e \<Rightarrow> 'a option \<Rightarrow> 'e + 'a" where
  "require_some e v = (case v of None \<Rightarrow> Inl e | Some x \<Rightarrow> Inr x)"

text \<open>A loop whose body throws or goes on, and a \<open>map\<close> whose body may throw.\<close>

fun for_each :: "('a \<Rightarrow> 'e + unit) \<Rightarrow> 'a list \<Rightarrow> 'e + unit" where
  "for_each f [] = Inr ()"
| "for_each f (x # xs) = rbind (f x) (\<lambda>_. for_each f xs)"

fun rmap :: "('a \<Rightarrow> 'e + 'b) \<Rightarrow> 'a list \<Rightarrow> 'e + 'b list" where
  "rmap f [] = Inr []"
| "rmap f (x # xs) = rbind (f x) (\<lambda>y. rbind (rmap f xs) (\<lambda>ys. Inr (y # ys)))"

lemma throw_if_Inr [result_simps]: "throw_if b e k = Inr y \<longleftrightarrow> \<not> b \<and> k = Inr y"
  by (simp add: throw_if_def)

lemma throw_if_Inl [result_simps]: "throw_if b e k = Inl d \<longleftrightarrow> b \<and> d = e \<or> \<not> b \<and> k = Inl d"
  by (auto simp: throw_if_def)

lemma throw_if_True [simp]: "throw_if True e k = Inl e"
  by (simp add: throw_if_def)

lemma throw_if_False [simp]: "throw_if False e k = k"
  by (simp add: throw_if_def)

lemma rbind_Inr [result_simps]: "rbind m k = Inr y \<longleftrightarrow> (\<exists>x. m = Inr x \<and> k x = Inr y)"
  by (simp add: rbind_def split: sum.split)

lemma rbind_Inl [result_simps]:
  "rbind m k = Inl e \<longleftrightarrow> m = Inl e \<or> (\<exists>x. m = Inr x \<and> k x = Inl e)"
  by (auto simp: rbind_def split: sum.splits)

lemma rbind_simps [simp]: "rbind (Inl e) k = Inl e" "rbind (Inr x) k = k x"
  by (simp_all add: rbind_def)

lemma require_some_Inr [result_simps]: "require_some e v = Inr x \<longleftrightarrow> v = Some x"
  by (simp add: require_some_def split: option.split)

lemma require_some_Inl [result_simps]: "require_some e v = Inl d \<longleftrightarrow> v = None \<and> d = e"
  by (auto simp: require_some_def split: option.split)

lemma require_some_simps [simp]: "require_some e None = Inl e" "require_some e (Some x) = Inr x"
  by (simp_all add: require_some_def)

lemma for_each_Inr [result_simps]: "for_each f xs = Inr u \<longleftrightarrow> (\<forall>x \<in> set xs. f x = Inr ())"
  by (induction xs) (auto simp: result_simps)

lemma for_each_Inl: "for_each f xs = Inl e \<Longrightarrow> \<exists>x \<in> set xs. f x = Inl e"
  by (induction xs) (auto simp: result_simps)

lemma rmap_Inr [result_simps]: "rmap f xs = Inr ys \<longleftrightarrow> list_all2 (\<lambda>x y. f x = Inr y) xs ys"
  by (induction xs arbitrary: ys) (auto simp: result_simps list_all2_Cons1)

lemma rmap_Inl: "rmap f xs = Inl e \<Longrightarrow> \<exists>x \<in> set xs. f x = Inl e"
  by (induction xs) (auto simp: result_simps)

lemma rmap_ok: "(\<And>x. x \<in> set xs \<Longrightarrow> f x = Inr (g x)) \<Longrightarrow> rmap f xs = Inr (map g xs)"
  by (induction xs) auto

section \<open>Strings\<close>

text \<open>
  \<open>s.trim()\<close>, \<open>!s.trim()\<close> and truthiness of an optional string.  The white space is
  ECMAScript's below code unit 256: tab to carriage return, space, no-break space.
\<close>

definition js_space :: "char \<Rightarrow> bool" where
  "js_space c \<longleftrightarrow> (let n = of_char c :: nat in (9 \<le> n \<and> n \<le> 13) \<or> n = 32 \<or> n = 160)"

definition js_trim :: "string \<Rightarrow> string" where
  "js_trim s = rev (dropWhile js_space (rev (dropWhile js_space s)))"

abbreviation blank :: "string \<Rightarrow> bool" where
  "blank s \<equiv> js_trim s = []"

fun truthy :: "string option \<Rightarrow> bool" where
  "truthy None = False"
| "truthy (Some s) = (s \<noteq> [])"

lemma dropWhile_idem [simp]: "dropWhile P (dropWhile P xs) = dropWhile P xs"
  by (induction xs) auto

lemma dropWhile_rev_fixed:
  assumes "dropWhile P xs = xs"
  shows "dropWhile P (rev (dropWhile P (rev xs))) = rev (dropWhile P (rev xs))"
proof (cases xs)
  case (Cons y ys)
  with assms have "\<not> P y" by (metis dropWhile_eq_self_iff list.distinct(1) list.sel(1))
  then have "dropWhile P (rev xs) = dropWhile P (rev ys) @ [y]"
    using Cons by (cases "\<forall>z \<in> set ys. P z") (auto simp: dropWhile_append)
  with \<open>\<not> P y\<close> show ?thesis by simp
qed simp

lemma js_trim_idem [simp]: "js_trim (js_trim s) = js_trim s"
  by (simp add: js_trim_def dropWhile_rev_fixed)

lemma blank_iff: "blank s \<longleftrightarrow> (\<forall>c \<in> set s. js_space c)"
proof -
  have "blank s \<longleftrightarrow> dropWhile js_space (rev (dropWhile js_space s)) = []"
    by (simp add: js_trim_def)
  also have "\<dots> \<longleftrightarrow> (\<forall>c \<in> set (dropWhile js_space s). js_space c)"
    by (simp add: dropWhile_eq_Nil_conv)
  also have "\<dots> \<longleftrightarrow> (\<forall>c \<in> set s. js_space c)"
    by (induction s) auto
  finally show ?thesis .
qed

lemma blank_Nil [simp]: "js_trim [] = []"
  by (simp add: js_trim_def)

text \<open>\<open>s.includes(t)\<close>, \<open>s.startsWith(t)\<close>, and the letters that differ in case only.\<close>

definition js_starts :: "string \<Rightarrow> string \<Rightarrow> bool" where
  "js_starts s t \<longleftrightarrow> take (length t) s = t"

fun js_includes :: "string \<Rightarrow> string \<Rightarrow> bool" where
  "js_includes [] t = (t = [])"
| "js_includes (c # s) t = (js_starts (c # s) t \<or> js_includes s t)"

lemma js_includes_iff: "js_includes s t \<longleftrightarrow> (\<exists>xs ys. s = xs @ t @ ys)"
proof (induction s)
  case (Cons c s)
  have "js_starts (c # s) t \<longleftrightarrow> (\<exists>ys. c # s = t @ ys)"
    unfolding js_starts_def by (metis append_eq_conv_conj append_take_drop_id)
  moreover have "(\<exists>xs ys. c # s = xs @ t @ ys) \<longleftrightarrow> (\<exists>ys. c # s = t @ ys) \<or> (\<exists>xs ys. s = xs @ t @ ys)"
    by (metis append_Cons append_Nil list.exhaust list.inject)
  ultimately show ?case using Cons.IH by simp
qed simp

text \<open>\<open>s.split(c)\<close> for a one-character separator.\<close>

fun js_split :: "char \<Rightarrow> string \<Rightarrow> string list" where
  "js_split c [] = [[]]"
| "js_split c (d # s) =
     (if d = c then [] # js_split c s
      else case js_split c s of [] \<Rightarrow> [[d]] | p # ps \<Rightarrow> (d # p) # ps)"

lemma js_split_nonempty [simp]: "js_split c s \<noteq> []"
  by (induction s) (auto split: list.split)

lemma js_split_free: "c \<notin> set s \<Longrightarrow> js_split c s = [s]"
  by (induction s) auto

lemma js_split_append: "c \<notin> set s \<Longrightarrow> js_split c (s @ c # t) = s # js_split c t"
  by (induction s) auto

text \<open>\<open>xs.join(sep)\<close>.\<close>

fun js_join :: "string \<Rightarrow> string list \<Rightarrow> string" where
  "js_join sep [] = []"
| "js_join sep [x] = x"
| "js_join sep (x # y # ys) = x @ sep @ js_join sep (y # ys)"

definition lower_char :: "char \<Rightarrow> char" where
  "lower_char c = (let n = of_char c :: nat in if 65 \<le> n \<and> n \<le> 90 then char_of (n + 32) else c)"

definition ascii_lower :: "string \<Rightarrow> string" where
  "ascii_lower s = map lower_char s"

text \<open>The decimal text of a natural number, as template strings and \<open>String(n)\<close> give it.\<close>

fun nat_text :: "nat \<Rightarrow> string" where
  "nat_text n = (if n < 10 then [char_of (48 + n)] else nat_text (n div 10) @ [char_of (48 + n mod 10)])"

declare nat_text.simps [simp del]

lemma nat_text_nonempty [simp]: "nat_text n \<noteq> []"
  by (subst nat_text.simps) simp

text \<open>A field of an object; the fields of a JavaScript object have distinct names.\<close>

definition json_field :: "(string \<times> json) list \<Rightarrow> string \<Rightarrow> json option" where
  "json_field fs k = map_of fs k"

text \<open>\<open>value ?? other\<close>.\<close>

fun coalesce :: "json option \<Rightarrow> json option \<Rightarrow> json option" where
  "coalesce None other = other"
| "coalesce (Some JNull) other = other"
| "coalesce (Some v) other = Some v"

section \<open>Sets built from lists, and insertion-ordered maps\<close>

text \<open>\<open>[...new Set(xs)]\<close>: each value once, in the order of its first occurrence.\<close>

fun uniq_from :: "'a list \<Rightarrow> 'a list \<Rightarrow> 'a list" where
  "uniq_from seen [] = []"
| "uniq_from seen (x # xs) =
     (if x \<in> set seen then uniq_from seen xs else x # uniq_from (x # seen) xs)"

definition uniq :: "'a list \<Rightarrow> 'a list" where
  "uniq xs = uniq_from [] xs"

lemma set_uniq_from: "set (uniq_from seen xs) = set xs - set seen"
  by (induction seen xs rule: uniq_from.induct) auto

lemma distinct_uniq_from: "distinct (uniq_from seen xs)"
  by (induction seen xs rule: uniq_from.induct) (auto simp: set_uniq_from)

lemma uniq_from_distinct: "distinct xs \<Longrightarrow> set xs \<inter> set seen = {} \<Longrightarrow> uniq_from seen xs = xs"
  by (induction seen xs rule: uniq_from.induct) auto

lemma set_uniq [simp]: "set (uniq xs) = set xs"
  by (simp add: uniq_def set_uniq_from)

lemma distinct_uniq [simp]: "distinct (uniq xs)"
  by (simp add: uniq_def distinct_uniq_from)

lemma uniq_id [simp]: "distinct xs \<Longrightarrow> uniq xs = xs"
  by (simp add: uniq_def uniq_from_distinct)

lemma uniq_length: "length (uniq xs) = card (set xs)"
  by (metis distinct_card distinct_uniq set_uniq)

lemma uniq_length_le: "length (uniq xs) \<le> length xs"
  by (simp add: uniq_length card_length)

text \<open>
  A JavaScript \<open>Map\<close> is an association list in insertion order.  \<open>set\<close> on a key that
  is present keeps the key's place, on a new key appends: this is \<open>AList.update\<close>.
\<close>

type_synonym ('k, 'v) jmap = "('k \<times> 'v) list"

abbreviation jget :: "('k, 'v) jmap \<Rightarrow> 'k \<Rightarrow> 'v option" where
  "jget m k \<equiv> map_of m k"

abbreviation jset :: "'k \<Rightarrow> 'v \<Rightarrow> ('k, 'v) jmap \<Rightarrow> ('k, 'v) jmap" where
  "jset k v m \<equiv> AList.update k v m"

abbreviation jdel :: "'k \<Rightarrow> ('k, 'v) jmap \<Rightarrow> ('k, 'v) jmap" where
  "jdel k m \<equiv> AList.delete k m"

abbreviation jvalues :: "('k, 'v) jmap \<Rightarrow> 'v list" where
  "jvalues m \<equiv> map snd m"

abbreviation jmap_ok :: "('k, 'v) jmap \<Rightarrow> bool" where
  "jmap_ok m \<equiv> distinct (map fst m)"

lemma jget_jset [simp, map_simps]: "jget (jset k v m) k' = (if k' = k then Some v else jget m k')"
  by (simp add: update_conv)

lemma jget_jdel [simp, map_simps]: "jget (jdel k m) k' = (if k' = k then None else jget m k')"
  by (simp add: delete_conv)

lemma jmap_ok_jset [simp, intro]: "jmap_ok m \<Longrightarrow> jmap_ok (jset k v m)"
  by (rule distinct_update)

lemma jvalues_mem: "jmap_ok m \<Longrightarrow> v \<in> set (jvalues m) \<longleftrightarrow> (\<exists>k. jget m k = Some v)"
  by (force simp: map_of_eq_Some_iff)

lemma find_SomeD: "find P xs = Some x \<Longrightarrow> x \<in> set xs \<and> P x"
  by (induction xs) (auto split: if_splits)

lemma find_None_iff_ball: "find P xs = None \<longleftrightarrow> (\<forall>x \<in> set xs. \<not> P x)"
  by (induction xs) auto

lemma list_all2_in_right: "list_all2 P xs ys \<Longrightarrow> y \<in> set ys \<Longrightarrow> \<exists>x \<in> set xs. P x y"
  by (induction rule: list_all2_induct) auto

lemma find_append:
  "find P (xs @ ys) = (case find P xs of None \<Rightarrow> find P ys | Some x \<Rightarrow> Some x)"
  by (induction xs) auto

lemma find_map_keep:
  "(\<And>x. k (f x) = k x) \<Longrightarrow> find (\<lambda>x. k x = i) (map f xs) = map_option f (find (\<lambda>x. k x = i) xs)"
  by (induction xs) auto

section \<open>The contract of a keyed store\<close>

text \<open>
  Repositories of the program are used through one contract: reading a key after a write gives
  the value written, and a write leaves every other key alone.  The facts below are proved once
  from the contract.
\<close>

locale keyed_store =
  fixes lookup_in :: "'s \<Rightarrow> 'k \<Rightarrow> 'v option"
    and write_to :: "'k \<Rightarrow> 'v \<Rightarrow> 's \<Rightarrow> 's"
  assumes lookup_write: "lookup_in (write_to k v s) k' = (if k' = k then Some v else lookup_in s k')"
begin

lemma lookup_write_same: "lookup_in (write_to k v s) k = Some v"
  by (simp add: lookup_write)

lemma lookup_write_other: "k' \<noteq> k \<Longrightarrow> lookup_in (write_to k v s) k' = lookup_in s k'"
  by (simp add: lookup_write)

lemma write_all:
  assumes "\<forall>k v. lookup_in s k = Some v \<longrightarrow> P k v" and "P k v"
  shows "\<forall>k' v'. lookup_in (write_to k v s) k' = Some v' \<longrightarrow> P k' v'"
  using assms by (simp add: lookup_write)

lemma write_keeps_present:
  "lookup_in s k' \<noteq> None \<Longrightarrow> lookup_in (write_to k v s) k' \<noteq> None"
  by (simp add: lookup_write)

lemma write_write_same:
  "lookup_in (write_to k v (write_to k u s)) k' = lookup_in (write_to k v s) k'"
  by (simp add: lookup_write)

lemma write_commute:
  "k \<noteq> j \<Longrightarrow> lookup_in (write_to k v (write_to j u s)) i = lookup_in (write_to j u (write_to k v s)) i"
  by (simp add: lookup_write)

end

interpretation jm: keyed_store "\<lambda>m. map_of m" "\<lambda>k v m. AList.update k v m"
  by unfold_locales (simp add: update_conv)

end
