(* ===== verification/AgentPlan.thy ===== *)
theory AgentPlan
  imports Prelude
begin

text \<open>
  The data of an agent plan (\<^verbatim>\<open>domain/agent-plan.ts\<close>), the copy of a step with some fields
  replaced (\<^verbatim>\<open>clonePlanStep\<close> of \<^verbatim>\<open>application/plan-compiler.ts\<close>), and the queries on a list of steps
  that the compiler, the step state machine and the repository share.

  \<open>leaseUntil\<close> is an ISO string in the source, compared as a string with another one; both
  come from \<^verbatim>\<open>Date.prototype.toISOString\<close>, whose results for the years 0 to 9999 are ordered as
  the instants they name, so the model keeps the instant in milliseconds.
\<close>

datatype step_status = Pending | Running | Completed | Failed | Stale
datatype step_effect = Effect_read | Effect_write_canvas | Effect_create_task

record plan_step =
  st_id :: string
  st_tool :: string
  st_dependsOn :: "string list"
  st_status :: step_status
  st_inputHash :: string
  st_input :: "(string \<times> json) list option"
  st_estimatedCost :: num
  st_batchSize :: "int option"
  st_effect :: "step_effect option"
  st_concurrencyKey :: "string option"
  st_idempotencyKey :: "string option"
  st_taskId :: "string option"
  st_leaseUntil :: "int option"
  st_attemptCount :: "nat option"
  st_outputRef :: "string option"
  st_lastError :: "string option"

record agent_plan =
  pl_id :: string
  pl_sessionId :: string
  pl_version :: int
  pl_canvasVersion :: int
  pl_steps :: "plan_step list"

text \<open>
  \<open>clonePlanStep(step, overrides)\<close>: the overrides are the fields a call replaces, so they are
  a function on steps; the dependency list is copied, which values do not show.
\<close>

definition clonePlanStep :: "plan_step \<Rightarrow> (plan_step \<Rightarrow> plan_step) \<Rightarrow> plan_step" where
  "clonePlanStep step overrides = overrides step"

text \<open>\<open>steps.find((candidate) => candidate.id === id)\<close> and the test on its status.\<close>

definition find_step :: "plan_step list \<Rightarrow> string \<Rightarrow> plan_step option" where
  "find_step steps i = find (\<lambda>c. st_id c = i) steps"

definition step_completed :: "plan_step list \<Rightarrow> string \<Rightarrow> bool" where
  "step_completed steps i = (map_option st_status (find_step steps i) = Some Completed)"

text \<open>A step is ready when it is pending and every dependency is completed.\<close>

definition isReady :: "plan_step list \<Rightarrow> plan_step \<Rightarrow> bool" where
  "isReady steps step \<longleftrightarrow>
     st_status step = Pending \<and> (\<forall>d \<in> set (st_dependsOn step). step_completed steps d)"

text \<open>\<open>step.concurrencyKey?.trim()\<close>, absent when it is empty, which is how every use tests it.\<close>

definition conc_key :: "plan_step \<Rightarrow> string option" where
  "conc_key step =
     (case st_concurrencyKey step of None \<Rightarrow> None
      | Some k \<Rightarrow> if blank k then None else Some (js_trim k))"

section \<open>Plans with distinct step ids\<close>

abbreviation step_ids :: "plan_step list \<Rightarrow> string list" where
  "step_ids steps \<equiv> map st_id steps"

abbreviation ids_ok :: "plan_step list \<Rightarrow> bool" where
  "ids_ok steps \<equiv> distinct (step_ids steps)"

lemma find_step_SomeD: "find_step steps i = Some s \<Longrightarrow> s \<in> set steps \<and> st_id s = i"
  by (auto simp: find_step_def dest: find_SomeD)

lemma find_step_None: "find_step steps i = None \<longleftrightarrow> i \<notin> set (step_ids steps)"
  by (auto simp: find_step_def find_None_iff_ball)

lemma find_step_mem: "ids_ok steps \<Longrightarrow> s \<in> set steps \<Longrightarrow> find_step steps (st_id s) = Some s"
proof (induction steps)
  case (Cons x xs)
  then show ?case by (auto simp: find_step_def)
qed simp

lemma find_step_iff: "ids_ok steps \<Longrightarrow> find_step steps i = Some s \<longleftrightarrow> s \<in> set steps \<and> st_id s = i"
  using find_step_mem find_step_SomeD by blast

lemma ids_ok_unique: "ids_ok steps \<Longrightarrow> s \<in> set steps \<Longrightarrow> t \<in> set steps \<Longrightarrow> st_id s = st_id t \<Longrightarrow> s = t"
  by (auto simp: distinct_map inj_on_def)

lemma step_completed_iff:
  "ids_ok steps \<Longrightarrow> step_completed steps i \<longleftrightarrow> (\<exists>s \<in> set steps. st_id s = i \<and> st_status s = Completed)"
  by (auto simp: step_completed_def find_step_iff)

text \<open>Replacing steps by steps with the same id, as every update of a plan does.\<close>

lemma step_ids_map: "(\<And>s. s \<in> set steps \<Longrightarrow> st_id (f s) = st_id s) \<Longrightarrow> step_ids (map f steps) = step_ids steps"
  by simp

lemma find_step_map:
  assumes "\<And>s. st_id (f s) = st_id s"
  shows "find_step (map f steps) i = map_option f (find_step steps i)"
  by (induction steps) (auto simp: find_step_def assms)

lemma step_completed_map:
  assumes "\<And>s. st_id (f s) = st_id s"
  shows "step_completed (map f steps) i \<longleftrightarrow>
    (\<exists>s. find_step steps i = Some s \<and> st_status (f s) = Completed)"
  by (auto simp: step_completed_def find_step_map [OF assms])

section \<open>The dependency relation\<close>

text \<open>\<open>(i, d)\<close> when the step \<open>i\<close> depends on \<open>d\<close>.\<close>

definition dep_rel :: "plan_step list \<Rightarrow> (string \<times> string) set" where
  "dep_rel steps = {(st_id s, d) | s d. s \<in> set steps \<and> d \<in> set (st_dependsOn s)}"

lemma dep_relI: "s \<in> set steps \<Longrightarrow> d \<in> set (st_dependsOn s) \<Longrightarrow> (st_id s, d) \<in> dep_rel steps"
  by (auto simp: dep_rel_def)

lemma dep_rel_UN: "dep_rel steps = (\<Union>s \<in> set steps. Pair (st_id s) ` set (st_dependsOn s))"
  by (auto simp: dep_rel_def)

lemma dep_rel_finite: "finite (dep_rel steps)"
  by (simp add: dep_rel_UN)

lemma dep_rel_map:
  "(\<And>s. st_id (f s) = st_id s) \<Longrightarrow> (\<And>s. st_dependsOn (f s) = st_dependsOn s) \<Longrightarrow>
   dep_rel (map f steps) = dep_rel steps"
  by (simp add: dep_rel_UN)

lemma dep_rel_find:
  "ids_ok steps \<Longrightarrow> find_step steps i = Some s \<Longrightarrow> dep_rel steps `` {i} = set (st_dependsOn s)"
  by (auto simp: dep_rel_def find_step_iff dest: ids_ok_unique)

lemma dep_rel_find_None: "find_step steps i = None \<Longrightarrow> dep_rel steps `` {i} = {}"
  by (auto simp: dep_rel_def find_step_None)

section \<open>Sample data\<close>

text \<open>Concrete steps and plans, for the closed instances of the theorems.\<close>

definition sample_step :: "string \<Rightarrow> string \<Rightarrow> string list \<Rightarrow> plan_step" where
  "sample_step i tool deps =
     \<lparr> st_id = i, st_tool = tool, st_dependsOn = deps, st_status = Pending, st_inputHash = ''h'',
       st_input = None, st_estimatedCost = 2, st_batchSize = None, st_effect = None,
       st_concurrencyKey = None, st_idempotencyKey = None, st_taskId = None, st_leaseUntil = None,
       st_attemptCount = None, st_outputRef = None, st_lastError = None \<rparr>"

definition sample_plan :: agent_plan where
  "sample_plan =
     \<lparr> pl_id = ''p'', pl_sessionId = ''s'', pl_version = 1, pl_canvasVersion = 7,
       pl_steps = [sample_step ''a'' ''get_canvas_summary'' [],
                   sample_step ''b'' ''create_nodes'' [''a''],
                   sample_step ''c'' ''submit_generation'' [''a'', ''b'']] \<rparr>"

lemmas sample_defs = sample_plan_def sample_step_def

end
