(* ===== verification/ToolManifest.thy ===== *)
theory ToolManifest
  imports Prelude
begin

text \<open>
  The tool manifest of the agent (\<^verbatim>\<open>domain/tool-manifest.ts\<close>), the policy check in front of
  every tool call (\<^verbatim>\<open>domain/tool-policy.ts\<close>) and the choice of an agent profile
  (\<^verbatim>\<open>application/profile-selector.ts\<close>).  All paths of this development are below
  \<^verbatim>\<open>src/pi-main/packages/vibepaper-agent-service/src/\<close>.
\<close>

datatype agent_profile = Canvas_general | Vertical_short_drama | Asset_assistant | Audit_readonly
datatype tool_risk = Risk_read | Risk_canvas_write | Risk_high
datatype cost_policy = Cost_none | Estimate_required
datatype approval_policy = Approval_none | Approval_required

text \<open>The one schema the manifest uses: an object with no additional properties.\<close>

datatype tool_schema = Object_schema bool

record tool_entry =
  tl_name :: string
  tl_profiles :: "agent_profile list"
  tl_version :: int
  tl_schema :: tool_schema
  tl_risk :: tool_risk
  tl_maxBatch :: int
  tl_costPolicy :: cost_policy
  tl_approvalPolicy :: approval_policy
  tl_auditFields :: "string list"

definition readTools :: "agent_profile list" where
  "readTools = [Canvas_general, Vertical_short_drama, Asset_assistant, Audit_readonly]"

definition entry ::
  "string \<Rightarrow> agent_profile list \<Rightarrow> tool_risk \<Rightarrow> cost_policy \<Rightarrow> approval_policy \<Rightarrow> tool_entry" where
  "entry name profiles risk costPolicy approvalPolicy =
     \<lparr> tl_name = name,
       tl_profiles = profiles,
       tl_version = 1,
       tl_schema = Object_schema False,
       tl_risk = risk,
       tl_maxBatch = (if name = ''create_nodes'' \<or> name = ''submit_generation_batch'' then 20 else 1),
       tl_costPolicy = costPolicy,
       tl_approvalPolicy = approvalPolicy,
       tl_auditFields = [''request_id'', ''user_id'', ''session_id'', ''canvas_id''] \<rparr>"

text \<open>The defaults of the source's last two parameters.\<close>

abbreviation entry0 :: "string \<Rightarrow> agent_profile list \<Rightarrow> tool_risk \<Rightarrow> tool_entry" where
  "entry0 name profiles risk \<equiv> entry name profiles risk Cost_none Approval_none"

definition AGENT_TOOL_MANIFEST :: "tool_entry list" where
  "AGENT_TOOL_MANIFEST =
     [entry0 ''get_canvas_summary'' readTools Risk_read,
      entry0 ''get_selected_nodes'' readTools Risk_read,
      entry0 ''get_node_detail'' readTools Risk_read,
      entry0 ''list_models''
        [Canvas_general, Vertical_short_drama, Asset_assistant, Audit_readonly] Risk_read,
      entry0 ''search_assets''
        [Canvas_general, Vertical_short_drama, Asset_assistant, Audit_readonly] Risk_read,
      entry0 ''check_task_status'' readTools Risk_read,
      entry0 ''create_nodes'' [Canvas_general, Vertical_short_drama] Risk_canvas_write,
      entry0 ''connect_nodes'' [Canvas_general, Vertical_short_drama] Risk_canvas_write,
      entry0 ''layout_nodes'' [Canvas_general, Vertical_short_drama] Risk_canvas_write,
      entry0 ''update_node_config'' [Canvas_general, Vertical_short_drama] Risk_canvas_write,
      entry0 ''delete_nodes'' [Canvas_general, Vertical_short_drama] Risk_canvas_write,
      entry ''submit_generation'' [Canvas_general, Vertical_short_drama] Risk_high
        Estimate_required Approval_required,
      entry ''submit_generation_batch'' [Canvas_general, Vertical_short_drama] Risk_high
        Estimate_required Approval_required,
      entry0 ''request_render_audit'' [Vertical_short_drama, Audit_readonly] Risk_read,
      entry0 ''load_skill'' [Canvas_general, Vertical_short_drama, Asset_assistant] Risk_read]"

datatype manifest_error =
    DUPLICATE_TOOL_MANIFEST_ENTRY
  | INVALID_TOOL_MANIFEST_ENTRY
  | TOOL_WITHOUT_PROFILE
  | HIGH_RISK_TOOL_MUST_ESTIMATE

text \<open>The loop of \<^verbatim>\<open>validateToolManifest\<close>, with the set of names seen so far.\<close>

fun validate_from :: "string set \<Rightarrow> tool_entry list \<Rightarrow> manifest_error + unit" where
  "validate_from names [] = Inr ()"
| "validate_from names (item # rest) =
     throw_if (tl_name item \<in> names) DUPLICATE_TOOL_MANIFEST_ENTRY
      (throw_if (tl_name item = [] \<or> tl_version item < 1 \<or> tl_maxBatch item < 1)
         INVALID_TOOL_MANIFEST_ENTRY
        (throw_if (tl_profiles item = []) TOOL_WITHOUT_PROFILE
          (throw_if (tl_risk item = Risk_high \<and> tl_costPolicy item \<noteq> Estimate_required)
             HIGH_RISK_TOOL_MUST_ESTIMATE
            (validate_from (insert (tl_name item) names) rest))))"

definition validateToolManifest :: "tool_entry list \<Rightarrow> manifest_error + unit" where
  "validateToolManifest manifest = validate_from {} manifest"

definition getToolsForProfile :: "agent_profile \<Rightarrow> tool_entry list" where
  "getToolsForProfile profile = filter (\<lambda>e. profile \<in> set (tl_profiles e)) AGENT_TOOL_MANIFEST"

datatype policy_error = TOOL_NOT_ALLOWED

definition assertToolAllowed :: "agent_profile \<Rightarrow> string \<Rightarrow> policy_error + unit" where
  "assertToolAllowed profile toolName =
     throw_if (\<not> (\<exists>e \<in> set (getToolsForProfile profile). tl_name e = toolName)) TOOL_NOT_ALLOWED (Inr ())"

definition toolEntry :: "agent_profile \<Rightarrow> string \<Rightarrow> policy_error + tool_entry" where
  "toolEntry profile toolName =
     rbind (assertToolAllowed profile toolName)
       (\<lambda>_. require_some TOOL_NOT_ALLOWED
              (find (\<lambda>e. tl_name e = toolName) (getToolsForProfile profile)))"

text \<open>
  \<open>new Map(getToolsForProfile(profile).map((tool) => [tool.name, tool])).get(name)\<close>, as the
  compiler and the scheduler look a tool up: of two entries with one name the last would win.
\<close>

definition tool_lookup :: "agent_profile \<Rightarrow> string \<Rightarrow> tool_entry option" where
  "tool_lookup profile name = map_of (rev (map (\<lambda>e. (tl_name e, e)) (getToolsForProfile profile))) name"

section \<open>The choice of a profile\<close>

datatype entrypoint = Entry_canvas | Entry_assets | Entry_audit
datatype canvas_domain = Domain_general | Domain_short_drama | Domain_assets
datatype pending_action = Pending_generation | Pending_audit

record profile_selection =
  sel_entrypoint :: "entrypoint option"
  sel_canvasDomain :: "canvas_domain option"
  sel_pendingActionType :: "pending_action option"

definition selectProfile :: "profile_selection \<Rightarrow> agent_profile" where
  "selectProfile input =
     (if sel_entrypoint input = Some Entry_audit \<or> sel_pendingActionType input = Some Pending_audit
      then Audit_readonly
      else if sel_canvasDomain input = Some Domain_short_drama then Vertical_short_drama
      else if sel_entrypoint input = Some Entry_assets \<or> sel_canvasDomain input = Some Domain_assets
      then Asset_assistant
      else Canvas_general)"

section \<open>What the validator accepts\<close>

text \<open>What a well-formed manifest is, said without the loop.\<close>

definition entry_ok :: "tool_entry \<Rightarrow> bool" where
  "entry_ok e \<longleftrightarrow> tl_name e \<noteq> [] \<and> 1 \<le> tl_version e \<and> 1 \<le> tl_maxBatch e \<and> tl_profiles e \<noteq> [] \<and>
     (tl_risk e = Risk_high \<longrightarrow> tl_costPolicy e = Estimate_required)"

definition manifest_ok :: "tool_entry list \<Rightarrow> bool" where
  "manifest_ok m \<longleftrightarrow> distinct (map tl_name m) \<and> (\<forall>e \<in> set m. entry_ok e)"

lemma validate_from_ok:
  "validate_from names m = Inr u \<longleftrightarrow>
     distinct (map tl_name m) \<and> (\<forall>e \<in> set m. entry_ok e) \<and> names \<inter> tl_name ` set m = {}"
  by (induction names m rule: validate_from.induct) (auto simp: result_simps entry_ok_def)

lemma validateToolManifest_ok: "validateToolManifest m = Inr u \<longleftrightarrow> manifest_ok m"
  by (simp add: validateToolManifest_def validate_from_ok manifest_ok_def)

lemmas manifest_defs = AGENT_TOOL_MANIFEST_def entry_def readTools_def

text \<open>The check the module runs when it is loaded passes: the manifest is well formed.\<close>

lemma AGENT_TOOL_MANIFEST_ok: "manifest_ok AGENT_TOOL_MANIFEST"
  by (simp add: manifest_ok_def entry_ok_def manifest_defs)

lemma getToolsForProfile_sub: "e \<in> set (getToolsForProfile p) \<Longrightarrow> e \<in> set AGENT_TOOL_MANIFEST"
  by (simp add: getToolsForProfile_def)

lemma distinct_tool_names: "distinct (map tl_name (getToolsForProfile p))"
  using AGENT_TOOL_MANIFEST_ok
  by (simp add: getToolsForProfile_def manifest_ok_def distinct_map_filter)

lemma tool_name_unique:
  "e \<in> set (getToolsForProfile p) \<Longrightarrow> d \<in> set (getToolsForProfile p) \<Longrightarrow> tl_name e = tl_name d \<Longrightarrow> e = d"
  using distinct_tool_names [of p] by (auto simp: distinct_map inj_on_def)

lemma tool_lookup_Some:
  "tool_lookup p n = Some e \<longleftrightarrow> e \<in> set (getToolsForProfile p) \<and> tl_name e = n"
proof -
  let ?ps = "map (\<lambda>e. (tl_name e, e)) (getToolsForProfile p)"
  have "distinct (map fst (rev ?ps))"
    using distinct_tool_names [of p] by (simp add: rev_map [symmetric] comp_def)
  then have "tool_lookup p n = Some e \<longleftrightarrow> (n, e) \<in> set (rev ?ps)"
    unfolding tool_lookup_def by (simp add: rev_map)
  then show ?thesis by auto
qed

lemma tool_lookup_None: "tool_lookup p n = None \<longleftrightarrow> n \<notin> tl_name ` set (getToolsForProfile p)"
  by (auto simp: tool_lookup_def map_of_eq_None_iff image_image)

lemma toolEntry_eq: "toolEntry p n = require_some TOOL_NOT_ALLOWED (tool_lookup p n)"
proof (cases "tool_lookup p n")
  case None
  then show ?thesis
    by (auto simp: toolEntry_def assertToolAllowed_def tool_lookup_None [symmetric]
        image_iff throw_if_def) (auto simp: tool_lookup_None)
next
  case (Some e)
  then have e: "e \<in> set (getToolsForProfile p)" "tl_name e = n"
    by (simp_all add: tool_lookup_Some)
  then obtain d where d: "find (\<lambda>e. tl_name e = n) (getToolsForProfile p) = Some d"
    by (cases "find (\<lambda>e. tl_name e = n) (getToolsForProfile p)") (auto simp: find_None_iff_ball)
  with e have "d = e" by (auto dest!: find_SomeD intro: tool_name_unique)
  with d e Some show ?thesis
    by (auto simp: toolEntry_def assertToolAllowed_def throw_if_def)
qed

text \<open>
  The policy the manifest carries: the audit profile reaches read tools only, and a tool of high
  risk is one that estimates its cost and needs an approval, for every profile.
\<close>

lemma manifest_policy:
  assumes "e \<in> set AGENT_TOOL_MANIFEST"
  shows "tl_risk e = Risk_high \<longleftrightarrow> tl_approvalPolicy e = Approval_required"
    and "tl_risk e = Risk_high \<longleftrightarrow> tl_costPolicy e = Estimate_required"
    and "1 \<le> tl_maxBatch e \<and> tl_maxBatch e \<le> 20"
    and "Audit_readonly \<in> set (tl_profiles e) \<or> Asset_assistant \<in> set (tl_profiles e) \<longrightarrow>
         tl_risk e = Risk_read"
  using assms by (auto simp: manifest_defs)

lemma audit_profile_reads_only:
  "e \<in> set (getToolsForProfile Audit_readonly) \<Longrightarrow> tl_risk e = Risk_read"
  using manifest_policy(4) by (auto simp: getToolsForProfile_def)

lemma asset_profile_reads_only:
  "e \<in> set (getToolsForProfile Asset_assistant) \<Longrightarrow> tl_risk e = Risk_read"
  using manifest_policy(4) by (auto simp: getToolsForProfile_def)

lemma high_risk_approval:
  "e \<in> set (getToolsForProfile p) \<Longrightarrow> tl_risk e = Risk_high \<longleftrightarrow> tl_approvalPolicy e = Approval_required"
  using manifest_policy(1) by (auto dest: getToolsForProfile_sub)

lemma high_risk_estimates:
  "e \<in> set (getToolsForProfile p) \<Longrightarrow> tl_risk e = Risk_high \<longleftrightarrow> tl_costPolicy e = Estimate_required"
  using manifest_policy(2) by (auto dest: getToolsForProfile_sub)

lemma tool_maxBatch_bounds: "e \<in> set (getToolsForProfile p) \<Longrightarrow> 1 \<le> tl_maxBatch e \<and> tl_maxBatch e \<le> 20"
  using manifest_policy(3) by (auto dest: getToolsForProfile_sub)

end
