(* ===== verification/PlanScheduler.thy ===== *)
theory PlanScheduler
  imports AgentPlan ToolManifest "HOL-Library.Multiset"
begin

text \<open>
  The ready-set scheduler (\<^verbatim>\<open>application/ready-set-scheduler.ts\<close>): the effect a tool has, and the
  split of the ready steps into execution partitions.
\<close>

record partition =
  pa_effect :: step_effect
  pa_concurrencyKey :: string
  pa_stepIds :: "string list"
  pa_maxParallelism :: nat
  pa_requiresConfirmation :: bool

definition effectForTool :: "tool_entry \<Rightarrow> step_effect" where
  "effectForTool tool =
     (if tl_risk tool = Risk_read then Effect_read
      else if tl_risk tool = Risk_canvas_write then Effect_write_canvas
      else Effect_create_task)"

text \<open>The text of an effect, for the default concurrency key.\<close>

fun effect_text :: "step_effect \<Rightarrow> string" where
  "effect_text Effect_read = ''read''"
| "effect_text Effect_write_canvas = ''write_canvas''"
| "effect_text Effect_create_task = ''create_task''"

text \<open>
  The loop \<open>for (index = 0; index < items.length; index += size)\<close> over the suffix that starts at
  \<open>index\<close>.  Its only call has size 4; with size 0 the source would not return.
\<close>

function chunks :: "'a list \<Rightarrow> nat \<Rightarrow> 'a list list" where
  "chunks items n =
     (if items = [] \<or> n = 0 then [] else take n items # chunks (drop n items) n)"
  by pat_completeness auto
termination
  by (relation "measure (\<lambda>(items, n). length items)") auto

declare chunks.simps [simp del]

text \<open>The loop over the steps: the read steps, and one partition for each other step.\<close>

fun split_steps ::
  "agent_profile \<Rightarrow> plan_step list \<Rightarrow> plan_step list \<times> partition list" where
  "split_steps profile [] = ([], [])"
| "split_steps profile (step # rest) =
     (let (reads, partitions) = split_steps profile rest in
      case tool_lookup profile (st_tool step) of
        None \<Rightarrow> (reads, partitions)
      | Some tool \<Rightarrow>
          (let effect = effectForTool tool in
           if effect = Effect_read then (step # reads, partitions)
           else (reads,
             \<lparr> pa_effect = effect,
               pa_concurrencyKey =
                 (case conc_key step of Some k \<Rightarrow> k | None \<Rightarrow> effect_text effect @ '':'' @ st_id step),
               pa_stepIds = [st_id step],
               pa_maxParallelism = 1,
               pa_requiresConfirmation = (tl_approvalPolicy tool = Approval_required) \<rparr> # partitions)))"

definition read_partition :: "plan_step list \<Rightarrow> partition" where
  "read_partition grp =
     \<lparr> pa_effect = Effect_read,
       pa_concurrencyKey = ''read'',
       pa_stepIds = map st_id grp,
       pa_maxParallelism = length grp,
       pa_requiresConfirmation = False \<rparr>"

definition partitionReadySteps ::
  "agent_plan \<Rightarrow> string list \<Rightarrow> agent_profile \<Rightarrow> partition list" where
  "partitionReadySteps plan readyStepIds profile =
     (let steps = List.map_filter (find_step (pl_steps plan)) readyStepIds;
          (reads, partitions) = split_steps profile steps
      in map read_partition (chunks reads 4) @ partitions)"

section \<open>Chunks\<close>

lemma chunks_Nil [simp]: "chunks [] n = []"
  by (subst chunks.simps) simp

lemma concat_chunks: "0 < n \<Longrightarrow> concat (chunks xs n) = xs"
proof (induction xs n rule: chunks.induct)
  case (1 xs n)
  then show ?case by (cases "xs = []") (simp_all add: chunks.simps [of xs n])
qed

lemma chunks_bound: "c \<in> set (chunks xs n) \<Longrightarrow> 0 < length c \<and> length c \<le> n"
proof (induction xs n rule: chunks.induct)
  case (1 xs n)
  show ?case
  proof (cases "xs = [] \<or> n = 0")
    case True
    with "1.prems" show ?thesis by (simp add: chunks.simps [of xs n])
  next
    case False
    with "1.prems" consider "c = take n xs" | "c \<in> set (chunks (drop n xs) n)"
      by (auto simp: chunks.simps [of xs n])
    then show ?thesis using False "1.IH" by cases auto
  qed
qed

section \<open>The split keeps every step that has a tool\<close>

definition has_tool :: "agent_profile \<Rightarrow> plan_step \<Rightarrow> bool" where
  "has_tool profile step \<longleftrightarrow> tool_lookup profile (st_tool step) \<noteq> None"

definition step_reads :: "agent_profile \<Rightarrow> plan_step \<Rightarrow> bool" where
  "step_reads profile step \<longleftrightarrow>
     (\<exists>tool. tool_lookup profile (st_tool step) = Some tool \<and> effectForTool tool = Effect_read)"

lemma split_reads: "fst (split_steps p steps) = filter (step_reads p) steps"
  by (induction p steps rule: split_steps.induct)
     (auto simp: step_reads_def Let_def split: option.split prod.split)

lemma split_writes:
  "concat (map pa_stepIds (snd (split_steps p steps))) =
   map st_id (filter (\<lambda>s. has_tool p s \<and> \<not> step_reads p s) steps)"
  by (induction p steps rule: split_steps.induct)
     (auto simp: step_reads_def has_tool_def Let_def split: option.split prod.split)

lemma split_writes_single:
  "q \<in> set (snd (split_steps p steps)) \<Longrightarrow>
   \<exists>s tool. s \<in> set steps \<and> tool_lookup p (st_tool s) = Some tool \<and> pa_stepIds q = [st_id s] \<and>
     pa_effect q = effectForTool tool \<and> pa_effect q \<noteq> Effect_read \<and> pa_maxParallelism q = 1 \<and>
     (pa_requiresConfirmation q \<longleftrightarrow> tl_approvalPolicy tool = Approval_required)"
proof (induction p steps rule: split_steps.induct)
  case (2 p s rest)
  then show ?case
    by (cases "tool_lookup p (st_tool s)")
       (auto simp: Let_def split: prod.splits if_splits)
qed simp

lemma partitionReadySteps_eq:
  "partitionReadySteps plan ready p =
   (let steps = List.map_filter (find_step (pl_steps plan)) ready in
    map read_partition (chunks (filter (step_reads p) steps) 4) @ snd (split_steps p steps))"
  by (simp add: partitionReadySteps_def Let_def case_prod_beta split_reads)

lemma partition_cases:
  assumes "q \<in> set (partitionReadySteps plan ready p)"
  obtains (rd) c where "c \<in> set (chunks (filter (step_reads p)
        (List.map_filter (find_step (pl_steps plan)) ready)) 4)" "q = read_partition c"
  | (wr) "q \<in> set (snd (split_steps p (List.map_filter (find_step (pl_steps plan)) ready)))"
  using assms by (auto simp: partitionReadySteps_eq Let_def)

lemma effect_read_iff: "effectForTool tool = Effect_read \<longleftrightarrow> tl_risk tool = Risk_read"
  by (cases "tl_risk tool") (auto simp: effectForTool_def)

lemma effect_create_task_iff: "effectForTool tool = Effect_create_task \<longleftrightarrow> tl_risk tool = Risk_high"
  by (cases "tl_risk tool") (auto simp: effectForTool_def)

lemma mset_filter_split:
  "mset (filter (\<lambda>x. P x \<and> Q x) xs) + mset (filter (\<lambda>x. P x \<and> \<not> Q x) xs) = mset (filter P xs)"
  by (induction xs) auto

lemma step_reads_has_tool: "step_reads p s \<Longrightarrow> has_tool p s"
  by (auto simp: step_reads_def has_tool_def)

text \<open>
  Every ready step whose tool the profile has appears in exactly one partition, and nothing else
  does: the partitions' steps are those steps, as a multiset.
\<close>

lemma partition_mset:
  "mset (concat (map pa_stepIds (partitionReadySteps plan ready p))) =
   image_mset st_id (filter_mset (has_tool p)
     (mset (List.map_filter (find_step (pl_steps plan)) ready)))"
proof -
  define steps where "steps = List.map_filter (find_step (pl_steps plan)) ready"
  have "mset (concat (map pa_stepIds (partitionReadySteps plan ready p))) =
      mset (map st_id (concat (chunks (filter (step_reads p) steps) 4))) +
      mset (concat (map pa_stepIds (snd (split_steps p steps))))"
    by (simp add: partitionReadySteps_eq steps_def [symmetric] Let_def
        read_partition_def map_concat comp_def)
  also have "\<dots> = image_mset st_id (mset (filter (\<lambda>s. has_tool p s \<and> step_reads p s) steps) +
      mset (filter (\<lambda>s. has_tool p s \<and> \<not> step_reads p s) steps))"
  proof -
    have "filter (step_reads p) steps = filter (\<lambda>s. has_tool p s \<and> step_reads p s) steps"
      by (rule filter_cong) (auto dest: step_reads_has_tool)
    then show ?thesis by (simp add: concat_chunks split_writes)
  qed
  also have "\<dots> = image_mset st_id (mset (filter (has_tool p) steps))"
    by (simp only: mset_filter_split)
  finally show ?thesis by (simp add: steps_def)
qed

end
