(* ===== verification/PlanCompiler.thy ===== *)
theory PlanCompiler
  imports PlanScheduler
begin

text \<open>
  The plan compiler (\<^verbatim>\<open>application/plan-compiler.ts\<close>): the checks on a plan, the depth-first search
  for a dependency cycle, the ready set, and \<^verbatim>\<open>markCompleted\<close>.
\<close>

datatype compile_error = VERSION_CONFLICT | TOOL_NOT_ALLOWED | BATCH_LIMIT_EXCEEDED | INVALID_DEPENDENCY

record compiled_plan =
  cp_plan :: agent_plan
  cp_readySet :: "string list"
  cp_partitions :: "partition list"
  cp_totalEstimatedCost :: num

section \<open>The search for a cycle\<close>

text \<open>
  The closure \<open>visit\<close> and the \<open>some(visit)\<close> over the dependencies, with the two sets it mutates
  passed through: \<open>(visiting, visited)\<close>.  The first argument is fuel, one unit per nested call
  of \<open>visit\<close>; \<open>None\<close> is running out of it, which \<open>hasCycle\<close> below never does.
  \<open>byId\<close> is the lookup in \<open>new Map(steps.map((step) => [step.id, step]))\<close>, whose entry for an id is
  the last step with it.
\<close>

definition byId :: "plan_step list \<Rightarrow> string \<Rightarrow> plan_step option" where
  "byId steps i = find_step (rev steps) i"

type_synonym marks = "string set \<times> string set"

fun visit :: "nat \<Rightarrow> plan_step list \<Rightarrow> string \<Rightarrow> marks \<Rightarrow> (bool \<times> marks) option"
  and some_visit :: "nat \<Rightarrow> plan_step list \<Rightarrow> string list \<Rightarrow> marks \<Rightarrow> (bool \<times> marks) option"
where
  "visit 0 steps i m = None"
| "visit (Suc n) steps i (visiting, visited) =
     (if i \<in> visiting then Some (True, visiting, visited)
      else if i \<in> visited then Some (False, visiting, visited)
      else case (case byId steps i of
                   None \<Rightarrow> Some (False, insert i visiting, visited)
                 | Some s \<Rightarrow> some_visit n steps (st_dependsOn s) (insert i visiting, visited)) of
             None \<Rightarrow> None
           | Some (cycle, visiting', visited') \<Rightarrow> Some (cycle, visiting' - {i}, insert i visited'))"
| "some_visit n steps [] m = Some (False, m)"
| "some_visit n steps (i # is) m =
     (case visit n steps i m of
        None \<Rightarrow> None
      | Some (cycle, m') \<Rightarrow> if cycle then Some (True, m') else some_visit n steps is m')"

text \<open>
  \<open>steps.some((step) => visit(step.id))\<close> from empty sets.  A call of \<open>visit\<close> nests once for
  each id on the path, so one unit more than the number of steps is enough.
\<close>

definition hasCycle_run :: "plan_step list \<Rightarrow> (bool \<times> marks) option" where
  "hasCycle_run steps = some_visit (Suc (length steps)) steps (step_ids steps) ({}, {})"

definition hasCycle :: "plan_step list \<Rightarrow> bool" where
  "hasCycle steps = (case hasCycle_run steps of None \<Rightarrow> True | Some (cycle, _) \<Rightarrow> cycle)"

section \<open>Compilation\<close>

text \<open>The first loop: the checks on each step, with the ids seen so far.\<close>

fun check_steps :: "agent_profile \<Rightarrow> string set \<Rightarrow> plan_step list \<Rightarrow> compile_error + string set" where
  "check_steps profile ids [] = Inr ids"
| "check_steps profile ids (step # rest) =
     throw_if (st_id step \<in> ids) INVALID_DEPENDENCY
      (rbind (require_some TOOL_NOT_ALLOWED (tool_lookup profile (st_tool step))) (\<lambda>tool.
        throw_if (tl_maxBatch tool < (case st_batchSize step of None \<Rightarrow> 1 | Some b \<Rightarrow> b))
          BATCH_LIMIT_EXCEEDED
         (throw_if (st_estimatedCost step < 0 \<or> \<not> js_is_integer (st_estimatedCost step))
            INVALID_DEPENDENCY
           (throw_if (st_effect step \<noteq> None \<and> st_effect step \<noteq> Some (effectForTool tool))
              INVALID_DEPENDENCY
             (throw_if (case st_concurrencyKey step of None \<Rightarrow> False | Some k \<Rightarrow> blank k)
                INVALID_DEPENDENCY
               (check_steps profile (insert (st_id step) ids) rest))))))"

definition readySet :: "agent_plan \<Rightarrow> string list" where
  "readySet plan = map st_id (filter (isReady (pl_steps plan)) (pl_steps plan))"

definition total_cost :: "plan_step list \<Rightarrow> num" where
  "total_cost steps = foldl (\<lambda>total step. total + st_estimatedCost step) 0 steps"

definition compile :: "agent_plan \<Rightarrow> int \<Rightarrow> agent_profile \<Rightarrow> compile_error + compiled_plan" where
  "compile plan expectedVersion profile =
     throw_if (pl_version plan \<noteq> expectedVersion) VERSION_CONFLICT
      (throw_if (20 < length (pl_steps plan)) BATCH_LIMIT_EXCEEDED
        (rbind (check_steps profile {} (pl_steps plan)) (\<lambda>ids.
          rbind (for_each (\<lambda>step.
              throw_if (\<exists>d \<in> set (st_dependsOn step). d \<notin> ids \<or> d = st_id step)
                INVALID_DEPENDENCY (Inr ())) (pl_steps plan)) (\<lambda>_.
            throw_if (hasCycle (pl_steps plan)) INVALID_DEPENDENCY
              (Inr \<lparr> cp_plan = plan,
                     cp_readySet = readySet plan,
                     cp_partitions = partitionReadySteps plan (readySet plan) profile,
                     cp_totalEstimatedCost = total_cost (pl_steps plan) \<rparr>)))))"

definition markCompleted :: "agent_plan \<Rightarrow> string \<Rightarrow> compile_error + agent_plan" where
  "markCompleted plan stepId =
     throw_if (\<not> (\<exists>step \<in> set (pl_steps plan). st_id step = stepId)) INVALID_DEPENDENCY
      (Inr (plan\<lparr> pl_version := pl_version plan + 1,
                  pl_steps := map (\<lambda>step. if st_id step = stepId then step\<lparr>st_status := Completed\<rparr> else step)
                    (pl_steps plan) \<rparr>))"

section \<open>The search is right\<close>

text \<open>
  A call that returns without a cycle leaves \<open>visiting\<close> as it was, adds its node to \<open>visited\<close>
  and keeps \<open>visited\<close> closed under dependencies, disjoint from \<open>visiting\<close> and free of nodes
  that lie on a cycle.  The dependencies are those of the steps that the map holds.
\<close>

definition map_deps :: "plan_step list \<Rightarrow> (string \<times> string) set" where
  "map_deps steps = {(i, d). \<exists>s. byId steps i = Some s \<and> d \<in> set (st_dependsOn s)}"

lemma map_deps_Some: "byId steps i = Some s \<Longrightarrow> map_deps steps `` {i} = set (st_dependsOn s)"
  by (auto simp: map_deps_def)

lemma map_deps_None: "byId steps i = None \<Longrightarrow> map_deps steps `` {i} = {}"
  by (auto simp: map_deps_def)

lemma byId_SomeD: "byId steps i = Some s \<Longrightarrow> s \<in> set steps \<and> st_id s = i"
  unfolding byId_def by (drule find_step_SomeD) simp

lemma byId_distinct: "ids_ok steps \<Longrightarrow> byId steps i = find_step steps i"
proof -
  assume "ids_ok steps"
  then have "byId steps i = Some s \<longleftrightarrow> find_step steps i = Some s" for s
    by (simp add: byId_def find_step_iff rev_map [symmetric])
  then show ?thesis by (cases "find_step steps i"; cases "byId steps i") auto
qed

lemma map_deps_distinct: "ids_ok steps \<Longrightarrow> map_deps steps = dep_rel steps"
  by (auto simp: map_deps_def dep_rel_def byId_distinct find_step_iff)

definition marks_ok :: "plan_step list \<Rightarrow> marks \<Rightarrow> bool" where
  "marks_ok steps m \<longleftrightarrow>
     map_deps steps `` snd m \<subseteq> snd m \<and> snd m \<inter> fst m = {} \<and>
     (\<forall>v \<in> snd m. (v, v) \<notin> (map_deps steps)\<^sup>+)"

definition acyclic_result :: "plan_step list \<Rightarrow> marks \<Rightarrow> string set \<Rightarrow> marks \<Rightarrow> bool" where
  "acyclic_result steps m new m' \<longleftrightarrow>
     fst m' = fst m \<and> snd m \<subseteq> snd m' \<and> new \<subseteq> snd m' \<and> marks_ok steps m'"

lemma closed_trancl: "(a, b) \<in> r\<^sup>+ \<Longrightarrow> r `` S \<subseteq> S \<Longrightarrow> a \<in> S \<Longrightarrow> b \<in> S"
  by (induction rule: trancl_induct) auto

lemma marks_ok_finish:
  assumes ok: "marks_ok steps (insert i V, D)" and deps: "map_deps steps `` {i} \<subseteq> D" and "i \<notin> V"
  shows "marks_ok steps (V, insert i D)"
proof -
  have "(i, i) \<notin> (map_deps steps)\<^sup>+"
  proof
    assume "(i, i) \<in> (map_deps steps)\<^sup>+"
    then obtain d where "(i, d) \<in> map_deps steps" and "(d, i) \<in> (map_deps steps)\<^sup>*"
      by (meson tranclD)
    with deps have "d \<in> D" by auto
    have "i \<in> D"
    proof (cases "d = i")
      case False
      with \<open>(d, i) \<in> (map_deps steps)\<^sup>*\<close> have "(d, i) \<in> (map_deps steps)\<^sup>+"
        by (metis rtranclD)
      with ok \<open>d \<in> D\<close> show ?thesis
        by (auto simp: marks_ok_def dest: closed_trancl)
    qed (use \<open>d \<in> D\<close> in simp)
    with ok show False by (auto simp: marks_ok_def)
  qed
  with assms show ?thesis by (auto simp: marks_ok_def)
qed

lemma visit_acyclic:
  "visit n steps i m = Some (False, m') \<Longrightarrow> marks_ok steps m \<Longrightarrow>
     acyclic_result steps m {i} m'"
  "some_visit n steps is m = Some (False, m') \<Longrightarrow> marks_ok steps m \<Longrightarrow>
     acyclic_result steps m (set is) m'"
proof (induction n steps i m and n steps "is" m arbitrary: m' and m' rule: visit_some_visit.induct)
  case (2 n steps i V D)
  show ?case
  proof (cases "i \<in> D")
    case True
    with "2.prems" show ?thesis
      by (auto simp: acyclic_result_def split: if_splits)
  next
    case False
    with "2.prems" have "i \<notin> V" by (auto split: if_splits)
    have start: "marks_ok steps (insert i V, D)"
      using "2.prems" False by (auto simp: marks_ok_def)
    show ?thesis
    proof (cases "byId steps i")
      case None
      with "2.prems" False \<open>i \<notin> V\<close> have "m' = (V, insert i D)" by simp
      with marks_ok_finish [OF start _ \<open>i \<notin> V\<close>] map_deps_None [OF None] show ?thesis
        by (simp add: acyclic_result_def subset_insertI)
    next
      case (Some s)
      with "2.prems" False \<open>i \<notin> V\<close> obtain V' D'
        where run: "some_visit n steps (st_dependsOn s) (insert i V, D) = Some (False, V', D')"
          and m': "m' = (V' - {i}, insert i D')"
        by (auto split: option.splits prod.splits)
      from "2.IH" [OF \<open>i \<notin> V\<close> False Some run start]
      have "V' = insert i V" "D \<subseteq> D'" "set (st_dependsOn s) \<subseteq> D'" "marks_ok steps (insert i V, D')"
        by (auto simp: acyclic_result_def)
      moreover from this have "marks_ok steps (V, insert i D')"
        using map_deps_Some [OF Some] \<open>i \<notin> V\<close> by (intro marks_ok_finish) auto
      ultimately show ?thesis using m' \<open>i \<notin> V\<close> by (auto simp: acyclic_result_def)
    qed
  qed
next
  case (4 n steps i "is" m)
  then obtain m1 where v: "visit n steps i m = Some (False, m1)"
    and r: "some_visit n steps is m1 = Some (False, m')"
    by (auto split: option.splits prod.splits if_splits)
  from "4.IH"(1) [OF v "4.prems"(2)] have one: "acyclic_result steps m {i} m1" .
  then have "marks_ok steps m1" by (simp add: acyclic_result_def)
  with "4.IH"(2) v r have "acyclic_result steps m1 (set is) m'" by blast
  with one show ?case by (auto simp: acyclic_result_def)
qed (auto simp: acyclic_result_def)

text \<open>A call that reports a cycle from nodes that all reach its node has found one.\<close>

lemma visit_cycle:
  "visit n steps i m = Some (True, m') \<Longrightarrow> \<forall>v \<in> fst m. (v, i) \<in> (map_deps steps)\<^sup>+ \<Longrightarrow>
     marks_ok steps m \<Longrightarrow> \<exists>v. (v, v) \<in> (map_deps steps)\<^sup>+"
  "some_visit n steps is m = Some (True, m') \<Longrightarrow>
     \<forall>i \<in> set is. \<forall>v \<in> fst m. (v, i) \<in> (map_deps steps)\<^sup>+ \<Longrightarrow>
     marks_ok steps m \<Longrightarrow> \<exists>v. (v, v) \<in> (map_deps steps)\<^sup>+"
proof (induction n steps i m and n steps "is" m arbitrary: m' and m' rule: visit_some_visit.induct)
  case (2 n steps i V D)
  show ?case
  proof (cases "i \<in> V")
    case True
    with "2.prems" show ?thesis by auto
  next
    case False
    with "2.prems" obtain s V' D' where "i \<notin> D" and s: "byId steps i = Some s"
      and run: "some_visit n steps (st_dependsOn s) (insert i V, D) = Some (True, V', D')"
      by (auto split: if_splits option.splits prod.splits)
    have edge: "(i, d) \<in> map_deps steps" if "d \<in> set (st_dependsOn s)" for d
      using that map_deps_Some [OF s] by auto
    have "\<forall>d \<in> set (st_dependsOn s). \<forall>v \<in> fst (insert i V, D). (v, d) \<in> (map_deps steps)\<^sup>+"
      using edge "2.prems"(2) by (auto intro: trancl_into_trancl)
    moreover have "marks_ok steps (insert i V, D)"
      using "2.prems"(3) \<open>i \<notin> D\<close> by (auto simp: marks_ok_def)
    ultimately show ?thesis using "2.IH" [OF False \<open>i \<notin> D\<close> s run] by simp
  qed
next
  case (4 n steps i "is" m)
  then obtain c m1 where v: "visit n steps i m = Some (c, m1)"
    by (auto split: option.splits prod.splits)
  show ?case
  proof (cases c)
    case True
    with v 4 show ?thesis by auto
  next
    case False
    with v "4.prems" have "acyclic_result steps m {i} m1"
      by (intro visit_acyclic(1)) auto
    then have "fst m1 = fst m" and "marks_ok steps m1" by (simp_all add: acyclic_result_def)
    with 4 v False show ?thesis by (auto split: option.splits prod.splits)
  qed
qed auto

text \<open>Enough fuel: one unit more than the steps that are not on the path.\<close>

lemma visit_fst:
  "visit n steps i m = Some (c, m') \<Longrightarrow> c \<or> fst m' = fst m"
  "some_visit n steps is m = Some (c, m') \<Longrightarrow> c \<or> fst m' = fst m"
proof (induction n steps i m and n steps "is" m arbitrary: c m' and c m' rule: visit_some_visit.induct)
  case (2 n steps i V D)
  show ?case
  proof (cases "i \<in> V \<or> i \<in> D \<or> byId steps i = None")
    case True
    with "2.prems" show ?thesis by (auto split: if_splits)
  next
    case False
    then obtain s where s: "byId steps i = Some s" by auto
    with False "2.prems" obtain V' D'
      where run: "some_visit n steps (st_dependsOn s) (insert i V, D) = Some (c, V', D')"
        and m': "m' = (V' - {i}, insert i D')"
      by (auto split: option.splits)
    from "2.IH" [OF _ _ s run] False have "c \<or> V' = insert i V" by auto
    with m' False show ?thesis by auto
  qed
next
  case (4 n steps i "is" m)
  then obtain c1 m1 where v: "visit n steps i m = Some (c1, m1)" by (auto split: option.splits)
  show ?case
  proof (cases c1)
    case True
    with v "4.prems" show ?thesis by auto
  next
    case False
    with v "4.prems" have r: "some_visit n steps is m1 = Some (c, m')" by simp
    have "fst m1 = fst m" using "4.IH"(1) [OF v] False by simp
    moreover have "c \<or> fst m' = fst m1" using "4.IH"(2) v False r by blast
    ultimately show ?thesis by simp
  qed
qed auto

lemma visit_fuel:
  "card (set (step_ids steps) - fst m) < n \<Longrightarrow> visit n steps i m \<noteq> None"
  "card (set (step_ids steps) - fst m) < n \<Longrightarrow> some_visit n steps is m \<noteq> None"
proof (induction n steps i m and n steps "is" m rule: visit_some_visit.induct)
  case (2 n steps i V D)
  show ?case
  proof (cases "i \<in> V \<or> i \<in> D \<or> byId steps i = None")
    case True
    then show ?thesis by auto
  next
    case False
    then obtain s where s: "byId steps i = Some s" by auto
    then have "i \<in> set (step_ids steps) - V"
      using False by (auto dest: byId_SomeD)
    then have "card (set (step_ids steps) - insert i V) < card (set (step_ids steps) - V)"
      by (intro psubset_card_mono) auto
    with "2.prems" have "card (set (step_ids steps) - fst (insert i V, D)) < n" by simp
    with "2.IH" False s have "some_visit n steps (st_dependsOn s) (insert i V, D) \<noteq> None" by blast
    with False s show ?thesis by auto
  qed
next
  case (4 n steps i "is" m)
  then obtain c m1 where v: "visit n steps i m = Some (c, m1)" by fastforce
  with visit_fst(1) [OF v] 4 show ?case by (cases c) auto
qed auto

lemma hasCycle_run_returns: "hasCycle_run steps \<noteq> None"
proof -
  have "card (set (step_ids steps)) \<le> length steps"
    using card_length [of "step_ids steps"] by simp
  then show ?thesis unfolding hasCycle_run_def by (intro visit_fuel(2)) simp
qed

lemma hasCycle_map:
  "hasCycle steps \<longleftrightarrow> (\<exists>v. (v, v) \<in> (map_deps steps)\<^sup>+)"
proof -
  obtain c m where run: "hasCycle_run steps = Some (c, m)"
    using hasCycle_run_returns [of steps] by (cases "hasCycle_run steps") auto
  have start: "marks_ok steps ({}, {})" by (simp add: marks_ok_def)
  show ?thesis
  proof (cases c)
    case True
    with run have "\<exists>v. (v, v) \<in> (map_deps steps)\<^sup>+"
      unfolding hasCycle_run_def by (intro visit_cycle(2) [OF _ _ start]) auto
    with True run show ?thesis by (simp add: hasCycle_def)
  next
    case False
    with run have res: "acyclic_result steps ({}, {}) (set (step_ids steps)) m"
      unfolding hasCycle_run_def by (intro visit_acyclic(2) [OF _ start]) auto
    have "(v, v) \<notin> (map_deps steps)\<^sup>+" for v
    proof
      assume loop: "(v, v) \<in> (map_deps steps)\<^sup>+"
      then have "v \<in> set (step_ids steps)"
        by (auto simp: map_deps_def dest!: tranclD byId_SomeD)
      with res loop show False by (auto simp: acyclic_result_def marks_ok_def)
    qed
    with False run show ?thesis by (simp add: hasCycle_def)
  qed
qed

lemma hasCycle_correct: "ids_ok steps \<Longrightarrow> hasCycle steps \<longleftrightarrow> (\<exists>v. (v, v) \<in> (dep_rel steps)\<^sup>+)"
  by (simp add: hasCycle_map map_deps_distinct)

section \<open>What a compiled plan is\<close>

definition step_ok :: "agent_profile \<Rightarrow> plan_step \<Rightarrow> bool" where
  "step_ok profile step \<longleftrightarrow>
     (\<exists>tool. tool_lookup profile (st_tool step) = Some tool \<and>
        (case st_batchSize step of None \<Rightarrow> 1 | Some b \<Rightarrow> b) \<le> tl_maxBatch tool \<and>
        (st_effect step = None \<or> st_effect step = Some (effectForTool tool))) \<and>
     0 \<le> st_estimatedCost step \<and> js_is_integer (st_estimatedCost step) \<and>
     (\<forall>k. st_concurrencyKey step = Some k \<longrightarrow> \<not> blank k)"

definition plan_ok :: "agent_profile \<Rightarrow> agent_plan \<Rightarrow> bool" where
  "plan_ok profile plan \<longleftrightarrow>
     length (pl_steps plan) \<le> 20 \<and> ids_ok (pl_steps plan) \<and>
     (\<forall>s \<in> set (pl_steps plan). step_ok profile s \<and>
        set (st_dependsOn s) \<subseteq> set (step_ids (pl_steps plan))) \<and>
     acyclic (dep_rel (pl_steps plan))"

lemma check_steps_ok:
  "check_steps p ids steps = Inr out \<longleftrightarrow>
     ids_ok steps \<and> ids \<inter> set (step_ids steps) = {} \<and> (\<forall>s \<in> set steps. step_ok p s) \<and>
     out = ids \<union> set (step_ids steps)"
proof (induction p ids steps rule: check_steps.induct)
  case (2 p ids s rest)
  show ?case
  proof (cases "tool_lookup p (st_tool s)")
    case None
    then show ?thesis by (simp add: result_simps step_ok_def)
  next
    case (Some tool)
    then show ?thesis
      by (auto simp: result_simps step_ok_def "2.IH" split: option.splits)
  qed
qed auto

lemma compile_ok:
  "compile plan v p = Inr c \<longleftrightarrow>
     pl_version plan = v \<and> plan_ok p plan \<and>
     c = \<lparr> cp_plan = plan,
           cp_readySet = readySet plan,
           cp_partitions = partitionReadySteps plan (readySet plan) p,
           cp_totalEstimatedCost = total_cost (pl_steps plan) \<rparr>"
proof (cases "ids_ok (pl_steps plan)")
  case True
  let ?S = "pl_steps plan"
  have "hasCycle ?S \<longleftrightarrow> \<not> acyclic (dep_rel ?S)"
    by (simp add: hasCycle_correct [OF True] acyclic_def)
  moreover have "acyclic (dep_rel ?S) \<Longrightarrow> s \<in> set ?S \<Longrightarrow> st_id s \<notin> set (st_dependsOn s)" for s
    by (auto simp: acyclic_def dest: dep_relI)
  ultimately show ?thesis
    by (auto simp: compile_def plan_ok_def result_simps check_steps_ok subset_iff)
next
  case False
  then show ?thesis by (simp add: compile_def plan_ok_def result_simps check_steps_ok)
qed

text \<open>
  The ready set is what it should be, and a well-formed plan whose steps are pending or completed
  always has a step that can run: the search for cycles is what makes the scheduler live.
\<close>

lemma readySet_iff:
  assumes "ids_ok (pl_steps plan)"
  shows "i \<in> set (readySet plan) \<longleftrightarrow>
    (\<exists>s \<in> set (pl_steps plan). st_id s = i \<and> st_status s = Pending \<and>
       (\<forall>d \<in> set (st_dependsOn s). \<exists>t \<in> set (pl_steps plan). st_id t = d \<and> st_status t = Completed))"
  using assms by (auto simp: readySet_def isReady_def step_completed_iff image_iff)

lemma distinct_readySet: "ids_ok (pl_steps plan) \<Longrightarrow> distinct (readySet plan)"
  by (simp add: readySet_def distinct_map_filter)

lemma ready_progress:
  assumes ok: "plan_ok p plan"
    and states: "\<forall>s \<in> set (pl_steps plan). st_status s = Pending \<or> st_status s = Completed"
    and todo: "\<exists>s \<in> set (pl_steps plan). st_status s \<noteq> Completed"
  shows "readySet plan \<noteq> []"
proof -
  let ?S = "pl_steps plan" and ?R = "dep_rel (pl_steps plan)"
  define todos where "todos = st_id ` {s \<in> set ?S. st_status s \<noteq> Completed}"
  from ok have ids: "ids_ok ?S" and "acyclic ?R" by (simp_all add: plan_ok_def)
  then have "wf (?R\<inverse>)" by (intro finite_acyclic_wf_converse dep_rel_finite)
  moreover obtain i where "i \<in> todos" using todo by (auto simp: todos_def)
  ultimately obtain z where z: "z \<in> todos" and min: "\<forall>d. (d, z) \<in> ?R\<inverse> \<longrightarrow> d \<notin> todos"
    unfolding wf_eq_minimal by blast
  then obtain s where s: "s \<in> set ?S" "st_id s = z" "st_status s = Pending"
    using states by (auto simp: todos_def)
  have "\<exists>t \<in> set ?S. st_id t = d \<and> st_status t = Completed" if "d \<in> set (st_dependsOn s)" for d
  proof -
    from that s have "d \<notin> todos" using min by (auto intro: dep_relI)
    moreover have "d \<in> set (step_ids ?S)" using ok s that by (auto simp: plan_ok_def)
    ultimately show ?thesis by (auto simp: todos_def)
  qed
  with s have "z \<in> set (readySet plan)" by (auto simp: readySet_iff [OF ids])
  then show ?thesis by auto
qed

lemma total_cost_sum: "total_cost steps = sum_list (map st_estimatedCost steps)"
proof -
  have "foldl (\<lambda>t s. t + st_estimatedCost s) a steps = a + sum_list (map st_estimatedCost steps)" for a
    by (induction steps arbitrary: a) (simp_all add: add.assoc)
  then show ?thesis by (simp add: total_cost_def)
qed

lemma total_cost_nonneg: "plan_ok p plan \<Longrightarrow> 0 \<le> total_cost (pl_steps plan)"
  by (auto simp: total_cost_sum plan_ok_def step_ok_def intro!: sum_list_nonneg)

lemma sum_list_integer: "\<forall>x \<in> set xs. js_is_integer x \<Longrightarrow> js_is_integer (sum_list xs)"
proof (induction xs)
  case (Cons x xs)
  then obtain i j where "x = of_int i" "sum_list xs = of_int j" by (auto simp: js_is_integer_iff)
  then have "sum_list (x # xs) = of_int (i + j)" by simp
  then show ?case by (metis js_is_integer_of_int)
qed simp

lemma total_cost_integer: "plan_ok p plan \<Longrightarrow> js_is_integer (total_cost (pl_steps plan))"
  by (auto simp: total_cost_sum plan_ok_def step_ok_def intro!: sum_list_integer)

text \<open>
  In the partitions of a compiled plan: a partition of another effect than reading holds one step,
  a partition holds at most four, and only a task submission asks for a confirmation.
\<close>

lemma partition_shape:
  assumes q: "q \<in> set (partitionReadySteps plan ready p)"
  shows "length (pa_stepIds q) = pa_maxParallelism q" and "1 \<le> pa_maxParallelism q"
    and "pa_maxParallelism q \<le> 4" and "pa_effect q \<noteq> Effect_read \<Longrightarrow> pa_maxParallelism q = 1"
    and "pa_requiresConfirmation q \<longleftrightarrow> pa_effect q = Effect_create_task"
proof -
  have "length (pa_stepIds q) = pa_maxParallelism q \<and> 1 \<le> pa_maxParallelism q \<and>
    pa_maxParallelism q \<le> 4 \<and> (pa_effect q \<noteq> Effect_read \<longrightarrow> pa_maxParallelism q = 1) \<and>
    (pa_requiresConfirmation q \<longleftrightarrow> pa_effect q = Effect_create_task)"
    using q
  proof (cases rule: partition_cases)
    case (rd c)
    with chunks_bound [OF rd(1)] show ?thesis by (auto simp: read_partition_def Suc_le_eq)
  next
    case wr
    from split_writes_single [OF wr] show ?thesis
      by (auto simp: tool_lookup_Some effect_create_task_iff [symmetric] high_risk_approval [symmetric]
          dest: sym)
  qed
  then show "length (pa_stepIds q) = pa_maxParallelism q" "1 \<le> pa_maxParallelism q"
    "pa_maxParallelism q \<le> 4" "pa_effect q \<noteq> Effect_read \<Longrightarrow> pa_maxParallelism q = 1"
    "pa_requiresConfirmation q \<longleftrightarrow> pa_effect q = Effect_create_task"
    by auto
qed

lemma map_filter_find_ready:
  assumes "ids_ok (pl_steps plan)"
  shows "List.map_filter (find_step (pl_steps plan)) (readySet plan) =
    filter (isReady (pl_steps plan)) (pl_steps plan)"
proof -
  have "List.map_filter (find_step (pl_steps plan)) (map st_id xs) = xs" if "set xs \<subseteq> set (pl_steps plan)" for xs
    using that by (induction xs) (auto simp: find_step_mem [OF assms])
  then show ?thesis by (simp add: readySet_def)
qed

lemma plan_ok_has_tool: "plan_ok p plan \<Longrightarrow> s \<in> set (pl_steps plan) \<Longrightarrow> has_tool p s"
  by (auto simp: plan_ok_def step_ok_def has_tool_def)

lemma partitions_are_ready_set:
  assumes "plan_ok p plan"
  shows "mset (concat (map pa_stepIds (partitionReadySteps plan (readySet plan) p))) = mset (readySet plan)"
proof -
  have ids: "ids_ok (pl_steps plan)" using assms by (simp add: plan_ok_def)
  have "filter_mset (has_tool p) (mset (filter (isReady (pl_steps plan)) (pl_steps plan))) =
      mset (filter (isReady (pl_steps plan)) (pl_steps plan))"
    using plan_ok_has_tool [OF assms] by (subst filter_mset_eq_conv) auto
  then show ?thesis
    by (simp add: partition_mset map_filter_find_ready [OF ids]) (simp add: readySet_def)
qed

lemma markCompleted_ok:
  assumes "markCompleted plan i = Inr plan'" and "ids_ok (pl_steps plan)"
  shows "step_ids (pl_steps plan') = step_ids (pl_steps plan)"
    and "pl_version plan' = pl_version plan + 1"
    and "step_completed (pl_steps plan') i"
  using assms
  by (auto simp: markCompleted_def result_simps step_completed_map find_step_iff comp_def if_distrib
      cong: if_cong)

section \<open>Properties\<close>

lemma tool_lookup_names:
  "tool_lookup Canvas_general ''get_canvas_summary'' =
     Some (entry0 ''get_canvas_summary'' readTools Risk_read)"
  "tool_lookup Canvas_general ''create_nodes'' =
     Some (entry0 ''create_nodes'' [Canvas_general, Vertical_short_drama] Risk_canvas_write)"
  "tool_lookup Canvas_general ''submit_generation'' =
     Some (entry ''submit_generation'' [Canvas_general, Vertical_short_drama] Risk_high
       Estimate_required Approval_required)"
  by (simp_all add: tool_lookup_Some getToolsForProfile_def AGENT_TOOL_MANIFEST_def entry_def readTools_def)

lemma sample_plan_compiles:
  "\<exists>c. compile sample_plan 1 Canvas_general = Inr c"
  by (simp add: compile_def sample_defs tool_lookup_names entry_def effectForTool_def js_is_integer_def
      hasCycle_def hasCycle_run_def byId_def find_step_def numeral_3_eq_3)

text \<open>
  C3. The depth-first search of the plan compiler returns on every list of steps, and reports a cycle exactly
  when the dependencies of the steps have one, where of several steps with one id the map keeps the last; when
  the ids are distinct, these are the dependencies of all the steps.
\<close>

theorem cycle_search_correct:
  "hasCycle_run steps \<noteq> None \<and>
   (hasCycle steps \<longleftrightarrow> \<not> acyclic {(i, d). \<exists>s. byId steps i = Some s \<and> d \<in> set (st_dependsOn s)}) \<and>
   (distinct (map st_id steps) \<longrightarrow>
     {(i, d). \<exists>s. byId steps i = Some s \<and> d \<in> set (st_dependsOn s)} = {(st_id s, d) | s d. s \<in> set steps \<and> d \<in> set (st_dependsOn s)})"
proof (intro conjI impI)
  show "hasCycle_run steps \<noteq> None" by (rule hasCycle_run_returns)
  show "hasCycle steps \<longleftrightarrow> \<not> acyclic {(i, d). \<exists>s. byId steps i = Some s \<and> d \<in> set (st_dependsOn s)}"
    unfolding hasCycle_map acyclic_def map_deps_def [symmetric] by blast
  assume "distinct (map st_id steps)"
  then show "{(i, d). \<exists>s. byId steps i = Some s \<and> d \<in> set (st_dependsOn s)} = {(st_id s, d) | s d. s \<in> set steps \<and> d \<in> set (st_dependsOn s)}"
    by (rule map_deps_distinct [unfolded map_deps_def dep_rel_def])
qed

theorem cycle_search_correct_witness:
  "hasCycle [sample_step ''a'' ''t'' [''b''], sample_step ''b'' ''t'' [''a'']] \<and>
   \<not> acyclic (dep_rel [sample_step ''a'' ''t'' [''b''], sample_step ''b'' ''t'' [''a'']])"
proof -
  let ?steps = "[sample_step ''a'' ''t'' [''b''], sample_step ''b'' ''t'' [''a'']]"
  have ids: "distinct (map st_id ?steps)" by (simp add: sample_defs)
  have "hasCycle ?steps"
    by (simp add: hasCycle_def hasCycle_run_def byId_def find_step_def sample_defs numeral_2_eq_2)
  moreover have eq: "{(i, d). \<exists>s. byId ?steps i = Some s \<and> d \<in> set (st_dependsOn s)} = dep_rel ?steps"
    unfolding dep_rel_def by (rule cycle_search_correct [THEN conjunct2, THEN conjunct2, THEN mp, OF ids])
  ultimately show ?thesis using cycle_search_correct [of ?steps, THEN conjunct2, THEN conjunct1, unfolded eq] by blast
qed

text \<open>
  C4. \<^verbatim>\<open>PlanCompiler.compile\<close> accepts a plan exactly when its version is the expected one and it is well
  formed: at most 20 steps with distinct ids, each with a tool the profile has, a batch within the
  tool's limit, an integer cost that is not negative, the tool's effect and no blank concurrency key,
  with dependencies on steps of the plan and no cycle among them.  A version mismatch is reported as
  such before anything else.
\<close>

theorem compile_accepts_exactly:
  "(compile plan v p = Inr c \<longleftrightarrow>
      pl_version plan = v \<and> plan_ok p plan \<and>
      c = \<lparr> cp_plan = plan,
            cp_readySet = readySet plan,
            cp_partitions = partitionReadySteps plan (readySet plan) p,
            cp_totalEstimatedCost = sum_list (map st_estimatedCost (pl_steps plan)) \<rparr>) \<and>
   (compile plan v p = Inl VERSION_CONFLICT \<longleftrightarrow> pl_version plan \<noteq> v)"
proof -
  have "check_steps p ids steps \<noteq> Inl VERSION_CONFLICT" for ids steps
    by (induction p ids steps rule: check_steps.induct) (auto simp: result_simps)
  then have "compile plan v p = Inl VERSION_CONFLICT \<longleftrightarrow> pl_version plan \<noteq> v"
    by (auto simp: compile_def result_simps dest!: for_each_Inl)
  then show ?thesis by (simp add: compile_ok total_cost_sum)
qed

text \<open>
  The compiled plan is live: when every step is pending or completed and some step is not
  completed, the ready set is not empty and each of its steps is in an execution partition.
\<close>

theorem compiled_plan_has_work:
  assumes "compile plan v p = Inr c"
    and "\<forall>s \<in> set (pl_steps plan). st_status s = Pending \<or> st_status s = Completed"
    and "\<exists>s \<in> set (pl_steps plan). st_status s \<noteq> Completed"
  shows "cp_readySet c \<noteq> [] \<and>
    (\<forall>i \<in> set (cp_readySet c). \<exists>q \<in> set (cp_partitions c). i \<in> set (pa_stepIds q))"
proof -
  from assms(1) have ok: "plan_ok p plan" by (simp add: compile_ok)
  from partitions_are_ready_set [OF ok]
  have "set (concat (map pa_stepIds (partitionReadySteps plan (readySet plan) p))) = set (readySet plan)"
    by (metis set_mset_mset)
  with assms(1) ready_progress [OF ok assms(2,3)] show ?thesis by (auto simp: compile_ok)
qed

theorem compiled_plan_has_work_witness:
  "\<exists>c. compile sample_plan 1 Canvas_general = Inr c \<and> cp_readySet c \<noteq> []"
proof -
  obtain c where c: "compile sample_plan 1 Canvas_general = Inr c" using sample_plan_compiles by blast
  have "cp_readySet c \<noteq> []"
    using compiled_plan_has_work [OF c] by (simp add: sample_defs)
  with c show ?thesis by blast
qed

text \<open>What a partition holds: ready steps whose tools have its effect.\<close>

definition effect_of_risk :: "tool_risk \<Rightarrow> step_effect" where
  "effect_of_risk risk = (case risk of Risk_read \<Rightarrow> Effect_read | Risk_canvas_write \<Rightarrow> Effect_write_canvas | Risk_high \<Rightarrow> Effect_create_task)"

lemma effectForTool_risk: "effectForTool tool = effect_of_risk (tl_risk tool)"
  by (cases "tl_risk tool") (simp_all add: effectForTool_def effect_of_risk_def)

lemma partition_steps:
  assumes q: "q \<in> set (partitionReadySteps plan ready p)" and i: "i \<in> set (pa_stepIds q)"
  shows "\<exists>s \<in> set (pl_steps plan). \<exists>tool. st_id s = i \<and> tool_lookup p (st_tool s) = Some tool \<and> pa_effect q = effect_of_risk (tl_risk tool)"
proof -
  let ?steps = "List.map_filter (find_step (pl_steps plan)) ready"
  have mem: "s \<in> set (pl_steps plan)" if "s \<in> set ?steps" for s
    using that by (auto simp: List.map_filter_def dest: find_step_SomeD)
  show ?thesis using q
  proof (cases rule: partition_cases)
    case (rd c)
    then have "set c \<subseteq> set (filter (step_reads p) ?steps)"
      using concat_chunks [of 4 "filter (step_reads p) ?steps"] by (metis Sup_upper image_eqI set_concat zero_less_numeral)
    moreover obtain s where "s \<in> set c" "st_id s = i" using rd(2) i by (auto simp: read_partition_def)
    ultimately have "s \<in> set ?steps" "step_reads p s" by auto
    then show ?thesis using mem [of s] \<open>st_id s = i\<close> rd(2)
      by (auto simp: step_reads_def read_partition_def effectForTool_risk)
  next
    case wr
    from split_writes_single [OF wr] i show ?thesis using mem by (auto simp: effectForTool_risk)
  qed
qed

text \<open>
  C13. The execution partitions of a compiled plan are a split of its ready set: together they hold each ready
  step once; none is empty or has more than four steps, and all of them may run at once; the effect of a
  partition is the one that the risk of the tool of each of its steps gives, so that a step whose tool writes to the canvas
  or submits a task is never among the reads; only reads are grouped, so that every write and every
  submission is alone; and exactly the task submissions ask for a confirmation.
\<close>

theorem partitions_isolate_effects:
  assumes "compile plan v p = Inr c"
  shows "mset (concat (map pa_stepIds (cp_partitions c))) = mset (cp_readySet c) \<and>
    distinct (cp_readySet c) \<and>
    (\<forall>q \<in> set (cp_partitions c).
       1 \<le> length (pa_stepIds q) \<and> length (pa_stepIds q) \<le> 4 \<and> pa_maxParallelism q = length (pa_stepIds q) \<and>
       (\<forall>s \<in> set (pl_steps plan). st_id s \<in> set (pa_stepIds q) \<longrightarrow>
          (\<exists>tool. tool_lookup p (st_tool s) = Some tool \<and>
             pa_effect q = (case tl_risk tool of Risk_read \<Rightarrow> Effect_read | Risk_canvas_write \<Rightarrow> Effect_write_canvas
               | Risk_high \<Rightarrow> Effect_create_task))) \<and>
       (2 \<le> length (pa_stepIds q) \<longrightarrow> pa_effect q = Effect_read) \<and>
       (pa_requiresConfirmation q \<longleftrightarrow> pa_effect q = Effect_create_task))"
proof -
  from assms have ok: "plan_ok p plan" and c: "cp_readySet c = readySet plan"
    "cp_partitions c = partitionReadySteps plan (readySet plan) p"
    by (simp_all add: compile_ok)
  have ids: "ids_ok (pl_steps plan)" using ok by (simp add: plan_ok_def)
  have labels: "\<exists>tool. tool_lookup p (st_tool s) = Some tool \<and> pa_effect q = effect_of_risk (tl_risk tool)"
    if "q \<in> set (cp_partitions c)" "s \<in> set (pl_steps plan)" "st_id s \<in> set (pa_stepIds q)" for q s
  proof -
    note q = that
    obtain t tool where t: "t \<in> set (pl_steps plan)" "st_id t = st_id s" "tool_lookup p (st_tool t) = Some tool"
        "pa_effect q = effect_of_risk (tl_risk tool)"
      using partition_steps [OF q(1) [unfolded c(2)] q(3)] by blast
    with ids_ok_unique [OF ids t(1) q(2) t(2)] show ?thesis by blast
  qed
  have shape: "1 \<le> length (pa_stepIds q) \<and> length (pa_stepIds q) \<le> 4 \<and> pa_maxParallelism q = length (pa_stepIds q) \<and>
      (2 \<le> length (pa_stepIds q) \<longrightarrow> pa_effect q = Effect_read) \<and> (pa_requiresConfirmation q \<longleftrightarrow> pa_effect q = Effect_create_task)"
    if "q \<in> set (cp_partitions c)" for q
    using partition_shape [OF that [unfolded c(2)]] by fastforce
  show ?thesis
    using partitions_are_ready_set [OF ok] distinct_readySet [OF ids] shape labels [unfolded effect_of_risk_def] unfolding c(1) c(2) by blast
qed

theorem partitions_isolate_effects_witness:
  "\<exists>c. compile sample_plan 1 Canvas_general = Inr c \<and> distinct (cp_readySet c)"
proof -
  obtain c where c: "compile sample_plan 1 Canvas_general = Inr c" using sample_plan_compiles by blast
  with partitions_isolate_effects [OF c] show ?thesis by blast
qed

end
