(* ===== verification/PlanState.thy ===== *)
theory PlanState
  imports PlanCompiler
begin

text \<open>
  The state machine of a plan's steps (\<^verbatim>\<open>application/plan-step-state.ts\<close>): leases are released when
  they expire, a ready step is claimed, a running step completes or fails under its idempotency
  key.  The invariants are proved for one operation and lifted to every state reachable from a
  compiled plan by the step relation \<open>plan_step_to\<close>.
\<close>

datatype step_error = NOT_READY | LEASE_HELD | INVALID_TRANSITION | IDEMPOTENCY_CONFLICT

section \<open>The operations\<close>

definition requireStep :: "agent_plan \<Rightarrow> string \<Rightarrow> step_error + plan_step" where
  "requireStep plan stepId = require_some NOT_READY (find_step (pl_steps plan) stepId)"

definition updateStep :: "agent_plan \<Rightarrow> string \<Rightarrow> (plan_step \<Rightarrow> plan_step) \<Rightarrow> agent_plan" where
  "updateStep plan stepId overrides =
     plan\<lparr> pl_version := pl_version plan + 1,
           pl_steps := map (\<lambda>step. if st_id step = stepId then clonePlanStep step overrides else step)
             (pl_steps plan) \<rparr>"

text \<open>\<open>!step.leaseUntil || step.leaseUntil > nowIso\<close> keeps a running step.\<close>

definition lease_expired :: "int \<Rightarrow> plan_step \<Rightarrow> bool" where
  "lease_expired now step \<longleftrightarrow>
     st_status step = Running \<and> (case st_leaseUntil step of None \<Rightarrow> False | Some t \<Rightarrow> t \<le> now)"

definition releaseExpiredLeases :: "agent_plan \<Rightarrow> int \<Rightarrow> agent_plan" where
  "releaseExpiredLeases plan now =
     (let steps = map (\<lambda>step. if lease_expired now step
                       then clonePlanStep step (\<lambda>s. s\<lparr>st_status := Pending, st_leaseUntil := None\<rparr>)
                       else step) (pl_steps plan)
      in if \<exists>step \<in> set (pl_steps plan). lease_expired now step
         then plan\<lparr>pl_version := pl_version plan + 1, pl_steps := steps\<rparr> else plan)"

text \<open>The fields a claim replaces; the idempotency key of an earlier attempt is kept.\<close>

definition claim_overrides :: "agent_plan \<Rightarrow> plan_step \<Rightarrow> int \<Rightarrow> plan_step \<Rightarrow> plan_step" where
  "claim_overrides plan step leaseUntil s = s\<lparr>
     st_status := Running,
     st_leaseUntil := Some leaseUntil,
     st_attemptCount := Some ((case st_attemptCount step of None \<Rightarrow> 0 | Some n \<Rightarrow> n) + 1),
     st_idempotencyKey := Some (case st_idempotencyKey step of
         Some k \<Rightarrow> k
       | None \<Rightarrow> pl_id plan @ '':'' @ st_id step @ '':'' @ st_inputHash step),
     st_lastError := None\<rparr>"

definition claimPlanStep :: "agent_plan \<Rightarrow> string \<Rightarrow> int \<Rightarrow> int \<Rightarrow> step_error + agent_plan" where
  "claimPlanStep plan stepId now leaseDurationMs =
     rbind (requireStep plan stepId) (\<lambda>step.
      throw_if (\<not> isReady (pl_steps plan) step) NOT_READY
       (throw_if (conc_key step \<noteq> None \<and>
            (\<exists>c \<in> set (pl_steps plan).
               st_id c \<noteq> st_id step \<and> st_status c = Running \<and> conc_key c = conc_key step))
          LEASE_HELD
         (Inr (updateStep plan stepId (claim_overrides plan step (now + leaseDurationMs))))))"

definition assertRunningAndIdempotent :: "plan_step \<Rightarrow> string \<Rightarrow> step_error + unit" where
  "assertRunningAndIdempotent step idempotencyKey =
     throw_if (st_status step \<noteq> Running) INVALID_TRANSITION
      (throw_if (\<not> truthy (st_idempotencyKey step) \<or> st_idempotencyKey step \<noteq> Some idempotencyKey)
         IDEMPOTENCY_CONFLICT (Inr ()))"

definition completePlanStep ::
  "agent_plan \<Rightarrow> string \<Rightarrow> string \<Rightarrow> string option \<Rightarrow> step_error + agent_plan" where
  "completePlanStep plan stepId idempotencyKey outputRef =
     rbind (requireStep plan stepId) (\<lambda>step.
      rbind (assertRunningAndIdempotent step idempotencyKey) (\<lambda>_.
        Inr (updateStep plan stepId (\<lambda>s. s\<lparr>
          st_status := Completed, st_leaseUntil := None, st_outputRef := outputRef\<rparr>))))"

definition failPlanStep :: "agent_plan \<Rightarrow> string \<Rightarrow> string \<Rightarrow> string \<Rightarrow> step_error + agent_plan" where
  "failPlanStep plan stepId idempotencyKey errorCode =
     rbind (requireStep plan stepId) (\<lambda>step.
      rbind (assertRunningAndIdempotent step idempotencyKey) (\<lambda>_.
        Inr (updateStep plan stepId (\<lambda>s. s\<lparr>
          st_status := Failed, st_leaseUntil := None, st_lastError := Some errorCode\<rparr>))))"

text \<open>The default of the source's \<open>leaseDurationMs\<close> parameter.\<close>

definition default_lease_ms :: int where
  "default_lease_ms = 30000"

section \<open>Updating one step\<close>

lemma updateStep_fields [simp]:
  "pl_id (updateStep plan i f) = pl_id plan"
  "pl_sessionId (updateStep plan i f) = pl_sessionId plan"
  "pl_canvasVersion (updateStep plan i f) = pl_canvasVersion plan"
  "pl_version (updateStep plan i f) = pl_version plan + 1"
  by (simp_all add: updateStep_def)

lemma updateStep_steps:
  "pl_steps (updateStep plan i f) = map (\<lambda>s. if st_id s = i then f s else s) (pl_steps plan)"
  by (simp add: updateStep_def clonePlanStep_def)

lemma updateStep_ids:
  "(\<And>s. st_id (f s) = st_id s) \<Longrightarrow> step_ids (pl_steps (updateStep plan i f)) = step_ids (pl_steps plan)"
  by (simp add: updateStep_steps comp_def if_distrib cong: if_cong)

lemma updateStep_deps:
  "(\<And>s. st_id (f s) = st_id s) \<Longrightarrow> (\<And>s. st_dependsOn (f s) = st_dependsOn s) \<Longrightarrow>
   dep_rel (pl_steps (updateStep plan i f)) = dep_rel (pl_steps plan)"
  by (simp add: updateStep_steps dep_rel_map)

lemma claim_ok:
  assumes "claimPlanStep plan i now ms = Inr plan'"
  obtains step where "find_step (pl_steps plan) i = Some step" "isReady (pl_steps plan) step"
    "conc_key step \<noteq> None \<longrightarrow> (\<forall>c \<in> set (pl_steps plan).
       st_id c \<noteq> i \<longrightarrow> st_status c = Running \<longrightarrow> conc_key c \<noteq> conc_key step)"
    "plan' = updateStep plan i (claim_overrides plan step (now + ms))"
proof -
  from assms obtain step where "find_step (pl_steps plan) i = Some step" "isReady (pl_steps plan) step"
    by (auto simp: claimPlanStep_def requireStep_def result_simps)
  with assms that [of step] show ?thesis
    by (auto simp: claimPlanStep_def requireStep_def result_simps dest: find_step_SomeD)
qed

lemma finish_ok:
  shows "completePlanStep plan i k out = Inr plan' \<longleftrightarrow>
      (\<exists>step. find_step (pl_steps plan) i = Some step \<and> st_status step = Running \<and>
        st_idempotencyKey step = Some k \<and> k \<noteq> [] \<and>
        plan' = updateStep plan i (\<lambda>s. s\<lparr>st_status := Completed, st_leaseUntil := None, st_outputRef := out\<rparr>))"
    and "failPlanStep plan i k err = Inr plan' \<longleftrightarrow>
      (\<exists>step. find_step (pl_steps plan) i = Some step \<and> st_status step = Running \<and>
        st_idempotencyKey step = Some k \<and> k \<noteq> [] \<and>
        plan' = updateStep plan i (\<lambda>s. s\<lparr>st_status := Failed, st_leaseUntil := None, st_lastError := Some err\<rparr>))"
  by (auto simp: completePlanStep_def failPlanStep_def requireStep_def assertRunningAndIdempotent_def
      result_simps)

section \<open>The step relation\<close>

text \<open>
  One transition of a plan: a call of one of the four operations that returns.  The clock reading,
  the lease, the keys and the outputs are whatever the callers pass.
\<close>

inductive plan_step_to :: "agent_plan \<Rightarrow> agent_plan \<Rightarrow> bool" where
  release: "plan_step_to plan (releaseExpiredLeases plan now)"
| claim: "claimPlanStep plan i now ms = Inr plan' \<Longrightarrow> plan_step_to plan plan'"
| complete: "completePlanStep plan i k out = Inr plan' \<Longrightarrow> plan_step_to plan plan'"
| fail: "failPlanStep plan i k err = Inr plan' \<Longrightarrow> plan_step_to plan plan'"

inductive plan_reaches :: "agent_plan \<Rightarrow> agent_plan \<Rightarrow> bool" where
  here: "plan_reaches plan plan"
| next_step: "plan_reaches plan q \<Longrightarrow> plan_step_to q r \<Longrightarrow> plan_reaches plan r"

text \<open>
  Every transition rewrites the steps one by one, with a function that keeps the id, the
  dependencies, the tool, the cost and the concurrency key, and that moves the status along the
  edges Pending to Running and Running to Pending, Completed or Failed only.
\<close>

definition status_edge :: "step_status \<Rightarrow> step_status \<Rightarrow> bool" where
  "status_edge a b \<longleftrightarrow> a = b \<or> (a = Pending \<and> b = Running) \<or>
     (a = Running \<and> (b = Pending \<or> b = Completed \<or> b = Failed))"

definition step_kept :: "plan_step \<Rightarrow> plan_step \<Rightarrow> bool" where
  "step_kept s t \<longleftrightarrow>
     st_id t = st_id s \<and> st_tool t = st_tool s \<and> st_dependsOn t = st_dependsOn s \<and>
     st_inputHash t = st_inputHash s \<and> st_input t = st_input s \<and>
     st_estimatedCost t = st_estimatedCost s \<and> st_batchSize t = st_batchSize s \<and>
     st_effect t = st_effect s \<and> st_concurrencyKey t = st_concurrencyKey s \<and>
     st_taskId t = st_taskId s \<and> status_edge (st_status s) (st_status t)"

lemma step_kept_refl [simp]: "step_kept s s"
  by (simp add: step_kept_def status_edge_def)

lemma updateStep_kept:
  assumes "ids_ok (pl_steps plan)" "find_step (pl_steps plan) i = Some s" "step_kept s (f s)"
  shows "list_all2 step_kept (pl_steps plan) (pl_steps (updateStep plan i f))"
  using assms
  by (auto simp: updateStep_steps list_all2_map2 list.rel_refl_strong find_step_iff
      intro!: list.rel_refl_strong dest: ids_ok_unique)

lemma isReady_Pending: "isReady steps s \<Longrightarrow> st_status s = Pending"
  by (simp add: isReady_def)

lemma plan_step_kept:
  assumes "plan_step_to plan plan'" "ids_ok (pl_steps plan)"
  shows "list_all2 step_kept (pl_steps plan) (pl_steps plan')"
  using assms
proof (induction rule: plan_step_to.induct)
  case (release plan now)
  then show ?case
    by (auto simp: releaseExpiredLeases_def list_all2_map2 clonePlanStep_def step_kept_def
        status_edge_def lease_expired_def intro!: list.rel_refl_strong)
next
  case (claim plan i now ms plan')
  from claim(1) obtain step where step: "find_step (pl_steps plan) i = Some step"
    "isReady (pl_steps plan) step" "plan' = updateStep plan i (claim_overrides plan step (now + ms))"
    by (rule claim_ok)
  then have "step_kept step (claim_overrides plan step (now + ms) step)"
    by (simp add: step_kept_def status_edge_def claim_overrides_def isReady_Pending)
  with claim(2) step show ?case by (simp add: updateStep_kept)
next
  case (complete plan i k out plan')
  then obtain step where step: "find_step (pl_steps plan) i = Some step" "st_status step = Running"
    and "plan' = updateStep plan i (\<lambda>s. s\<lparr>st_status := Completed, st_leaseUntil := None, st_outputRef := out\<rparr>)"
    by (auto simp: finish_ok)
  with complete(2) show ?case
    by (auto intro!: updateStep_kept) (simp add: step_kept_def status_edge_def)
next
  case (fail plan i k err plan')
  then obtain step where step: "find_step (pl_steps plan) i = Some step" "st_status step = Running"
    and "plan' = updateStep plan i (\<lambda>s. s\<lparr>st_status := Failed, st_leaseUntil := None, st_lastError := Some err\<rparr>)"
    by (auto simp: finish_ok)
  with fail(2) show ?case
    by (auto intro!: updateStep_kept) (simp add: step_kept_def status_edge_def)
qed

lemma kept_map:
  assumes "list_all2 step_kept xs ys"
  shows "step_ids ys = step_ids xs" and "dep_rel ys = dep_rel xs" and "length ys = length xs"
    and "map st_tool ys = map st_tool xs" and "map st_estimatedCost ys = map st_estimatedCost xs"
  using assms by (induction rule: list_all2_induct) (auto simp: step_kept_def dep_rel_UN)

lemma kept_step:
  "list_all2 step_kept xs ys \<Longrightarrow> t \<in> set ys \<Longrightarrow> \<exists>s \<in> set xs. step_kept s t"
  by (induction rule: list_all2_induct) auto

lemma kept_step_rev:
  "list_all2 step_kept xs ys \<Longrightarrow> s \<in> set xs \<Longrightarrow> \<exists>t \<in> set ys. step_kept s t"
  by (induction rule: list_all2_induct) auto

section \<open>The invariants\<close>

text \<open>A step has started only when all it depends on is completed.\<close>

definition deps_done :: "agent_plan \<Rightarrow> bool" where
  "deps_done plan \<longleftrightarrow> (\<forall>s \<in> set (pl_steps plan).
     st_status s = Running \<or> st_status s = Completed \<or> st_status s = Failed \<longrightarrow>
     (\<forall>d \<in> set (st_dependsOn s). step_completed (pl_steps plan) d))"

text \<open>Two running steps never share a concurrency key.\<close>

definition conc_excl :: "agent_plan \<Rightarrow> bool" where
  "conc_excl plan \<longleftrightarrow> (\<forall>s \<in> set (pl_steps plan). \<forall>t \<in> set (pl_steps plan).
     st_status s = Running \<longrightarrow> st_status t = Running \<longrightarrow>
     conc_key s \<noteq> None \<longrightarrow> conc_key s = conc_key t \<longrightarrow> st_id s = st_id t)"

text \<open>A running step holds a lease and a key, and its attempt is counted.\<close>

definition running_leased :: "agent_plan \<Rightarrow> bool" where
  "running_leased plan \<longleftrightarrow> (\<forall>s \<in> set (pl_steps plan). st_status s = Running \<longrightarrow>
     st_leaseUntil s \<noteq> None \<and> st_idempotencyKey s \<noteq> None \<and>
     (\<exists>n. st_attemptCount s = Some n \<and> 1 \<le> n))"

definition plan_inv :: "agent_profile \<Rightarrow> agent_plan \<Rightarrow> bool" where
  "plan_inv p plan \<longleftrightarrow> plan_ok p plan \<and> deps_done plan \<and> conc_excl plan \<and> running_leased plan"

lemma conc_key_kept: "step_kept s t \<Longrightarrow> conc_key t = conc_key s"
  by (simp add: step_kept_def conc_key_def)

lemma kept_completed:
  assumes "list_all2 step_kept xs ys" "ids_ok xs" "step_completed xs d"
  shows "step_completed ys d"
proof -
  from assms obtain s where s: "s \<in> set xs" "st_id s = d" "st_status s = Completed"
    by (auto simp: step_completed_iff)
  with kept_step_rev [OF assms(1)] obtain t where "t \<in> set ys" "step_kept s t" by blast
  with s kept_map(1) [OF assms(1)] assms(2) show ?thesis
    by (auto simp: step_completed_iff step_kept_def status_edge_def)
qed

text \<open>A step that becomes running was ready, was free of its key's holder, and now holds a lease.\<close>

lemma updateStep_mem:
  assumes "ids_ok (pl_steps plan)" "find_step (pl_steps plan) i = Some s"
  shows "t \<in> set (pl_steps (updateStep plan i f)) \<longleftrightarrow>
    t = f s \<or> t \<in> set (pl_steps plan) \<and> st_id t \<noteq> i"
  using assms by (auto simp: updateStep_steps find_step_iff dest: ids_ok_unique)

lemma running_after:
  assumes "plan_step_to plan plan'" "ids_ok (pl_steps plan)"
    and "t \<in> set (pl_steps plan')" "st_status t = Running"
  shows "t \<in> set (pl_steps plan) \<or>
    (\<exists>s \<in> set (pl_steps plan). step_kept s t \<and> isReady (pl_steps plan) s \<and>
       (\<forall>c \<in> set (pl_steps plan). conc_key s \<noteq> None \<longrightarrow> st_status c = Running \<longrightarrow>
          conc_key c \<noteq> conc_key s) \<and>
       (\<forall>u \<in> set (pl_steps plan'). st_status u = Running \<longrightarrow> u = t \<or> u \<in> set (pl_steps plan)) \<and>
       st_leaseUntil t \<noteq> None \<and> st_idempotencyKey t \<noteq> None \<and>
       (\<exists>n. st_attemptCount t = Some n \<and> 1 \<le> n))"
  using assms
proof (induction rule: plan_step_to.induct)
  case (release plan now)
  then show ?case
    by (auto simp: releaseExpiredLeases_def clonePlanStep_def lease_expired_def split: if_splits)
next
  case (claim plan i now ms plan')
  from claim(1) obtain s where s: "find_step (pl_steps plan) i = Some s" "isReady (pl_steps plan) s"
    and free: "conc_key s \<noteq> None \<longrightarrow> (\<forall>c \<in> set (pl_steps plan).
       st_id c \<noteq> i \<longrightarrow> st_status c = Running \<longrightarrow> conc_key c \<noteq> conc_key s)"
    and plan': "plan' = updateStep plan i (claim_overrides plan s (now + ms))"
    by (rule claim_ok)
  let ?t = "claim_overrides plan s (now + ms) s"
  have mem: "u \<in> set (pl_steps plan') \<longleftrightarrow> u = ?t \<or> u \<in> set (pl_steps plan) \<and> st_id u \<noteq> i" for u
    using updateStep_mem [OF claim(2) s(1)] plan' by simp
  have kept: "step_kept s ?t"
    using s(2) by (simp add: step_kept_def status_edge_def claim_overrides_def isReady_Pending)
  have "conc_key c \<noteq> conc_key s"
    if "c \<in> set (pl_steps plan)" "conc_key s \<noteq> None" "st_status c = Running" for c
  proof -
    have "s \<in> set (pl_steps plan)" "st_id s = i" using s(1) by (auto dest: find_step_SomeD)
    moreover have "c \<noteq> s" using that(3) s(2) by (auto dest: isReady_Pending)
    ultimately have "st_id c \<noteq> i" using claim(2) that(1) by (auto dest: ids_ok_unique)
    with that free show ?thesis by blast
  qed
  with s kept claim(3) mem show ?case
    by (auto simp: claim_overrides_def dest: find_step_SomeD)
next
  case (complete plan i k out plan')
  then obtain s where s: "find_step (pl_steps plan) i = Some s"
    and "plan' = updateStep plan i (\<lambda>s. s\<lparr>st_status := Completed, st_leaseUntil := None, st_outputRef := out\<rparr>)"
    by (auto simp: finish_ok)
  with complete show ?case by (auto simp: updateStep_mem [OF complete(2) s])
next
  case (fail plan i k err plan')
  then obtain s where s: "find_step (pl_steps plan) i = Some s"
    and "plan' = updateStep plan i (\<lambda>s. s\<lparr>st_status := Failed, st_leaseUntil := None, st_lastError := Some err\<rparr>)"
    by (auto simp: finish_ok)
  with fail show ?case by (auto simp: updateStep_mem [OF fail(2) s])
qed

lemma plan_ok_kept:
  assumes "list_all2 step_kept (pl_steps plan) (pl_steps plan')" "plan_ok p plan"
  shows "plan_ok p plan'"
proof -
  have "step_ok p t \<and> set (st_dependsOn t) \<subseteq> set (step_ids (pl_steps plan'))"
    if "t \<in> set (pl_steps plan')" for t
  proof -
    from kept_step [OF assms(1) that] obtain s where "s \<in> set (pl_steps plan)" "step_kept s t" by blast
    with assms(2) kept_map(1) [OF assms(1)] show ?thesis
      by (auto simp: plan_ok_def step_ok_def step_kept_def)
  qed
  with assms(2) kept_map [OF assms(1)] show ?thesis by (simp add: plan_ok_def)
qed

lemma deps_done_kept:
  assumes "plan_step_to plan plan'" "ids_ok (pl_steps plan)" "deps_done plan"
  shows "deps_done plan'"
  unfolding deps_done_def
proof (intro ballI impI)
  fix t d
  assume t: "t \<in> set (pl_steps plan')" and d: "d \<in> set (st_dependsOn t)"
    and started: "st_status t = Running \<or> st_status t = Completed \<or> st_status t = Failed"
  note kept = plan_step_kept [OF assms(1,2)]
  from kept_step [OF kept t] obtain s where s: "s \<in> set (pl_steps plan)" "step_kept s t" by blast
  have "step_completed (pl_steps plan) d"
  proof (cases "st_status s = Pending")
    case True
    with s started have "st_status t = Running" by (auto simp: step_kept_def status_edge_def)
    from running_after [OF assms(1,2) t this] show ?thesis
    proof
      assume "t \<in> set (pl_steps plan)"
      with d assms(3) \<open>st_status t = Running\<close> show ?thesis by (auto simp: deps_done_def)
    qed (use d in \<open>auto simp: isReady_def step_kept_def\<close>)
  next
    case False
    with s d started assms(3) show ?thesis
      by (cases "st_status s") (auto simp: deps_done_def step_kept_def status_edge_def)
  qed
  then show "step_completed (pl_steps plan') d" by (rule kept_completed [OF kept assms(2)])
qed

lemma conc_excl_kept:
  assumes "plan_step_to plan plan'" "ids_ok (pl_steps plan)" "conc_excl plan"
  shows "conc_excl plan'"
  unfolding conc_excl_def
proof (intro ballI impI)
  fix s t
  assume s: "s \<in> set (pl_steps plan')" "st_status s = Running"
    and t: "t \<in> set (pl_steps plan')" "st_status t = Running"
    and key: "conc_key s \<noteq> None" "conc_key s = conc_key t"
  note old = running_after [OF assms(1,2)]
  consider "s \<in> set (pl_steps plan)" "t \<in> set (pl_steps plan)"
    | "s \<notin> set (pl_steps plan)" | "t \<notin> set (pl_steps plan)" by blast
  then show "st_id s = st_id t"
  proof cases
    case 1
    then show ?thesis using assms(3) s(2) t(2) key unfolding conc_excl_def by blast
  next
    case 2
    then show ?thesis using old [OF s] t key conc_key_kept by metis
  next
    case 3
    then show ?thesis using old [OF t] s key conc_key_kept by metis
  qed
qed

lemma running_leased_kept:
  assumes "plan_step_to plan plan'" "ids_ok (pl_steps plan)" "running_leased plan"
  shows "running_leased plan'"
  unfolding running_leased_def
proof (intro ballI impI)
  fix t
  assume t: "t \<in> set (pl_steps plan')" "st_status t = Running"
  show "st_leaseUntil t \<noteq> None \<and> st_idempotencyKey t \<noteq> None \<and>
    (\<exists>n. st_attemptCount t = Some n \<and> 1 \<le> n)"
    using running_after [OF assms(1,2) t] assms(3) t(2) unfolding running_leased_def by blast
qed

lemma plan_inv_step: "plan_step_to plan plan' \<Longrightarrow> plan_inv p plan \<Longrightarrow> plan_inv p plan'"
  by (auto simp: plan_inv_def plan_ok_def [of p plan] intro: plan_ok_kept plan_step_kept
      deps_done_kept conc_excl_kept running_leased_kept)

lemma plan_inv_start:
  assumes "compile plan v p = Inr c" "\<forall>s \<in> set (pl_steps plan). st_status s = Pending"
  shows "plan_inv p plan"
  using assms by (auto simp: compile_ok plan_inv_def deps_done_def conc_excl_def running_leased_def)

lemma plan_inv_reaches: "plan_reaches plan q \<Longrightarrow> plan_inv p plan \<Longrightarrow> plan_inv p q"
  by (induction rule: plan_reaches.induct) (auto intro: plan_inv_step)

section \<open>Finished steps, and steps whose lease ran out\<close>

lemma completed_reaches:
  "plan_reaches plan q \<Longrightarrow> ids_ok (pl_steps plan) \<Longrightarrow> step_completed (pl_steps plan) i \<Longrightarrow>
   ids_ok (pl_steps q) \<and> step_completed (pl_steps q) i"
proof (induction rule: plan_reaches.induct)
  case (next_step plan q r)
  then have "list_all2 step_kept (pl_steps q) (pl_steps r)" by (auto intro: plan_step_kept)
  with next_step show ?case by (auto simp: kept_map(1) intro: kept_completed)
qed simp

lemma completed_refuses:
  assumes "ids_ok (pl_steps plan)" "step_completed (pl_steps plan) i"
  shows "claimPlanStep plan i now ms = Inl NOT_READY"
    and "completePlanStep plan i k out = Inl INVALID_TRANSITION"
    and "failPlanStep plan i k err = Inl INVALID_TRANSITION"
proof -
  from assms(2) obtain s where "find_step (pl_steps plan) i = Some s" "st_status s = Completed"
    by (auto simp: step_completed_def)
  then show "claimPlanStep plan i now ms = Inl NOT_READY"
    "completePlanStep plan i k out = Inl INVALID_TRANSITION"
    "failPlanStep plan i k err = Inl INVALID_TRANSITION"
    by (simp_all add: claimPlanStep_def completePlanStep_def failPlanStep_def requireStep_def
        isReady_def assertRunningAndIdempotent_def)
qed

lemma release_find:
  "find_step (pl_steps (releaseExpiredLeases plan now)) i =
   map_option (\<lambda>s. if lease_expired now s then s\<lparr>st_status := Pending, st_leaseUntil := None\<rparr> else s)
     (find_step (pl_steps plan) i)"
proof (cases "\<exists>s \<in> set (pl_steps plan). lease_expired now s")
  case True
  then show ?thesis
    unfolding releaseExpiredLeases_def clonePlanStep_def by (simp add: find_step_map)
next
  case False
  then show ?thesis
    by (cases "find_step (pl_steps plan) i")
       (auto simp: releaseExpiredLeases_def clonePlanStep_def dest: find_step_SomeD)
qed

lemma release_running:
  "c \<in> set (pl_steps (releaseExpiredLeases plan now)) \<Longrightarrow> st_status c = Running \<Longrightarrow>
   c \<in> set (pl_steps plan)"
  by (auto simp: releaseExpiredLeases_def clonePlanStep_def split: if_splits)

lemma claim_fresh:
  assumes "find_step (pl_steps plan) i = Some s" "isReady (pl_steps plan) s"
    and "\<forall>c \<in> set (pl_steps plan). st_id c \<noteq> i \<longrightarrow> st_status c = Running \<longrightarrow> conc_key s \<noteq> None \<longrightarrow>
      conc_key c \<noteq> conc_key s"
  shows "claimPlanStep plan i now ms = Inr (updateStep plan i (claim_overrides plan s (now + ms)))"
  using assms by (auto simp: claimPlanStep_def requireStep_def throw_if_def dest: find_step_SomeD)

lemma release_completed:
  "ids_ok (pl_steps plan) \<Longrightarrow> step_completed (pl_steps plan) d \<Longrightarrow>
   step_completed (pl_steps (releaseExpiredLeases plan now)) d"
  by (auto intro: kept_completed plan_step_kept plan_step_to.release)

section \<open>Properties\<close>

text \<open>
  C2. Start from a plan the compiler accepts with every step pending, and let the four operations of
  the state machine run in any order with any clock readings: in every plan reached the compiler's
  conditions still hold, the cost is unchanged, no step has started before all its dependencies
  completed, no two running steps share a concurrency key, and each running step has a lease, an
  idempotency key and a counted attempt.
\<close>

theorem plan_execution_invariant:
  assumes "compile plan v p = Inr c" "\<forall>s \<in> set (pl_steps plan). st_status s = Pending"
    and "plan_reaches plan q"
  shows "plan_ok p q \<and> sum_list (map st_estimatedCost (pl_steps q)) = cp_totalEstimatedCost c \<and>
    deps_done q \<and> conc_excl q \<and> running_leased q"
proof -
  note start = plan_inv_start [OF assms(1,2)]
  have "map st_estimatedCost (pl_steps q) = map st_estimatedCost (pl_steps plan)"
    using assms(3) start
  proof (induction rule: plan_reaches.induct)
    case (next_step plan q r)
    then have "ids_ok (pl_steps q)"
      using plan_inv_reaches by (auto simp: plan_inv_def plan_ok_def)
    with next_step show ?case by (simp add: kept_map(5) [OF plan_step_kept])
  qed simp
  with assms(1) plan_inv_reaches [OF assms(3) start] show ?thesis
    by (simp add: plan_inv_def compile_ok total_cost_sum)
qed

text \<open>A run of the sample plan, for the witnesses: claim its first step and complete it.\<close>

definition sample_claimed :: agent_plan where
  "sample_claimed = updateStep sample_plan ''a''
     (claim_overrides sample_plan (sample_step ''a'' ''get_canvas_summary'' []) 1030)"

lemma sample_claim: "claimPlanStep sample_plan ''a'' 1000 30 = Inr sample_claimed"
  by (simp add: claimPlanStep_def requireStep_def sample_defs find_step_def isReady_def
      sample_claimed_def conc_key_def)

lemma sample_reaches: "plan_reaches sample_plan sample_claimed"
  by (rule plan_reaches.next_step [OF plan_reaches.here plan_step_to.claim [OF sample_claim]])

lemma sample_pending: "\<forall>s \<in> set (pl_steps sample_plan). st_status s = Pending"
  by (simp add: sample_defs)

theorem plan_execution_invariant_witness:
  "deps_done sample_claimed \<and> conc_excl sample_claimed \<and> running_leased sample_claimed"
proof -
  obtain c where c: "compile sample_plan 1 Canvas_general = Inr c" using sample_plan_compiles by blast
  show ?thesis using plan_execution_invariant [OF c sample_pending sample_reaches] by simp
qed

lemma plan_ok_reaches: "plan_reaches plan q \<Longrightarrow> plan_ok p plan \<Longrightarrow> plan_ok p q"
proof (induction rule: plan_reaches.induct)
  case (next_step plan q r)
  then have "plan_ok p q" by simp
  moreover from this have "ids_ok (pl_steps q)" by (simp add: plan_ok_def)
  ultimately show ?case using plan_ok_kept plan_step_kept [OF next_step(2)] by blast
qed

text \<open>
  C9. Execution never gets stuck.  A plan that compiles may be posted with steps in any status; in every
  state that the operations reach from it, each step is completed, or some step is running, failed or stale,
  or there is a step that can be claimed.
\<close>

theorem plan_never_stuck:
  assumes "compile plan v p = Inr c" and "plan_reaches plan q"
  shows "(\<forall>s \<in> set (pl_steps q). st_status s = Completed) \<or>
    (\<exists>s \<in> set (pl_steps q). st_status s = Running \<or> st_status s = Failed \<or> st_status s = Stale) \<or>
    (\<exists>i q'. claimPlanStep q i now ms = Inr q')"
proof (rule ccontr)
  assume stuck: "\<not> ?thesis"
  have ok: "plan_ok p q" using plan_ok_reaches [OF assms(2)] assms(1) by (simp add: compile_ok)
  have "\<forall>s \<in> set (pl_steps q). st_status s = Pending \<or> st_status s = Completed"
    using stuck by (metis step_status.exhaust)
  moreover have "\<exists>s \<in> set (pl_steps q). st_status s \<noteq> Completed" using stuck by blast
  ultimately obtain s where s: "s \<in> set (pl_steps q)" "isReady (pl_steps q) s"
    using ready_progress [OF ok] by (auto simp: readySet_def filter_empty_conv)
  with ok have "find_step (pl_steps q) (st_id s) = Some s" by (simp add: plan_ok_def find_step_mem)
  from claim_fresh [OF this s(2)] stuck show False by blast
qed

theorem plan_never_stuck_witness: "\<exists>i q'. claimPlanStep sample_plan i 0 30 = Inr q'"
proof -
  obtain c where c: "compile sample_plan 1 Canvas_general = Inr c" using sample_plan_compiles by blast
  from plan_never_stuck [OF c plan_reaches.here, of 0 30] show ?thesis by (simp add: sample_defs)
qed

text \<open>
  A step finishes once: after \<^verbatim>\<open>completePlanStep\<close> returns, whatever operations follow, the step stays
  completed, it cannot be claimed again, and completing or failing it, with any key, is an
  \<^verbatim>\<open>INVALID_TRANSITION\<close>.
\<close>

theorem completed_step_is_final:
  assumes "ids_ok (pl_steps plan)" "completePlanStep plan i k out = Inr plan'" "plan_reaches plan' q"
  shows "step_completed (pl_steps q) i \<and> claimPlanStep q i now ms = Inl NOT_READY \<and>
    completePlanStep q i k' out' = Inl INVALID_TRANSITION \<and>
    failPlanStep q i k' err = Inl INVALID_TRANSITION"
proof -
  from assms(2) obtain s where s: "find_step (pl_steps plan) i = Some s"
    and plan': "plan' = updateStep plan i (\<lambda>s. s\<lparr>st_status := Completed, st_leaseUntil := None, st_outputRef := out\<rparr>)"
    by (auto simp: finish_ok)
  have "ids_ok (pl_steps plan')" using assms(1) by (simp add: plan' updateStep_ids)
  moreover have "step_completed (pl_steps plan') i"
    using s by (simp add: plan' updateStep_steps step_completed_map find_step_SomeD)
  ultimately show ?thesis
    using completed_reaches [OF assms(3)] completed_refuses [of q i] by simp
qed

theorem completed_step_is_final_witness:
  "\<exists>q. completePlanStep sample_claimed ''a'' ''p:a:h'' None = Inr q \<and> step_completed (pl_steps q) ''a''"
proof -
  have ids: "ids_ok (pl_steps sample_claimed)"
    by (simp add: sample_claimed_def updateStep_ids claim_overrides_def) (simp add: sample_defs)
  have "\<exists>q. completePlanStep sample_claimed ''a'' ''p:a:h'' None = Inr q"
    by (simp add: completePlanStep_def requireStep_def sample_claimed_def updateStep_def
        clonePlanStep_def claim_overrides_def sample_defs find_step_def assertRunningAndIdempotent_def)
  then obtain q where q: "completePlanStep sample_claimed ''a'' ''p:a:h'' None = Inr q" by blast
  show ?thesis using completed_step_is_final [OF ids q plan_reaches.here] q by blast
qed

text \<open>
  C8. A step whose worker died is recovered.  Once its lease has run out, releasing the expired leases
  makes it pending: the old worker's completion is then refused, and the step can be claimed again,
  under the idempotency key of the first attempt, with the attempt count one higher and a new lease.
\<close>

theorem expired_lease_is_recovered:
  assumes inv: "plan_inv p plan" and s: "find_step (pl_steps plan) i = Some s"
    and expired: "lease_expired now s" and key: "st_idempotencyKey s = Some k"
    and attempts: "st_attemptCount s = Some n"
  shows "completePlanStep (releaseExpiredLeases plan now) i k out = Inl INVALID_TRANSITION \<and>
    (\<exists>plan' t. claimPlanStep (releaseExpiredLeases plan now) i now ms = Inr plan' \<and>
       find_step (pl_steps plan') i = Some t \<and> st_status t = Running \<and>
       st_idempotencyKey t = Some k \<and> st_attemptCount t = Some (n + 1) \<and>
       st_leaseUntil t = Some (now + ms))"
proof -
  let ?r = "releaseExpiredLeases plan now"
  let ?s = "s\<lparr>st_status := Pending, st_leaseUntil := None\<rparr>"
  have ids: "ids_ok (pl_steps plan)" using inv by (simp add: plan_inv_def plan_ok_def)
  have mem: "s \<in> set (pl_steps plan)" "st_id s = i" using s by (auto dest: find_step_SomeD)
  have running: "st_status s = Running" using expired by (simp add: lease_expired_def)
  have fs: "find_step (pl_steps ?r) i = Some ?s" by (simp add: release_find s expired)
  have "isReady (pl_steps ?r) ?s"
    using inv mem running release_completed [OF ids]
    by (auto simp: isReady_def plan_inv_def deps_done_def)
  moreover have "conc_key c \<noteq> conc_key ?s"
    if "c \<in> set (pl_steps ?r)" "st_id c \<noteq> i" "st_status c = Running" "conc_key ?s \<noteq> None" for c
  proof
    assume same: "conc_key c = conc_key ?s"
    have "c \<in> set (pl_steps plan)" by (rule release_running [OF that(1,3)])
    moreover have "conc_excl plan" using inv by (simp add: plan_inv_def)
    moreover have "conc_key ?s = conc_key s" by (simp add: conc_key_def)
    ultimately have "st_id c = st_id s"
      using mem running that same unfolding conc_excl_def by metis
    with mem that(2) show False by simp
  qed
  ultimately have "claimPlanStep ?r i now ms = Inr (updateStep ?r i (claim_overrides ?r ?s (now + ms)))"
    using fs by (intro claim_fresh) auto
  moreover have "find_step (pl_steps (updateStep ?r i (claim_overrides ?r ?s (now + ms)))) i =
      Some (claim_overrides ?r ?s (now + ms) ?s)"
    using fs mem by (simp add: updateStep_steps find_step_map claim_overrides_def)
  ultimately show ?thesis
    using fs key attempts
    by (simp add: completePlanStep_def requireStep_def assertRunningAndIdempotent_def)
       (simp add: claim_overrides_def)
qed

theorem expired_lease_is_recovered_witness:
  "completePlanStep (releaseExpiredLeases sample_claimed 2000) ''a'' ''p:a:h'' None = Inl INVALID_TRANSITION"
proof -
  let ?s = "claim_overrides sample_plan (sample_step ''a'' ''get_canvas_summary'' []) 1030
     (sample_step ''a'' ''get_canvas_summary'' [])"
  obtain c where c: "compile sample_plan 1 Canvas_general = Inr c" using sample_plan_compiles by blast
  have "plan_inv Canvas_general sample_claimed"
    by (rule plan_inv_reaches [OF sample_reaches plan_inv_start [OF c sample_pending]])
  moreover have "find_step (pl_steps sample_claimed) ''a'' = Some ?s"
    by (simp add: sample_claimed_def updateStep_def clonePlanStep_def sample_defs find_step_def
        claim_overrides_def)
  moreover have "lease_expired 2000 ?s" "st_idempotencyKey ?s = Some ''p:a:h''"
    "st_attemptCount ?s = Some 1"
    by (simp_all add: lease_expired_def claim_overrides_def sample_defs)
  ultimately show ?thesis using expired_lease_is_recovered by blast
qed

end
