(* ===== verification/Dependencies.thy ===== *)
theory Dependencies
  imports PlanState
begin

text \<open>
  The dependency compiler (\<^verbatim>\<open>application/canvas-dependency-compiler.ts\<close>): the steps a change reaches,
  and the plan that runs them again.
\<close>

section \<open>The impact set\<close>

text \<open>The \<open>for\<close> loop over the steps, with \<open>impacted\<close> and the flag \<open>changed\<close>.\<close>

fun impact_pass :: "plan_step list \<Rightarrow> string set \<times> bool \<Rightarrow> string set \<times> bool" where
  "impact_pass [] acc = acc"
| "impact_pass (step # rest) (impacted, changed) =
     (if st_id step \<notin> impacted \<and> (\<exists>d \<in> set (st_dependsOn step). d \<in> impacted)
      then impact_pass rest (insert (st_id step) impacted, True)
      else impact_pass rest (impacted, changed))"

lemma impact_pass_mono: "impacted \<subseteq> fst (impact_pass steps (impacted, c))"
  by (induction steps "(impacted, c)" arbitrary: impacted c rule: impact_pass.induct)
     (force split: if_splits)+

lemma impact_pass_unchanged:
  "\<not> snd (impact_pass steps (impacted, c)) \<Longrightarrow> fst (impact_pass steps (impacted, c)) = impacted \<and> \<not> c"
proof (induction steps arbitrary: impacted c)
  case (Cons s rest)
  show ?case
  proof (cases "st_id s \<notin> impacted \<and> (\<exists>d \<in> set (st_dependsOn s). d \<in> impacted)")
    case True
    with Cons.prems Cons.IH [of "insert (st_id s) impacted" True] show ?thesis by simp
  next
    case False
    then have eq: "impact_pass (s # rest) (impacted, c) = impact_pass rest (impacted, c)"
      by (simp only: impact_pass.simps if_False)
    show ?thesis unfolding eq by (rule Cons.IH) (use Cons.prems in \<open>simp only: eq not_False_eq_True\<close>)
  qed
qed simp

lemma impact_pass_changed:
  "snd (impact_pass steps (impacted, c)) \<Longrightarrow>
   c \<or> (\<exists>i \<in> set (step_ids steps). i \<in> fst (impact_pass steps (impacted, c)) \<and> i \<notin> impacted)"
proof (induction steps arbitrary: impacted c)
  case (Cons s rest)
  show ?case
  proof (cases "st_id s \<notin> impacted \<and> (\<exists>d \<in> set (st_dependsOn s). d \<in> impacted)")
    case True
    with impact_pass_mono [of "insert (st_id s) impacted" rest True] show ?thesis by auto
  next
    case False
    with Cons.prems have "snd (impact_pass rest (impacted, c))" by (simp only: impact_pass.simps if_False)
    with Cons.IH [of impacted c] False show ?thesis by auto
  qed
qed simp

text \<open>The \<open>while (changed)\<close> loop: each round that goes on adds the id of a step.\<close>

function impact_loop :: "plan_step list \<Rightarrow> string set \<Rightarrow> string set" where
  "impact_loop steps impacted =
     (let (impacted', changed) = impact_pass steps (impacted, False)
      in if changed then impact_loop steps impacted' else impacted')"
  by pat_completeness auto
termination
proof (relation "measure (\<lambda>(steps, impacted). card (set (step_ids steps) - impacted))", goal_cases)
  case (2 steps impacted x impacted' changed)
  then have run: "impact_pass steps (impacted, False) = (impacted', True)" by simp
  with impact_pass_changed [of steps impacted False] impact_pass_mono [of impacted steps False]
  obtain i where "i \<in> set (step_ids steps)" "i \<in> impacted'" "i \<notin> impacted" "impacted \<subseteq> impacted'"
    by auto
  then have "set (step_ids steps) - impacted' \<subset> set (step_ids steps) - impacted" by blast
  then show ?case by (auto intro!: psubset_card_mono)
qed simp

declare impact_loop.simps [simp del]

definition impactSet :: "plan_step list \<Rightarrow> string list \<Rightarrow> string list" where
  "impactSet steps changedStepIds =
     (let impacted = impact_loop steps (set changedStepIds)
      in map st_id (filter (\<lambda>step. st_id step \<in> impacted) steps))"

section \<open>Running a step again\<close>

definition rerun :: "agent_plan \<Rightarrow> string \<Rightarrow> agent_plan \<times> num" where
  "rerun plan changedStepId =
     (let impacted = set (impactSet (pl_steps plan) [changedStepId]);
          steps = map (\<lambda>step. if st_id step \<in> impacted
                        then clonePlanStep step (\<lambda>s. s\<lparr>st_status := Pending\<rparr>) else step) (pl_steps plan)
      in (plan\<lparr>pl_version := pl_version plan + 1, pl_steps := steps\<rparr>,
          foldl (\<lambda>total step. total + st_estimatedCost step) 0
            (filter (\<lambda>step. st_id step \<in> impacted) steps)))"

section \<open>The impact set is the set of dependents\<close>

text \<open>
  The steps that depend on a changed step, directly or through others.  The loop keeps to that set and
  stops only when it is closed.
\<close>

definition dependents :: "plan_step list \<Rightarrow> string set \<Rightarrow> string set" where
  "dependents steps changed = {i. \<exists>c \<in> changed. (i, c) \<in> (dep_rel steps)\<^sup>*}"

lemma impact_pass_sound:
  assumes "dep_rel steps \<subseteq> r" "impacted \<subseteq> S" "\<And>i d. (i, d) \<in> r \<Longrightarrow> d \<in> S \<Longrightarrow> i \<in> S"
  shows "fst (impact_pass steps (impacted, c)) \<subseteq> S"
  using assms(1,2)
proof (induction steps arbitrary: impacted c)
  case (Cons s rest)
  have sub: "dep_rel rest \<subseteq> r" using Cons.prems(1) by (auto simp: dep_rel_UN)
  show ?case
  proof (cases "st_id s \<notin> impacted \<and> (\<exists>d \<in> set (st_dependsOn s). d \<in> impacted)")
    case True
    then obtain d where "d \<in> set (st_dependsOn s)" "d \<in> impacted" by blast
    moreover from this have "(st_id s, d) \<in> r" using Cons.prems(1) by (auto simp: dep_rel_UN)
    ultimately have "st_id s \<in> S" using Cons.prems(2) assms(3) by blast
    with Cons.IH [OF sub, of "insert (st_id s) impacted" True] Cons.prems(2) True show ?thesis by simp
  next
    case False
    then have "impact_pass (s # rest) (impacted, c) = impact_pass rest (impacted, c)"
      by (simp only: impact_pass.simps if_False)
    with Cons.IH [OF sub Cons.prems(2)] show ?thesis by simp
  qed
qed simp

lemma impact_pass_closed:
  assumes "\<not> snd (impact_pass steps (impacted, c))" "(i, d) \<in> dep_rel steps" "d \<in> impacted"
  shows "i \<in> impacted"
  using assms
proof (induction steps arbitrary: c)
  case (Cons s rest)
  have "\<not> (st_id s \<notin> impacted \<and> (\<exists>d \<in> set (st_dependsOn s). d \<in> impacted))"
  proof
    assume t: "st_id s \<notin> impacted \<and> (\<exists>d \<in> set (st_dependsOn s). d \<in> impacted)"
    then have "impact_pass (s # rest) (impacted, c) = impact_pass rest (insert (st_id s) impacted, True)"
      by simp
    with Cons.prems(1) impact_pass_unchanged [of rest "insert (st_id s) impacted" True] show False by simp
  qed
  moreover from this have "impact_pass (s # rest) (impacted, c) = impact_pass rest (impacted, c)"
    by (simp only: impact_pass.simps if_False)
  ultimately show ?case using Cons by (auto simp: dep_rel_UN)
qed (simp add: dep_rel_UN)

lemma impact_loop_facts:
  "impacted \<subseteq> impact_loop steps impacted \<and> impact_loop steps impacted \<subseteq> dependents steps impacted \<and>
   (\<forall>(i, d) \<in> dep_rel steps. d \<in> impact_loop steps impacted \<longrightarrow> i \<in> impact_loop steps impacted)"
proof (induction steps impacted rule: impact_loop.induct)
  case (1 steps impacted)
  obtain impacted' changed where run: "impact_pass steps (impacted, False) = (impacted', changed)" by force
  have up: "impacted \<subseteq> impacted'" using impact_pass_mono [of impacted steps False] run by simp
  have sound: "impacted' \<subseteq> dependents steps impacted"
    using impact_pass_sound [of steps "dep_rel steps" impacted "dependents steps impacted" False] run
    by (auto simp: dependents_def intro: converse_rtrancl_into_rtrancl)
  show ?case
  proof (cases changed)
    case True
    with run have eq: "impact_loop steps impacted = impact_loop steps impacted'"
      by (simp add: impact_loop.simps [of steps impacted])
    have "dependents steps impacted' \<subseteq> dependents steps impacted"
    proof
      fix i assume "i \<in> dependents steps impacted'"
      then obtain c' where "c' \<in> impacted'" "(i, c') \<in> (dep_rel steps)\<^sup>*" by (auto simp: dependents_def)
      moreover from this sound obtain c where "c \<in> impacted" "(c', c) \<in> (dep_rel steps)\<^sup>*"
        by (auto simp: dependents_def)
      ultimately show "i \<in> dependents steps impacted" unfolding dependents_def by (blast intro: rtrancl_trans)
    qed
    with "1.IH" [OF run [symmetric] refl True] up show ?thesis unfolding eq by blast
  next
    case False
    with run have "impact_loop steps impacted = impacted" "impacted' = impacted"
      using impact_pass_unchanged [of steps impacted False] by (simp_all add: impact_loop.simps [of steps impacted])
    with False run sound impact_pass_closed [of steps impacted False] show ?thesis by auto
  qed
qed

lemma impact_loop_eq: "impact_loop steps impacted = dependents steps impacted"
proof
  show "impact_loop steps impacted \<subseteq> dependents steps impacted" using impact_loop_facts by blast
  have "i \<in> impact_loop steps impacted" if "(i, c) \<in> (dep_rel steps)\<^sup>*" "c \<in> impacted" for i c
    using that by (induction rule: converse_rtrancl_induct) (use impact_loop_facts in blast)+
  then show "dependents steps impacted \<subseteq> impact_loop steps impacted" by (auto simp: dependents_def)
qed

lemma impactSet_eq:
  "impactSet steps changed = filter (\<lambda>i. i \<in> dependents steps (set changed)) (step_ids steps)"
  by (simp add: impactSet_def impact_loop_eq filter_map comp_def)

lemma rerun_steps:
  "pl_steps (fst (rerun plan i)) =
   map (\<lambda>s. if st_id s \<in> dependents (pl_steps plan) {i} then s\<lparr>st_status := Pending\<rparr> else s) (pl_steps plan)"
  by (auto simp: rerun_def Let_def impactSet_eq clonePlanStep_def)

lemma rerun_fields [simp]:
  "pl_id (fst (rerun plan i)) = pl_id plan" "pl_sessionId (fst (rerun plan i)) = pl_sessionId plan"
  "pl_canvasVersion (fst (rerun plan i)) = pl_canvasVersion plan"
  "pl_version (fst (rerun plan i)) = pl_version plan + 1"
  by (simp_all add: rerun_def Let_def)

lemma rerun_ids: "step_ids (pl_steps (fst (rerun plan i))) = step_ids (pl_steps plan)"
  by (simp add: rerun_steps comp_def if_distrib cong: if_cong)

lemma rerun_deps: "dep_rel (pl_steps (fst (rerun plan i))) = dep_rel (pl_steps plan)"
  by (simp add: rerun_steps dep_rel_map)

lemma foldl_cost:
  "foldl (\<lambda>total step. total + st_estimatedCost step) 0 (steps :: plan_step list) = sum_list (map st_estimatedCost steps)"
  using total_cost_sum [of steps] by (simp add: total_cost_def)

lemma filter_impactSet:
  assumes "step_ids (xs :: plan_step list) = step_ids steps"
  shows "filter (\<lambda>s. st_id s \<in> set (impactSet steps cs)) xs = filter (\<lambda>s. st_id s \<in> dependents steps (set cs)) xs"
proof (intro filter_cong refl)
  fix s assume "s \<in> set xs"
  then have "st_id s \<in> set (step_ids xs)" by simp
  then show "st_id s \<in> set (impactSet steps cs) \<longleftrightarrow> st_id s \<in> dependents steps (set cs)"
    unfolding assms impactSet_eq by simp
qed

lemma rerun_cost:
  "snd (rerun plan i) =
   sum_list (map st_estimatedCost (filter (\<lambda>s. st_id s \<in> dependents (pl_steps plan) {i}) (pl_steps plan)))"
proof -
  let ?steps = "pl_steps plan" and ?D = "dependents (pl_steps plan) {i}"
  have keep: "map st_estimatedCost (filter (\<lambda>s. st_id s \<in> D)
        (map (\<lambda>s. if st_id s \<in> D then s\<lparr>st_status := Pending\<rparr> else s) steps)) =
      map st_estimatedCost (filter (\<lambda>s. st_id s \<in> D) steps)" for D and steps :: "plan_step list"
    by (induction steps) auto
  have "snd (rerun plan i) = foldl (\<lambda>total step. total + st_estimatedCost step) 0
      (filter (\<lambda>s. st_id s \<in> set (impactSet ?steps [i])) (pl_steps (fst (rerun plan i))))"
    by (simp add: rerun_def Let_def)
  also have "\<dots> = sum_list (map st_estimatedCost (filter (\<lambda>s. st_id s \<in> ?D) (pl_steps (fst (rerun plan i)))))"
    by (simp add: foldl_cost filter_impactSet rerun_ids)
  finally show ?thesis by (simp only: rerun_steps keep)
qed

section \<open>Properties\<close>

text \<open>
  C14. The impact set of a change is exactly the set of steps that depend on a changed step, directly or
  through any chain of dependencies (a changed step of the plan included), in plan order and each step
  once when the plan's ids are distinct: the loop neither stops early nor overshoots.
\<close>

theorem impact_set_is_dependents:
  "impactSet steps changed = filter (\<lambda>i. \<exists>c \<in> set changed. (i, c) \<in> (dep_rel steps)\<^sup>*) (step_ids steps)"
  by (simp add: impactSet_eq dependents_def)

text \<open>
  Running a step again gives the next version of the plan in which exactly the steps that depend on it
  are pending, every other step is unchanged, ids and dependencies are kept, and the cost charged is the
  sum of the estimates of the steps to run again.
\<close>

theorem rerun_resets_dependents:
  "pl_version (fst (rerun plan i)) = pl_version plan + 1 \<and>
   pl_steps (fst (rerun plan i)) =
      map (\<lambda>s. if (st_id s, i) \<in> (dep_rel (pl_steps plan))\<^sup>* then s\<lparr>st_status := Pending\<rparr> else s) (pl_steps plan) \<and>
   snd (rerun plan i) = sum_list (map st_estimatedCost
      (filter (\<lambda>s. (st_id s, i) \<in> (dep_rel (pl_steps plan))\<^sup>*) (pl_steps plan)))"
  by (simp_all add: rerun_steps rerun_cost dependents_def)

end
