(* ===== verification/TaskTerminal.thy ===== *)
theory TaskTerminal
  imports Prelude
begin

text \<open>
  Terminal callbacks of generation tasks (\<^verbatim>\<open>application/task-terminal-service.ts\<close>) and the PostgreSQL
  store behind them (\<^verbatim>\<open>infrastructure/pg-task-terminal-store.ts\<close>).  The interface
  \<^verbatim>\<open>TerminalStore\<close> is a record of functions; its contract is a locale, interpreted on both stores.

  The rows of a table are a list.  A constraint of the migrations that a statement would break makes the
  statement fail, and with it the transaction.
\<close>

datatype terminal_status = Term_succeeded | Term_failed | Term_cancelled | Term_expired | Term_settlement_error

record terminal_notice =
  tn_taskId :: string
  tn_userId :: "string option"
  tn_status :: terminal_status
  tn_nodeId :: "string option"
  tn_canvasId :: "string option"
  tn_output :: "(string \<times> json) list option"
  tn_errorCode :: "string option"
  tn_actualCost :: "num option"

record task_association =
  ta_taskId :: string
  ta_actionId :: string
  ta_runId :: string
  ta_sessionId :: string
  ta_userId :: "string option"
  ta_continueAfterTask :: bool

datatype terminal_error = PERMISSION_DENIED | NOT_FOUND | DB_CONSTRAINT

record 's terminal_store =
  findTask :: "'s \<Rightarrow> string \<Rightarrow> task_association option"
  getTerminalStatus :: "'s \<Rightarrow> string \<Rightarrow> terminal_status option"
  markTerminal :: "terminal_notice \<Rightarrow> task_association \<Rightarrow> 's \<Rightarrow> terminal_error + (bool \<times> 's)"
  warnConflict :: "terminal_notice \<Rightarrow> terminal_status \<Rightarrow> 's \<Rightarrow> 's"

text \<open>The result: accepted, and the two optional flags.\<close>

record terminal_result =
  tr_duplicate :: bool
  tr_conflict :: bool
  tr_sessionId :: string
  tr_association :: task_association

section \<open>The service\<close>

text \<open>\<^verbatim>\<open>safeEqual\<close> compares the bytes of two strings: it is their equality.\<close>

definition assertAuthorized :: "string \<Rightarrow> string \<Rightarrow> terminal_error + unit" where
  "assertAuthorized secret supplied =
     throw_if (secret = [] \<or> \<not> (length secret = length supplied \<and> secret = supplied)) PERMISSION_DENIED (Inr ())"

definition result_for :: "task_association \<Rightarrow> bool \<Rightarrow> bool \<Rightarrow> terminal_result" where
  "result_for a dup conflict =
     \<lparr>tr_duplicate = dup, tr_conflict = conflict, tr_sessionId = ta_sessionId a, tr_association = a\<rparr>"

text \<open>
  \<open>handle\<close> up to the call of \<open>markTerminal\<close>, and that call: two callbacks may run between the two.
\<close>

datatype decision = Settled terminal_result | Fresh task_association

definition decide :: "'s terminal_store \<Rightarrow> terminal_notice \<Rightarrow> 's \<Rightarrow> terminal_error + (decision \<times> 's)" where
  "decide store notice s =
     rbind (require_some NOT_FOUND (findTask store s (tn_taskId notice))) (\<lambda>a.
       case getTerminalStatus store s (tn_taskId notice) of
         None \<Rightarrow> Inr (Fresh a, s)
       | Some previous \<Rightarrow>
           if previous = tn_status notice then Inr (Settled (result_for a True False), s)
           else Inr (Settled (result_for a False True), warnConflict store notice previous s))"

definition mark :: "'s terminal_store \<Rightarrow> terminal_notice \<Rightarrow> task_association \<Rightarrow> 's \<Rightarrow>
    terminal_error + (terminal_result \<times> 's)" where
  "mark store notice a s =
     rbind (markTerminal store notice a s) (\<lambda>(inserted, s').
       Inr (result_for a (\<not> inserted) False, s'))"

definition handle :: "'s terminal_store \<Rightarrow> string \<Rightarrow> terminal_notice \<Rightarrow> string \<Rightarrow> 's \<Rightarrow>
    terminal_error + (terminal_result \<times> 's)" where
  "handle store secret notice supplied s =
     rbind (assertAuthorized secret supplied) (\<lambda>_.
     rbind (decide store notice s) (\<lambda>(d, s').
       case d of Settled r \<Rightarrow> Inr (r, s') | Fresh a \<Rightarrow> mark store notice a s'))"

text \<open>A sequence of callbacks; one that throws changes nothing.\<close>

fun deliver :: "'s terminal_store \<Rightarrow> string \<Rightarrow> (terminal_notice \<times> string) list \<Rightarrow> 's \<Rightarrow> 's" where
  "deliver store secret [] s = s"
| "deliver store secret ((notice, supplied) # rest) s =
     (case handle store secret notice supplied s of
        Inl e \<Rightarrow> deliver store secret rest s
      | Inr (r, s') \<Rightarrow> deliver store secret rest s')"

section \<open>The in-memory store\<close>

record memory_store =
  ms_events :: "(terminal_notice \<times> task_association) list"
  ms_warnings :: "(terminal_notice \<times> terminal_status) list"
  ms_status :: "terminal_status option"
  ms_association :: task_association

definition memory_terminal_store :: "memory_store terminal_store" where
  "memory_terminal_store =
     \<lparr> findTask = (\<lambda>s taskId. if taskId = ta_taskId (ms_association s) then Some (ms_association s) else None),
       getTerminalStatus = (\<lambda>s taskId. ms_status s),
       markTerminal = (\<lambda>notice a s. Inr (True,
         s\<lparr>ms_status := Some (tn_status notice), ms_events := ms_events s @ [(notice, a)]\<rparr>)),
       warnConflict = (\<lambda>notice previous s. s\<lparr>ms_warnings := ms_warnings s @ [(notice, previous)]\<rparr>) \<rparr>"

section \<open>The PostgreSQL store\<close>

datatype action_result =
    Action_planned | Action_awaiting_approval | Action_approved | Action_rejected
  | Action_running | Action_succeeded | Action_failed | Action_compensation_required

record action_row =
  ar_id :: string
  ar_action_type :: string
  ar_session_id :: string
  ar_run_id :: "string option"
  ar_user_id :: string
  ar_task_id :: "string option"
  ar_params :: json
  ar_created_at :: int
  ar_status :: action_result
  ar_result :: "terminal_notice option"
  ar_error_code :: "string option"

record notice_row =
  nr_id :: string
  nr_session_id :: string
  nr_task_id :: string
  nr_terminal_status :: terminal_status
  nr_payload :: terminal_notice

record terminal_db =
  td_actions :: "action_row list"
  td_notices :: "notice_row list"
  td_conflicts :: "(string \<times> terminal_status \<times> terminal_status \<times> terminal_notice) list"

text \<open>
  \<open>ORDER BY k DESC LIMIT 1\<close>: the row with the greatest key; the earliest such row where the source
  leaves the choice open.
\<close>

fun newest :: "('r \<Rightarrow> 'k::linorder) \<Rightarrow> 'r list \<Rightarrow> 'r option" where
  "newest k [] = None"
| "newest k (r # rs) =
     (case newest k rs of None \<Rightarrow> Some r | Some q \<Rightarrow> Some (if k r < k q then q else r))"

lemma newest_mem: "newest k rs = Some r \<Longrightarrow> r \<in> set rs"
  by (induction rs arbitrary: r) (auto split: option.splits if_splits)

lemma newest_None: "newest k rs = None \<longleftrightarrow> rs = []"
  by (cases rs) (auto split: option.splits)

lemma newest_map:
  "(\<And>r. k (f r) = k r) \<Longrightarrow> newest k (map f rs) = map_option f (newest k rs)"
  by (induction rs) (auto split: option.splits)

text \<open>The value of a decimal string, as PostgreSQL reads a \<open>BIGINT\<close>.\<close>

definition decimal :: "string \<Rightarrow> nat" where
  "decimal s = foldl (\<lambda>n c. 10 * n + (of_char c - 48)) 0 s"

text \<open>
  \<^verbatim>\<open>actionContinueAfterTask\<close>: a string is parsed as JSON first, by \<open>parse\<close>, which is the standard
  library's \<^verbatim>\<open>JSON.parse\<close>; a string that holds a string is parsed again, which the fuel counts.
\<close>

definition continue_flag :: "json \<Rightarrow> bool" where
  "continue_flag v = (case v of
      JObj fs \<Rightarrow> map_of fs ''continueAfterTask'' = Some (JBool True)
    | _ \<Rightarrow> False)"

fun actionContinueAfterTask :: "(string \<Rightarrow> json option) \<Rightarrow> nat \<Rightarrow> json \<Rightarrow> bool" where
  "actionContinueAfterTask parse 0 v = False"
| "actionContinueAfterTask parse (Suc fuel) v =
     (case v of
        JStr text \<Rightarrow> (case parse text of None \<Rightarrow> False | Some w \<Rightarrow> actionContinueAfterTask parse fuel w)
      | _ \<Rightarrow> continue_flag v)"

definition pg_findTask :: "(json \<Rightarrow> bool) \<Rightarrow> terminal_db \<Rightarrow> string \<Rightarrow> task_association option" where
  "pg_findTask continues db taskId =
     (case newest ar_created_at (filter (\<lambda>r. ar_task_id r = Some taskId) (td_actions db)) of
        None \<Rightarrow> None
      | Some row \<Rightarrow>
          (case ar_run_id row of
             None \<Rightarrow> None
           | Some run \<Rightarrow> Some \<lparr> ta_taskId = taskId, ta_actionId = ar_id row, ta_runId = run,
               ta_sessionId = ar_session_id row, ta_userId = Some (ar_user_id row),
               ta_continueAfterTask = continues (ar_params row) \<rparr>))"

definition pg_getTerminalStatus :: "terminal_db \<Rightarrow> string \<Rightarrow> terminal_status option" where
  "pg_getTerminalStatus db taskId =
     map_option nr_terminal_status
       (newest (\<lambda>r. decimal (nr_id r)) (filter (\<lambda>r. nr_task_id r = taskId) (td_notices db)))"

definition action_status_for :: "terminal_status \<Rightarrow> action_result" where
  "action_status_for st =
     (if st = Term_succeeded then Action_succeeded
      else if st = Term_settlement_error then Action_compensation_required
      else Action_failed)"

text \<open>
  The insert does nothing when a notice with the same session, task and status is there; a notice with
  the same primary key, the action's id, breaks the constraint.  The ids of a notice are texts of digits, which the
  route has checked; that one of them exceeds a \<open>BIGINT\<close> is left out.
\<close>

definition pg_markTerminal ::
  "terminal_notice \<Rightarrow> task_association \<Rightarrow> terminal_db \<Rightarrow> terminal_error + (bool \<times> terminal_db)" where
  "pg_markTerminal notice a db =
     (if \<exists>r \<in> set (td_notices db). nr_session_id r = ta_sessionId a \<and> nr_task_id r = tn_taskId notice \<and>
          nr_terminal_status r = tn_status notice
      then Inr (False, db)
      else throw_if (\<exists>r \<in> set (td_notices db). nr_id r = ta_actionId a) DB_CONSTRAINT
        (Inr (True, db\<lparr>
          td_notices := td_notices db @
            [\<lparr>nr_id = ta_actionId a, nr_session_id = ta_sessionId a, nr_task_id = tn_taskId notice,
              nr_terminal_status = tn_status notice, nr_payload = notice\<rparr>],
          td_actions := map (\<lambda>r. if ar_id r = ta_actionId a \<and> ar_task_id r = Some (tn_taskId notice)
            then r\<lparr>ar_status := action_status_for (tn_status notice), ar_result := Some notice,
                   ar_error_code := tn_errorCode notice\<rparr>
            else r) (td_actions db)\<rparr>)))"

text \<open>The audit row gets a new id; that two processes draw the same one is left out.\<close>

definition pg_warnConflict :: "terminal_notice \<Rightarrow> terminal_status \<Rightarrow> terminal_db \<Rightarrow> terminal_db" where
  "pg_warnConflict notice previous db =
     db\<lparr>td_conflicts := td_conflicts db @ [(tn_taskId notice, previous, tn_status notice, notice)]\<rparr>"

definition pg_terminal_store :: "(json \<Rightarrow> bool) \<Rightarrow> terminal_db terminal_store" where
  "pg_terminal_store continues =
     \<lparr> findTask = pg_findTask continues, getTerminalStatus = pg_getTerminalStatus,
       markTerminal = pg_markTerminal, warnConflict = pg_warnConflict \<rparr>"


lemmas terminal_store_defs =
  memory_terminal_store_def pg_terminal_store_def pg_findTask_def pg_getTerminalStatus_def
  pg_markTerminal_def pg_warnConflict_def

section \<open>The contract of a store\<close>

text \<open>
  What the service relies on: the association of a task does not change; the first mark of a task is
  recorded and no other task the store knows is touched; a warning records no status.
\<close>

locale terminal_contract =
  fixes store :: "'s terminal_store"
  assumes mark_first:
      "findTask store s (tn_taskId n) = Some a \<Longrightarrow> getTerminalStatus store s (tn_taskId n) = None \<Longrightarrow>
       markTerminal store n a s = Inr (b, s') \<Longrightarrow>
       b \<and> getTerminalStatus store s' (tn_taskId n) = Some (tn_status n)"
    and mark_other:
      "findTask store s (tn_taskId n) = Some a \<Longrightarrow> markTerminal store n a s = Inr (b, s') \<Longrightarrow>
       findTask store s t = Some c \<Longrightarrow> t \<noteq> tn_taskId n \<Longrightarrow>
       getTerminalStatus store s' t = getTerminalStatus store s t"
    and mark_find: "markTerminal store n a s = Inr (b, s') \<Longrightarrow> findTask store s' t = findTask store s t"
    and warn_find: "findTask store (warnConflict store n p s) t = findTask store s t"
    and warn_status: "getTerminalStatus store (warnConflict store n p s) t = getTerminalStatus store s t"
begin

text \<open>What one callback does to the association and the status of a task the store knows.\<close>

lemma handle_find: "handle store secret n cred s = Inr (r, s') \<Longrightarrow> findTask store s' t = findTask store s t"
  by (auto simp: handle_def decide_def mark_def result_simps split_beta warn_find
      split: option.splits decision.splits if_splits dest: mark_find)

lemma handle_settled:
  assumes "findTask store s (tn_taskId n) = Some a" "getTerminalStatus store s (tn_taskId n) = Some p"
    "assertAuthorized secret cred = Inr ()"
  shows "\<exists>s'. handle store secret n cred s = Inr (result_for a (p = tn_status n) (p \<noteq> tn_status n), s') \<and>
    getTerminalStatus store s' t = getTerminalStatus store s t"
  using assms by (simp add: handle_def decide_def warn_status)

lemma handle_status_kept:
  assumes "handle store secret n cred s = Inr (r, s')" "findTask store s t = Some c"
    "getTerminalStatus store s t = Some p"
  shows "getTerminalStatus store s' t = Some p"
  using assms
  by (auto simp: handle_def decide_def mark_def result_simps split_beta warn_status
      split: option.splits decision.splits if_splits)
     (metis mark_other option.distinct(1))+

lemma deliver_status_kept:
  "findTask store s t = Some c \<Longrightarrow> getTerminalStatus store s t = Some p \<Longrightarrow>
   findTask store (deliver store secret ns s) t = Some c \<and>
   getTerminalStatus store (deliver store secret ns s) t = Some p"
proof (induction ns arbitrary: s)
  case (Cons nc rest)
  obtain n cred where [simp]: "nc = (n, cred)" by force
  show ?case
  proof (cases "handle store secret n cred s")
    case (Inr rs)
    then show ?thesis
      using Cons handle_find handle_status_kept by (cases rs) auto
  qed (use Cons in simp)
qed simp

lemma handle_fresh:
  assumes "handle store secret n cred s = Inr (r, s')" "\<not> tr_duplicate r" "\<not> tr_conflict r"
  shows "\<exists>a. findTask store s' (tn_taskId n) = Some a \<and> findTask store s (tn_taskId n) = Some a \<and>
    getTerminalStatus store s (tn_taskId n) = None \<and>
    getTerminalStatus store s' (tn_taskId n) = Some (tn_status n) \<and> assertAuthorized secret cred = Inr ()"
proof -
  from assms(1) have auth: "assertAuthorized secret cred = Inr ()" by (simp add: handle_def result_simps)
  from assms obtain a where a: "findTask store s (tn_taskId n) = Some a"
    and none: "getTerminalStatus store s (tn_taskId n) = None"
    and "mark store n a s = Inr (r, s')"
    by (auto simp: handle_def decide_def result_simps result_for_def split: option.splits decision.splits if_splits)
  then obtain b where "markTerminal store n a s = Inr (b, s')" by (auto simp: mark_def result_simps)
  with mark_first [OF a none this] mark_find [OF this] auth none a show ?thesis by simp
qed

text \<open>The first callback of a task decides; whatever follows, a later one is a duplicate or a conflict.\<close>

lemma first_callback_decides:
  assumes first: "handle store secret n cred s = Inr (r, s1)" "\<not> tr_duplicate r" "\<not> tr_conflict r"
    and later: "tn_taskId m = tn_taskId n"
  shows "getTerminalStatus store (deliver store secret ns s1) (tn_taskId n) = Some (tn_status n) \<and>
    (\<exists>r' s'. handle store secret m cred (deliver store secret ns s1) = Inr (r', s') \<and>
       tr_duplicate r' = (tn_status m = tn_status n) \<and> tr_conflict r' = (tn_status m \<noteq> tn_status n) \<and>
       getTerminalStatus store s' (tn_taskId n) = Some (tn_status n))"
proof -
  from handle_fresh [OF first] obtain a where a: "findTask store s1 (tn_taskId n) = Some a"
    "getTerminalStatus store s1 (tn_taskId n) = Some (tn_status n)" and auth: "assertAuthorized secret cred = Inr ()"
    by blast
  let ?s = "deliver store secret ns s1"
  from deliver_status_kept [OF a] have k: "findTask store ?s (tn_taskId m) = Some a"
    "getTerminalStatus store ?s (tn_taskId m) = Some (tn_status n)" by (simp_all add: later)
  from handle_settled [OF k auth, of "tn_taskId m"] k show ?thesis
    by (auto simp: later result_for_def)
qed

end

interpretation mem_terminal: terminal_contract memory_terminal_store
  by unfold_locales (auto simp: memory_terminal_store_def split: if_splits)

lemma filter_map_same: "(\<And>r. P (f r) = P r) \<Longrightarrow> filter P (map f rs) = map f (filter P rs)"
  by (induction rs) auto

lemma pg_find_mark:
  assumes "pg_markTerminal n a s = Inr (b, s')"
  shows "pg_findTask continues s' t = pg_findTask continues s t"
  using assms
  by (auto simp: pg_findTask_def pg_markTerminal_def result_simps filter_map_same newest_map
      split: if_splits option.splits)

lemma pg_status_none: "pg_getTerminalStatus s t = None \<longleftrightarrow> (\<forall>r \<in> set (td_notices s). nr_task_id r \<noteq> t)"
  by (simp add: pg_getTerminalStatus_def newest_None filter_empty_conv)

lemma pg_mark_status:
  assumes "pg_markTerminal n a s = Inr (b, s')"
  shows "t \<noteq> tn_taskId n \<Longrightarrow> pg_getTerminalStatus s' t = pg_getTerminalStatus s t"
    and "pg_getTerminalStatus s (tn_taskId n) = None \<Longrightarrow>
      b \<and> pg_getTerminalStatus s' (tn_taskId n) = Some (tn_status n)"
proof -
  show "t \<noteq> tn_taskId n \<Longrightarrow> pg_getTerminalStatus s' t = pg_getTerminalStatus s t"
    using assms by (auto simp: pg_getTerminalStatus_def pg_markTerminal_def result_simps split: if_splits)
  assume none: "pg_getTerminalStatus s (tn_taskId n) = None"
  then have "filter (\<lambda>r. nr_task_id r = tn_taskId n) (td_notices s) = []"
    by (simp add: pg_status_none filter_empty_conv)
  with none assms show "b \<and> pg_getTerminalStatus s' (tn_taskId n) = Some (tn_status n)"
    by (auto simp: pg_status_none pg_markTerminal_def result_simps split: if_splits)
       (simp add: pg_getTerminalStatus_def)
qed

interpretation pg_terminal: terminal_contract "pg_terminal_store continues"
proof unfold_locales
  fix n a s b s' t c p
  let ?st = "pg_terminal_store continues"
  have defs: "findTask ?st = pg_findTask continues" "getTerminalStatus ?st = pg_getTerminalStatus"
    "markTerminal ?st = pg_markTerminal" "warnConflict ?st = pg_warnConflict"
    by (simp_all add: pg_terminal_store_def)
  show "findTask ?st (warnConflict ?st n p s) t = findTask ?st s t"
    "getTerminalStatus ?st (warnConflict ?st n p s) t = getTerminalStatus ?st s t"
    by (simp_all add: defs pg_warnConflict_def pg_findTask_def pg_getTerminalStatus_def)
  assume m: "markTerminal ?st n a s = Inr (b, s')"
  note m = m [unfolded defs]
  show "findTask ?st s' t = findTask ?st s t" unfolding defs by (rule pg_find_mark [OF m])
  show "getTerminalStatus ?st s (tn_taskId n) = None \<Longrightarrow>
    b \<and> getTerminalStatus ?st s' (tn_taskId n) = Some (tn_status n)"
    unfolding defs by (rule pg_mark_status(2) [OF m])
  show "t \<noteq> tn_taskId n \<Longrightarrow> getTerminalStatus ?st s' t = getTerminalStatus ?st s t"
    unfolding defs by (rule pg_mark_status(1) [OF m])
qed

section \<open>Two callbacks of a task that race\<close>

text \<open>
  Both have been decided on a database without a notice for the task, then each marks it.  Both marks
  name the same action, whose id is the notice's primary key: the second changes nothing.
\<close>

lemma pg_mark_ok:
  "pg_markTerminal n a s = Inr (True, s') \<Longrightarrow>
   td_notices s' = td_notices s @ [\<lparr>nr_id = ta_actionId a, nr_session_id = ta_sessionId a,
     nr_task_id = tn_taskId n, nr_terminal_status = tn_status n, nr_payload = n\<rparr>]"
  by (auto simp: pg_markTerminal_def result_simps split: if_splits)

lemma pg_mark_actions:
  "pg_markTerminal n a s = Inr (True, s') \<Longrightarrow>
   list_all2 (\<lambda>x y. y = (if ar_id x = ta_actionId a \<and> ar_task_id x = Some (tn_taskId n)
      then x\<lparr>ar_status := (case tn_status n of Term_succeeded \<Rightarrow> Action_succeeded
          | Term_settlement_error \<Rightarrow> Action_compensation_required | _ \<Rightarrow> Action_failed),
        ar_result := Some n, ar_error_code := tn_errorCode n\<rparr> else x)) (td_actions s) (td_actions s')"
  by (cases "tn_status n")
    (auto simp: pg_markTerminal_def result_simps list_all2_map2 action_status_for_def intro!: list.rel_refl_strong split: if_splits)

lemma pg_find_action:
  "pg_findTask continues s t = Some a \<Longrightarrow> \<exists>x \<in> set (td_actions s). ar_id x = ta_actionId a \<and> ar_task_id x = Some t"
  by (auto simp: pg_findTask_def split: option.splits dest!: newest_mem)

lemma pg_mark_again:
  assumes "pg_markTerminal n a s = Inr (True, s')" "tn_taskId m = tn_taskId n"
    "pg_getTerminalStatus s (tn_taskId n) = None"
  shows "pg_markTerminal m a s' = (if tn_status m = tn_status n then Inr (False, s') else Inl DB_CONSTRAINT)"
  using assms by (auto simp: pg_markTerminal_def [of m] pg_mark_ok pg_status_none throw_if_def)

section \<open>Properties\<close>

definition sample_action :: action_row where
  "sample_action = \<lparr>ar_id = ''10'', ar_action_type = ''agent_tool'', ar_session_id = ''s'', ar_run_id = Some ''r'', ar_user_id = ''u'',
     ar_task_id = Some ''t'', ar_params = JNull, ar_created_at = 5, ar_status = Action_running,
     ar_result = None, ar_error_code = None\<rparr>"

definition sample_terminal_db :: terminal_db where
  "sample_terminal_db = \<lparr>td_actions = [sample_action], td_notices = [], td_conflicts = []\<rparr>"

definition sample_notice :: "terminal_status \<Rightarrow> terminal_notice" where
  "sample_notice st = \<lparr>tn_taskId = ''t'', tn_userId = None, tn_status = st, tn_nodeId = None,
     tn_canvasId = None, tn_output = None, tn_errorCode = None, tn_actualCost = None\<rparr>"

lemmas sample_terminal_defs = sample_action_def sample_terminal_db_def sample_notice_def
  handle_def decide_def mark_def assertAuthorized_def result_for_def

text \<open>
  C10. The first callback of a task decides its terminal status for good.  Once a callback with the right
  secret has been accepted, neither as a duplicate nor as a conflict, then after any sequence of further
  callbacks, for any tasks and with any secrets, the recorded status is the first one, and another
  callback for the task is a duplicate when it repeats that status, a conflict when it does not, and
  changes the status in neither case.
\<close>

theorem first_terminal_callback_decides:
  assumes "handle (pg_terminal_store continues) secret n cred db = Inr (r, db1)"
    and "\<not> tr_duplicate r" "\<not> tr_conflict r" "tn_taskId m = tn_taskId n"
  shows "pg_getTerminalStatus (deliver (pg_terminal_store continues) secret ns db1) (tn_taskId n) =
      Some (tn_status n) \<and>
    (\<exists>r' db2. handle (pg_terminal_store continues) secret m cred
          (deliver (pg_terminal_store continues) secret ns db1) = Inr (r', db2) \<and>
       tr_duplicate r' = (tn_status m = tn_status n) \<and> tr_conflict r' = (tn_status m \<noteq> tn_status n) \<and>
       pg_getTerminalStatus db2 (tn_taskId n) = Some (tn_status n))"
proof -
  have get: "getTerminalStatus (pg_terminal_store continues) = pg_getTerminalStatus"
    by (simp add: pg_terminal_store_def)
  show ?thesis using pg_terminal.first_callback_decides [OF assms] by (simp add: get)
qed

theorem first_terminal_callback_decides_witness:
  "\<exists>r db1. handle (pg_terminal_store continue_flag) ''k'' (sample_notice Term_succeeded) ''k'' sample_terminal_db =
     Inr (r, db1) \<and>
   pg_getTerminalStatus (deliver (pg_terminal_store continue_flag) ''k'' [(sample_notice Term_failed, ''k'')] db1) ''t'' =
     Some Term_succeeded"
proof -
  let ?st = "pg_terminal_store continue_flag" and ?n = "sample_notice Term_succeeded"
  have "\<exists>r db1. handle ?st ''k'' ?n ''k'' sample_terminal_db = Inr (r, db1) \<and> \<not> tr_duplicate r \<and> \<not> tr_conflict r"
    by (simp add: sample_terminal_defs terminal_store_defs continue_flag_def)
  then obtain r db1 where h: "handle ?st ''k'' ?n ''k'' sample_terminal_db = Inr (r, db1)"
    and r: "\<not> tr_duplicate r" "\<not> tr_conflict r" by blast
  from first_terminal_callback_decides [OF h r refl, of "[(sample_notice Term_failed, ''k'')]"] h
  show ?thesis by (simp add: sample_notice_def)
qed

text \<open>
  C11. Two callbacks for one task may both find no terminal status before either has recorded its own.
  Whichever marks the task first is recorded: one notice is written, and the task's action, which is there, gets the
  status, the notice and the error code of this first callback, no other action being changed.  The second is then a
  duplicate when the statuses agree and fails on the notice's primary key when they do not, and in both cases leaves
  the tables as the first has left them.
\<close>

theorem racing_callbacks_record_one:
  assumes "decide (pg_terminal_store continues) n db = Inr (Fresh a, db)"
    and "decide (pg_terminal_store continues) m db = Inr (Fresh a, db)" "tn_taskId m = tn_taskId n"
    and "mark (pg_terminal_store continues) n a db = Inr (r, db1)"
  shows "\<not> tr_duplicate r \<and>
    td_notices db1 = td_notices db @ [\<lparr>nr_id = ta_actionId a, nr_session_id = ta_sessionId a,
      nr_task_id = tn_taskId n, nr_terminal_status = tn_status n, nr_payload = n\<rparr>] \<and>
    pg_getTerminalStatus db1 (tn_taskId n) = Some (tn_status n) \<and>
    (\<exists>x \<in> set (td_actions db). ar_id x = ta_actionId a \<and> ar_task_id x = Some (tn_taskId n)) \<and>
    list_all2 (\<lambda>x y. y = (if ar_id x = ta_actionId a \<and> ar_task_id x = Some (tn_taskId n)
        then x\<lparr>ar_status := (case tn_status n of Term_succeeded \<Rightarrow> Action_succeeded
            | Term_settlement_error \<Rightarrow> Action_compensation_required | _ \<Rightarrow> Action_failed),
          ar_result := Some n, ar_error_code := tn_errorCode n\<rparr> else x)) (td_actions db) (td_actions db1) \<and>
    mark (pg_terminal_store continues) m a db1 =
      (if tn_status m = tn_status n then Inr (result_for a True False, db1) else Inl DB_CONSTRAINT)"
proof -
  have none: "pg_getTerminalStatus db (tn_taskId n) = None"
    using assms(1) by (cases "pg_getTerminalStatus db (tn_taskId n)")
      (auto simp: decide_def pg_terminal_store_def result_simps split: if_splits)
  have found: "pg_findTask continues db (tn_taskId n) = Some a"
    using assms(1) by (auto simp: decide_def pg_terminal_store_def result_simps split: option.splits if_splits)
  from assms(4) obtain b where b: "pg_markTerminal n a db = Inr (b, db1)" and r: "r = result_for a (\<not> b) False"
    by (auto simp: mark_def pg_terminal_store_def result_simps)
  with pg_mark_status(2) [OF b none] have m: "pg_markTerminal n a db = Inr (True, db1)" by simp
  have "r = result_for a False False" using r b m by simp
  then show ?thesis
    using pg_mark_again [OF m assms(3) none] pg_mark_ok [OF m] pg_mark_actions [OF m] pg_mark_status(2) [OF m none] pg_find_action [OF found]
    by (auto simp: result_for_def mark_def pg_terminal_store_def)
qed

theorem racing_callbacks_record_one_witness:
  "\<exists>a db1. mark (pg_terminal_store continue_flag) (sample_notice Term_failed) a db1 = Inl DB_CONSTRAINT \<and>
     map ar_status (td_actions db1) = [Action_succeeded]"
proof -
  let ?st = "pg_terminal_store continue_flag"
  have "\<exists>a. (\<forall>st. decide ?st (sample_notice st) sample_terminal_db = Inr (Fresh a, sample_terminal_db)) \<and>
      (\<exists>r db1. mark ?st (sample_notice Term_succeeded) a sample_terminal_db = Inr (r, db1))"
    by (simp add: sample_terminal_defs terminal_store_defs continue_flag_def)
  then obtain a r db1 where d: "\<forall>st. decide ?st (sample_notice st) sample_terminal_db = Inr (Fresh a, sample_terminal_db)"
    and m: "mark ?st (sample_notice Term_succeeded) a sample_terminal_db = Inr (r, db1)" by blast
  note race = racing_callbacks_record_one [OF d [rule_format] d [rule_format, of Term_failed] _ m]
  then have "mark ?st (sample_notice Term_failed) a db1 = Inl DB_CONSTRAINT" by (simp add: sample_notice_def)
  moreover have "map ar_status (td_actions db1) = [Action_succeeded]"
    using race by (auto simp: sample_notice_def sample_terminal_db_def list_all2_Cons1 split: if_splits)
  ultimately show ?thesis by (intro exI conjI)
qed

end
