(* ===== verification/PlanRepository.thy ===== *)
theory PlanRepository
  imports Dependencies TaskTerminal
begin

text \<open>
  The PostgreSQL repository of plans (\<^verbatim>\<open>infrastructure/pg-plan-repository.ts\<close>) over its three tables
  (\<^verbatim>\<open>migrations/001\<close>, \<^verbatim>\<open>006\<close>, \<^verbatim>\<open>016\<close>, \<^verbatim>\<open>018\<close>).  A table is the list of its rows; a statement that
  would leave a table breaking one of its constraints fails.  A transaction that throws is rolled back,
  so an operation returns either an error or the new database.  \<open>SELECT ... FOR UPDATE\<close> makes the
  operations on one plan run one after the other, so each is one transition of the model.

  The surrogate ids of step rows are never read and are left out; the id \<open>nextId()\<close> of a new plan is an
  argument, and so is the clock.  \<open>JSON.stringify\<close> and \<open>JSONB\<close> give back the plan they are given.
\<close>

datatype repo_error =
    NOT_FOUND
  | PERMISSION_DENIED
  | VERSION_CONFLICT
  | Compile_error compile_error
  | Step_error step_error
  | Constraint_violated

datatype plan_status = Plan_draft | Plan_running | Plan_completed | Plan_failed

text \<open>The value of a \<open>plan_json\<close> column: a serialised plan, or anything else.\<close>

datatype plan_json = Plan_json agent_plan | Other_json

record session_row =
  se_id :: string
  se_user_id :: string
  se_status :: "string option"

record plan_row =
  pr_id :: string
  pr_session_id :: string
  pr_version :: int
  pr_canvas_version :: int
  pr_status :: plan_status
  pr_plan_json :: plan_json
  pr_created_by :: string

record step_row =
  sr_plan_id :: string
  sr_step_key :: string
  sr_tool_name :: string
  sr_depends_on :: "string list"
  sr_status :: step_status
  sr_input_hash :: string
  sr_estimated_cost :: num
  sr_effect :: "step_effect option"
  sr_concurrency_key :: "string option"
  sr_idempotency_key :: "string option"
  sr_task_id :: "string option"
  sr_lease_until :: "int option"
  sr_attempt_count :: nat
  sr_output_ref :: "string option"
  sr_last_error :: "string option"

record plan_db =
  db_sessions :: "session_row list"
  db_plans :: "plan_row list"
  db_steps :: "step_row list"

section \<open>Constraints and statements\<close>

text \<open>The primary key and \<open>UNIQUE(session_id, version)\<close> of \<open>agent_plans\<close>.\<close>

definition plans_ok :: "plan_row list \<Rightarrow> bool" where
  "plans_ok rows \<longleftrightarrow> distinct (map pr_id rows) \<and> distinct (map (\<lambda>r. (pr_session_id r, pr_version r)) rows)"

text \<open>
  \<open>UNIQUE(plan_id, step_key)\<close> and the two partial unique indexes of \<open>agent_plan_steps\<close>.
\<close>

definition idem_entry :: "step_row \<Rightarrow> (string \<times> string) option" where
  "idem_entry r = map_option (Pair (sr_plan_id r)) (sr_idempotency_key r)"

definition steps_ok :: "step_row list \<Rightarrow> bool" where
  "steps_ok rows \<longleftrightarrow> distinct (map (\<lambda>r. (sr_plan_id r, sr_step_key r)) rows) \<and>
     distinct (List.map_filter idem_entry rows) \<and> distinct (List.map_filter sr_task_id rows)"

definition write_plans :: "plan_row list \<Rightarrow> plan_db \<Rightarrow> repo_error + plan_db" where
  "write_plans rows db = throw_if (\<not> plans_ok rows) Constraint_violated (Inr (db\<lparr>db_plans := rows\<rparr>))"

definition write_steps :: "step_row list \<Rightarrow> plan_db \<Rightarrow> repo_error + plan_db" where
  "write_steps rows db = throw_if (\<not> steps_ok rows) Constraint_violated (Inr (db\<lparr>db_steps := rows\<rparr>))"

section \<open>Rows of steps\<close>

definition set_execution_columns :: "plan_step \<Rightarrow> step_row \<Rightarrow> step_row" where
  "set_execution_columns step r = r\<lparr>
     sr_status := st_status step, sr_effect := st_effect step,
     sr_concurrency_key := st_concurrencyKey step, sr_idempotency_key := st_idempotencyKey step,
     sr_task_id := st_taskId step, sr_lease_until := st_leaseUntil step,
     sr_attempt_count := (case st_attemptCount step of None \<Rightarrow> 0 | Some n \<Rightarrow> n),
     sr_output_ref := st_outputRef step, sr_last_error := st_lastError step\<rparr>"

definition step_row_of :: "string \<Rightarrow> plan_step \<Rightarrow> step_row" where
  "step_row_of planId step = \<lparr>
     sr_plan_id = planId, sr_step_key = st_id step, sr_tool_name = st_tool step,
     sr_depends_on = st_dependsOn step, sr_status = st_status step, sr_input_hash = st_inputHash step,
     sr_estimated_cost = st_estimatedCost step, sr_effect = st_effect step,
     sr_concurrency_key = st_concurrencyKey step, sr_idempotency_key = st_idempotencyKey step,
     sr_task_id = st_taskId step, sr_lease_until = st_leaseUntil step,
     sr_attempt_count = (case st_attemptCount step of None \<Rightarrow> 0 | Some n \<Rightarrow> n),
     sr_output_ref = st_outputRef step, sr_last_error = st_lastError step\<rparr>"

definition insertStep :: "string \<Rightarrow> plan_step \<Rightarrow> plan_db \<Rightarrow> repo_error + plan_db" where
  "insertStep planId step db = write_steps (db_steps db @ [step_row_of planId step]) db"

fun insertSteps :: "string \<Rightarrow> plan_step list \<Rightarrow> plan_db \<Rightarrow> repo_error + plan_db" where
  "insertSteps planId [] db = Inr db"
| "insertSteps planId (step # rest) db = rbind (insertStep planId step db) (insertSteps planId rest)"

definition updateStepProjection :: "string \<Rightarrow> plan_step \<Rightarrow> plan_db \<Rightarrow> repo_error + plan_db" where
  "updateStepProjection planId step db =
     write_steps (map (\<lambda>r. if sr_plan_id r = planId \<and> sr_step_key r = st_id step
       then set_execution_columns step r else r) (db_steps db)) db"

fun updateProjections :: "string \<Rightarrow> plan_step list \<Rightarrow> plan_db \<Rightarrow> repo_error + plan_db" where
  "updateProjections planId [] db = Inr db"
| "updateProjections planId (step # rest) db =
     rbind (updateStepProjection planId step db) (updateProjections planId rest)"

section \<open>Reading plans\<close>

definition toPlan :: "plan_row \<Rightarrow> repo_error + agent_plan" where
  "toPlan row = (case pr_plan_json row of
      Other_json \<Rightarrow> Inl (Compile_error INVALID_DEPENDENCY)
    | Plan_json plan \<Rightarrow> Inr \<lparr> pl_id = pl_id plan, pl_sessionId = pr_session_id row,
        pl_version = pr_version row, pl_canvasVersion = pr_canvas_version row, pl_steps = pl_steps plan \<rparr>)"

definition planStatus :: "agent_plan \<Rightarrow> plan_status" where
  "planStatus plan =
     (if \<exists>step \<in> set (pl_steps plan). st_status step = step_status.Failed then Plan_failed
      else if pl_steps plan \<noteq> [] \<and> (\<forall>step \<in> set (pl_steps plan). st_status step = Completed) then Plan_completed
      else if \<exists>step \<in> set (pl_steps plan). st_status step = Running then Plan_running
      else Plan_draft)"

definition owns_session :: "plan_db \<Rightarrow> string \<Rightarrow> string \<Rightarrow> bool" where
  "owns_session db sessionId ownerId \<longleftrightarrow>
     (\<exists>s \<in> set (db_sessions db). se_id s = sessionId \<and> se_user_id s = ownerId)"

definition select_plan :: "plan_db \<Rightarrow> string \<Rightarrow> string \<Rightarrow> plan_row option" where
  "select_plan db planId ownerId =
     find (\<lambda>r. pr_id r = planId \<and> owns_session db (pr_session_id r) ownerId) (db_plans db)"

definition get_plan :: "plan_db \<Rightarrow> string \<Rightarrow> string \<Rightarrow> repo_error + agent_plan" where
  "get_plan db planId ownerId = rbind (require_some NOT_FOUND (select_plan db planId ownerId)) toPlan"

definition requireSession :: "plan_db \<Rightarrow> string \<Rightarrow> string \<Rightarrow> repo_error + unit" where
  "requireSession db ownerId sessionId =
     throw_if (\<not> (\<exists>s \<in> set (db_sessions db). se_id s = sessionId \<and> se_user_id s = ownerId \<and>
          (case se_status s of None \<Rightarrow> ''active'' | Some v \<Rightarrow> v) \<noteq> ''deleted''))
       PERMISSION_DENIED (Inr ())"

section \<open>The operations\<close>

definition create_plan ::
  "string \<Rightarrow> string \<Rightarrow> agent_plan \<Rightarrow> int \<Rightarrow> agent_profile \<Rightarrow> plan_db \<Rightarrow> repo_error + (plan_db \<times> compiled_plan)" where
  "create_plan ownerId sessionId plan expectedVersion profile db =
     rbind (requireSession db ownerId sessionId) (\<lambda>_.
     rbind (map_sum Compile_error id (compile plan expectedVersion profile)) (\<lambda>compiled.
     rbind (write_plans (db_plans db @
        [\<lparr>pr_id = pl_id plan, pr_session_id = sessionId, pr_version = pl_version plan,
          pr_canvas_version = pl_canvasVersion plan, pr_status = Plan_draft,
          pr_plan_json = Plan_json plan, pr_created_by = ownerId\<rparr>]) db) (\<lambda>db'.
     rbind (insertSteps (pl_id plan) (pl_steps plan) db') (\<lambda>db''. Inr (db'', compiled)))))"

definition plan_readySet ::
  "plan_db \<Rightarrow> string \<Rightarrow> string \<Rightarrow> agent_profile \<Rightarrow> repo_error + compiled_plan" where
  "plan_readySet db planId ownerId profile =
     rbind (get_plan db planId ownerId) (\<lambda>plan.
       map_sum Compile_error id (compile plan (pl_version plan) profile))"

text \<open>
  \<open>rerun\<close> reads the plan before its transaction, and is one step here: a plan that another request changes in
  between is copied as it was read.
\<close>

definition rerun_plan ::
  "string \<Rightarrow> string \<Rightarrow> string \<Rightarrow> string \<Rightarrow> plan_db \<Rightarrow> repo_error + (plan_db \<times> agent_plan \<times> num)" where
  "rerun_plan newId planId ownerId stepId db =
     rbind (get_plan db planId ownerId) (\<lambda>current.
      let (again, cost) = rerun current stepId;
          next = again\<lparr>pl_id := newId\<rparr>
      in rbind (write_plans (db_plans db @
           map (\<lambda>old. \<lparr>pr_id = newId, pr_session_id = pr_session_id old, pr_version = pl_version next,
               pr_canvas_version = pr_canvas_version old, pr_status = Plan_draft,
               pr_plan_json = Plan_json next, pr_created_by = ownerId\<rparr>)
             (filter (\<lambda>r. pr_id r = planId) (db_plans db))) db) (\<lambda>db'.
         rbind (insertSteps newId (pl_steps next) db') (\<lambda>db''. Inr (db'', next, cost))))"

text \<open>The guarded \<open>UPDATE agent_plans\<close> and the projection of every step that follows it.\<close>

definition save_plan :: "agent_plan \<Rightarrow> agent_plan \<Rightarrow> plan_db \<Rightarrow> repo_error + (plan_db \<times> agent_plan)" where
  "save_plan current next db =
     (let hit = (\<lambda>r. pr_id r = pl_id next \<and> pr_version r = pl_version current)
      in rbind (write_plans (map (\<lambda>r. if hit r then r\<lparr>pr_version := pl_version next,
             pr_status := planStatus next, pr_plan_json := Plan_json next\<rparr> else r) (db_plans db)) db) (\<lambda>db'.
         throw_if (length (filter hit (db_plans db)) \<noteq> 1) VERSION_CONFLICT
           (rbind (updateProjections (pl_id next) (pl_steps next) db') (\<lambda>db''. Inr (db'', next)))))"

definition mutate ::
  "string \<Rightarrow> string \<Rightarrow> (agent_plan \<Rightarrow> repo_error + agent_plan) \<Rightarrow> plan_db \<Rightarrow> repo_error + (plan_db \<times> agent_plan)" where
  "mutate planId ownerId apply_to db =
     rbind (require_some NOT_FOUND (select_plan db planId ownerId)) (\<lambda>row.
     rbind (toPlan row) (\<lambda>current.
     rbind (apply_to current) (\<lambda>next. save_plan current next db)))"

definition claimStep ::
  "string \<Rightarrow> string \<Rightarrow> string \<Rightarrow> int \<Rightarrow> int option \<Rightarrow> plan_db \<Rightarrow> repo_error + (plan_db \<times> agent_plan)" where
  "claimStep planId ownerId stepId now leaseDurationMs db =
     mutate planId ownerId (\<lambda>plan. map_sum Step_error id
       (claimPlanStep (releaseExpiredLeases plan now) stepId now
         (case leaseDurationMs of None \<Rightarrow> default_lease_ms | Some ms \<Rightarrow> ms))) db"

definition completeStep ::
  "string \<Rightarrow> string \<Rightarrow> string \<Rightarrow> string \<Rightarrow> string option \<Rightarrow> plan_db \<Rightarrow> repo_error + (plan_db \<times> agent_plan)" where
  "completeStep planId ownerId stepId idempotencyKey outputRef db =
     mutate planId ownerId (\<lambda>plan. map_sum Step_error id (completePlanStep plan stepId idempotencyKey outputRef)) db"

definition failStep ::
  "string \<Rightarrow> string \<Rightarrow> string \<Rightarrow> string \<Rightarrow> string \<Rightarrow> plan_db \<Rightarrow> repo_error + (plan_db \<times> agent_plan)" where
  "failStep planId ownerId stepId idempotencyKey errorCode db =
     mutate planId ownerId (\<lambda>plan. map_sum Step_error id (failPlanStep plan stepId idempotencyKey errorCode)) db"

definition attach_to :: "string \<Rightarrow> string \<Rightarrow> string \<Rightarrow> agent_plan \<Rightarrow> repo_error + agent_plan" where
  "attach_to stepId idempotencyKey taskId plan =
     (case find_step (pl_steps plan) stepId of
        None \<Rightarrow> Inl VERSION_CONFLICT
      | Some step \<Rightarrow>
          throw_if (st_status step \<noteq> Running \<or> st_effect step \<noteq> Some Effect_create_task \<or>
              st_idempotencyKey step \<noteq> Some idempotencyKey \<or> truthy (st_taskId step)) VERSION_CONFLICT
            (Inr (plan\<lparr>pl_version := pl_version plan + 1,
               pl_steps := map (\<lambda>c. if st_id c = stepId then c\<lparr>st_taskId := Some taskId\<rparr> else c) (pl_steps plan)\<rparr>)))"

definition attachTask ::
  "string \<Rightarrow> string \<Rightarrow> string \<Rightarrow> string \<Rightarrow> string \<Rightarrow> plan_db \<Rightarrow> repo_error + (plan_db \<times> agent_plan)" where
  "attachTask planId ownerId stepId idempotencyKey taskId db =
     mutate planId ownerId (attach_to stepId idempotencyKey taskId) db"

text \<open>\<open>input.status.toUpperCase()\<close>.\<close>

fun status_upper :: "terminal_status \<Rightarrow> string" where
  "status_upper Term_succeeded = ''SUCCEEDED''"
| "status_upper Term_failed = ''FAILED''"
| "status_upper Term_cancelled = ''CANCELLED''"
| "status_upper Term_expired = ''EXPIRED''"
| "status_upper Term_settlement_error = ''SETTLEMENT_ERROR''"

definition finish_task_step ::
  "string \<Rightarrow> terminal_status \<Rightarrow> string option \<Rightarrow> string option \<Rightarrow> agent_plan \<Rightarrow> plan_step \<Rightarrow> string \<Rightarrow>
   step_error + agent_plan" where
  "finish_task_step taskId status errorCode outputRef current step key =
     (if status = Term_succeeded
      then completePlanStep current (st_id step) key
        (Some (case outputRef of Some ref \<Rightarrow> ref | None \<Rightarrow> ''task-result://'' @ taskId))
      else failPlanStep current (st_id step) key
        (case errorCode of Some e \<Rightarrow> e | None \<Rightarrow> status_upper status))"

definition completeTaskStep ::
  "string \<Rightarrow> terminal_status \<Rightarrow> string option \<Rightarrow> string option \<Rightarrow> plan_db \<Rightarrow>
   repo_error + (plan_db \<times> agent_plan option)" where
  "completeTaskStep taskId status errorCode outputRef db =
     (case find (\<lambda>r. \<exists>s \<in> set (db_steps db). sr_plan_id s = pr_id r \<and> sr_task_id s = Some taskId) (db_plans db) of
        None \<Rightarrow> Inr (db, None)
      | Some row \<Rightarrow>
          rbind (toPlan row) (\<lambda>current.
            case find (\<lambda>c. st_taskId c = Some taskId) (pl_steps current) of
              None \<Rightarrow> Inr (db, Some current)
            | Some step \<Rightarrow>
                (case st_idempotencyKey step of
                   None \<Rightarrow> Inr (db, Some current)
                 | Some key \<Rightarrow>
                     if key = [] \<or> st_status step \<noteq> Running then Inr (db, Some current)
                     else rbind (map_sum Step_error id
                            (finish_task_step taskId status errorCode outputRef current step key)) (\<lambda>next.
                          rbind (save_plan current next db) (\<lambda>(db', p). Inr (db', Some p))))))"

section \<open>What a transition of a plan keeps\<close>

definition static_same :: "plan_step \<Rightarrow> plan_step \<Rightarrow> bool" where
  "static_same s t \<longleftrightarrow> st_id t = st_id s \<and> st_tool t = st_tool s \<and> st_dependsOn t = st_dependsOn s \<and>
     st_inputHash t = st_inputHash s \<and> st_estimatedCost t = st_estimatedCost s"

definition plan_static :: "agent_plan \<Rightarrow> agent_plan \<Rightarrow> bool" where
  "plan_static p q \<longleftrightarrow> pl_id q = pl_id p \<and> pl_sessionId q = pl_sessionId p \<and>
     pl_canvasVersion q = pl_canvasVersion p \<and> list_all2 static_same (pl_steps p) (pl_steps q)"

lemma static_ids: "list_all2 static_same xs ys \<Longrightarrow> step_ids ys = step_ids xs"
  by (induction rule: list_all2_induct) (auto simp: static_same_def)

lemma plan_static_refl: "plan_static p p"
  by (simp add: plan_static_def static_same_def list.rel_refl)

lemma plan_static_trans: "plan_static p q \<Longrightarrow> plan_static q r \<Longrightarrow> plan_static p r"
  unfolding plan_static_def static_same_def by (auto elim: list_all2_trans [rotated -2])

lemma plan_step_fields:
  "plan_step_to p q \<Longrightarrow> pl_id q = pl_id p \<and> pl_sessionId q = pl_sessionId p \<and> pl_canvasVersion q = pl_canvasVersion p"
  by (induction rule: plan_step_to.induct)
     (auto simp: releaseExpiredLeases_def finish_ok Let_def elim!: claim_ok)

lemma plan_step_static:
  assumes "plan_step_to p q" "ids_ok (pl_steps p)"
  shows "plan_static p q"
  using plan_step_kept [OF assms] plan_step_fields [OF assms(1)]
  by (auto simp: plan_static_def static_same_def step_kept_def elim: list_all2_mono)

lemma plan_reaches_static: "plan_reaches p q \<Longrightarrow> ids_ok (pl_steps p) \<Longrightarrow> plan_static p q"
proof (induction rule: plan_reaches.induct)
  case (next_step plan q r)
  then have "plan_static plan q" by simp
  moreover from this static_ids next_step.prems have "ids_ok (pl_steps q)" by (fastforce simp: plan_static_def)
  ultimately show ?case using next_step plan_step_static plan_static_trans by blast
qed (simp add: plan_static_refl)

section \<open>The consistency of the tables\<close>

text \<open>
  Every plan row holds a plan with its own id, version and canvas version and distinct step ids, whose steps are, in
  order, the rows of \<open>agent_plan_steps\<close> for that plan; every step row belongs to a plan row.
\<close>

definition row_ok :: "step_row list \<Rightarrow> plan_row \<Rightarrow> bool" where
  "row_ok steps r \<longleftrightarrow> (\<exists>plan. pr_plan_json r = Plan_json plan \<and> pl_id plan = pr_id r \<and> pl_version plan = pr_version r \<and>
     pl_canvasVersion plan = pr_canvas_version r \<and> ids_ok (pl_steps plan) \<and>
     filter (\<lambda>s. sr_plan_id s = pr_id r) steps = map (step_row_of (pr_id r)) (pl_steps plan))"

definition repo_ok :: "plan_db \<Rightarrow> bool" where
  "repo_ok db \<longleftrightarrow> plans_ok (db_plans db) \<and> steps_ok (db_steps db) \<and>
     (\<forall>r \<in> set (db_plans db). row_ok (db_steps db) r) \<and>
     (\<forall>s \<in> set (db_steps db). sr_plan_id s \<in> pr_id ` set (db_plans db))"

text \<open>The plan the database holds under an id.\<close>

definition stored :: "plan_db \<Rightarrow> string \<Rightarrow> agent_plan option" where
  "stored db i = (case find (\<lambda>r. pr_id r = i) (db_plans db) of None \<Rightarrow> None
     | Some r \<Rightarrow> (case toPlan r of Inl _ \<Rightarrow> None | Inr plan \<Rightarrow> Some plan))"

lemma write_plans_Inr: "write_plans rows db = Inr db' \<longleftrightarrow> plans_ok rows \<and> db' = db\<lparr>db_plans := rows\<rparr>"
  by (auto simp: write_plans_def result_simps)

lemma write_steps_Inr: "write_steps rows db = Inr db' \<longleftrightarrow> steps_ok rows \<and> db' = db\<lparr>db_steps := rows\<rparr>"
  by (auto simp: write_steps_def result_simps)

lemma insertSteps_Inr:
  assumes "insertSteps pid steps db = Inr db'" "steps_ok (db_steps db)"
  shows "db' = db\<lparr>db_steps := db_steps db @ map (step_row_of pid) steps\<rparr> \<and> steps_ok (db_steps db')"
  using assms
proof (induction steps arbitrary: db)
  case (Cons s rest)
  let ?db = "db\<lparr>db_steps := db_steps db @ [step_row_of pid s]\<rparr>"
  from Cons.prems have "insertSteps pid rest ?db = Inr db'" "steps_ok (db_steps ?db)"
    by (auto simp: insertStep_def result_simps write_steps_Inr)
  from Cons.IH [OF this] have a: "db' = ?db\<lparr>db_steps := db_steps ?db @ map (step_row_of pid) rest\<rparr>"
    and b: "steps_ok (db_steps db')" by blast+
  have "db' = db\<lparr>db_steps := db_steps db @ map (step_row_of pid) (s # rest)\<rparr>" unfolding a by simp
  with b show ?case by blast
qed simp

text \<open>Projecting every step of a plan, in one go.\<close>

definition projected :: "string \<Rightarrow> plan_step list \<Rightarrow> step_row \<Rightarrow> step_row" where
  "projected pid steps r = (if sr_plan_id r = pid then
     (case find_step steps (sr_step_key r) of None \<Rightarrow> r | Some s \<Rightarrow> set_execution_columns s r) else r)"

lemma set_execution_columns_key [simp]:
  "sr_plan_id (set_execution_columns s r) = sr_plan_id r" "sr_step_key (set_execution_columns s r) = sr_step_key r"
  by (simp_all add: set_execution_columns_def)

lemma projected_key [simp]: "sr_plan_id (projected pid steps r) = sr_plan_id r"
  by (simp add: projected_def split: option.split)

lemma projected_Cons:
  assumes "st_id s \<notin> set (step_ids steps)"
  shows "projected pid (s # steps) r =
    projected pid steps (if sr_plan_id r = pid \<and> sr_step_key r = st_id s then set_execution_columns s r else r)"
proof -
  have "find_step (s # steps) k = (if st_id s = k then Some s else find_step steps k)" for k
    by (simp add: find_step_def)
  moreover have "find_step steps (st_id s) = None" using assms by (simp add: find_step_None)
  ultimately show ?thesis by (auto simp: projected_def)
qed

lemma updateProjections_Inr:
  assumes "updateProjections pid steps db = Inr db'" "steps_ok (db_steps db)" "ids_ok steps"
  shows "db' = db\<lparr>db_steps := map (projected pid steps) (db_steps db)\<rparr> \<and> steps_ok (db_steps db')"
  using assms
proof (induction steps arbitrary: db)
  case Nil
  have "projected pid [] = (\<lambda>r. r)" by (simp add: projected_def find_step_def fun_eq_iff)
  with Nil show ?case by simp
next
  case (Cons s rest)
  let ?rows = "map (\<lambda>r. if sr_plan_id r = pid \<and> sr_step_key r = st_id s then set_execution_columns s r else r)
    (db_steps db)"
  from Cons.prems have ok: "steps_ok ?rows"
    and run: "updateProjections pid rest (db\<lparr>db_steps := ?rows\<rparr>) = Inr db'" and ids: "ids_ok rest"
    "st_id s \<notin> set (step_ids rest)"
    by (auto simp: updateStepProjection_def result_simps write_steps_Inr)
  have "map (projected pid rest) ?rows = map (projected pid (s # rest)) (db_steps db)"
    by (simp add: projected_Cons [OF ids(2)])
  have "steps_ok (db_steps (db\<lparr>db_steps := ?rows\<rparr>))" using ok by simp
  note ab = Cons.IH [OF run this ids(1)]
  have a: "db' = db\<lparr>db_steps := ?rows, db_steps := map (projected pid rest) ?rows\<rparr>"
    using ab [THEN conjunct1] by simp
  note b = ab [THEN conjunct2]
  have "db' = db\<lparr>db_steps := map (projected pid (s # rest)) (db_steps db)\<rparr>"
    unfolding a \<open>map (projected pid rest) ?rows = _\<close> by simp
  with b show ?case by blast
qed

lemma projected_row:
  "static_same s t \<Longrightarrow> set_execution_columns t (step_row_of pid s) = step_row_of pid t"
  by (simp add: set_execution_columns_def step_row_of_def static_same_def)

lemma projected_rows:
  assumes "list_all2 static_same old new" "ids_ok new"
  shows "map (projected pid new) (map (step_row_of pid) old) = map (step_row_of pid) new"
proof -
  have "map (projected pid new) (map (step_row_of pid) xs) = map (step_row_of pid) ys"
    if "list_all2 static_same xs ys" "set ys \<subseteq> set new" for xs ys
    using that
  proof (induction rule: list_all2_induct)
    case (Cons s xs t ys)
    then have "find_step new (st_id s) = Some t"
      using find_step_mem [OF assms(2), of t] by (auto simp: static_same_def)
    then have "projected pid new (step_row_of pid s) = set_execution_columns t (step_row_of pid s)"
      by (simp add: projected_def step_row_of_def)
    with Cons show ?case by (simp add: projected_row)
  qed simp
  with assms(1) show ?thesis by blast
qed

section \<open>Saving a plan\<close>

lemma find_pr_id: "distinct (map pr_id rows) \<Longrightarrow> r \<in> set rows \<Longrightarrow> find (\<lambda>q. pr_id q = pr_id r) rows = Some r"
  by (induction rows) auto

lemma stored_row:
  assumes "repo_ok db" "r \<in> set (db_plans db)"
  shows "\<exists>plan. toPlan r = Inr plan \<and> stored db (pr_id r) = Some plan \<and> pl_id plan = pr_id r \<and>
    pl_version plan = pr_version r \<and> ids_ok (pl_steps plan) \<and>
    filter (\<lambda>s. sr_plan_id s = pr_id r) (db_steps db) = map (step_row_of (pr_id r)) (pl_steps plan)"
proof -
  from assms have "row_ok (db_steps db) r" and "distinct (map pr_id (db_plans db))"
    by (simp_all add: repo_ok_def plans_ok_def)
  with find_pr_id [OF this(2) assms(2)] show ?thesis
    by (auto simp: row_ok_def toPlan_def stored_def)
qed

lemma stored_SomeD:
  assumes "stored db i = Some plan"
  obtains r where "r \<in> set (db_plans db)" "pr_id r = i" "toPlan r = Inr plan"
proof -
  from assms obtain r where "find (\<lambda>r. pr_id r = i) (db_plans db) = Some r" "toPlan r = Inr plan"
    by (auto simp: stored_def split: option.splits sum.splits)
  with that show ?thesis by (auto dest: find_SomeD)
qed

lemma filter_map_key:
  "(\<And>r. sr_plan_id (f r) = sr_plan_id r) \<Longrightarrow>
   filter (\<lambda>s. sr_plan_id s = i) (map f rows) = map f (filter (\<lambda>s. sr_plan_id s = i) rows)"
  by (induction rows) auto

lemma stored_None: "i \<notin> pr_id ` set (db_plans db) \<Longrightarrow> stored db i = None"
  by (cases "stored db i") (auto elim!: stored_SomeD)

lemma save_plan_ok:
  assumes ok: "repo_ok db" and r: "r \<in> set (db_plans db)" "toPlan r = Inr current"
    and same: "plan_static current next" and save: "save_plan current next db = Inr (db', p)"
  shows "p = next \<and> repo_ok db' \<and> db_sessions db' = db_sessions db \<and>
    stored db' = (stored db)(pr_id r \<mapsto> next) \<and>
    db_plans db' = map (\<lambda>q. if pr_id q = pr_id r then q\<lparr>pr_version := pl_version next,
       pr_status := planStatus next, pr_plan_json := Plan_json next\<rparr> else q) (db_plans db)"
proof -
  let ?new = "\<lambda>q. q\<lparr>pr_version := pl_version next, pr_status := planStatus next, pr_plan_json := Plan_json next\<rparr>"
  define f where f: "f = (\<lambda>q :: plan_row. if pr_id q = pr_id r then ?new q else q)"
  have pid: "pr_id (f q) = pr_id q" for q by (simp add: f)
  from stored_row [OF ok r(1)] r(2) have cur: "pl_id current = pr_id r" "pl_version current = pr_version r"
    "ids_ok (pl_steps current)"
    "filter (\<lambda>s. sr_plan_id s = pr_id r) (db_steps db) = map (step_row_of (pr_id r)) (pl_steps current)"
    by auto
  have dist: "distinct (map pr_id (db_plans db))" using ok by (simp add: repo_ok_def plans_ok_def)
  then have one: "q = r" if "q \<in> set (db_plans db)" "pr_id q = pr_id r" for q
    using that r(1) by (auto simp: distinct_map inj_on_def)
  from same have nid: "pl_id next = pr_id r" and st: "list_all2 static_same (pl_steps current) (pl_steps next)"
    by (simp_all add: plan_static_def cur)
  from st static_ids cur(3) have nids: "ids_ok (pl_steps next)" by fastforce
  have rows: "map (\<lambda>q. if pr_id q = pl_id next \<and> pr_version q = pl_version current then ?new q else q) (db_plans db) =
      map f (db_plans db)"
    using one by (auto simp: nid cur(2) f)
  from save obtain dbp where "write_plans (map f (db_plans db)) db = Inr dbp"
    and upd: "updateProjections (pl_id next) (pl_steps next) dbp = Inr db'" and p: "p = next"
    unfolding save_plan_def Let_def rows by (auto simp: result_simps)
  then have plans: "plans_ok (map f (db_plans db))" and dbp: "dbp = db\<lparr>db_plans := map f (db_plans db)\<rparr>"
    by (simp_all only: write_plans_Inr)
  note upd = upd [unfolded dbp nid]
  have "steps_ok (db_steps db)" using ok by (simp add: repo_ok_def)
  with updateProjections_Inr [OF upd _ nids] have
    db': "db' = db\<lparr>db_plans := map f (db_plans db), db_steps := map (projected (pr_id r) (pl_steps next)) (db_steps db)\<rparr>"
    and steps: "steps_ok (db_steps db')" by auto
  have "row_ok (db_steps db') (f q)" if q: "q \<in> set (db_plans db)" for q
  proof (cases "pr_id q = pr_id r")
    case True
    with one q have "q = r" by simp
    moreover have "pl_canvasVersion next = pr_canvas_version r"
      using same r(2) by (auto simp: plan_static_def toPlan_def split: plan_json.splits)
    ultimately show ?thesis using cur(4) projected_rows [OF st nids, of "pr_id r"] nid nids
      by (simp add: row_ok_def db' filter_map_key f)
  next
    case False
    have "map (projected (pr_id r) (pl_steps next)) (filter (\<lambda>s. sr_plan_id s = pr_id q) (db_steps db)) =
        filter (\<lambda>s. sr_plan_id s = pr_id q) (db_steps db)"
      using False by (intro map_idI) (auto simp: projected_def)
    moreover have "row_ok (db_steps db) q" using ok q by (simp add: repo_ok_def)
    ultimately show ?thesis using False by (simp add: row_ok_def db' filter_map_key f)
  qed
  then have "\<forall>q \<in> set (db_plans db'). row_ok (db_steps db') q" by (simp add: db')
  moreover have "pr_id ` set (db_plans db') = pr_id ` set (db_plans db)" by (simp add: db' image_image pid)
  then have "\<forall>s \<in> set (db_steps db'). sr_plan_id s \<in> pr_id ` set (db_plans db')"
    using ok by (simp add: db' repo_ok_def image_image)
  ultimately have ok': "repo_ok db'" using plans steps by (simp add: repo_ok_def db')
  have "stored db' i = ((stored db)(pr_id r \<mapsto> next)) i" for i
  proof (cases "i = pr_id r")
    case True
    have "f r \<in> set (db_plans db')" using r(1) by (simp add: db')
    from stored_row [OF ok' this] have "\<exists>plan. toPlan (f r) = Inr plan \<and> stored db' (pr_id r) = Some plan"
      by (auto simp: pid)
    moreover have "toPlan (f r) = Inr next"
      using r(2) same by (auto simp: toPlan_def plan_static_def f split: plan_json.splits)
    ultimately show ?thesis using True by simp
  next
    case False
    have "find (\<lambda>q. pr_id q = i) (map f rows) = find (\<lambda>q. pr_id q = i) rows" for rows
      using False by (induction rows) (auto simp: f)
    then show ?thesis using False by (simp add: stored_def db')
  qed
  with ok' p show ?thesis by (simp add: fun_eq_iff db') (simp add: f)
qed

lemma mutate_ok:
  assumes ok: "repo_ok db" and run: "mutate pid owner f db = Inr (db', next)"
    and same: "\<And>current. ids_ok (pl_steps current) \<Longrightarrow> f current = Inr next \<Longrightarrow> plan_static current next"
  shows "repo_ok db' \<and> db_sessions db' = db_sessions db \<and>
    (\<exists>current. stored db pid = Some current \<and> owns_session db (pl_sessionId current) owner \<and>
       f current = Inr next \<and> plan_static current next) \<and>
    stored db' = (stored db)(pid \<mapsto> next)"
proof -
  from run obtain row current next' where row: "select_plan db pid owner = Some row" "toPlan row = Inr current"
    and f: "f current = Inr next'" and save: "save_plan current next' db = Inr (db', next)"
    by (auto simp: mutate_def result_simps)
  from row(1) have mem: "row \<in> set (db_plans db)" "pr_id row = pid" "owns_session db (pr_session_id row) owner"
    by (auto simp: select_plan_def dest!: find_SomeD)
  from stored_row [OF ok mem(1)] row(2) mem(2) have cur: "stored db pid = Some current"
    "ids_ok (pl_steps current)" "pl_id current = pid" by auto
  have sid: "pl_sessionId current = pr_session_id row"
    using row(2) by (auto simp: toPlan_def split: plan_json.splits)
  have "next = next'"
    using save by (auto simp: save_plan_def Let_def result_simps)
  with f same cur(2) have "plan_static current next'" by simp
  from save_plan_ok [OF ok mem(1) row(2) this save] mem cur f sid this \<open>next = next'\<close> show ?thesis by auto
qed

section \<open>Each operation\<close>

lemma map_sum_Inr: "map_sum g id m = Inr x \<longleftrightarrow> m = Inr x"
  by (cases m) auto

lemma claim_reaches:
  assumes "claimPlanStep (releaseExpiredLeases plan now) i now ms = Inr plan'"
  shows "plan_reaches plan plan'"
  using plan_reaches.next_step [OF plan_reaches.next_step [OF plan_reaches.here plan_step_to.release]
      plan_step_to.claim [OF assms]] .

lemma complete_reaches: "completePlanStep plan i k out = Inr plan' \<Longrightarrow> plan_reaches plan plan'"
  by (rule plan_reaches.next_step [OF plan_reaches.here plan_step_to.complete])

lemma fail_reaches: "failPlanStep plan i k err = Inr plan' \<Longrightarrow> plan_reaches plan plan'"
  by (rule plan_reaches.next_step [OF plan_reaches.here plan_step_to.fail])

lemma attach_ok:
  assumes "attach_to i k t plan = Inr plan'"
  shows "\<exists>step. find_step (pl_steps plan) i = Some step \<and> st_status step = Running \<and>
    st_effect step = Some Effect_create_task \<and> st_idempotencyKey step = Some k \<and> \<not> truthy (st_taskId step) \<and>
    plan' = plan\<lparr>pl_version := pl_version plan + 1,
      pl_steps := map (\<lambda>c. if st_id c = i then c\<lparr>st_taskId := Some t\<rparr> else c) (pl_steps plan)\<rparr>"
  using assms by (auto simp: attach_to_def result_simps split: option.splits)

lemma attach_static: "attach_to i k t plan = Inr plan' \<Longrightarrow> plan_static plan plan'"
  by (auto dest!: attach_ok simp: plan_static_def static_same_def list_all2_map2 intro!: list.rel_refl_strong)

lemma claimStep_ok:
  assumes "repo_ok db" "claimStep pid owner i now ms db = Inr (db', next)"
  shows "repo_ok db' \<and> db_sessions db' = db_sessions db \<and>
    (\<exists>current. stored db pid = Some current \<and> owns_session db (pl_sessionId current) owner \<and>
       claimPlanStep (releaseExpiredLeases current now) i now (case ms of None \<Rightarrow> default_lease_ms | Some m \<Rightarrow> m) = Inr next \<and>
       plan_reaches current next \<and> plan_static current next) \<and>
    stored db' = (stored db)(pid \<mapsto> next)"
proof -
  let ?f = "\<lambda>plan. map_sum Step_error id (claimPlanStep (releaseExpiredLeases plan now) i now
      (case ms of None \<Rightarrow> default_lease_ms | Some ms \<Rightarrow> ms))"
  have st: "ids_ok (pl_steps current) \<Longrightarrow> ?f current = Inr next \<Longrightarrow> plan_static current next" for current
    by (simp add: map_sum_Inr claim_reaches plan_reaches_static)
  from assms(2) have run: "mutate pid owner ?f db = Inr (db', next)" by (simp add: claimStep_def)
  show ?thesis using mutate_ok [OF assms(1) run st] by (auto simp: map_sum_Inr claim_reaches)
qed

lemma completeStep_ok:
  assumes "repo_ok db" "completeStep pid owner i k out db = Inr (db', next)"
  shows "repo_ok db' \<and> db_sessions db' = db_sessions db \<and>
    (\<exists>current. stored db pid = Some current \<and> owns_session db (pl_sessionId current) owner \<and>
       completePlanStep current i k out = Inr next \<and> plan_reaches current next \<and> plan_static current next) \<and>
    stored db' = (stored db)(pid \<mapsto> next)"
proof -
  let ?f = "\<lambda>plan. map_sum Step_error id (completePlanStep plan i k out)"
  have st: "ids_ok (pl_steps current) \<Longrightarrow> ?f current = Inr next \<Longrightarrow> plan_static current next" for current
    by (simp add: map_sum_Inr complete_reaches plan_reaches_static)
  from assms(2) have run: "mutate pid owner ?f db = Inr (db', next)" by (simp add: completeStep_def)
  show ?thesis using mutate_ok [OF assms(1) run st] by (auto simp: map_sum_Inr complete_reaches)
qed

lemma failStep_ok:
  assumes "repo_ok db" "failStep pid owner i k err db = Inr (db', next)"
  shows "repo_ok db' \<and> db_sessions db' = db_sessions db \<and>
    (\<exists>current. stored db pid = Some current \<and> owns_session db (pl_sessionId current) owner \<and>
       failPlanStep current i k err = Inr next \<and> plan_reaches current next \<and> plan_static current next) \<and>
    stored db' = (stored db)(pid \<mapsto> next)"
proof -
  let ?f = "\<lambda>plan. map_sum Step_error id (failPlanStep plan i k err)"
  have st: "ids_ok (pl_steps current) \<Longrightarrow> ?f current = Inr next \<Longrightarrow> plan_static current next" for current
    by (simp add: map_sum_Inr fail_reaches plan_reaches_static)
  from assms(2) have run: "mutate pid owner ?f db = Inr (db', next)" by (simp add: failStep_def)
  show ?thesis using mutate_ok [OF assms(1) run st] by (auto simp: map_sum_Inr fail_reaches)
qed

lemma attachTask_ok:
  assumes "repo_ok db" "attachTask pid owner i k t db = Inr (db', next)"
  shows "repo_ok db' \<and> db_sessions db' = db_sessions db \<and>
    (\<exists>current. stored db pid = Some current \<and> owns_session db (pl_sessionId current) owner \<and>
       attach_to i k t current = Inr next \<and> plan_static current next) \<and>
    stored db' = (stored db)(pid \<mapsto> next)"
proof -
  from assms(2) have run: "mutate pid owner (attach_to i k t) db = Inr (db', next)" by (simp add: attachTask_def)
  have st: "ids_ok (pl_steps current) \<Longrightarrow> attach_to i k t current = Inr next \<Longrightarrow> plan_static current next" for current
    by (rule attach_static)
  show ?thesis using mutate_ok [OF assms(1) run st] by blast
qed

lemma finish_reaches:
  "finish_task_step t st ec ref plan step key = Inr plan' \<Longrightarrow> plan_reaches plan plan'"
  by (auto simp: finish_task_step_def complete_reaches fail_reaches split: if_splits)

lemma completeTaskStep_ok:
  assumes "repo_ok db" "completeTaskStep t st ec ref db = Inr (db', r)"
  shows "repo_ok db' \<and> db_sessions db' = db_sessions db \<and>
    (db' = db \<or> (\<exists>pid current step key next. stored db pid = Some current \<and> r = Some next \<and>
       step \<in> set (pl_steps current) \<and> st_taskId step = Some t \<and> st_status step = Running \<and>
       st_idempotencyKey step = Some key \<and>
       finish_task_step t st ec ref current step key = Inr next \<and> plan_reaches current next \<and>
       plan_static current next \<and> stored db' = (stored db)(pid \<mapsto> next)))"
proof (cases "db' = db")
  case False
  let ?joined = "\<lambda>r. \<exists>s \<in> set (db_steps db). sr_plan_id s = pr_id r \<and> sr_task_id s = Some t"
  note run = assms(2) [unfolded completeTaskStep_def]
  from run False obtain row where row: "find ?joined (db_plans db) = Some row"
    by (cases "find ?joined (db_plans db)") auto
  from run row obtain current where cur: "toPlan row = Inr current" by (cases "toPlan row") auto
  from run row cur False obtain step where step: "find (\<lambda>c. st_taskId c = Some t) (pl_steps current) = Some step"
    by (cases "find (\<lambda>c. st_taskId c = Some t) (pl_steps current)") auto
  from run row cur step False obtain key where key: "st_idempotencyKey step = Some key" "st_status step = Running"
    and body: "rbind (map_sum Step_error id (finish_task_step t st ec ref current step key))
      (\<lambda>nxt. rbind (save_plan current nxt db) (\<lambda>(db', p). Inr (db', Some p))) = Inr (db', r)"
    by (auto split: option.splits if_splits)
  from body obtain nxt where fin: "finish_task_step t st ec ref current step key = Inr nxt"
    and save: "\<exists>p. save_plan current nxt db = Inr (db', p) \<and> r = Some p"
    by (auto simp: result_simps map_sum_Inr)
  from row have mem: "row \<in> set (db_plans db)" by (auto dest: find_SomeD)
  from step have sm: "step \<in> set (pl_steps current)" "st_taskId step = Some t" by (auto dest: find_SomeD)
  from stored_row [OF assms(1) mem] cur have st: "stored db (pr_id row) = Some current" "ids_ok (pl_steps current)"
    by auto
  from fin finish_reaches have reach: "plan_reaches current nxt" by blast
  from plan_reaches_static [OF this st(2)] have same: "plan_static current nxt" .
  from save obtain p where save: "save_plan current nxt db = Inr (db', p)" "r = Some p" by blast
  from save_plan_ok [OF assms(1) mem cur same save(1)] save(2) st sm key fin reach same show ?thesis by blast
qed (use assms(1) in simp)

text \<open>Adding a plan with an id of its own.\<close>

lemma add_plan_ok:
  assumes ok: "repo_ok db" and row: "pr_plan_json row = Plan_json plan" "pl_id plan = pr_id row"
    "pr_version row = pl_version plan" "pr_canvas_version row = pl_canvasVersion plan" "ids_ok (pl_steps plan)"
    and plans: "write_plans (db_plans db @ [row]) db = Inr db1"
    and steps: "insertSteps (pr_id row) (pl_steps plan) db1 = Inr db'"
  shows "repo_ok db' \<and> db_sessions db' = db_sessions db \<and> pr_id row \<notin> pr_id ` set (db_plans db) \<and>
    stored db' = (stored db)(pr_id row \<mapsto> plan\<lparr>pl_sessionId := pr_session_id row, pl_canvasVersion := pr_canvas_version row\<rparr>)"
proof -
  from plans have db1: "db1 = db\<lparr>db_plans := db_plans db @ [row]\<rparr>" and pok: "plans_ok (db_plans db @ [row])"
    by (simp_all add: write_plans_Inr)
  then have new: "pr_id row \<notin> pr_id ` set (db_plans db)" by (auto simp: plans_ok_def)
  have "steps_ok (db_steps db1)" using ok by (simp add: db1 repo_ok_def)
  note ins = insertSteps_Inr [OF steps this]
  note db' = ins [THEN conjunct1] and sok = ins [THEN conjunct2]
  have key: "sr_plan_id (step_row_of i s) = i" for i s by (simp add: step_row_of_def)
  have old: "filter (\<lambda>s. sr_plan_id s = pr_id row) (db_steps db) = []"
    using ok new unfolding repo_ok_def filter_empty_conv by metis
  have "filter (\<lambda>s. sr_plan_id s = pr_id q) (db_steps db') = filter (\<lambda>s. sr_plan_id s = pr_id q) (db_steps db)"
    if "q \<in> set (db_plans db)" for q
    using that new by (auto simp: db' db1 key filter_empty_conv)
  then have "row_ok (db_steps db') q" if "q \<in> set (db_plans db)" for q
    using that ok by (auto simp: repo_ok_def row_ok_def)
  moreover have "row_ok (db_steps db') row"
    using row old by (simp add: row_ok_def db' db1 key)
  moreover have "sr_plan_id s \<in> pr_id ` set (db_plans db')" if "s \<in> set (db_steps db')" for s
    using that ok by (auto simp: db' db1 key repo_ok_def)
  ultimately have "repo_ok db'" using pok sok by (auto simp: repo_ok_def db' db1)
  moreover have "find (\<lambda>r. pr_id r = i) (db_plans db @ [row]) =
      (if i = pr_id row then Some row else find (\<lambda>r. pr_id r = i) (db_plans db))" for i
  proof (cases "i = pr_id row")
    case True
    with new have "find (\<lambda>r. pr_id r = i) (db_plans db) = None" unfolding find_None_iff_ball by (metis imageI)
    with True show ?thesis by (simp add: find_append)
  qed (simp add: find_append split: option.split)
  then have "stored db' = (stored db)(pr_id row \<mapsto> plan\<lparr>pl_sessionId := pr_session_id row, pl_canvasVersion := pr_canvas_version row\<rparr>)"
    using row by (auto simp: fun_eq_iff stored_def db' db1 toPlan_def)
  ultimately show ?thesis using new by (simp add: db' db1)
qed

lemma create_plan_ok:
  assumes "repo_ok db" "create_plan owner sid plan v profile db = Inr (db', c)"
  shows "repo_ok db' \<and> db_sessions db' = db_sessions db \<and> plan_ok profile plan \<and> owns_session db sid owner \<and>
    stored db (pl_id plan) = None \<and> stored db' = (stored db)(pl_id plan \<mapsto> plan\<lparr>pl_sessionId := sid\<rparr>)"
proof -
  let ?row = "\<lparr>pr_id = pl_id plan, pr_session_id = sid, pr_version = pl_version plan,
    pr_canvas_version = pl_canvasVersion plan, pr_status = Plan_draft, pr_plan_json = Plan_json plan,
    pr_created_by = owner\<rparr>"
  from assms(2) obtain db1 where req: "requireSession db owner sid = Inr ()" and comp: "compile plan v profile = Inr c"
    and plans: "write_plans (db_plans db @ [?row]) db = Inr db1"
    and steps: "insertSteps (pl_id plan) (pl_steps plan) db1 = Inr db'"
    by (auto simp: create_plan_def result_simps map_sum_Inr)
  from comp have ok: "plan_ok profile plan" by (simp add: compile_ok)
  then have ids: "ids_ok (pl_steps plan)" by (simp add: plan_ok_def)
  have "owns_session db sid owner" using req by (auto simp: requireSession_def result_simps owns_session_def)
  moreover from add_plan_ok [OF assms(1) _ _ _ _ ids plans] steps have
    "repo_ok db'" "db_sessions db' = db_sessions db" "pl_id plan \<notin> pr_id ` set (db_plans db)"
    "stored db' = (stored db)(pl_id plan \<mapsto> plan\<lparr>pl_sessionId := sid, pl_canvasVersion := pl_canvasVersion plan\<rparr>)"
    by simp_all
  moreover from this(3) have "stored db (pl_id plan) = None" by (rule stored_None)
  ultimately show ?thesis using ok by simp
qed

lemma filter_one: "distinct (map f xs) \<Longrightarrow> x \<in> set xs \<Longrightarrow> filter (\<lambda>y. f y = f x) xs = [x]"
  by (induction xs) (auto simp: filter_empty_conv image_iff)

lemma get_plan_ok:
  assumes "repo_ok db" "get_plan db pid owner = Inr current"
  shows "\<exists>row \<in> set (db_plans db). pr_id row = pid \<and> toPlan row = Inr current \<and>
    stored db pid = Some current \<and> owns_session db (pl_sessionId current) owner \<and> ids_ok (pl_steps current) \<and>
    pl_id current = pid \<and> pl_version current = pr_version row \<and> pl_sessionId current = pr_session_id row \<and>
    pl_canvasVersion current = pr_canvas_version row"
proof -
  from assms(2) obtain row where row: "select_plan db pid owner = Some row" "toPlan row = Inr current"
    by (auto simp: get_plan_def result_simps)
  then have "row \<in> set (db_plans db)" "pr_id row = pid" "owns_session db (pr_session_id row) owner"
    by (auto simp: select_plan_def dest!: find_SomeD)
  moreover from row(2) have "pl_sessionId current = pr_session_id row" "pl_canvasVersion current = pr_canvas_version row"
    by (auto simp: toPlan_def split: plan_json.splits)
  ultimately show ?thesis using stored_row [OF assms(1)] row(2) by fastforce
qed

lemma rerun_plan_ok:
  assumes "repo_ok db" "rerun_plan newId pid owner i db = Inr (db', nxt, cost)"
  shows "repo_ok db' \<and> db_sessions db' = db_sessions db \<and>
    (\<exists>current. stored db pid = Some current \<and> owns_session db (pl_sessionId current) owner \<and>
       stored db newId = None \<and> nxt = (fst (rerun current i))\<lparr>pl_id := newId\<rparr> \<and> cost = snd (rerun current i)) \<and>
    stored db' = (stored db)(newId \<mapsto> nxt)"
proof -
  from assms(2) obtain current where cur: "get_plan db pid owner = Inr current"
    by (auto simp: rerun_plan_def result_simps)
  from get_plan_ok [OF assms(1) this] obtain row where
    row: "row \<in> set (db_plans db)" "pr_id row = pid" "toPlan row = Inr current"
    and st: "stored db pid = Some current" "owns_session db (pl_sessionId current) owner" "ids_ok (pl_steps current)"
    and fs: "pl_sessionId current = pr_session_id row" "pl_canvasVersion current = pr_canvas_version row" by blast
  let ?n = "(fst (rerun current i))\<lparr>pl_id := newId\<rparr>"
  let ?row = "\<lparr>pr_id = newId, pr_session_id = pr_session_id row, pr_version = pl_version ?n,
    pr_canvas_version = pr_canvas_version row, pr_status = Plan_draft, pr_plan_json = Plan_json ?n,
    pr_created_by = owner\<rparr>"
  have "filter (\<lambda>r. pr_id r = pid) (db_plans db) = [row]"
    using assms(1) row filter_one [of pr_id "db_plans db" row] by (simp add: repo_ok_def plans_ok_def)
  with assms(2) cur obtain db1 where plans: "write_plans (db_plans db @ [?row]) db = Inr db1"
    and steps: "insertSteps newId (pl_steps ?n) db1 = Inr db'" and n: "nxt = ?n" "cost = snd (rerun current i)"
    by (auto simp: rerun_plan_def result_simps Let_def split_beta)
  have ids: "ids_ok (pl_steps ?n)" using st(3) by (simp add: rerun_ids)
  from add_plan_ok [OF assms(1) _ _ _ _ ids plans] steps fs(2) have
    r: "repo_ok db'" "db_sessions db' = db_sessions db" "newId \<notin> pr_id ` set (db_plans db)"
    "stored db' = (stored db)(newId \<mapsto> ?n\<lparr>pl_sessionId := pr_session_id row, pl_canvasVersion := pr_canvas_version row\<rparr>)"
    by simp_all
  moreover have "?n\<lparr>pl_sessionId := pr_session_id row, pl_canvasVersion := pr_canvas_version row\<rparr> = ?n"
    by (intro agent_plan.equality) (simp_all add: fs)
  moreover from r(3) have "stored db newId = None" by (rule stored_None)
  ultimately show ?thesis using st n by auto
qed

section \<open>The execution invariant in the database\<close>

lemma plan_inv_fields [simp]:
  "plan_inv p (plan\<lparr>pl_id := i\<rparr>) = plan_inv p plan"
  "plan_inv p (plan\<lparr>pl_sessionId := sid\<rparr>) = plan_inv p plan"
  by (simp_all add: plan_inv_def plan_ok_def deps_done_def conc_excl_def running_leased_def)

text \<open>
  Changing fields that the invariant does not read, and moving steps back to pending, keeps it as long
  as no step that has started depends on one that is moved back.
\<close>

lemma plan_inv_reset:
  assumes inv: "plan_inv p plan" and steps: "pl_steps plan' = map f (pl_steps plan)"
    and same: "\<And>s. st_id (f s) = st_id s" "\<And>s. st_tool (f s) = st_tool s" "\<And>s. st_dependsOn (f s) = st_dependsOn s"
      "\<And>s. st_batchSize (f s) = st_batchSize s" "\<And>s. st_effect (f s) = st_effect s"
      "\<And>s. st_estimatedCost (f s) = st_estimatedCost s" "\<And>s. st_concurrencyKey (f s) = st_concurrencyKey s"
      "\<And>s. st_leaseUntil (f s) = st_leaseUntil s" "\<And>s. st_idempotencyKey (f s) = st_idempotencyKey s"
      "\<And>s. st_attemptCount (f s) = st_attemptCount s"
    and status: "\<And>s. st_status (f s) = st_status s \<or> st_status (f s) = Pending"
    and moved: "\<And>s t. s \<in> set (pl_steps plan) \<Longrightarrow> t \<in> set (pl_steps plan) \<Longrightarrow> st_id t \<in> set (st_dependsOn s) \<Longrightarrow>
      st_status (f t) \<noteq> st_status t \<Longrightarrow> st_status (f s) = Pending"
  shows "plan_inv p plan'"
proof -
  have ids: "ids_ok (pl_steps plan)" using inv by (simp add: plan_inv_def plan_ok_def)
  have key: "conc_key (f s) = conc_key s" for s by (simp add: conc_key_def same)
  have step: "step_ok p (f s) = step_ok p s" for s by (simp add: step_ok_def same)
  have map_ids: "step_ids (map f (pl_steps plan)) = step_ids (pl_steps plan)" by (simp add: same)
  have "plan_ok p plan'"
    using inv by (simp add: plan_inv_def plan_ok_def steps step same dep_rel_map comp_def)
  moreover have "deps_done plan'"
    unfolding deps_done_def
  proof (intro ballI impI)
    fix u d assume u: "u \<in> set (pl_steps plan')" and d: "d \<in> set (st_dependsOn u)"
      and run: "st_status u = Running \<or> st_status u = Completed \<or> st_status u = step_status.Failed"
    from u obtain s where s: "s \<in> set (pl_steps plan)" "u = f s" by (auto simp: steps)
    with run status [of s] have "st_status s = st_status u" by auto
    with inv s d run same have "step_completed (pl_steps plan) d"
      unfolding plan_inv_def deps_done_def by metis
    then obtain t where t: "t \<in> set (pl_steps plan)" "st_id t = d" "st_status t = Completed"
      by (auto simp: step_completed_iff [OF ids])
    have "st_status (f s) \<noteq> Pending" using s(2) run by auto
    moreover have "st_id t \<in> set (st_dependsOn s)" using d s(2) t(2) by (simp add: same(3))
    ultimately have "st_status (f t) = Completed" using moved [OF s(1) t(1)] t(3) by metis
    with t same show "step_completed (pl_steps plan') d"
      using ids by (auto simp: steps step_completed_map find_step_iff)
  qed
  moreover have "conc_excl plan'"
    unfolding conc_excl_def
  proof (intro ballI impI)
    fix u v assume uv: "u \<in> set (pl_steps plan')" "v \<in> set (pl_steps plan')" "st_status u = Running"
      "st_status v = Running" "conc_key u \<noteq> None" "conc_key u = conc_key v"
    then obtain s t where st: "s \<in> set (pl_steps plan)" "u = f s" "t \<in> set (pl_steps plan)" "v = f t"
      by (auto simp: steps)
    have "st_status s = Running" "st_status t = Running" using uv st status by (metis step_status.distinct(1))+
    with inv st uv show "st_id u = st_id v" unfolding plan_inv_def conc_excl_def by (metis key same(1))
  qed
  moreover have "running_leased plan'"
    unfolding running_leased_def
  proof (intro ballI impI)
    fix u assume u: "u \<in> set (pl_steps plan')" "st_status u = Running"
    then obtain s where s: "s \<in> set (pl_steps plan)" "u = f s" by (auto simp: steps)
    with u status have "st_status s = Running" by (metis step_status.distinct(1))
    with inv s show "st_leaseUntil u \<noteq> None \<and> st_idempotencyKey u \<noteq> None \<and> (\<exists>n. st_attemptCount u = Some n \<and> 1 \<le> n)"
      by (simp add: plan_inv_def running_leased_def same)
  qed
  ultimately show ?thesis by (simp add: plan_inv_def)
qed

lemma rerun_inv:
  assumes "plan_inv p plan"
  shows "plan_inv p (fst (rerun plan i))"
proof (rule plan_inv_reset [OF assms rerun_steps])
  fix s t assume st: "s \<in> set (pl_steps plan)" "t \<in> set (pl_steps plan)" "st_id t \<in> set (st_dependsOn s)"
    and "st_status (if st_id t \<in> dependents (pl_steps plan) {i} then t\<lparr>st_status := Pending\<rparr> else t) \<noteq> st_status t"
  then have "st_id t \<in> dependents (pl_steps plan) {i}" by (auto split: if_splits)
  with dep_relI [OF st(1,3)] have "st_id s \<in> dependents (pl_steps plan) {i}"
    by (auto simp: dependents_def intro: converse_rtrancl_into_rtrancl)
  then show "st_status (if st_id s \<in> dependents (pl_steps plan) {i} then s\<lparr>st_status := Pending\<rparr> else s) = Pending"
    by simp
qed auto

lemma attach_inv: "plan_inv p plan \<Longrightarrow> attach_to i k t plan = Inr plan' \<Longrightarrow> plan_inv p plan'"
  by (drule attach_ok, erule plan_inv_reset [where f = "\<lambda>c. if st_id c = i then c\<lparr>st_taskId := Some t\<rparr> else c"])
     (auto split: if_splits)

text \<open>
  The databases the operations reach, from one without plans.  \<open>adm\<close> restricts the plans that are
  created; sessions change in any way.
\<close>

inductive repo_step :: "(agent_plan \<Rightarrow> bool) \<Rightarrow> plan_db \<Rightarrow> plan_db \<Rightarrow> bool" for adm where
  sessions: "repo_step adm db (db\<lparr>db_sessions := ss\<rparr>)"
| create: "create_plan owner sid plan v profile db = Inr (db', c) \<Longrightarrow> adm plan \<Longrightarrow> repo_step adm db db'"
| again: "rerun_plan newId pid owner i db = Inr (db', nxt, cost) \<Longrightarrow> repo_step adm db db'"
| claim: "claimStep pid owner i now ms db = Inr (db', nxt) \<Longrightarrow> repo_step adm db db'"
| complete: "completeStep pid owner i k out db = Inr (db', nxt) \<Longrightarrow> repo_step adm db db'"
| fail: "failStep pid owner i k err db = Inr (db', nxt) \<Longrightarrow> repo_step adm db db'"
| attach: "attachTask pid owner i k t db = Inr (db', nxt) \<Longrightarrow> repo_step adm db db'"
| task: "completeTaskStep t st ec ref db = Inr (db', r) \<Longrightarrow> repo_step adm db db'"

inductive repo_reaches :: "(agent_plan \<Rightarrow> bool) \<Rightarrow> plan_db \<Rightarrow> bool" for adm where
  none: "db_plans db = [] \<Longrightarrow> db_steps db = [] \<Longrightarrow> repo_reaches adm db"
| more: "repo_reaches adm db \<Longrightarrow> repo_step adm db db' \<Longrightarrow> repo_reaches adm db'"

lemma sessions_ok:
  "repo_ok (db\<lparr>db_sessions := ss\<rparr>) = repo_ok db" "stored (db\<lparr>db_sessions := ss\<rparr>) = stored db"
  by (simp_all add: repo_ok_def stored_def fun_eq_iff)

lemmas operation_keeps_ok =
  create_plan_ok [THEN conjunct1] rerun_plan_ok [THEN conjunct1] claimStep_ok [THEN conjunct1]
  completeStep_ok [THEN conjunct1] failStep_ok [THEN conjunct1] attachTask_ok [THEN conjunct1]
  completeTaskStep_ok [THEN conjunct1]

lemma repo_step_ok: "repo_step adm db db' \<Longrightarrow> repo_ok db \<Longrightarrow> repo_ok db'"
  by (erule repo_step.cases) (simp add: sessions_ok, (simp only:, rule operation_keeps_ok, assumption, assumption)+)

lemma repo_reaches_ok: "repo_reaches adm db \<Longrightarrow> repo_ok db"
proof (induction rule: repo_reaches.induct)
  case (none db)
  then show ?case by (simp add: repo_ok_def plans_ok_def steps_ok_def)
next
  case (more db db')
  then show ?case using repo_step_ok by blast
qed

definition plans_inv :: "plan_db \<Rightarrow> bool" where
  "plans_inv db \<longleftrightarrow> (\<forall>i plan. stored db i = Some plan \<longrightarrow> (\<exists>p. plan_inv p plan))"

lemma plans_inv_upd:
  "plans_inv db \<Longrightarrow> stored db' = (stored db)(i \<mapsto> plan) \<Longrightarrow> (\<exists>p. plan_inv p plan) \<Longrightarrow> plans_inv db'"
  by (auto simp: plans_inv_def)

definition starts_pending :: "agent_plan \<Rightarrow> bool" where
  "starts_pending plan \<longleftrightarrow> (\<forall>s \<in> set (pl_steps plan). st_status s = Pending)"

lemma plan_inv_pending: "plan_ok p plan \<Longrightarrow> starts_pending plan \<Longrightarrow> plan_inv p plan"
  by (auto simp: starts_pending_def plan_inv_def deps_done_def conc_excl_def running_leased_def)

lemma reaches_inv_ex: "(\<exists>p. plan_inv p plan) \<Longrightarrow> plan_reaches plan q \<Longrightarrow> \<exists>p. plan_inv p q"
  using plan_inv_reaches by blast

lemma repo_step_inv:
  assumes "repo_step starts_pending db db'" "repo_ok db" "plans_inv db"
  shows "plans_inv db'"
  using assms
proof (induction rule: repo_step.induct)
  case (sessions db ss)
  then show ?case by (simp add: plans_inv_def sessions_ok)
next
  case (create owner sid plan v profile db db' c)
  have "plan_inv profile (plan\<lparr>pl_sessionId := sid\<rparr>)"
    using create_plan_ok [OF create(3,1)] create(2) by (simp add: plan_inv_pending)
  with create_plan_ok [OF create(3,1)] create(4) show ?case by (blast intro: plans_inv_upd)
next
  case (again newId pid owner i db db' nxt cost)
  from rerun_plan_ok [OF again(2,1)] obtain current where c: "stored db pid = Some current"
    "nxt = (fst (rerun current i))\<lparr>pl_id := newId\<rparr>" "stored db' = (stored db)(newId \<mapsto> nxt)" by blast
  with again(3) obtain p where "plan_inv p current" by (auto simp: plans_inv_def)
  then have "\<exists>p. plan_inv p nxt" using rerun_inv c(2) by auto
  with again(3) c(3) show ?case by (blast intro: plans_inv_upd)
next
  case (claim pid owner i now ms db db' nxt)
  from claimStep_ok [OF claim(2,1)] claim(3) show ?case
    unfolding plans_inv_def [of db] by (metis reaches_inv_ex claim(3) plans_inv_upd)
next
  case (complete pid owner i k out db db' nxt)
  from completeStep_ok [OF complete(2,1)] complete(3) show ?case
    unfolding plans_inv_def [of db] by (metis reaches_inv_ex complete(3) plans_inv_upd)
next
  case (fail pid owner i k err db db' nxt)
  from failStep_ok [OF fail(2,1)] fail(3) show ?case
    unfolding plans_inv_def [of db] by (metis reaches_inv_ex fail(3) plans_inv_upd)
next
  case (attach pid owner i k t db db' nxt)
  from attachTask_ok [OF attach(2,1)] attach(3) show ?case
    unfolding plans_inv_def [of db] by (metis attach_inv attach(3) plans_inv_upd)
next
  case (task t st ec ref db db' r)
  from completeTaskStep_ok [OF task(2,1)] task(3) show ?case
    unfolding plans_inv_def [of db] by (metis reaches_inv_ex task(3) plans_inv_upd)
qed

lemma repo_reaches_inv: "repo_reaches starts_pending db \<Longrightarrow> plans_inv db"
proof (induction rule: repo_reaches.induct)
  case (none db)
  then show ?case by (simp add: plans_inv_def stored_def)
next
  case (more db db')
  then show ?case using repo_step_inv repo_reaches_ok by blast
qed

section \<open>A plan that was run again\<close>

lemma distinct_map_filterD:
  "distinct (List.map_filter f xs) \<Longrightarrow> x \<in> set xs \<Longrightarrow> y \<in> set xs \<Longrightarrow> f x = Some v \<Longrightarrow> f y = Some v \<Longrightarrow> x = y"
  by (force simp: List.map_filter_def distinct_map inj_on_def)

lemma release_nothing: "\<forall>s \<in> set (pl_steps plan). \<not> lease_expired now s \<Longrightarrow> releaseExpiredLeases plan now = plan"
  by (auto simp: releaseExpiredLeases_def)











section \<open>Properties\<close>

definition empty_db :: plan_db where
  "empty_db = \<lparr>db_sessions = [\<lparr>se_id = ''s'', se_user_id = ''u'', se_status = None\<rparr>], db_plans = [], db_steps = []\<rparr>"

definition sample_db :: plan_db where
  "sample_db = empty_db\<lparr>
     db_plans := [\<lparr>pr_id = ''p'', pr_session_id = ''s'', pr_version = 1, pr_canvas_version = 7,
       pr_status = Plan_draft, pr_plan_json = Plan_json sample_plan, pr_created_by = ''u''\<rparr>],
     db_steps := map (step_row_of ''p'') (pl_steps sample_plan)\<rparr>"

lemma steps_ok_append: "steps_ok (xs @ ys) \<Longrightarrow> steps_ok xs"
  by (simp add: steps_ok_def List.map_filter_def)

lemma insertSteps_ok:
  "steps_ok (db_steps db @ map (step_row_of pid) steps) \<Longrightarrow>
   insertSteps pid steps db = Inr (db\<lparr>db_steps := db_steps db @ map (step_row_of pid) steps\<rparr>)"
proof (induction steps arbitrary: db)
  case (Cons s rest)
  have "steps_ok ((db_steps db @ [step_row_of pid s]) @ map (step_row_of pid) rest)" using Cons.prems by simp
  with Cons.IH [of "db\<lparr>db_steps := db_steps db @ [step_row_of pid s]\<rparr>"] steps_ok_append [OF this]
  show ?case by (simp add: insertStep_def write_steps_def)
qed simp

lemma sample_rows_ok: "steps_ok (map (step_row_of ''p'') (pl_steps sample_plan))"
  by (simp add: steps_ok_def sample_defs step_row_of_def idem_entry_def List.map_filter_def)

lemma pl_fields: "pl_id sample_plan = ''p''" "pl_version sample_plan = 1" "pl_canvasVersion sample_plan = 7"
  by (simp_all add: sample_plan_def)

lemma sample_create: "\<exists>c. create_plan ''u'' ''s'' sample_plan 1 Canvas_general empty_db = Inr (sample_db, c)"
proof -
  obtain c where c: "compile sample_plan 1 Canvas_general = Inr c" using sample_plan_compiles by blast
  show ?thesis
    using sample_rows_ok
    by (simp add: create_plan_def c requireSession_def write_plans_def insertSteps_ok empty_db_def plans_ok_def
        del: insertSteps.simps)
       (simp add: sample_db_def empty_db_def pl_fields insertSteps_ok)
qed

lemma sample_db_reached: "repo_reaches starts_pending sample_db" "repo_reaches (\<lambda>_. True) sample_db"
proof -
  obtain c where c: "create_plan ''u'' ''s'' sample_plan 1 Canvas_general empty_db = Inr (sample_db, c)"
    using sample_create by blast
  have "repo_reaches adm empty_db" for adm by (rule repo_reaches.none) (simp_all add: empty_db_def)
  note step = repo_reaches.more [OF this repo_step.create [OF c]]
  have "starts_pending sample_plan" using sample_pending by (simp add: starts_pending_def)
  then show "repo_reaches starts_pending sample_db" by (rule step)
  show "repo_reaches (\<lambda>_. True) sample_db" by (rule step) simp
qed

lemma sample_db_stored: "stored sample_db ''p'' = Some sample_plan"
  by (simp add: stored_def sample_db_def empty_db_def toPlan_def sample_defs)

text \<open>
  C7. The tables agree.  In every database the repository's operations reach, whatever plans were
  created and in whatever order the operations ran, plan ids and the versions of a session's plans are
  unique, the JSON stored in each plan row is a plan with the row's id, version and canvas version, the rows of
  \<^verbatim>\<open>agent_plan_steps\<close> for it are exactly its steps, in order, with the same status, lease, keys, task
  and outputs, and no step row is without its plan.
\<close>

theorem plan_tables_agree:
  assumes "repo_reaches (\<lambda>_. True) db"
  shows "distinct (map pr_id (db_plans db)) \<and>
    distinct (map (\<lambda>r. (pr_session_id r, pr_version r)) (db_plans db)) \<and>
    (\<forall>r \<in> set (db_plans db). \<exists>plan. pr_plan_json r = Plan_json plan \<and> pl_id plan = pr_id r \<and>
       pl_version plan = pr_version r \<and> pl_canvasVersion plan = pr_canvas_version r \<and>
       filter (\<lambda>s. sr_plan_id s = pr_id r) (db_steps db) = map (step_row_of (pr_id r)) (pl_steps plan)) \<and>
    (\<forall>s \<in> set (db_steps db). \<exists>r \<in> set (db_plans db). pr_id r = sr_plan_id s)"
proof -
  have ok: "repo_ok db" by (rule repo_reaches_ok [OF assms])
  then have "\<exists>r \<in> set (db_plans db). pr_id r = sr_plan_id s" if "s \<in> set (db_steps db)" for s
    using that unfolding repo_ok_def by (metis imageE)
  with ok show ?thesis unfolding repo_ok_def plans_ok_def row_ok_def by blast
qed

theorem plan_tables_agree_witness:
  "\<exists>plan. pr_plan_json (hd (db_plans sample_db)) = Plan_json plan \<and>
    filter (\<lambda>s. sr_plan_id s = ''p'') (db_steps sample_db) = map (step_row_of ''p'') (pl_steps plan)"
proof -
  have "hd (db_plans sample_db) \<in> set (db_plans sample_db)" "pr_id (hd (db_plans sample_db)) = ''p''"
    by (simp_all add: sample_db_def)
  with plan_tables_agree [OF sample_db_reached(2)] show ?thesis by metis
qed

text \<open>
  C6. When every plan is created with its steps pending, every plan in the database, reruns included,
  is always in a consistent state of execution: no step has started before all its dependencies
  completed, running steps never share a concurrency key, a running step holds a lease, an idempotency
  key and a counted attempt, and the dependencies have no cycle.
\<close>

theorem stored_plans_keep_execution_order:
  assumes "repo_reaches starts_pending db" "stored db i = Some plan"
  shows "deps_done plan \<and> conc_excl plan \<and> running_leased plan \<and> acyclic (dep_rel (pl_steps plan))"
  using repo_reaches_inv [OF assms(1)] assms(2) by (auto simp: plans_inv_def plan_inv_def plan_ok_def)

theorem stored_plans_keep_execution_order_witness: "deps_done sample_plan \<and> conc_excl sample_plan"
  using stored_plans_keep_execution_order [OF sample_db_reached(1) sample_db_stored] by simp

text \<open>
  C1. The repository implements the step state machine.  A claim, a completion or a failure that returns
  was asked by the owner of the plan's session, stores the plan that \<^verbatim>\<open>plan-step-state\<close> computes from the
  one stored before (a claim first releases the expired leases), and changes no other plan.
\<close>

theorem repository_refines_step_machine:
  assumes "repo_reaches (\<lambda>_. True) db"
    and "claimStep pid owner i now ms db = Inr (db', nxt) \<or>
      completeStep pid owner i k out db = Inr (db', nxt) \<or> failStep pid owner i k err db = Inr (db', nxt)"
  shows "\<exists>plan. stored db pid = Some plan \<and> owns_session db (pl_sessionId plan) owner \<and>
    (claimPlanStep (releaseExpiredLeases plan now) i now (case ms of None \<Rightarrow> default_lease_ms | Some m \<Rightarrow> m) = Inr nxt \<or>
     completePlanStep plan i k out = Inr nxt \<or> failPlanStep plan i k err = Inr nxt) \<and>
    plan_reaches plan nxt \<and> stored db' = (stored db)(pid \<mapsto> nxt)"
  using assms(2)
proof (elim disjE)
  note ok = repo_reaches_ok [OF assms(1)]
  show ?thesis if "claimStep pid owner i now ms db = Inr (db', nxt)"
    using claimStep_ok [OF ok that] by blast
  show ?thesis if "completeStep pid owner i k out db = Inr (db', nxt)"
    using completeStep_ok [OF ok that] by blast
  show ?thesis if "failStep pid owner i k err db = Inr (db', nxt)"
    using failStep_ok [OF ok that] by blast
qed

lemma sample_claimStep: "\<exists>db'. claimStep ''p'' ''u'' ''a'' 1000 (Some 30) sample_db = Inr (db', sample_claimed)"
proof -
  have row: "\<exists>row. select_plan sample_db ''p'' ''u'' = Some row \<and> toPlan row = Inr sample_plan"
    by (simp add: select_plan_def sample_db_def empty_db_def owns_session_def toPlan_def sample_defs)
  have "releaseExpiredLeases sample_plan 1000 = sample_plan"
    by (rule release_nothing) (simp add: sample_defs lease_expired_def)
  then have "\<exists>db'. claimStep ''p'' ''u'' ''a'' 1000 (Some 30) sample_db = save_plan sample_plan sample_claimed sample_db"
    using row sample_claim by (auto simp: claimStep_def mutate_def)
  moreover have "\<exists>db'. save_plan sample_plan sample_claimed sample_db = Inr (db', sample_claimed)"
    by (simp add: save_plan_def sample_db_def empty_db_def sample_claimed_def updateStep_def clonePlanStep_def
        claim_overrides_def sample_defs write_plans_def plans_ok_def updateStepProjection_def write_steps_def
        steps_ok_def step_row_of_def idem_entry_def List.map_filter_def set_execution_columns_def)
  ultimately show ?thesis by simp
qed

theorem repository_refines_step_machine_witness: "plan_reaches sample_plan sample_claimed"
proof -
  obtain db' where "claimStep ''p'' ''u'' ''a'' 1000 (Some 30) sample_db = Inr (db', sample_claimed)"
    using sample_claimStep by blast
  then show ?thesis
    using repository_refines_step_machine [OF sample_db_reached(2), of "''p''" "''u''" "''a''" 1000 "Some 30" db' sample_claimed]
    by (simp add: sample_db_stored)
qed



text \<open>
  A plan with a submitted generation task cannot be run again: the copy of the step carries the task
  id of the original, which the unique index on task ids refuses, so the rerun fails for every step and
  every user.
\<close>

theorem rerun_refused_with_task:
  assumes "repo_reaches (\<lambda>_. True) db" "stored db pid = Some plan" "s \<in> set (pl_steps plan)" "st_taskId s = Some t"
  shows "\<exists>e. rerun_plan newId pid owner i db = Inl e"
proof (cases "rerun_plan newId pid owner i db")
  case (Inr x)
  then obtain db' nxt cost where run: "rerun_plan newId pid owner i db = Inr (db', nxt, cost)" by (cases x) auto
  from rerun_plan_ok [OF repo_reaches_ok [OF assms(1)] run] assms(2) have ok: "repo_ok db'" and
    new: "stored db newId = None" and nxt: "nxt = (fst (rerun plan i))\<lparr>pl_id := newId\<rparr>"
    and st: "stored db' = (stored db)(newId \<mapsto> nxt)" by auto
  have row_in: "step_row_of j u \<in> set (db_steps db')" if "stored db' j = Some q" "u \<in> set (pl_steps q)" for j q u
  proof -
    from that(1) obtain r where "r \<in> set (db_plans db')" "pr_id r = j" "toPlan r = Inr q" by (rule stored_SomeD)
    with stored_row [OF ok this(1)] have "filter (\<lambda>s. sr_plan_id s = j) (db_steps db') = map (step_row_of j) (pl_steps q)"
      by auto
    then have "set (map (step_row_of j) (pl_steps q)) \<subseteq> set (db_steps db')" by (metis filter_is_subset)
    with that(2) show ?thesis by auto
  qed
  from assms(2) st new have "stored db' pid = Some plan" "newId \<noteq> pid" by auto
  moreover define u where "u = (if st_id s \<in> dependents (pl_steps plan) {i} then s\<lparr>st_status := Pending\<rparr> else s)"
  have "u \<in> set (pl_steps nxt)" "st_taskId u = Some t"
    using assms(3,4) by (simp_all add: nxt rerun_steps u_def)
  moreover have "stored db' newId = Some nxt" by (simp add: st)
  ultimately have rows: "step_row_of pid s \<in> set (db_steps db')" "step_row_of newId u \<in> set (db_steps db')"
    and tasks: "sr_task_id (step_row_of pid s) = Some t" "sr_task_id (step_row_of newId u) = Some t"
    using row_in assms(3,4) by (simp_all add: step_row_of_def [of _ s, THEN arg_cong [where f = sr_task_id]]
      step_row_of_def [of _ u, THEN arg_cong [where f = sr_task_id]])
  have "distinct (List.map_filter sr_task_id (db_steps db'))" using ok by (simp add: repo_ok_def steps_ok_def)
  from distinct_map_filterD [OF this rows tasks] have "step_row_of pid s = step_row_of newId u" .
  with \<open>newId \<noteq> pid\<close> show ?thesis by (simp add: step_row_of_def)
qed blast

text \<open>For the witness: a plan of one generation step, created, claimed and given its task.\<close>

definition task_plan :: agent_plan where
  "task_plan = sample_plan\<lparr>pl_steps := [(sample_step ''g'' ''submit_generation'' [])\<lparr>st_effect := Some Effect_create_task\<rparr>]\<rparr>"

lemma task_plan_compiles: "\<exists>c. compile task_plan 1 Canvas_general = Inr c"
  by (simp add: compile_def task_plan_def sample_defs tool_lookup_names entry_def effectForTool_def js_is_integer_def
      hasCycle_def hasCycle_run_def byId_def find_step_def numeral_2_eq_2)

lemmas repo_run_defs = claimStep_def attachTask_def mutate_def select_plan_def owns_session_def toPlan_def save_plan_def
  write_plans_def plans_ok_def updateStepProjection_def write_steps_def steps_ok_def idem_entry_def
  List.map_filter_def set_execution_columns_def step_row_of_def releaseExpiredLeases_def lease_expired_def
  claimPlanStep_def requireStep_def isReady_def conc_key_def updateStep_def clonePlanStep_def claim_overrides_def
  attach_to_def find_step_def

lemma task_plan_runs:
  "\<exists>db c db1 p1 db2 p2 s. create_plan ''u'' ''s'' task_plan 1 Canvas_general empty_db = Inr (db, c) \<and>
     claimStep ''p'' ''u'' ''g'' 1000 None db = Inr (db1, p1) \<and>
     attachTask ''p'' ''u'' ''g'' ''p:g:h'' ''77'' db1 = Inr (db2, p2) \<and>
     stored db2 ''p'' = Some p2 \<and> s \<in> set (pl_steps p2) \<and> st_taskId s = Some ''77''"
proof -
  obtain c where c: "compile task_plan 1 Canvas_general = Inr c" using task_plan_compiles by blast
  show ?thesis
    by (simp add: create_plan_def c requireSession_def empty_db_def)
       (simp add: task_plan_def sample_defs insertStep_def repo_run_defs stored_def default_lease_ms_def)
qed

theorem rerun_refused_with_task_witness:
  "\<exists>db e. repo_reaches (\<lambda>_. True) db \<and> rerun_plan ''q'' ''p'' ''u'' ''g'' db = Inl e"
proof -
  obtain db c db1 p1 db2 p2 s where run: "create_plan ''u'' ''s'' task_plan 1 Canvas_general empty_db = Inr (db, c)"
    "claimStep ''p'' ''u'' ''g'' 1000 None db = Inr (db1, p1)"
    "attachTask ''p'' ''u'' ''g'' ''p:g:h'' ''77'' db1 = Inr (db2, p2)"
    and task: "stored db2 ''p'' = Some p2" "s \<in> set (pl_steps p2)" "st_taskId s = Some ''77''"
    using task_plan_runs by blast
  have "repo_reaches (\<lambda>_. True) empty_db" by (rule repo_reaches.none) (simp_all add: empty_db_def)
  then have "repo_reaches (\<lambda>_. True) db" by (rule repo_reaches.more) (rule repo_step.create [OF run(1)], simp)
  then have "repo_reaches (\<lambda>_. True) db1" by (rule repo_reaches.more) (rule repo_step.claim [OF run(2)])
  then have "repo_reaches (\<lambda>_. True) db2" by (rule repo_reaches.more) (rule repo_step.attach [OF run(3)])
  with rerun_refused_with_task [OF this task] show ?thesis by blast
qed

end
