(* ===== verification/ReadTools.thy ===== *)
theory ReadTools
  imports AgentPlan
begin

text \<open>
  The read tools (\<^verbatim>\<open>tools/read-tools.ts\<close>), which pass results of the gateway on without the fields that
  may hold secrets, and the executor of read steps over them (\<^verbatim>\<open>application/read-plan-step-executor.ts\<close>).
  The gateway is a parameter: a record of the functions of \<^verbatim>\<open>ReadToolsGateway\<close>, each of which returns an
  error message or a value.  An error is its message.
\<close>

record read_gateway =
  gw_getCanvasSummary :: "string \<Rightarrow> string \<Rightarrow> string option \<Rightarrow> string + json"
  gw_getSelectedNodes :: "string \<Rightarrow> string \<Rightarrow> string list \<Rightarrow> string option \<Rightarrow> string + json"
  gw_getNodeDetail :: "string \<Rightarrow> string \<Rightarrow> string \<Rightarrow> string option \<Rightarrow> string + json"
  gw_listModels :: "string \<Rightarrow> string option \<Rightarrow> string + json"
  gw_searchAssets :: "string \<Rightarrow> string \<Rightarrow> string option \<Rightarrow> string + json"
  gw_checkTaskStatus :: "string \<Rightarrow> string \<Rightarrow> string option \<Rightarrow> string + json"

section \<open>Removing secrets\<close>

text \<open>
  The regular expression \<open>/(secret|token|password|api[_-]?key|authorization|binary|base64)/i\<close>.
\<close>

definition sensitive_words :: "string list" where
  "sensitive_words = [''secret'', ''token'', ''password'', ''apikey'', ''api_key'', ''api-key'', ''authorization'',
     ''binary'', ''base64'']"

definition sensitive_key :: "string \<Rightarrow> bool" where
  "sensitive_key key \<longleftrightarrow> (\<exists>w \<in> set sensitive_words. js_includes (ascii_lower key) w)"

fun sanitize :: "(string \<times> json) list \<Rightarrow> (string \<times> json) list" where
  "sanitize [] = []"
| "sanitize ((key, JObj fs) # rest) =
     (if sensitive_key key then sanitize rest else (key, JObj (sanitize fs)) # sanitize rest)"
| "sanitize ((key, v) # rest) = (if sensitive_key key then sanitize rest else (key, v) # sanitize rest)"

definition call_gateway :: "string + json \<Rightarrow> string + json" where
  "call_gateway result = (case result of
      Inr v \<Rightarrow> Inr v
    | Inl message \<Rightarrow>
        if js_includes message ''403'' \<or> js_includes message ''PERMISSION_DENIED'' then Inl ''PERMISSION_DENIED''
        else Inl (if js_includes message ''TIMEOUT'' then ''SERVICE_TIMEOUT'' else ''DOWNSTREAM_UNAVAILABLE''))"

definition objectResult :: "string + json \<Rightarrow> string + json" where
  "objectResult result = rbind (call_gateway result) (\<lambda>v.
     case v of JObj fs \<Rightarrow> Inr (JObj (sanitize fs)) | _ \<Rightarrow> Inl ''INVALID_RESPONSE'')"

definition sanitize_item :: "json \<Rightarrow> json" where
  "sanitize_item v = (case v of JObj fs \<Rightarrow> JObj (sanitize fs) | _ \<Rightarrow> v)"

definition arrayResult :: "string + json \<Rightarrow> string + json" where
  "arrayResult result = rbind (call_gateway result) (\<lambda>v.
     case v of JArr items \<Rightarrow> Inr (JArr (map sanitize_item items)) | _ \<Rightarrow> Inl ''INVALID_RESPONSE'')"

section \<open>The executor of read steps\<close>

definition requiredString :: "(string \<times> json) list \<Rightarrow> string \<Rightarrow> string + string" where
  "requiredString input key = (case json_field input key of
      Some (JStr s) \<Rightarrow> if blank s then Inl ''INVALID_INPUT'' else Inr s
    | _ \<Rightarrow> Inl ''INVALID_INPUT'')"

definition string_item :: "json \<Rightarrow> string + string" where
  "string_item v = (case v of JStr s \<Rightarrow> if blank s then Inl ''INVALID_INPUT'' else Inr s | _ \<Rightarrow> Inl ''INVALID_INPUT'')"

definition requiredStringArray :: "(string \<times> json) list \<Rightarrow> string \<Rightarrow> string + string list" where
  "requiredStringArray input key = (case json_field input key of
      Some (JArr items) \<Rightarrow> if items = [] then Inl ''INVALID_INPUT'' else rmap string_item items
    | _ \<Rightarrow> Inl ''INVALID_INPUT'')"

definition executeTool :: "read_gateway \<Rightarrow> string \<Rightarrow> string \<Rightarrow> string \<Rightarrow> (string \<times> json) list \<Rightarrow> string option \<Rightarrow>
    string + json" where
  "executeTool gw tool ownerId canvasId args requestId =
     (if tool = ''get_canvas_summary'' then objectResult (gw_getCanvasSummary gw ownerId canvasId requestId)
      else if tool = ''get_selected_nodes'' then
        rbind (requiredStringArray args ''nodeIds'') (\<lambda>ids.
          arrayResult (gw_getSelectedNodes gw ownerId canvasId ids requestId))
      else if tool = ''get_node_detail'' then
        rbind (requiredString args ''nodeId'') (\<lambda>nodeId.
          objectResult (gw_getNodeDetail gw ownerId canvasId nodeId requestId))
      else if tool = ''list_models'' then arrayResult (gw_listModels gw ownerId requestId)
      else if tool = ''search_assets'' then
        rbind (requiredString args ''query'') (\<lambda>q. arrayResult (gw_searchAssets gw ownerId q requestId))
      else if tool = ''check_task_status'' then
        rbind (requiredString args ''taskId'') (\<lambda>t. objectResult (gw_checkTaskStatus gw ownerId t requestId))
      else Inl ''TOOL_NOT_ALLOWED'')"

record read_request =
  rq_planId :: string
  rq_step :: plan_step
  rq_ownerId :: string
  rq_canvasId :: string
  rq_requestId :: "string option"

definition execute_read :: "read_gateway \<Rightarrow> read_request \<Rightarrow> string + (string option \<times> json)" where
  "execute_read gw input =
     (let step = rq_step input;
          args = (case st_input step of None \<Rightarrow> [] | Some a \<Rightarrow> a)
      in rbind (executeTool gw (st_tool step) (rq_ownerId input) (rq_canvasId input) args (rq_requestId input)) (\<lambda>result.
           Inr (Some (''read-result://'' @ rq_planId input @ ''/'' @ st_id step @ ''/'' @
             nat_text (case st_attemptCount step of None \<Rightarrow> 1 | Some n \<Rightarrow> n)), result)))"

section \<open>What is removed and what is not\<close>

text \<open>Every key that is reached from a value through objects only, and through arrays too.\<close>

fun object_keys :: "json \<Rightarrow> string list" where
  "object_keys (JObj []) = []"
| "object_keys (JObj ((k, v) # rest)) = k # object_keys v @ object_keys (JObj rest)"
| "object_keys v = []"

fun all_keys :: "json \<Rightarrow> string list" where
  "all_keys (JObj []) = []"
| "all_keys (JObj ((k, v) # rest)) = k # all_keys v @ all_keys (JObj rest)"
| "all_keys (JArr []) = []"
| "all_keys (JArr (v # rest)) = all_keys v @ all_keys (JArr rest)"
| "all_keys v = []"

lemma sanitize_no_object_keys: "filter sensitive_key (object_keys (JObj (sanitize fs))) = []"
  by (induction fs rule: sanitize.induct) simp_all

text \<open>A field that is not an object is kept as it is, or dropped for its own key.\<close>

lemma sanitize_field:
  "distinct (map fst fs) \<Longrightarrow> json_field (sanitize fs) k =
    (if sensitive_key k then None else map_option (\<lambda>v. case v of JObj gs \<Rightarrow> JObj (sanitize gs) | _ \<Rightarrow> v) (json_field fs k))"
  by (induction fs rule: sanitize.induct) (auto simp: json_field_def split: json.splits)

lemma sanitize_keys: "map fst (sanitize fs) = filter (\<lambda>k. \<not> sensitive_key k) (map fst fs)"
  by (induction fs rule: sanitize.induct) auto

text \<open>On values without arrays nothing is left.\<close>

fun array_free :: "json \<Rightarrow> bool" where
  "array_free (JObj []) = True"
| "array_free (JObj ((k, v) # rest)) = (array_free v \<and> array_free (JObj rest))"
| "array_free (JArr items) = False"
| "array_free v = True"

lemma array_free_keys: "array_free v \<Longrightarrow> all_keys v = object_keys v"
  by (induction v rule: object_keys.induct) auto

lemma sanitize_array_free: "array_free (JObj fs) \<Longrightarrow> array_free (JObj (sanitize fs))"
  by (induction fs rule: sanitize.induct) auto

text \<open>Two tools of the manifest read but are not among the ones the executor knows.\<close>

lemma executeTool_unknown:
  "executeTool gw ''load_skill'' u c args r = Inl ''TOOL_NOT_ALLOWED''"
  "executeTool gw ''request_render_audit'' u c args r = Inl ''TOOL_NOT_ALLOWED''"
  by (simp_all add: executeTool_def)

section \<open>Properties\<close>

text \<open>
  A record that the read tools pass on has no key that names a secret, at any depth that is reached
  through records; a record without arrays has none at all.  A record inside an array is passed on as it
  is: for every key, the value may hold it there.
\<close>

theorem sanitize_removes_secrets:
  "(\<forall>k. k \<in> set (object_keys (JObj (sanitize fs))) \<longrightarrow> \<not> sensitive_key k) \<and>
   (array_free (JObj fs) \<longrightarrow> (\<forall>k. k \<in> set (all_keys (JObj (sanitize fs))) \<longrightarrow> \<not> sensitive_key k)) \<and>
   (\<not> sensitive_key n \<longrightarrow>
     sanitize [(n, JArr [JObj [(key, v)]])] = [(n, JArr [JObj [(key, v)]])])"
  using sanitize_no_object_keys [of fs] array_free_keys [OF sanitize_array_free, of fs]
  by (auto simp: filter_empty_conv)

theorem sanitize_removes_secrets_witness:
  "sanitize [(''nodes'', JArr [JObj [(''apiKey'', JStr ''x'')]]), (''token'', JNull)] =
     [(''nodes'', JArr [JObj [(''apiKey'', JStr ''x'')]])] \<and> sensitive_key ''apiKey''"
proof -
  have n: "\<not> sensitive_key ''nodes''" and t: "sensitive_key ''token''" and a: "sensitive_key ''apiKey''"
    by code_simp+
  from sanitize_removes_secrets [of "[]" "''nodes''" "''apiKey''" "JStr ''x''"] n t a show ?thesis by simp
qed

end
