(* ===== verification/PlanExecution.thy ===== *)
theory PlanExecution
  imports PlanRepository ReadTools
begin

text \<open>
  The execution of a plan's ready reads (\<^verbatim>\<open>application/plan-execution-service.ts\<close>).  The calls of
  \<open>executeOne\<close> for the steps of a partition run concurrently: each is a worker whose atomic pieces are its
  repository calls, and a schedule, the list of the workers in the order in which they take a piece,
  stands for the interleaving.  The gate only delays a worker, so its runs are among the schedules.

  The repository is a record of functions, as the interface \<open>PlanExecutionRepository\<close> has it; an error is
  the message of the exception.
\<close>

record 's exec_repository =
  ex_readySet :: "'s \<Rightarrow> string \<Rightarrow> string \<Rightarrow> agent_profile \<Rightarrow> string + compiled_plan"
  ex_claimStep :: "string \<Rightarrow> string \<Rightarrow> string \<Rightarrow> int \<Rightarrow> int option \<Rightarrow> 's \<Rightarrow> string + ('s \<times> agent_plan)"
  ex_completeStep :: "string \<Rightarrow> string \<Rightarrow> string \<Rightarrow> string \<Rightarrow> string option \<Rightarrow> 's \<Rightarrow> string + ('s \<times> agent_plan)"
  ex_failStep :: "string \<Rightarrow> string \<Rightarrow> string \<Rightarrow> string \<Rightarrow> string \<Rightarrow> 's \<Rightarrow> string + ('s \<times> agent_plan)"

text \<open>The input of an execution; \<open>now\<close> is given, as a request that pins the clock does, not read anew for every claim.\<close>

record exec_input =
  in_planId :: string
  in_ownerId :: string
  in_canvasId :: string
  in_profile :: agent_profile
  in_requestId :: "string option"
  in_now :: int
  in_leaseDurationMs :: "int option"

section \<open>One step\<close>

text \<open>\<open>/^[A-Z][A-Z0-9_]{2,127}$/\<close>.\<close>

definition upper_letter :: "char \<Rightarrow> bool" where
  "upper_letter c \<longleftrightarrow> (let n = of_char c :: nat in 65 \<le> n \<and> n \<le> 90)"

definition code_char :: "char \<Rightarrow> bool" where
  "code_char c \<longleftrightarrow> upper_letter c \<or> (let n = of_char c :: nat in 48 \<le> n \<and> n \<le> 57) \<or> c = CHR ''_''"

definition toSafeErrorCode :: "string \<Rightarrow> string" where
  "toSafeErrorCode message =
     (case message of
        [] \<Rightarrow> ''READ_EXECUTION_FAILED''
      | c # rest \<Rightarrow>
          if upper_letter c \<and> (\<forall>d \<in> set rest. code_char d) \<and> 2 \<le> length rest \<and> length rest \<le> 127
          then message else ''READ_EXECUTION_FAILED'')"

datatype outcome = Completed_with json | Failed_step

text \<open>The program points of \<open>executeOne\<close> between its repository calls.\<close>

datatype worker =
    At_claim
  | At_execute plan_step string
  | At_fail string string
  | Done outcome
  | Thrown string

definition advance :: "'s exec_repository \<Rightarrow> (read_request \<Rightarrow> string + (string option \<times> json)) \<Rightarrow> exec_input \<Rightarrow>
    agent_plan \<Rightarrow> string \<Rightarrow> worker \<Rightarrow> 's \<Rightarrow> worker \<times> 's" where
  "advance repo exec_read input plan stepId w s = (case w of
      At_claim \<Rightarrow>
        (case ex_claimStep repo (in_planId input) (in_ownerId input) stepId (in_now input) (in_leaseDurationMs input) s of
           Inl e \<Rightarrow> (Done Failed_step, s)
         | Inr (s', claimed) \<Rightarrow>
             (case find_step (pl_steps claimed) stepId of
                None \<Rightarrow> (Done Failed_step, s')
              | Some step \<Rightarrow>
                  (case st_idempotencyKey step of
                     None \<Rightarrow> (Done Failed_step, s')
                   | Some key \<Rightarrow> if key = [] then (Done Failed_step, s') else (At_execute step key, s'))))
    | At_execute step key \<Rightarrow>
        (case exec_read \<lparr>rq_planId = pl_id plan, rq_step = step, rq_ownerId = in_ownerId input,
             rq_canvasId = in_canvasId input, rq_requestId = in_requestId input\<rparr> of
           Inl e \<Rightarrow> (At_fail key (toSafeErrorCode e), s)
         | Inr (outputRef, result) \<Rightarrow>
             (case ex_completeStep repo (in_planId input) (in_ownerId input) stepId key outputRef s of
                Inl e \<Rightarrow> (At_fail key (toSafeErrorCode e), s)
              | Inr (s', _) \<Rightarrow> (Done (Completed_with result), s')))
    | At_fail key errorCode \<Rightarrow>
        (case ex_failStep repo (in_planId input) (in_ownerId input) stepId key errorCode s of
           Inl e \<Rightarrow> (Thrown e, s)
         | Inr (s', _) \<Rightarrow> (Done Failed_step, s'))
    | Done r \<Rightarrow> (Done r, s)
    | Thrown e \<Rightarrow> (Thrown e, s))"

section \<open>The partitions\<close>

text \<open>\<open>Promise.all\<close> over the steps of a partition, under a schedule of worker numbers.\<close>

fun run_workers :: "'s exec_repository \<Rightarrow> (read_request \<Rightarrow> string + (string option \<times> json)) \<Rightarrow> exec_input \<Rightarrow>
    agent_plan \<Rightarrow> nat list \<Rightarrow> (string \<times> worker) list \<Rightarrow> 's \<Rightarrow> (string \<times> worker) list \<times> 's" where
  "run_workers repo exec_read input plan [] ws s = (ws, s)"
| "run_workers repo exec_read input plan (n # schedule) ws s =
     (if n < length ws
      then let (stepId, w) = ws ! n; (w', s') = advance repo exec_read input plan stepId w s
           in run_workers repo exec_read input plan schedule (ws[n := (stepId, w')]) s'
      else run_workers repo exec_read input plan schedule ws s)"

definition finished :: "worker \<Rightarrow> bool" where
  "finished w = (case w of Done _ \<Rightarrow> True | Thrown _ \<Rightarrow> True | _ \<Rightarrow> False)"

fun outcomes_of :: "(string \<times> worker) list \<Rightarrow> string + (string \<times> outcome) list" where
  "outcomes_of [] = Inr []"
| "outcomes_of ((stepId, w) # ws) =
     (case w of Done r \<Rightarrow> rbind (outcomes_of ws) (\<lambda>rs. Inr ((stepId, r) # rs)) | Thrown e \<Rightarrow> Inl e | _ \<Rightarrow> Inl [])"

text \<open>
  The loop over the read partitions, with one schedule for each; \<open>None\<close> is a schedule that stops before
  every worker of its partition has finished.
\<close>

fun run_partitions :: "'s exec_repository \<Rightarrow> (read_request \<Rightarrow> string + (string option \<times> json)) \<Rightarrow> exec_input \<Rightarrow>
    agent_plan \<Rightarrow> string list list \<Rightarrow> nat list list \<Rightarrow> 's \<Rightarrow> ((string + (string \<times> outcome) list) \<times> 's) option" where
  "run_partitions repo exec_read input plan [] schedules s = Some (Inr [], s)"
| "run_partitions repo exec_read input plan (ids # rest) [] s = None"
| "run_partitions repo exec_read input plan (ids # rest) (schedule # schedules) s =
     (let (ws, s') = run_workers repo exec_read input plan schedule (map (\<lambda>i. (i, At_claim)) ids) s
      in if \<not> (\<forall>(i, w) \<in> set ws. finished w) then None
         else case outcomes_of ws of
             Inl e \<Rightarrow> Some (Inl e, s')
           | Inr rs \<Rightarrow> map_option (\<lambda>(r, s''). (rbind r (\<lambda>rs'. Inr (rs @ rs')), s''))
               (run_partitions repo exec_read input plan rest schedules s'))"

record read_execution =
  re_executed :: "string list"
  re_failed :: "string list"
  re_deferred :: "string list"
  re_results :: "(string \<times> json) list"

definition summary :: "string list \<Rightarrow> (string \<times> outcome) list \<Rightarrow> read_execution" where
  "summary deferred rs = \<lparr>
     re_executed = map fst (filter (\<lambda>(i, r). r \<noteq> Failed_step) rs),
     re_failed = map fst (filter (\<lambda>(i, r). r = Failed_step) rs),
     re_deferred = deferred,
     re_results = List.map_filter (\<lambda>(i, r). case r of Completed_with v \<Rightarrow> Some (i, v) | Failed_step \<Rightarrow> None) rs\<rparr>"

definition executeReadyReads :: "'s exec_repository \<Rightarrow> (read_request \<Rightarrow> string + (string option \<times> json)) \<Rightarrow>
    exec_input \<Rightarrow> nat list list \<Rightarrow> 's \<Rightarrow> ((string + read_execution) \<times> 's) option" where
  "executeReadyReads repo exec_read input schedules s =
     (case ex_readySet repo s (in_planId input) (in_ownerId input) (in_profile input) of
        Inl e \<Rightarrow> Some (Inl e, s)
      | Inr compiled \<Rightarrow>
          (let deferred = concat (map pa_stepIds (filter (\<lambda>q. pa_effect q \<noteq> Effect_read) (cp_partitions compiled)));
               reads = map pa_stepIds (filter (\<lambda>q. pa_effect q = Effect_read) (cp_partitions compiled))
           in map_option (\<lambda>(r, s'). (rbind r (\<lambda>rs. Inr (summary deferred rs)), s'))
                (run_partitions repo exec_read input (cp_plan compiled) reads schedules s)))"

section \<open>The repository of plans\<close>

text \<open>The message of each error; a constraint's message is PostgreSQL's and is no error code.\<close>

fun compile_error_text :: "compile_error \<Rightarrow> string" where
  "compile_error_text compile_error.VERSION_CONFLICT = ''VERSION_CONFLICT''"
| "compile_error_text compile_error.TOOL_NOT_ALLOWED = ''TOOL_NOT_ALLOWED''"
| "compile_error_text BATCH_LIMIT_EXCEEDED = ''BATCH_LIMIT_EXCEEDED''"
| "compile_error_text INVALID_DEPENDENCY = ''INVALID_DEPENDENCY''"

fun step_error_text :: "step_error \<Rightarrow> string" where
  "step_error_text NOT_READY = ''NOT_READY''"
| "step_error_text LEASE_HELD = ''LEASE_HELD''"
| "step_error_text INVALID_TRANSITION = ''INVALID_TRANSITION''"
| "step_error_text IDEMPOTENCY_CONFLICT = ''IDEMPOTENCY_CONFLICT''"

fun repo_error_text :: "repo_error \<Rightarrow> string" where
  "repo_error_text repo_error.NOT_FOUND = ''NOT_FOUND''"
| "repo_error_text repo_error.PERMISSION_DENIED = ''PERMISSION_DENIED''"
| "repo_error_text repo_error.VERSION_CONFLICT = ''VERSION_CONFLICT''"
| "repo_error_text (Compile_error e) = compile_error_text e"
| "repo_error_text (Step_error e) = step_error_text e"
| "repo_error_text Constraint_violated = ''duplicate key value violates unique constraint''"

definition pg_exec_repository :: "plan_db exec_repository" where
  "pg_exec_repository = \<lparr>
     ex_readySet = (\<lambda>db p u prof. map_sum repo_error_text id (plan_readySet db p u prof)),
     ex_claimStep = (\<lambda>p u i now ms db. map_sum repo_error_text id (claimStep p u i now ms db)),
     ex_completeStep = (\<lambda>p u i k out db. map_sum repo_error_text id (completeStep p u i k out db)),
     ex_failStep = (\<lambda>p u i k e db. map_sum repo_error_text id (failStep p u i k e db))\<rparr>"

section \<open>Every schedule that is long enough finishes\<close>

definition rank :: "worker \<Rightarrow> nat" where
  "rank w = (case w of At_claim \<Rightarrow> 3 | At_execute _ _ \<Rightarrow> 2 | At_fail _ _ \<Rightarrow> 1 | _ \<Rightarrow> 0)"

lemma rank_finished: "rank w = 0 \<longleftrightarrow> finished w"
  by (cases w) (simp_all add: rank_def finished_def)

lemma advance_rank: "rank (fst (advance repo er input plan i w s)) \<le> rank w - 1"
  by (cases w) (auto simp: advance_def rank_def split: sum.splits option.splits)

lemma run_workers_shape:
  "map fst (fst (run_workers repo er input plan schedule ws s)) = map fst ws"
proof (induction schedule arbitrary: ws s)
  case (Cons n schedule)
  have "map fst (ws[n := (fst (ws ! n), w)]) = map fst ws" if "n < length ws" for w
    using that by (simp add: map_update) (metis fst_conv list_update_id map_update nth_map)
  then show ?case using Cons by (auto simp: Let_def split_beta)
qed simp

lemma run_workers_rank:
  "n < length ws \<Longrightarrow>
   rank (snd (fst (run_workers repo er input plan schedule ws s) ! n)) \<le> rank (snd (ws ! n)) - count_list schedule n"
proof (induction schedule arbitrary: ws s)
  case (Cons m schedule)
  show ?case
  proof (cases "m < length ws")
    case True
    let ?a = "advance repo er input plan (fst (ws ! m)) (snd (ws ! m)) s"
    let ?ws = "ws[m := (fst (ws ! m), fst ?a)]"
    have "run_workers repo er input plan (m # schedule) ws s = run_workers repo er input plan schedule ?ws (snd ?a)"
      using True by (simp add: split_beta)
    moreover have "rank (snd (?ws ! n)) \<le> rank (snd (ws ! n)) - (if m = n then 1 else 0)"
      using Cons.prems advance_rank [of repo er input plan "fst (ws ! m)" "snd (ws ! m)" s] by (auto simp: nth_list_update)
    ultimately show ?thesis using Cons.IH [of ?ws "snd ?a"] Cons.prems by (auto split: if_splits)
  qed (use Cons in auto)
qed simp

lemma long_schedule_finishes:
  assumes "\<forall>n < length ws. 3 \<le> count_list schedule n"
  shows "\<forall>(i, w) \<in> set (fst (run_workers repo er input plan schedule ws s)). finished w"
proof -
  let ?out = "fst (run_workers repo er input plan schedule ws s)"
  have len: "length ?out = length ws" using run_workers_shape [of repo er input plan schedule ws s]
    by (metis length_map)
  have "finished (snd (?out ! n))" if "n < length ?out" for n
  proof -
    have "rank (snd (ws ! n)) \<le> 3" by (simp add: rank_def split: worker.split)
    with run_workers_rank [of n ws repo er input plan schedule s] assms that len have "rank (snd (?out ! n)) = 0" by fastforce
    then show ?thesis by (simp add: rank_finished)
  qed
  then show ?thesis by (auto simp: in_set_conv_nth) (metis snd_conv)
qed

lemma run_partitions_returns:
  assumes "length parts \<le> length schedules"
    and "\<forall>ids \<in> set parts. \<forall>schedule \<in> set schedules. \<forall>n < length ids. 3 \<le> count_list schedule n"
  shows "run_partitions repo er input plan parts schedules s \<noteq> None"
  using assms
proof (induction parts arbitrary: schedules s)
  case (Cons ids rest)
  then obtain schedule more where [simp]: "schedules = schedule # more" by (cases schedules) auto
  obtain ws s' where run: "run_workers repo er input plan schedule (map (\<lambda>i. (i, At_claim)) ids) s = (ws, s')"
    by force
  have "\<forall>(i, w) \<in> set (fst (run_workers repo er input plan schedule (map (\<lambda>i. (i, At_claim)) ids) s)). finished w"
    by (rule long_schedule_finishes) (use Cons.prems(2) in simp)
  moreover obtain r s'' where "run_partitions repo er input plan rest more s' = Some (r, s'')"
    using Cons.IH [of more s'] Cons.prems by auto
  ultimately show ?case by (auto simp: run split: sum.split)
qed simp

section \<open>What a run does to the database\<close>

text \<open>
  Only the plan itself changes, by transitions of its state machine; a step outside \<open>I\<close> stays as it is,
  unless its lease has expired, when it is released.
\<close>

definition released_by :: "int \<Rightarrow> plan_step \<Rightarrow> plan_step \<Rightarrow> bool" where
  "released_by now s t \<longleftrightarrow> t = s \<or> lease_expired now s \<and> t = s\<lparr>st_status := Pending, st_leaseUntil := None\<rparr>"

definition plan_touched :: "string set \<Rightarrow> int \<Rightarrow> agent_plan \<Rightarrow> agent_plan \<Rightarrow> bool" where
  "plan_touched I now p q \<longleftrightarrow> plan_reaches p q \<and>
     (\<forall>j s. j \<notin> I \<longrightarrow> find_step (pl_steps p) j = Some s \<longrightarrow>
        (\<exists>t. find_step (pl_steps q) j = Some t \<and> released_by now s t))"

definition touches :: "string set \<Rightarrow> string \<Rightarrow> int \<Rightarrow> plan_db \<Rightarrow> plan_db \<Rightarrow> bool" where
  "touches I pid now db db' \<longleftrightarrow> repo_ok db' \<and> (\<forall>j. j \<noteq> pid \<longrightarrow> stored db' j = stored db j) \<and>
     (case stored db pid of None \<Rightarrow> stored db' pid = None
      | Some p \<Rightarrow> (\<exists>q. stored db' pid = Some q \<and> plan_touched I now p q))"

lemma released_trans: "released_by now s t \<Longrightarrow> released_by now t u \<Longrightarrow> released_by now s u"
  by (auto simp: released_by_def lease_expired_def)

lemma plan_reaches_trans: "plan_reaches q r \<Longrightarrow> plan_reaches p q \<Longrightarrow> plan_reaches p r"
  by (induction rule: plan_reaches.induct) (auto intro: plan_reaches.next_step)

lemma plan_touched_refl: "plan_touched I now p p"
  by (auto simp: plan_touched_def released_by_def plan_reaches.here)

lemma plan_touched_trans: "plan_touched I now p q \<Longrightarrow> plan_touched I now q r \<Longrightarrow> plan_touched I now p r"
  unfolding plan_touched_def by (meson plan_reaches_trans released_trans)

lemma touches_refl: "repo_ok db \<Longrightarrow> touches I pid now db db"
  by (simp add: touches_def plan_touched_refl split: option.split)

lemma touches_trans: "touches I pid now a b \<Longrightarrow> touches I pid now b c \<Longrightarrow> touches I pid now a c"
  by (auto simp: touches_def split: option.splits intro: plan_touched_trans)

lemma touches_one:
  assumes "repo_ok db'" "stored db pid = Some p" "stored db' = (stored db)(pid \<mapsto> q)" "plan_touched I now p q"
  shows "touches I pid now db db'"
  using assms by (simp add: touches_def)

lemma updateStep_find_other:
  "j \<noteq> i \<Longrightarrow> (\<And>s. st_id (f s) = st_id s) \<Longrightarrow> find_step (pl_steps (updateStep p i f)) j = find_step (pl_steps p) j"
  by (cases "find_step (pl_steps p) j") (auto simp: updateStep_steps find_step_map dest: find_step_SomeD)

lemma claim_touched:
  assumes "claimPlanStep (releaseExpiredLeases p now) i now ms = Inr q" "i \<in> I"
  shows "plan_touched I now p q"
  unfolding plan_touched_def
proof (intro conjI allI impI)
  show "plan_reaches p q" by (rule claim_reaches [OF assms(1)])
  fix j s assume j: "j \<notin> I" and s: "find_step (pl_steps p) j = Some s"
  from assms(1) obtain step where
    "q = updateStep (releaseExpiredLeases p now) i (claim_overrides (releaseExpiredLeases p now) step (now + ms))"
    by (rule claim_ok)
  moreover have "j \<noteq> i" using j assms(2) by auto
  ultimately have "find_step (pl_steps q) j = find_step (pl_steps (releaseExpiredLeases p now)) j"
    by (simp add: updateStep_find_other claim_overrides_def)
  with s show "\<exists>t. find_step (pl_steps q) j = Some t \<and> released_by now s t"
    by (simp add: release_find released_by_def)
qed

lemma finish_touched:
  assumes "completePlanStep p i k out = Inr q \<or> failPlanStep p i k err = Inr q" "i \<in> I"
  shows "plan_touched I now p q"
proof -
  have other: "find_step (pl_steps q) j = find_step (pl_steps p) j" if "j \<notin> I" for j
  proof -
    have "j \<noteq> i" using that assms(2) by auto
    with assms(1) show ?thesis by (auto simp: finish_ok updateStep_find_other)
  qed
  have "plan_reaches p q" using assms(1) complete_reaches fail_reaches by blast
  with other show ?thesis by (auto simp: plan_touched_def released_by_def)
qed

text \<open>One piece of one worker.\<close>

lemma map_sum_InrD: "map_sum g id m = Inr x \<Longrightarrow> m = Inr x"
  by (simp add: map_sum_Inr)

lemma advance_touches:
  assumes ok: "repo_ok db" and run: "advance pg_exec_repository er input plan i w db = (w', db')"
  shows "touches {i} (in_planId input) (in_now input) db db'"
proof (cases "db' = db")
  case False
  note defs = advance_def pg_exec_repository_def
  let ?p = "in_planId input" and ?u = "in_ownerId input" and ?now = "in_now input"
  from run False consider
      q where "claimStep ?p ?u i ?now (in_leaseDurationMs input) db = Inr (db', q)"
    | k out q where "completeStep ?p ?u i k out db = Inr (db', q)"
    | k e q where "failStep ?p ?u i k e db = Inr (db', q)"
    by (cases w) (auto simp: defs split: sum.splits option.splits if_splits prod.splits dest!: map_sum_InrD)
  then show ?thesis
  proof cases
    case 1
    from claimStep_ok [OF ok this] obtain p where "repo_ok db'" "stored db ?p = Some p" "stored db' = (stored db)(?p \<mapsto> q)"
      "claimPlanStep (releaseExpiredLeases p ?now) i ?now
        (case in_leaseDurationMs input of None \<Rightarrow> default_lease_ms | Some m \<Rightarrow> m) = Inr q" by blast
    then show ?thesis using claim_touched touches_one by (metis insertI1)
  next
    case 2
    from completeStep_ok [OF ok this] obtain p where "repo_ok db'" "stored db ?p = Some p" "stored db' = (stored db)(?p \<mapsto> q)"
      "completePlanStep p i k out = Inr q" by blast
    then show ?thesis using finish_touched touches_one by (metis insertI1)
  next
    case 3
    from failStep_ok [OF ok this] obtain p where "repo_ok db'" "stored db ?p = Some p" "stored db' = (stored db)(?p \<mapsto> q)"
      "failPlanStep p i k e = Inr q" by blast
    then show ?thesis using finish_touched touches_one by (metis insertI1)
  qed
qed (simp add: touches_refl ok)

lemma touches_mono: "touches I pid now db db' \<Longrightarrow> I \<subseteq> J \<Longrightarrow> touches J pid now db db'"
  unfolding touches_def plan_touched_def by (auto split: option.splits) blast

text \<open>A step a worker reports as completed is completed in the database, then and later.\<close>

definition done_in :: "plan_db \<Rightarrow> string \<Rightarrow> string \<Rightarrow> bool" where
  "done_in db pid i \<longleftrightarrow> (\<exists>p. stored db pid = Some p \<and> step_completed (pl_steps p) i)"

definition reported_ok :: "plan_db \<Rightarrow> string \<Rightarrow> string \<times> worker \<Rightarrow> bool" where
  "reported_ok db pid iw \<longleftrightarrow> (\<forall>v. snd iw = Done (Completed_with v) \<longrightarrow> done_in db pid (fst iw))"

lemma stored_ids_ok: "repo_ok db \<Longrightarrow> stored db i = Some p \<Longrightarrow> ids_ok (pl_steps p)"
  by (erule stored_SomeD) (auto dest: stored_row)

lemma done_in_touches:
  assumes "repo_ok db" "touches I pid now db db'" "done_in db pid i"
  shows "done_in db' pid i"
proof -
  from assms(3) obtain p where p: "stored db pid = Some p" "step_completed (pl_steps p) i" by (auto simp: done_in_def)
  with assms(2) obtain q where "stored db' pid = Some q" "plan_reaches p q" by (auto simp: touches_def plan_touched_def)
  with completed_reaches [OF this(2) stored_ids_ok [OF assms(1) p(1)] p(2)] show ?thesis by (auto simp: done_in_def)
qed

lemma complete_done:
  "completePlanStep p i k out = Inr q \<Longrightarrow> step_completed (pl_steps q) i"
  by (auto simp: finish_ok updateStep_steps step_completed_def find_step_map dest: find_step_SomeD)

lemma advance_reported:
  assumes "repo_ok db" "advance pg_exec_repository er input plan i w db = (w', db')" "reported_ok db (in_planId input) (i, w)"
  shows "reported_ok db' (in_planId input) (i, w')"
  unfolding reported_ok_def
proof (intro allI impI, simp only: fst_conv snd_conv)
  fix v assume w': "w' = Done (Completed_with v)"
  show "done_in db' (in_planId input) i"
  proof (cases "w = w'")
    case True
    with assms w' show ?thesis by (simp add: advance_def reported_ok_def)
  next
    case False
    with assms(2) w' obtain k out q where "completeStep (in_planId input) (in_ownerId input) i k out db = Inr (db', q)"
      by (cases w) (auto simp: advance_def pg_exec_repository_def split: sum.splits option.splits if_splits prod.splits
          dest!: map_sum_InrD)
    from completeStep_ok [OF assms(1) this] show ?thesis by (auto simp: done_in_def complete_done)
  qed
qed

lemma run_workers_pg:
  assumes "repo_ok db" "run_workers pg_exec_repository er input plan schedule ws db = (ws', db')"
    and "\<forall>iw \<in> set ws. reported_ok db (in_planId input) iw"
  shows "touches (fst ` set ws) (in_planId input) (in_now input) db db' \<and>
    (\<forall>iw \<in> set ws'. reported_ok db' (in_planId input) iw)"
  using assms
proof (induction schedule arbitrary: ws db)
  case (Cons n schedule)
  let ?pid = "in_planId input" and ?now = "in_now input"
  show ?case
  proof (cases "n < length ws")
    case True
    obtain i w where iw: "ws ! n = (i, w)" by force
    obtain w1 db1 where adv: "advance pg_exec_repository er input plan i w db = (w1, db1)" by force
    let ?ws = "ws[n := (i, w1)]"
    have mem: "(i, w) \<in> set ws" using True iw by (metis nth_mem)
    have fsts: "fst ` set ?ws = fst ` set ws"
      using True iw by (metis (no_types) fst_conv list.set_map list_update_id map_update nth_map)
    have t1: "touches {i} ?pid ?now db db1" by (rule advance_touches [OF Cons.prems(1) adv])
    then have ok1: "repo_ok db1" by (simp add: touches_def)
    have rep: "\<forall>x \<in> set ?ws. reported_ok db1 ?pid x"
    proof
      fix x assume "x \<in> set ?ws"
      then consider "x = (i, w1)" | "x \<in> set ws" using set_update_subset_insert [of ws n "(i, w1)"] by blast
      then show "reported_ok db1 ?pid x"
      proof cases
        case 1
        then show ?thesis using advance_reported [OF Cons.prems(1) adv] Cons.prems(3) mem by simp
      next
        case 2
        with Cons.prems(3) done_in_touches [OF Cons.prems(1) t1] show ?thesis by (auto simp: reported_ok_def)
      qed
    qed
    from Cons.prems(2) True iw adv have run: "run_workers pg_exec_repository er input plan schedule ?ws db1 = (ws', db')"
      by simp
    note ih = Cons.IH [OF ok1 run rep, unfolded fsts]
    have "{i} \<subseteq> fst ` set ws" using mem by force
    with ih touches_trans [OF touches_mono [OF t1]] show ?thesis by blast
  qed (use Cons in auto)
qed (auto simp: touches_refl)

lemma outcomes_of_Inr:
  "outcomes_of ws = Inr rs \<Longrightarrow> map fst rs = map fst ws \<and> (\<forall>i r. (i, r) \<in> set rs \<longrightarrow> (i, Done r) \<in> set ws)"
proof (induction ws arbitrary: rs)
  case (Cons iw ws)
  obtain i w where [simp]: "iw = (i, w)" by force
  from Cons.prems obtain r rest where "w = Done r" "outcomes_of ws = Inr rest" "rs = (i, r) # rest"
    by (auto simp: result_simps split: worker.splits)
  with Cons.IH [of rest] show ?case by auto
qed simp

lemma run_partitions_pg:
  assumes "repo_ok db" "run_partitions pg_exec_repository er input plan parts schedules db = Some (r, db')"
  shows "touches (set (concat parts)) (in_planId input) (in_now input) db db' \<and>
    (\<forall>rs. r = Inr rs \<longrightarrow> map fst rs = concat parts \<and>
       (\<forall>i v. (i, Completed_with v) \<in> set rs \<longrightarrow> done_in db' (in_planId input) i))"
  using assms
proof (induction parts arbitrary: schedules db r)
  case Nil
  then show ?case by (auto simp: touches_refl)
next
  case (Cons ids rest)
  let ?pid = "in_planId input" and ?now = "in_now input"
  from Cons.prems(2) obtain schedule more where sch: "schedules = schedule # more" by (cases schedules) auto
  obtain ws db1 where run: "run_workers pg_exec_repository er input plan schedule (map (\<lambda>i. (i, At_claim)) ids) db = (ws, db1)"
    by force
  have fresh: "\<forall>iw \<in> set (map (\<lambda>i. (i, At_claim)) ids). reported_ok db ?pid iw" by (simp add: reported_ok_def)
  have t1: "touches (set ids) ?pid ?now db db1" and rep: "\<forall>iw \<in> set ws. reported_ok db1 ?pid iw"
    using run_workers_pg [OF Cons.prems(1) run fresh] by (simp_all add: image_image)
  then have ok1: "repo_ok db1" by (simp add: touches_def)
  have fsts: "map fst ws = ids"
    using run_workers_shape [of pg_exec_repository er input plan schedule "map (\<lambda>i. (i, At_claim)) ids" db] run
    by (simp add: comp_def)
  show ?case
  proof (cases "outcomes_of ws")
    case (Inl e)
    with Cons.prems(2) run sch have "r = Inl e" "db' = db1" by (auto simp: Let_def split: if_splits)
    with touches_mono [OF t1, of "set (concat (ids # rest))"] show ?thesis by auto
  next
    case (Inr rs)
    with Cons.prems(2) run sch obtain r' where r': "run_partitions pg_exec_repository er input plan rest more db1 = Some (r', db')"
      and r: "r = rbind r' (\<lambda>rs'. Inr (rs @ rs'))" by (auto simp: Let_def split: if_splits)
    note ih = Cons.IH [OF ok1 r']
    have "touches (set (concat (ids # rest))) ?pid ?now db db'"
      using touches_mono [OF t1] touches_mono [OF ih [THEN conjunct1]] touches_trans by (metis Un_upper1 Un_upper2 concat.simps(2) set_append)
    moreover have "map fst out = concat (ids # rest) \<and>
        (\<forall>i v. (i, Completed_with v) \<in> set out \<longrightarrow> done_in db' ?pid i)" if "r = Inr out" for out
    proof -
      from that r obtain rs' where rs': "r' = Inr rs'" "out = rs @ rs'" by (auto simp: result_simps)
      have old: "done_in db' ?pid i" if "(i, Completed_with v) \<in> set rs" for i v
        using that outcomes_of_Inr [OF Inr] rep done_in_touches [OF ok1 ih [THEN conjunct1]] unfolding reported_ok_def by force
      have new: "done_in db' ?pid i" if "(i, Completed_with v) \<in> set rs'" for i v
        using ih rs'(1) that by blast
      have "map fst rs' = concat rest" using ih rs'(1) by blast
      moreover have "map fst rs = ids" using outcomes_of_Inr [OF Inr] fsts by simp
      ultimately show ?thesis using old new rs'(2) by auto
    qed
    ultimately show ?thesis by blast
  qed
qed

section \<open>Which steps a run executes\<close>

lemma compiled_reads:
  assumes "plan_ok p plan"
  shows "concat (map pa_stepIds (filter (\<lambda>q. pa_effect q = Effect_read) (partitionReadySteps plan (readySet plan) p))) =
      map st_id (filter (\<lambda>s. isReady (pl_steps plan) s \<and> step_reads p s) (pl_steps plan))"
    and "concat (map pa_stepIds (filter (\<lambda>q. pa_effect q \<noteq> Effect_read) (partitionReadySteps plan (readySet plan) p))) =
      map st_id (filter (\<lambda>s. isReady (pl_steps plan) s \<and> \<not> step_reads p s) (pl_steps plan))"
proof -
  let ?ready = "filter (isReady (pl_steps plan)) (pl_steps plan)"
  have ids: "ids_ok (pl_steps plan)" using assms by (simp add: plan_ok_def)
  have parts: "partitionReadySteps plan (readySet plan) p =
      map read_partition (chunks (filter (step_reads p) ?ready) 4) @ snd (split_steps p ?ready)"
    by (simp add: partitionReadySteps_eq map_filter_find_ready [OF ids])
  have w: "pa_effect q \<noteq> Effect_read" if "q \<in> set (snd (split_steps p ?ready))" for q
    using split_writes_single [OF that] by auto
  then have f: "filter (\<lambda>q. pa_effect q = Effect_read) (snd (split_steps p ?ready)) = []"
    "filter (\<lambda>q. pa_effect q \<noteq> Effect_read) (snd (split_steps p ?ready)) = snd (split_steps p ?ready)"
    by (auto simp: filter_empty_conv filter_id_conv)
  have r: "filter (\<lambda>q. pa_effect q = Effect_read) (map read_partition cs) = map read_partition cs"
    "filter (\<lambda>q. pa_effect q \<noteq> Effect_read) (map read_partition cs) = []" for cs
    by (induction cs) (simp_all add: read_partition_def)
  have c: "concat (map pa_stepIds (map read_partition cs)) = map st_id (concat cs)" for cs
    by (simp add: map_concat comp_def read_partition_def)
  show "concat (map pa_stepIds (filter (\<lambda>q. pa_effect q = Effect_read) (partitionReadySteps plan (readySet plan) p))) =
      map st_id (filter (\<lambda>s. isReady (pl_steps plan) s \<and> step_reads p s) (pl_steps plan))"
    unfolding parts filter_append f r by (simp only: append_Nil2 c concat_chunks [OF zero_less_numeral] filter_filter)
  have "filter (\<lambda>s. has_tool p s \<and> \<not> step_reads p s) ?ready = filter (\<lambda>s. isReady (pl_steps plan) s \<and> \<not> step_reads p s) (pl_steps plan)"
    using plan_ok_has_tool [OF assms] by (auto intro!: filter_cong)
  then show "concat (map pa_stepIds (filter (\<lambda>q. pa_effect q \<noteq> Effect_read) (partitionReadySteps plan (readySet plan) p))) =
      map st_id (filter (\<lambda>s. isReady (pl_steps plan) s \<and> \<not> step_reads p s) (pl_steps plan))"
    unfolding parts filter_append f r by (simp add: split_writes)
qed

lemma summary_split:
  "mset (re_executed (summary d rs)) + mset (re_failed (summary d rs)) = mset (map fst rs)"
  by (induction rs) (auto simp: summary_def split_beta)

lemma summary_executed: "i \<in> set (re_executed (summary d rs)) \<Longrightarrow> \<exists>v. (i, Completed_with v) \<in> set rs"
  by (auto simp: summary_def split_beta) (metis outcome.exhaust prod.collapse)

lemma execute_pg:
  assumes ok: "repo_ok db" and run: "executeReadyReads pg_exec_repository er input schedules db = Some (r, db')"
    and plan: "stored db (in_planId input) = Some plan"
  shows "touches (st_id ` {s \<in> set (pl_steps plan). step_reads (in_profile input) s}) (in_planId input) (in_now input) db db' \<and>
    (\<forall>out. r = Inr out \<longrightarrow>
      re_deferred out = map st_id (filter (\<lambda>s. isReady (pl_steps plan) s \<and> \<not> step_reads (in_profile input) s) (pl_steps plan)) \<and>
      mset (re_executed out) + mset (re_failed out) =
        mset (map st_id (filter (\<lambda>s. isReady (pl_steps plan) s \<and> step_reads (in_profile input) s) (pl_steps plan))) \<and>
      (\<forall>i. i \<in> set (re_executed out) \<longrightarrow> done_in db' (in_planId input) i))"
proof (cases "ex_readySet pg_exec_repository db (in_planId input) (in_ownerId input) (in_profile input)")
  case (Inl e)
  with run have "r = Inl e" "db' = db" by (simp_all add: executeReadyReads_def)
  then show ?thesis using touches_refl [OF ok] by simp
next
  case (Inr c)
  let ?pid = "in_planId input" and ?p = "in_profile input"
  let ?reads = "map pa_stepIds (filter (\<lambda>q. pa_effect q = Effect_read) (cp_partitions c))"
  from Inr obtain plan' where got: "get_plan db ?pid (in_ownerId input) = Inr plan'"
    and comp: "compile plan' (pl_version plan') ?p = Inr c"
    by (auto simp: pg_exec_repository_def plan_readySet_def result_simps map_sum_Inr dest!: map_sum_InrD)
  from get_plan_ok [OF ok got] plan have [simp]: "plan' = plan" by auto
  from comp have pok: "plan_ok ?p plan" and c: "cp_partitions c = partitionReadySteps plan (readySet plan) ?p"
    by (simp_all add: compile_ok)
  from run Inr obtain r' where part: "run_partitions pg_exec_repository er input (cp_plan c) ?reads schedules db = Some (r', db')"
    and r: "r = rbind r' (\<lambda>rs. Inr (summary (concat (map pa_stepIds (filter (\<lambda>q. pa_effect q \<noteq> Effect_read) (cp_partitions c)))) rs))"
    by (auto simp: executeReadyReads_def Let_def)
  note out = run_partitions_pg [OF ok part]
  have "touches (set (concat ?reads)) ?pid (in_now input) db db'" using out by blast
  then have "touches (st_id ` {s \<in> set (pl_steps plan). step_reads ?p s}) ?pid (in_now input) db db'"
    by (rule touches_mono) (unfold c compiled_reads [OF pok], auto)
  moreover have "re_deferred o1 = map st_id (filter (\<lambda>s. isReady (pl_steps plan) s \<and> \<not> step_reads ?p s) (pl_steps plan)) \<and>
      mset (re_executed o1) + mset (re_failed o1) =
        mset (map st_id (filter (\<lambda>s. isReady (pl_steps plan) s \<and> step_reads ?p s) (pl_steps plan))) \<and>
      (\<forall>i. i \<in> set (re_executed o1) \<longrightarrow> done_in db' ?pid i)" if "r = Inr o1" for o1
  proof -
    from that r obtain rs where rs: "r' = Inr rs"
      and o1: "o1 = summary (concat (map pa_stepIds (filter (\<lambda>q. pa_effect q \<noteq> Effect_read) (cp_partitions c)))) rs"
      by (auto simp: result_simps)
    have "map fst rs = concat ?reads" "\<forall>i v. (i, Completed_with v) \<in> set rs \<longrightarrow> done_in db' ?pid i"
      using out rs by blast+
    then show ?thesis using summary_split [of _ rs] summary_executed
      unfolding o1 c compiled_reads [OF pok] by (metis (no_types, lifting) read_execution.select_convs(3) summary_def)
  qed
  ultimately show ?thesis by blast
qed

text \<open>A compiled plan has at most five read partitions of at most four steps each.\<close>

lemma length_chunks: "length (chunks xs 4) * 4 < length xs + 4"
proof (induction xs "4::nat" rule: chunks.induct)
  case (1 xs)
  then show ?case by (cases "xs = []"; cases "length xs \<le> 4") (auto simp: chunks.simps [of xs])
qed

lemma compiled_read_partitions:
  assumes "plan_ok p plan"
  shows "length (filter (\<lambda>q. pa_effect q = Effect_read) (partitionReadySteps plan (readySet plan) p)) \<le> 5"
proof -
  let ?ready = "filter (isReady (pl_steps plan)) (pl_steps plan)"
  have ids: "ids_ok (pl_steps plan)" and n: "length (pl_steps plan) \<le> 20" using assms by (simp_all add: plan_ok_def)
  have parts: "partitionReadySteps plan (readySet plan) p =
      map read_partition (chunks (filter (step_reads p) ?ready) 4) @ snd (split_steps p ?ready)"
    by (simp add: partitionReadySteps_eq map_filter_find_ready [OF ids])
  have "filter (\<lambda>q. pa_effect q = Effect_read) (snd (split_steps p ?ready)) = []"
    using split_writes_single [of _ p ?ready] by (force simp: filter_empty_conv)
  then have "length (filter (\<lambda>q. pa_effect q = Effect_read) (partitionReadySteps plan (readySet plan) p)) \<le>
      length (chunks (filter (step_reads p) ?ready) 4)"
    unfolding parts by (metis append_Nil2 filter_append length_filter_le length_map)
  moreover have "length (filter (step_reads p) ?ready) \<le> 20"
    using n length_filter_le le_trans by metis
  ultimately show ?thesis using length_chunks [of "filter (step_reads p) ?ready"] by simp
qed

lemma execute_returns:
  assumes "5 \<le> length schedules" "\<forall>schedule \<in> set schedules. \<forall>n < 4. 3 \<le> count_list schedule n"
  shows "executeReadyReads pg_exec_repository er input schedules db \<noteq> None"
proof (cases "ex_readySet pg_exec_repository db (in_planId input) (in_ownerId input) (in_profile input)")
  case (Inr c)
  then obtain plan v where comp: "compile plan v (in_profile input) = Inr c"
    by (auto simp: pg_exec_repository_def plan_readySet_def result_simps map_sum_Inr dest!: map_sum_InrD)
  then have ok: "plan_ok (in_profile input) plan"
    and c: "cp_partitions c = partitionReadySteps plan (readySet plan) (in_profile input)"
    by (simp_all add: compile_ok)
  let ?parts = "map pa_stepIds (filter (\<lambda>q. pa_effect q = Effect_read) (cp_partitions c))"
  have "length ?parts \<le> length schedules" using compiled_read_partitions [OF ok] assms(1) by (simp add: c)
  moreover have "length ids \<le> 4" if "ids \<in> set ?parts" for ids
    using that partition_shape(1,3) [of _ plan "readySet plan" "in_profile input"] by (auto simp: c)
  then have "\<forall>ids \<in> set ?parts. \<forall>schedule \<in> set schedules. \<forall>n < length ids. 3 \<le> count_list schedule n"
    using assms(2) by (meson less_le_trans)
  ultimately have "run_partitions pg_exec_repository er input (cp_plan c) ?parts schedules db \<noteq> None"
    by (rule run_partitions_returns)
  with Inr show ?thesis by (simp add: executeReadyReads_def Let_def)
qed (simp add: executeReadyReads_def)

section \<open>Properties\<close>

text \<open>
  C5. Executing the ready reads of a plan cannot start a canvas write or a task submission, under any
  interleaving of the concurrent calls and whatever the gateway answers: no other plan changes, and
  every step whose tool does not read is left exactly as it was, except that an expired lease is
  released; the plan itself changes by transitions of its state machine only.
\<close>

theorem reads_cannot_start_effects:
  assumes "repo_reaches (\<lambda>_. True) db"
    and "executeReadyReads pg_exec_repository er input schedules db = Some (r, db')"
    and "stored db (in_planId input) = Some plan"
  shows "(\<forall>j. j \<noteq> in_planId input \<longrightarrow> stored db' j = stored db j) \<and>
    (\<exists>plan'. stored db' (in_planId input) = Some plan' \<and> plan_reaches plan plan' \<and>
      (\<forall>s. s \<in> set (pl_steps plan) \<longrightarrow> \<not> step_reads (in_profile input) s \<longrightarrow>
        (\<exists>t. find_step (pl_steps plan') (st_id s) = Some t \<and>
          (t = s \<or> lease_expired (in_now input) s \<and> t = s\<lparr>st_status := Pending, st_leaseUntil := None\<rparr>))))"
proof -
  have ok: "repo_ok db" by (rule repo_reaches_ok [OF assms(1)])
  let ?I = "st_id ` {s \<in> set (pl_steps plan). step_reads (in_profile input) s}"
  have t: "touches ?I (in_planId input) (in_now input) db db'" using execute_pg [OF ok assms(2,3)] by blast
  have ids: "ids_ok (pl_steps plan)" by (rule stored_ids_ok [OF ok assms(3)])
  have "st_id s \<notin> ?I" if "s \<in> set (pl_steps plan)" "\<not> step_reads (in_profile input) s" for s
    using that ids_ok_unique [OF ids] by blast
  moreover from t assms(3) obtain plan' where p': "stored db' (in_planId input) = Some plan'"
      "plan_touched ?I (in_now input) plan plan'" and "\<forall>j. j \<noteq> in_planId input \<longrightarrow> stored db' j = stored db j"
    by (auto simp: touches_def)
  moreover have "plan_reaches plan plan'" using p'(2) by (simp add: plan_touched_def)
  moreover have "\<exists>t. find_step (pl_steps plan') (st_id s) = Some t \<and> released_by (in_now input) s t"
    if "s \<in> set (pl_steps plan)" "st_id s \<notin> ?I" for s
    using p'(2) find_step_mem [OF ids that(1)] that(2) unfolding plan_touched_def by blast
  ultimately show ?thesis unfolding released_by_def by blast
qed

text \<open>
  C12. The report of an execution is right: the deferred steps are the ready steps whose tool does not
  read, the executed and the failed ones together are the ready reads, each once, and every step
  reported as executed is completed in the database.  And an execution returns: under schedules
  that let every call take three pieces, whatever the repository and the gateway answer.
\<close>

theorem read_execution_report:
  assumes "repo_reaches (\<lambda>_. True) db" "stored db (in_planId input) = Some plan"
  shows "(\<forall>out db'. executeReadyReads pg_exec_repository er input schedules db = Some (Inr out, db') \<longrightarrow>
      re_deferred out = map st_id (filter (\<lambda>s. isReady (pl_steps plan) s \<and> \<not> step_reads (in_profile input) s) (pl_steps plan)) \<and>
      mset (re_executed out) + mset (re_failed out) =
        mset (map st_id (filter (\<lambda>s. isReady (pl_steps plan) s \<and> step_reads (in_profile input) s) (pl_steps plan))) \<and>
      (\<forall>i. i \<in> set (re_executed out) \<longrightarrow>
        (\<exists>plan'. stored db' (in_planId input) = Some plan' \<and> step_completed (pl_steps plan') i))) \<and>
    (5 \<le> length schedules \<longrightarrow> (\<forall>schedule \<in> set schedules. \<forall>n < 4. 3 \<le> count_list schedule n) \<longrightarrow>
      executeReadyReads pg_exec_repository er input schedules db \<noteq> None)"
proof (intro conjI impI)
  have ok: "repo_ok db" by (rule repo_reaches_ok [OF assms(1)])
  show "\<forall>out db'. executeReadyReads pg_exec_repository er input schedules db = Some (Inr out, db') \<longrightarrow>
      re_deferred out = map st_id (filter (\<lambda>s. isReady (pl_steps plan) s \<and> \<not> step_reads (in_profile input) s) (pl_steps plan)) \<and>
      mset (re_executed out) + mset (re_failed out) =
        mset (map st_id (filter (\<lambda>s. isReady (pl_steps plan) s \<and> step_reads (in_profile input) s) (pl_steps plan))) \<and>
      (\<forall>i. i \<in> set (re_executed out) \<longrightarrow>
        (\<exists>plan'. stored db' (in_planId input) = Some plan' \<and> step_completed (pl_steps plan') i))"
    using execute_pg [OF ok _ assms(2)] unfolding done_in_def by blast
  assume long: "5 \<le> length schedules" "\<forall>schedule \<in> set schedules. \<forall>n < 4. 3 \<le> count_list schedule n"
  show "executeReadyReads pg_exec_repository er input schedules db \<noteq> None"
    by (rule execute_returns [OF long])
qed

definition sample_input :: exec_input where
  "sample_input = \<lparr>in_planId = ''p'', in_ownerId = ''u'', in_canvasId = ''c'', in_profile = Canvas_general,
     in_requestId = None, in_now = 1000, in_leaseDurationMs = Some 30\<rparr>"

definition sample_schedules :: "nat list list" where
  "sample_schedules = replicate 5 [0, 1, 2, 3, 0, 1, 2, 3, 0, 1, 2, 3]"

lemma sample_schedules_ok:
  "5 \<le> length sample_schedules" "\<forall>schedule \<in> set sample_schedules. \<forall>n < 4. 3 \<le> count_list schedule n"
proof -
  show "5 \<le> length sample_schedules" by (simp add: sample_schedules_def)
  have "3 \<le> count_list [0, 1, 2, 3, 0, 1, 2, 3, 0, 1, 2, 3] n" if "n < 4" for n :: nat
    using that by (auto simp: numeral_eq_Suc less_Suc_eq)
  then show "\<forall>schedule \<in> set sample_schedules. \<forall>n < 4. 3 \<le> count_list schedule n"
    by (simp add: sample_schedules_def)
qed

theorem read_execution_report_witness:
  "executeReadyReads pg_exec_repository (\<lambda>_. Inr (None, JNull)) sample_input sample_schedules sample_db \<noteq> None"
  using read_execution_report [OF sample_db_reached(2), where input = sample_input and plan = sample_plan
      and schedules = sample_schedules and er = "\<lambda>_. Inr (None, JNull)"]
    sample_schedules_ok by (simp add: sample_db_stored sample_input_def)

theorem reads_cannot_start_effects_witness:
  "\<exists>r db' plan'. executeReadyReads pg_exec_repository (\<lambda>_. Inr (None, JNull)) sample_input sample_schedules sample_db = Some (r, db') \<and>
     stored db' ''p'' = Some plan' \<and>
     (\<exists>t. find_step (pl_steps plan') ''b'' = Some t \<and> st_status t = Pending)"
proof -
  obtain r db' where run: "executeReadyReads pg_exec_repository (\<lambda>_. Inr (None, JNull)) sample_input sample_schedules sample_db = Some (r, db')"
    using execute_returns [OF sample_schedules_ok] by fastforce
  have st: "stored sample_db (in_planId sample_input) = Some sample_plan" by (simp add: sample_input_def sample_db_stored)
  let ?b = "sample_step ''b'' ''create_nodes'' [''a'']"
  have "?b \<in> set (pl_steps sample_plan)" "\<not> step_reads (in_profile sample_input) ?b"
    by (simp_all add: sample_defs sample_input_def step_reads_def tool_lookup_names entry_def effectForTool_def)
  with reads_cannot_start_effects [OF sample_db_reached(2) run st] run show ?thesis
    by (fastforce simp: sample_input_def lease_expired_def sample_step_def)
qed

end
