(* ===== verification/ReadGate.thy ===== *)
theory ReadGate
  imports Prelude
begin

text \<open>
  The per-user read limiter (\<^verbatim>\<open>application/read-execution-gate.ts\<close>).  JavaScript runs one
  continuation at a time, so the program's atomic steps are the synchronous pieces of its asynchronous
  methods: the part of \<open>acquire\<close> up to its \<open>await\<close>, \<open>release\<close>, and the part of \<open>acquire\<close> after the
  \<open>await\<close>.  Resolving a waiter's promise only schedules the last piece: other pieces may run first.
  Beside the two maps of the class the state records which calls are inside the gate and which
  continuations are scheduled.
\<close>

record gate =
  ga_active :: "string \<Rightarrow> nat option"
  ga_waiters :: "string \<Rightarrow> nat list option"
  ga_woken :: "(string \<times> nat) list"
  ga_running :: "(string \<times> nat) list"

definition new_gate :: gate where
  "new_gate = \<lparr>ga_active = (\<lambda>_. None), ga_waiters = (\<lambda>_. None), ga_woken = [], ga_running = []\<rparr>"

definition valid_limit :: "num \<Rightarrow> bool" where
  "valid_limit maxPerUser \<longleftrightarrow> js_is_integer maxPerUser \<and> \<not> maxPerUser < 1"

definition active_of :: "gate \<Rightarrow> string \<Rightarrow> nat" where
  "active_of g owner = (case ga_active g owner of None \<Rightarrow> 0 | Some n \<Rightarrow> n)"

text \<open>\<open>acquire\<close> up to its \<open>await\<close>, by the call \<open>t\<close>.\<close>

definition gate_acquire :: "nat \<Rightarrow> string \<Rightarrow> nat \<Rightarrow> gate \<Rightarrow> gate" where
  "gate_acquire limit owner t g =
     (if active_of g owner < limit
      then g\<lparr>ga_active := (ga_active g)(owner \<mapsto> active_of g owner + 1), ga_running := (owner, t) # ga_running g\<rparr>
      else g\<lparr>ga_waiters := (ga_waiters g)(owner \<mapsto>
               (case ga_waiters g owner of None \<Rightarrow> [] | Some q \<Rightarrow> q) @ [t])\<rparr>)"

text \<open>\<open>acquire\<close> after its \<open>await\<close>: the first scheduled continuation.\<close>

definition gate_resume :: "gate \<Rightarrow> gate" where
  "gate_resume g = (case ga_woken g of
      [] \<Rightarrow> g
    | (owner, t) # rest \<Rightarrow> g\<lparr>ga_active := (ga_active g)(owner \<mapsto> active_of g owner + 1),
        ga_woken := rest, ga_running := (owner, t) # ga_running g\<rparr>)"

definition gate_release :: "string \<Rightarrow> nat \<Rightarrow> gate \<Rightarrow> gate" where
  "gate_release owner t g =
     (let count = (case ga_active g owner of None \<Rightarrow> 1 | Some n \<Rightarrow> int n) - 1;
          active = (if count \<le> 0 then (ga_active g)(owner := None) else (ga_active g)(owner \<mapsto> nat count));
          running = remove1 (owner, t) (ga_running g)
      in case ga_waiters g owner of
           None \<Rightarrow> g\<lparr>ga_active := active, ga_running := running\<rparr>
         | Some [] \<Rightarrow> g\<lparr>ga_active := active, ga_waiters := (ga_waiters g)(owner := None), ga_running := running\<rparr>
         | Some (w # ws) \<Rightarrow> g\<lparr>ga_active := active,
             ga_waiters := (ga_waiters g)(owner := (if ws = [] then None else Some ws)),
             ga_woken := ga_woken g @ [(owner, w)], ga_running := running\<rparr>)"

text \<open>
  The runs of a gate.  \<open>quiet\<close> restricts them: no call enters while a woken waiter has not resumed.
\<close>

inductive gate_reaches :: "bool \<Rightarrow> nat \<Rightarrow> gate \<Rightarrow> bool" for quiet limit where
  start: "gate_reaches quiet limit new_gate"
| enters: "gate_reaches quiet limit g \<Longrightarrow> (quiet \<longrightarrow> ga_woken g = []) \<Longrightarrow>
    gate_reaches quiet limit (gate_acquire limit owner t g)"
| resumes: "gate_reaches quiet limit g \<Longrightarrow> gate_reaches quiet limit (gate_resume g)"
| leaves: "gate_reaches quiet limit g \<Longrightarrow> (owner, t) \<in> set (ga_running g) \<Longrightarrow>
    gate_reaches quiet limit (gate_release owner t g)"

section \<open>Accounting and wake-ups\<close>

definition count_for :: "string \<Rightarrow> (string \<times> nat) list \<Rightarrow> nat" where
  "count_for owner xs = length (filter (\<lambda>p. fst p = owner) xs)"

lemma count_for_simps [simp]:
  "count_for owner [] = 0" "count_for owner ((o', t) # xs) = (if o' = owner then 1 else 0) + count_for owner xs"
  "count_for owner (xs @ ys) = count_for owner xs + count_for owner ys"
  by (simp_all add: count_for_def)

lemma count_for_pos: "(owner, t) \<in> set xs \<Longrightarrow> 0 < count_for owner xs"
  by (force simp: count_for_def filter_empty_conv)

lemma count_for_mem: "0 < count_for owner xs \<Longrightarrow> \<exists>t. (owner, t) \<in> set xs"
  by (auto simp: count_for_def filter_empty_conv)

lemma count_for_remove1:
  "(o', t) \<in> set xs \<Longrightarrow> count_for owner (remove1 (o', t) xs) = count_for owner xs - (if o' = owner then 1 else 0)"
proof (induction xs)
  case (Cons x xs)
  then show ?case using count_for_pos [of o' t xs] by (cases x) auto
qed simp

definition waiting :: "gate \<Rightarrow> string \<Rightarrow> nat list" where
  "waiting g owner = (case ga_waiters g owner of None \<Rightarrow> [] | Some q \<Rightarrow> q)"

text \<open>
  The count of a user is the number of its calls inside the gate, an absent count stands for none, and
  while a call waits the calls inside and the woken ones are at least the limit.
\<close>

definition gate_ok :: "nat \<Rightarrow> gate \<Rightarrow> bool" where
  "gate_ok limit g \<longleftrightarrow> (\<forall>owner. active_of g owner = count_for owner (ga_running g) \<and>
     ga_active g owner \<noteq> Some 0 \<and> ga_waiters g owner \<noteq> Some [] \<and>
     (waiting g owner \<noteq> [] \<longrightarrow> limit \<le> active_of g owner + count_for owner (ga_woken g)))"

lemma release_active:
  "active_of (gate_release owner t g) o' = (if o' = owner then active_of g owner - 1 else active_of g o')"
  by (auto simp: gate_release_def active_of_def Let_def split: option.split list.split)

lemma gate_release_running [simp]: "ga_running (gate_release owner t g) = remove1 (owner, t) (ga_running g)"
  by (simp add: gate_release_def Let_def split: option.split list.split)

lemma release_waiting: "waiting (gate_release owner t g) o' = (if o' = owner then tl (waiting g owner) else waiting g o')"
  by (auto simp: gate_release_def waiting_def Let_def split: option.split list.split)

lemma release_woken:
  "ga_woken (gate_release owner t g) = ga_woken g @ map (Pair owner) (take 1 (waiting g owner))"
  by (auto simp: gate_release_def waiting_def Let_def split: option.split list.split)

lemma release_shape:
  "ga_active (gate_release owner t g) o' = Some 0 \<longleftrightarrow> o' \<noteq> owner \<and> ga_active g o' = Some 0"
  "ga_waiters (gate_release owner t g) o' = Some [] \<longleftrightarrow> o' \<noteq> owner \<and> ga_waiters g o' = Some []"
  by (auto simp: gate_release_def Let_def split: option.splits list.splits)

lemma count_for_woken: "count_for owner (map (Pair o') (take (Suc 0) q)) = (if o' = owner \<and> q \<noteq> [] then 1 else 0)"
  by (cases q) auto

lemma acquire_active:
  "active_of (gate_acquire limit owner t g) o' =
     (if o' = owner \<and> active_of g owner < limit then active_of g owner + 1 else active_of g o')"
  by (simp add: gate_acquire_def active_of_def)

lemma acquire_waiting:
  "waiting (gate_acquire limit owner t g) o' =
     (if o' = owner \<and> \<not> active_of g owner < limit then waiting g owner @ [t] else waiting g o')"
  by (simp add: gate_acquire_def waiting_def)

lemma acquire_rest:
  "ga_woken (gate_acquire limit owner t g) = ga_woken g"
  "ga_running (gate_acquire limit owner t g) = (if active_of g owner < limit then (owner, t) # ga_running g else ga_running g)"
  "ga_active (gate_acquire limit owner t g) o' = Some 0 \<longleftrightarrow> \<not> (o' = owner \<and> active_of g owner < limit) \<and> ga_active g o' = Some 0"
  "ga_waiters (gate_acquire limit owner t g) o' = Some [] \<longleftrightarrow>
     (o' = owner \<longrightarrow> active_of g owner < limit) \<and> ga_waiters g o' = Some []"
  by (auto simp: gate_acquire_def)

lemma acquire_ok:
  assumes "gate_ok limit g"
  shows "gate_ok limit (gate_acquire limit owner t g)"
  unfolding gate_ok_def
proof (intro allI)
  fix o'
  note old = assms [unfolded gate_ok_def, rule_format, of o']
  show "active_of (gate_acquire limit owner t g) o' = count_for o' (ga_running (gate_acquire limit owner t g)) \<and>
      ga_active (gate_acquire limit owner t g) o' \<noteq> Some 0 \<and> ga_waiters (gate_acquire limit owner t g) o' \<noteq> Some [] \<and>
      (waiting (gate_acquire limit owner t g) o' \<noteq> [] \<longrightarrow>
       limit \<le> active_of (gate_acquire limit owner t g) o' + count_for o' (ga_woken (gate_acquire limit owner t g)))"
    using old by (cases "o' = owner"; cases "active_of g owner < limit")
      (auto simp: acquire_active acquire_waiting acquire_rest)
qed

lemma resume_active:
  "ga_woken g = (owner, t) # rest \<Longrightarrow>
   active_of (gate_resume g) o' = (if o' = owner then active_of g owner + 1 else active_of g o')"
  by (simp add: gate_resume_def active_of_def)

lemma resume_ok:
  assumes "gate_ok limit g"
  shows "gate_ok limit (gate_resume g)"
proof (cases "ga_woken g")
  case Nil
  then show ?thesis using assms by (simp add: gate_resume_def)
next
  case (Cons w rest)
  obtain owner t where w: "w = (owner, t)" by force
  with Cons have g': "ga_woken (gate_resume g) = rest" "ga_running (gate_resume g) = (owner, t) # ga_running g"
    "ga_waiters (gate_resume g) = ga_waiters g" "ga_active (gate_resume g) = (ga_active g)(owner \<mapsto> active_of g owner + 1)"
    by (simp_all add: gate_resume_def)
  have "waiting (gate_resume g) = waiting g" by (simp add: waiting_def g' fun_eq_iff)
  then show ?thesis
    unfolding gate_ok_def
  proof (intro allI)
    fix o'
    show "active_of (gate_resume g) o' = count_for o' (ga_running (gate_resume g)) \<and>
        ga_active (gate_resume g) o' \<noteq> Some 0 \<and> ga_waiters (gate_resume g) o' \<noteq> Some [] \<and>
        (waiting (gate_resume g) o' \<noteq> [] \<longrightarrow>
         limit \<le> active_of (gate_resume g) o' + count_for o' (ga_woken (gate_resume g)))"
      using assms [unfolded gate_ok_def, rule_format, of o'] Cons \<open>waiting (gate_resume g) = waiting g\<close>
      by (cases "o' = owner") (auto simp: resume_active [OF Cons [unfolded w]] g' w)
  qed
qed

lemma release_ok:
  assumes "gate_ok limit g" "(owner, t) \<in> set (ga_running g)"
  shows "gate_ok limit (gate_release owner t g)"
  unfolding gate_ok_def
proof (intro allI conjI impI)
  fix o'
  note old = assms(1) [unfolded gate_ok_def, rule_format]
  have pos: "0 < active_of g owner" using old [of owner] count_for_pos [OF assms(2)] by simp
  show "active_of (gate_release owner t g) o' = count_for o' (ga_running (gate_release owner t g))"
    using old [of o'] old [of owner] by (simp add: release_active count_for_remove1 [OF assms(2)])
  show "ga_active (gate_release owner t g) o' \<noteq> Some 0" "ga_waiters (gate_release owner t g) o' \<noteq> Some []"
    using old [of o'] by (simp_all add: release_shape)
  assume "waiting (gate_release owner t g) o' \<noteq> []"
  then have w: "waiting g o' \<noteq> []" by (auto simp: release_waiting split: if_splits)
  with old [of o'] pos show "limit \<le> active_of (gate_release owner t g) o' + count_for o' (ga_woken (gate_release owner t g))"
    by (auto simp: release_active release_woken count_for_woken)
qed

lemma reaches_ok: "gate_reaches quiet limit g \<Longrightarrow> gate_ok limit g"
proof (induction rule: gate_reaches.induct)
  case start
  then show ?case by (simp add: gate_ok_def new_gate_def active_of_def waiting_def)
qed (auto intro: acquire_ok resume_ok release_ok)

section \<open>The limit\<close>

text \<open>Without overtaking, the calls inside and the woken ones never exceed the limit.\<close>

lemma acquire_limit:
  "active_of g o' + count_for o' (ga_woken g) \<le> limit \<Longrightarrow> ga_woken g = [] \<Longrightarrow>
   active_of (gate_acquire limit owner t g) o' + count_for o' (ga_woken (gate_acquire limit owner t g)) \<le> limit"
  by (simp add: acquire_active acquire_rest)

lemma resume_limit:
  "active_of (gate_resume g) o' + count_for o' (ga_woken (gate_resume g)) = active_of g o' + count_for o' (ga_woken g)"
  by (auto simp: gate_resume_def active_of_def split: list.splits)

lemma quiet_limit:
  "gate_reaches True limit g \<Longrightarrow> active_of g o' + count_for o' (ga_woken g) \<le> limit"
proof (induction rule: gate_reaches.induct)
  case start
  then show ?case by (simp add: new_gate_def active_of_def)
next
  case (enters g owner t)
  then show ?case by (intro acquire_limit) auto
next
  case (resumes g)
  then show ?case by (simp add: resume_limit)
next
  case (leaves g owner t)
  have "0 < active_of g owner"
    using reaches_ok [OF leaves(1)] count_for_pos [OF leaves(2)] by (simp add: gate_ok_def)
  with leaves(3) show ?case by (auto simp: release_active release_woken count_for_woken)
qed

section \<open>Properties\<close>

text \<open>
  C16. The gate counts right and loses no wake-up, however the calls of all users interleave: the count of
  a user is the number of its reads inside the gate, and as long as one of its calls waits, its reads
  inside and its woken calls together are at least the limit, so when all of them are done no call
  is left waiting.
\<close>

theorem read_gate_loses_no_wakeup:
  assumes "gate_reaches False limit g"
  shows "active_of g owner = count_for owner (ga_running g) \<and>
    (waiting g owner \<noteq> [] \<longrightarrow> limit \<le> active_of g owner + count_for owner (ga_woken g))"
  using reaches_ok [OF assms] unfolding gate_ok_def by blast

theorem read_gate_loses_no_wakeup_witness:
  "active_of (gate_acquire 1 ''u'' 2 (gate_acquire 1 ''u'' 1 new_gate)) ''u'' = 1"
proof -
  have "gate_reaches False 1 (gate_acquire 1 ''u'' 2 (gate_acquire 1 ''u'' 1 new_gate))"
    by (intro gate_reaches.enters gate_reaches.start) simp_all
  from read_gate_loses_no_wakeup [OF this, of "''u''"] show ?thesis
    by (simp add: gate_acquire_def active_of_def new_gate_def)
qed

lemma gate_fills:
  "n \<le> limit \<Longrightarrow> \<exists>g. gate_reaches False limit g \<and> active_of g owner = n \<and> ga_woken g = [] \<and> waiting g owner = []"
proof (induction n)
  case 0
  have "active_of new_gate owner = 0" "ga_woken new_gate = []" "waiting new_gate owner = []"
    by (simp_all add: new_gate_def active_of_def waiting_def)
  then show ?case using gate_reaches.start by blast
next
  case (Suc n)
  then obtain g where g: "gate_reaches False limit g" "active_of g owner = n" "ga_woken g = []" "waiting g owner = []"
    by auto
  have "gate_reaches False limit (gate_acquire limit owner 0 g)" by (rule gate_reaches.enters [OF g(1)]) simp
  moreover have "active_of (gate_acquire limit owner 0 g) owner = Suc n" "ga_woken (gate_acquire limit owner 0 g) = []"
    "waiting (gate_acquire limit owner 0 g) owner = []"
    using g Suc.prems by (simp_all add: acquire_active acquire_rest acquire_waiting)
  ultimately show ?case by blast
qed

text \<open>
  The limit holds exactly when no call overtakes a woken waiter.  If no call enters between a release
  and the resumption of the waiter it wakes, a user never has more reads inside the gate than the
  limit; but the class does not reserve the freed slot for the waiter, so for every limit and every
  user some run ends with one read too many inside.
\<close>

theorem read_gate_limit:
  "(gate_reaches True limit g \<longrightarrow> active_of g owner \<le> limit) \<and>
   (1 \<le> limit \<longrightarrow> (\<exists>g. gate_reaches False limit g \<and> active_of g owner = limit + 1))"
proof (intro conjI impI)
  show "active_of g owner \<le> limit" if "gate_reaches True limit g"
    using quiet_limit [OF that, of owner] by simp
  assume pos: "1 \<le> limit"
  obtain g where g: "gate_reaches False limit g" "active_of g owner = limit" "ga_woken g = []" "waiting g owner = []"
    using gate_fills by blast
  let ?g1 = "gate_acquire limit owner 1 g"
  have g1: "gate_reaches False limit ?g1" by (rule gate_reaches.enters [OF g(1)]) simp
  have s1: "active_of ?g1 owner = limit" "ga_woken ?g1 = []" "waiting ?g1 owner = [1]"
    using g by (simp_all add: acquire_active acquire_rest acquire_waiting)
  then have "0 < count_for owner (ga_running ?g1)" using reaches_ok [OF g1] pos by (simp add: gate_ok_def)
  then obtain t where t: "(owner, t) \<in> set (ga_running ?g1)" using count_for_mem by blast
  let ?g2 = "gate_release owner t ?g1"
  have g2: "gate_reaches False limit ?g2" by (rule gate_reaches.leaves [OF g1 t])
  have s2: "active_of ?g2 owner = limit - 1" "ga_woken ?g2 = [(owner, 1)]"
    using s1 by (simp_all add: release_active release_woken)
  let ?g3 = "gate_acquire limit owner 2 ?g2"
  have g3: "gate_reaches False limit ?g3" by (rule gate_reaches.enters [OF g2]) simp
  have s3: "active_of ?g3 owner = limit" "ga_woken ?g3 = [(owner, 1)]"
    using s2 pos by (simp_all add: acquire_active acquire_rest)
  have "active_of (gate_resume ?g3) owner = limit + 1" using resume_active [OF s3(2)] s3(1) by simp
  with gate_reaches.resumes [OF g3] show "\<exists>g. gate_reaches False limit g \<and> active_of g owner = limit + 1" by blast
qed

theorem read_gate_limit_witness:
  "\<exists>g. gate_reaches False 4 g \<and> active_of g ''u'' = 5"
  using read_gate_limit [of 4 new_gate "''u''"] by simp

end
