(* ===== verification/Approval.thy ===== *)
theory Approval
  imports Prelude
begin

text \<open>
  Approvals of costly actions (\<^verbatim>\<open>domain/action-approval.ts\<close>, \<^verbatim>\<open>application/approval-service.ts\<close>) with the
  in-memory repository of the service and the one on PostgreSQL
  (\<^verbatim>\<open>infrastructure/pg-approval-repository.ts\<close>).  SHA-256, HMAC, the base64url text of a JSON value, the
  value of such a text, and the collation of \<open>localeCompare\<close> are Node's: parameters, in the record \<open>crypto\<close>.
  The id of a new action, its nonce and the clock are arguments.
\<close>

datatype action_risk = Risk_low | Risk_canvas_write | Risk_high

record action_binding =
  bi_userId :: string
  bi_sessionId :: string
  bi_canvasId :: string
  bi_canvasVersion :: int
  bi_actionHash :: string
  bi_expiresAt :: int

datatype action_status = Act_planned | Act_awaiting_approval | Act_approved

record planned_action =
  ac_actionId :: string
  ac_runId :: "string option"
  ac_userId :: string
  ac_sessionId :: string
  ac_canvasId :: string
  ac_canvasVersion :: int
  ac_toolName :: string
  ac_params :: "(string \<times> json) list"
  ac_estimatedCost :: num
  ac_risk :: action_risk
  ac_actionHash :: string
  ac_binding :: action_binding
  ac_approvalToken :: "string option"
  ac_status :: action_status

record plan_action_input =
  pi_userId :: string
  pi_runId :: "string option"
  pi_sessionId :: string
  pi_canvasId :: string
  pi_canvasVersion :: int
  pi_toolName :: string
  pi_params :: "(string \<times> json) list"
  pi_estimatedCost :: num
  pi_risk :: "action_risk option"
  pi_requiresApproval :: "bool option"

datatype approval_status = Appr_pending | Appr_consumed | Appr_rejected

record approval_record =
  ap_action :: planned_action
  ap_nonce :: string
  ap_tokenSignature :: string
  ap_status :: approval_status

datatype approval_error = CONFIRMATION_REQUIRED | VERSION_CONFLICT | INVALID_INPUT | DB_CONSTRAINT

record crypto =
  cr_sha256 :: "string \<Rightarrow> string"
  cr_hmac :: "string \<Rightarrow> string \<Rightarrow> string"
  cr_text :: "json \<Rightarrow> string"
  cr_parse :: "string \<Rightarrow> json option"
  cr_scalar :: "json \<Rightarrow> string"
  cr_before :: "string \<Rightarrow> string \<Rightarrow> bool"

record 's approval_repository =
  re_save :: "approval_record \<Rightarrow> 's \<Rightarrow> approval_error + 's"
  re_find :: "'s \<Rightarrow> string \<Rightarrow> approval_record option"
  re_consumePending :: "int \<Rightarrow> string \<Rightarrow> 's \<Rightarrow> approval_record option \<times> 's"

section \<open>The hash of an action\<close>

text \<open>
  \<^verbatim>\<open>stableStringify\<close>: the fields in the order of \<open>localeCompare\<close>, where \<open>cr_before c a b\<close> says that \<open>a\<close>
  does not come after \<open>b\<close>; \<open>cr_scalar\<close> is \<open>JSON.stringify\<close> of a name or of a value that is neither an
  array nor an object.  \<open>Array.prototype.sort\<close> is stable, and so is insertion from the right.
\<close>

fun insert_field :: "(string \<Rightarrow> string \<Rightarrow> bool) \<Rightarrow> string \<times> 'v \<Rightarrow> (string \<times> 'v) list \<Rightarrow> (string \<times> 'v) list" where
  "insert_field before x [] = [x]"
| "insert_field before x (y # ys) = (if before (fst x) (fst y) then x # y # ys else y # insert_field before x ys)"

definition sort_fields :: "(string \<Rightarrow> string \<Rightarrow> bool) \<Rightarrow> (string \<times> 'v) list \<Rightarrow> (string \<times> 'v) list" where
  "sort_fields before xs = foldr (insert_field before) xs []"

lemma set_insert_field [simp]: "set (insert_field before x xs) = insert x (set xs)"
  by (induction xs) auto

lemma set_sort_fields [simp]: "set (sort_fields before xs) = set xs"
  by (induction xs) (simp_all add: sort_fields_def)

lemma size_field_less: "(k, v) \<in> set fs \<Longrightarrow> size v < size (JObj fs)"
  by (induction fs) auto

lemma size_item_less: "v \<in> set vs \<Longrightarrow> size v < size (JArr vs)"
  by (induction vs) auto

function stableStringify :: "crypto \<Rightarrow> json \<Rightarrow> string" where
  "stableStringify c (JArr vs) = ''['' @ js_join '','' (map (stableStringify c) vs) @ '']''"
| "stableStringify c (JObj fs) = ''{'' @ js_join '',''
     (map (\<lambda>(k, v). cr_scalar c (JStr k) @ '':'' @ stableStringify c v) (sort_fields (cr_before c) fs)) @ ''}''"
| "stableStringify c JNull = cr_scalar c JNull"
| "stableStringify c (JBool b) = cr_scalar c (JBool b)"
| "stableStringify c (JNum n) = cr_scalar c (JNum n)"
| "stableStringify c (JStr s) = cr_scalar c (JStr s)"
  by pat_completeness auto
termination
  by (relation "measure (\<lambda>(c, v). size v)") (auto dest: size_field_less size_item_less simp del: json.size)

definition action_hash :: "crypto \<Rightarrow> plan_action_input \<Rightarrow> string" where
  "action_hash c input = cr_sha256 c (stableStringify c (JObj
     [(''userId'', JStr (pi_userId input)), (''sessionId'', JStr (pi_sessionId input)),
      (''canvasId'', JStr (pi_canvasId input)), (''canvasVersion'', JNum (of_int (pi_canvasVersion input))),
      (''toolName'', JStr (pi_toolName input)), (''params'', JObj (pi_params input)),
      (''estimatedCost'', JNum (pi_estimatedCost input))]))"

section \<open>The text of a binding\<close>

definition binding_json :: "action_binding \<Rightarrow> string \<Rightarrow> json" where
  "binding_json b nonce = JObj [(''userId'', JStr (bi_userId b)), (''sessionId'', JStr (bi_sessionId b)),
     (''canvasId'', JStr (bi_canvasId b)), (''canvasVersion'', JNum (of_int (bi_canvasVersion b))),
     (''actionHash'', JStr (bi_actionHash b)), (''expiresAt'', JNum (of_int (bi_expiresAt b))), (''nonce'', JStr nonce)]"

definition encode_binding :: "crypto \<Rightarrow> action_binding \<Rightarrow> string \<Rightarrow> string" where
  "encode_binding c b nonce = cr_text c (binding_json b nonce)"

definition text_field :: "(string \<times> json) list \<Rightarrow> string \<Rightarrow> string option" where
  "text_field fs k = (case json_field fs k of Some (JStr s) \<Rightarrow> Some s | _ \<Rightarrow> None)"

definition number_field :: "(string \<times> json) list \<Rightarrow> string \<Rightarrow> num option" where
  "number_field fs k = (case json_field fs k of Some (JNum n) \<Rightarrow> Some n | _ \<Rightarrow> None)"

text \<open>
  Both numbers are compared with integers: a canvas version that is none equals none, so the text is refused here, and a time
  is before an integer when the integer above it is.
\<close>

definition decode_binding :: "crypto \<Rightarrow> string \<Rightarrow> action_binding option" where
  "decode_binding c value = (case cr_parse c value of
     Some (JObj fs) \<Rightarrow>
       Option.bind (text_field fs ''userId'') (\<lambda>user. Option.bind (text_field fs ''sessionId'') (\<lambda>session.
       Option.bind (text_field fs ''canvasId'') (\<lambda>canvas. Option.bind (number_field fs ''canvasVersion'') (\<lambda>version.
       Option.bind (text_field fs ''actionHash'') (\<lambda>hash. Option.bind (number_field fs ''expiresAt'') (\<lambda>expires.
         if js_is_integer version then Some \<lparr>bi_userId = user, bi_sessionId = session, bi_canvasId = canvas,
           bi_canvasVersion = \<lfloor>version\<rfloor>, bi_actionHash = hash, bi_expiresAt = \<lceil>expires\<rceil>\<rparr> else None))))))
   | _ \<Rightarrow> None)"

lemma decode_own_binding: "cr_parse c value = Some (binding_json b nonce) \<Longrightarrow> decode_binding c value = Some b"
  by (simp add: decode_binding_def binding_json_def text_field_def number_field_def json_field_def)

section \<open>Planning an action\<close>

definition binding_for :: "int \<Rightarrow> plan_action_input \<Rightarrow> string \<Rightarrow> int \<Rightarrow> action_binding" where
  "binding_for ttlSeconds input hash now = \<lparr>
     bi_userId = pi_userId input, bi_sessionId = pi_sessionId input, bi_canvasId = pi_canvasId input,
     bi_canvasVersion = pi_canvasVersion input, bi_actionHash = hash, bi_expiresAt = now + ttlSeconds * 1000\<rparr>"

definition needs_approval :: "plan_action_input \<Rightarrow> bool" where
  "needs_approval input = (case pi_requiresApproval input of
      Some b \<Rightarrow> b
    | None \<Rightarrow> 1 \<le> pi_estimatedCost input \<or> pi_risk input = Some Risk_high)"

definition createPlan :: "crypto \<Rightarrow> string \<Rightarrow> int \<Rightarrow> string \<Rightarrow> string \<Rightarrow> plan_action_input \<Rightarrow> int \<Rightarrow>
    approval_error + (planned_action \<times> approval_record option)" where
  "createPlan c secret ttlSeconds newId nonce input now =
     throw_if (\<not> js_is_integer (pi_estimatedCost input) \<or> pi_estimatedCost input < 0) INVALID_INPUT
       (let hash = action_hash c input;
            requires = needs_approval input;
            binding = binding_for ttlSeconds input hash now;
            base = \<lparr>ac_actionId = newId, ac_runId = pi_runId input, ac_userId = pi_userId input,
              ac_sessionId = pi_sessionId input, ac_canvasId = pi_canvasId input,
              ac_canvasVersion = pi_canvasVersion input, ac_toolName = pi_toolName input,
              ac_params = pi_params input, ac_estimatedCost = pi_estimatedCost input,
              ac_risk = (case pi_risk input of Some r \<Rightarrow> r | None \<Rightarrow> if requires then Risk_high else Risk_canvas_write),
              ac_actionHash = hash, ac_binding = binding, ac_approvalToken = None,
              ac_status = (if requires then Act_awaiting_approval else Act_planned)\<rparr>
        in if \<not> requires then Inr (base, None)
           else let payload = encode_binding c binding nonce;
                    token = payload @ ''.'' @ cr_hmac c secret payload;
                    action = base\<lparr>ac_approvalToken := Some token\<rparr>
                in Inr (action, Some \<lparr>ap_action = action, ap_nonce = nonce,
                     ap_tokenSignature = cr_hmac c secret payload, ap_status = Appr_pending\<rparr>))"

definition planAction :: "'s approval_repository \<Rightarrow> crypto \<Rightarrow> string \<Rightarrow> int \<Rightarrow> string \<Rightarrow> string \<Rightarrow> plan_action_input \<Rightarrow>
    int \<Rightarrow> 's \<Rightarrow> approval_error + (planned_action \<times> 's)" where
  "planAction repo c secret ttlSeconds newId nonce input now s =
     rbind (createPlan c secret ttlSeconds newId nonce input now) (\<lambda>(action, r).
       case r of None \<Rightarrow> Inr (action, s)
       | Some r \<Rightarrow> rbind (re_save repo r s) (\<lambda>s'. Inr (action, s')))"

section \<open>Consuming an approval\<close>

text \<open>The checks of \<open>consumeApproval\<close> on the record it read; \<open>safeEqual\<close> is equality of strings.\<close>

definition check_approval :: "crypto \<Rightarrow> string \<Rightarrow> approval_record option \<Rightarrow> string \<Rightarrow> int \<Rightarrow> int \<Rightarrow> approval_error + unit" where
  "check_approval c secret r token currentCanvasVersion now =
     (case r of
        None \<Rightarrow> Inl CONFIRMATION_REQUIRED
      | Some r \<Rightarrow>
          throw_if (ap_status r \<noteq> Appr_pending) CONFIRMATION_REQUIRED
         (throw_if (ac_canvasVersion (ap_action r) \<noteq> currentCanvasVersion) VERSION_CONFLICT
         (case js_split (CHR ''.'') token of
            payload # signature # _ \<Rightarrow>
              throw_if (payload = [] \<or> signature = [] \<or> cr_hmac c secret payload \<noteq> signature) CONFIRMATION_REQUIRED
              (case decode_binding c payload of
                 None \<Rightarrow> Inl CONFIRMATION_REQUIRED
               | Some b \<Rightarrow>
                   throw_if (bi_actionHash b \<noteq> ac_actionHash (ap_action r) \<or> bi_expiresAt b \<le> now \<or>
                       bi_userId b \<noteq> ac_userId (ap_action r) \<or> bi_sessionId b \<noteq> ac_sessionId (ap_action r) \<or>
                       bi_canvasId b \<noteq> ac_canvasId (ap_action r) \<or>
                       bi_canvasVersion b \<noteq> ac_canvasVersion (ap_action r))
                     CONFIRMATION_REQUIRED (Inr ()))
          | _ \<Rightarrow> Inl CONFIRMATION_REQUIRED)))"

definition consume_checked :: "'s approval_repository \<Rightarrow> string \<Rightarrow> int \<Rightarrow> 's \<Rightarrow> approval_error + (planned_action \<times> 's)" where
  "consume_checked repo actionId now s =
     (case re_consumePending repo now actionId s of
        (None, s') \<Rightarrow> Inl CONFIRMATION_REQUIRED
      | (Some r, s') \<Rightarrow> Inr ((ap_action r)\<lparr>ac_status := Act_approved\<rparr>, s'))"

definition consumeApproval :: "'s approval_repository \<Rightarrow> crypto \<Rightarrow> string \<Rightarrow> string \<Rightarrow> string \<Rightarrow> int \<Rightarrow> int \<Rightarrow> 's \<Rightarrow>
    approval_error + (planned_action \<times> 's)" where
  "consumeApproval repo c secret actionId token currentCanvasVersion now s =
     rbind (check_approval c secret (re_find repo s actionId) token currentCanvasVersion now) (\<lambda>_.
       consume_checked repo actionId now s)"

section \<open>The in-memory repository\<close>

definition memory_approvals :: "(string, approval_record) jmap approval_repository" where
  "memory_approvals = \<lparr>
     re_save = (\<lambda>r m. Inr (jset (ac_actionId (ap_action r)) r m)),
     re_find = (\<lambda>m i. jget m i),
     re_consumePending = (\<lambda>now i m. case jget m i of
         None \<Rightarrow> (None, m)
       | Some r \<Rightarrow> if ap_status r \<noteq> Appr_pending then (None, m)
           else (Some (r\<lparr>ap_status := Appr_consumed\<rparr>), jset i (r\<lparr>ap_status := Appr_consumed\<rparr>) m))\<rparr>"

section \<open>The PostgreSQL repository\<close>

datatype approval_row_status = Row_pending | Row_consumed | Row_rejected | Row_expired

record action_line =
  al_id :: string
  al_run_id :: "string option"
  al_params :: "(string \<times> json) list"
  al_risk_level :: action_risk

record approval_row =
  aw_action_id :: string
  aw_user_id :: string
  aw_session_id :: string
  aw_canvas_id :: string
  aw_canvas_version :: int
  aw_tool_name :: string
  aw_action_hash :: string
  aw_estimated_cost :: num
  aw_nonce :: string
  aw_token_signature :: string
  aw_expires_at :: int
  aw_status :: approval_row_status

record approval_db =
  ad_actions :: "action_line list"
  ad_approvals :: "approval_row list"

definition toRecord :: "action_line \<Rightarrow> approval_row \<Rightarrow> approval_record" where
  "toRecord a p = \<lparr>
     ap_action = \<lparr>ac_actionId = aw_action_id p, ac_runId = al_run_id a, ac_userId = aw_user_id p,
       ac_sessionId = aw_session_id p, ac_canvasId = aw_canvas_id p, ac_canvasVersion = aw_canvas_version p,
       ac_toolName = aw_tool_name p, ac_params = al_params a, ac_estimatedCost = aw_estimated_cost p,
       ac_risk = al_risk_level a, ac_actionHash = aw_action_hash p,
       ac_binding = \<lparr>bi_userId = aw_user_id p, bi_sessionId = aw_session_id p, bi_canvasId = aw_canvas_id p,
         bi_canvasVersion = aw_canvas_version p, bi_actionHash = aw_action_hash p, bi_expiresAt = aw_expires_at p\<rparr>,
       ac_approvalToken = None,
       ac_status = (if aw_status p = Row_pending then Act_awaiting_approval else Act_planned)\<rparr>,
     ap_nonce = aw_nonce p,
     ap_tokenSignature = aw_token_signature p,
     ap_status = (if aw_status p = Row_pending then Appr_pending
       else if aw_status p = Row_rejected then Appr_rejected else Appr_consumed)\<rparr>"

text \<open>
  \<open>save\<close>: both inserts do nothing when the action's row is there; a nonce in use breaks its constraint.
\<close>

definition pg_save :: "approval_record \<Rightarrow> approval_db \<Rightarrow> approval_error + approval_db" where
  "pg_save r db =
     (let a = ap_action r;
          actions = (if \<exists>l \<in> set (ad_actions db). al_id l = ac_actionId a then ad_actions db
            else ad_actions db @ [\<lparr>al_id = ac_actionId a, al_run_id = ac_runId a, al_params = ac_params a,
              al_risk_level = ac_risk a\<rparr>])
      in if \<exists>p \<in> set (ad_approvals db). aw_action_id p = ac_actionId a then Inr (db\<lparr>ad_actions := actions\<rparr>)
         else throw_if (\<exists>p \<in> set (ad_approvals db). aw_nonce p = ap_nonce r) DB_CONSTRAINT
           (Inr (db\<lparr>ad_actions := actions, ad_approvals := ad_approvals db @
             [\<lparr>aw_action_id = ac_actionId a, aw_user_id = ac_userId a, aw_session_id = ac_sessionId a,
               aw_canvas_id = ac_canvasId a, aw_canvas_version = ac_canvasVersion a,
               aw_tool_name = ac_toolName a, aw_action_hash = ac_actionHash a,
               aw_estimated_cost = ac_estimatedCost a, aw_nonce = ap_nonce r,
               aw_token_signature = ap_tokenSignature r, aw_expires_at = bi_expiresAt (ac_binding a),
               aw_status = Row_pending\<rparr>]\<rparr>)))"

definition joined :: "approval_db \<Rightarrow> approval_row \<Rightarrow> approval_record option" where
  "joined db p = map_option (\<lambda>a. toRecord a p) (find (\<lambda>a. al_id a = aw_action_id p) (ad_actions db))"

definition pg_find :: "approval_db \<Rightarrow> string \<Rightarrow> approval_record option" where
  "pg_find db actionId = Option.bind (find (\<lambda>p. aw_action_id p = actionId) (ad_approvals db)) (joined db)"

definition pg_consumePending :: "int \<Rightarrow> string \<Rightarrow> approval_db \<Rightarrow> approval_record option \<times> approval_db" where
  "pg_consumePending now actionId db =
     (let hit = (\<lambda>p. aw_action_id p = actionId \<and> aw_status p = Row_pending \<and> now < aw_expires_at p)
      in (Option.bind (find hit (ad_approvals db)) (\<lambda>p. joined db (p\<lparr>aw_status := Row_consumed\<rparr>)),
          db\<lparr>ad_approvals := map (\<lambda>p. if hit p then p\<lparr>aw_status := Row_consumed\<rparr> else p) (ad_approvals db)\<rparr>))"

definition pg_approvals :: "approval_db approval_repository" where
  "pg_approvals = \<lparr>re_save = pg_save, re_find = pg_find, re_consumePending = pg_consumePending\<rparr>"

section \<open>The contract of a repository\<close>

text \<open>What the record of an action keeps through the store: all that the checks read.\<close>

definition same_approval :: "approval_record \<Rightarrow> approval_record \<Rightarrow> bool" where
  "same_approval r q \<longleftrightarrow>
     ac_actionId (ap_action q) = ac_actionId (ap_action r) \<and> ac_userId (ap_action q) = ac_userId (ap_action r) \<and>
     ac_sessionId (ap_action q) = ac_sessionId (ap_action r) \<and> ac_canvasId (ap_action q) = ac_canvasId (ap_action r) \<and>
     ac_canvasVersion (ap_action q) = ac_canvasVersion (ap_action r) \<and>
     ac_actionHash (ap_action q) = ac_actionHash (ap_action r) \<and> ac_toolName (ap_action q) = ac_toolName (ap_action r) \<and>
     ac_params (ap_action q) = ac_params (ap_action r) \<and>
     ac_estimatedCost (ap_action q) = ac_estimatedCost (ap_action r) \<and>
     bi_expiresAt (ac_binding (ap_action q)) = bi_expiresAt (ac_binding (ap_action r))"

locale approval_contract =
  fixes repo :: "'s approval_repository"
    and inv :: "'s \<Rightarrow> bool"
  assumes save_inv: "inv s \<Longrightarrow> re_save repo r s = Inr s' \<Longrightarrow> inv s'"
    and save_find: "inv s \<Longrightarrow> re_find repo s (ac_actionId (ap_action r)) = None \<Longrightarrow> ap_status r = Appr_pending \<Longrightarrow>
      re_save repo r s = Inr s' \<Longrightarrow>
      \<exists>q. re_find repo s' (ac_actionId (ap_action r)) = Some q \<and> same_approval r q \<and> ap_status q = Appr_pending"
    and save_other: "inv s \<Longrightarrow> re_save repo r s = Inr s' \<Longrightarrow> i \<noteq> ac_actionId (ap_action r) \<Longrightarrow>
      re_find repo s' i = re_find repo s i"
    and consume_inv: "inv s \<Longrightarrow> re_consumePending repo now i s = (out, s') \<Longrightarrow> inv s'"
    and consume_some: "inv s \<Longrightarrow> re_consumePending repo now i s = (Some q, s') \<Longrightarrow>
      \<exists>r r'. re_find repo s i = Some r \<and> ap_status r = Appr_pending \<and> same_approval r q \<and>
        re_find repo s' i = Some r' \<and> ap_status r' \<noteq> Appr_pending"
    and consume_live: "inv s \<Longrightarrow> re_find repo s i = Some r \<Longrightarrow> ap_status r = Appr_pending \<Longrightarrow>
      now < bi_expiresAt (ac_binding (ap_action r)) \<Longrightarrow> \<exists>q s'. re_consumePending repo now i s = (Some q, s')"
    and consume_settled: "inv s \<Longrightarrow> re_find repo s i = Some r \<Longrightarrow> ap_status r \<noteq> Appr_pending \<Longrightarrow>
      fst (re_consumePending repo now i s) = None"
    and consume_other: "inv s \<Longrightarrow> re_consumePending repo now i s = (out, s') \<Longrightarrow> j \<noteq> i \<Longrightarrow>
      re_find repo s' j = re_find repo s j"
    and consume_keeps: "inv s \<Longrightarrow> re_consumePending repo now i s = (out, s') \<Longrightarrow> re_find repo s i = Some r \<Longrightarrow>
      ap_status r \<noteq> Appr_pending \<Longrightarrow> \<exists>r'. re_find repo s' i = Some r' \<and> ap_status r' \<noteq> Appr_pending"

text \<open>
  Other requests: a pending action with a new id is saved, or any action is consumed, checked or not.
\<close>

inductive approvals_run :: "'s approval_repository \<Rightarrow> 's \<Rightarrow> 's \<Rightarrow> bool" for repo where
  here: "approvals_run repo s s"
| saved: "approvals_run repo s t \<Longrightarrow> re_find repo t (ac_actionId (ap_action r)) = None \<Longrightarrow>
    re_save repo r t = Inr u \<Longrightarrow> approvals_run repo s u"
| consumed: "approvals_run repo s t \<Longrightarrow> re_consumePending repo now i t = (out, u) \<Longrightarrow> approvals_run repo s u"

context approval_contract
begin

lemma run_keeps_settled:
  assumes "approvals_run repo s t" "inv s" "re_find repo s i = Some r" "ap_status r \<noteq> Appr_pending"
  shows "inv t \<and> (\<exists>r'. re_find repo t i = Some r' \<and> ap_status r' \<noteq> Appr_pending)"
  using assms
proof (induction rule: approvals_run.induct)
  case (saved s t q u)
  then obtain r' where t: "inv t" "re_find repo t i = Some r'" "ap_status r' \<noteq> Appr_pending" by blast
  with saved(2) have "i \<noteq> ac_actionId (ap_action q)" by auto
  with save_other [OF t(1) saved(3)] save_inv [OF t(1) saved(3)] t show ?case by simp
next
  case (consumed s t now j out u)
  then obtain r' where t: "inv t" "re_find repo t i = Some r'" "ap_status r' \<noteq> Appr_pending" by blast
  note out = consumed(2)
  show ?case
  proof (cases "j = i")
    case True
    with consume_keeps [OF t(1) out] consume_inv [OF t(1) out] t show ?thesis by blast
  next
    case False
    with consume_other [OF t(1) out] consume_inv [OF t(1) out] t show ?thesis by simp
  qed
qed blast

lemma once:
  assumes "inv s" "consume_checked repo i now s = Inr (a, s1)" "approvals_run repo s1 s2"
  shows "consume_checked repo i now' s2 = Inl CONFIRMATION_REQUIRED \<and>
    consumeApproval repo c secret i token v now' s2 = Inl CONFIRMATION_REQUIRED"
proof -
  from assms(2) obtain q where q: "re_consumePending repo now i s = (Some q, s1)"
    by (auto simp: consume_checked_def split: prod.splits option.splits)
  from consume_some [OF assms(1) this] obtain r where "re_find repo s1 i = Some r" "ap_status r \<noteq> Appr_pending" by blast
  from run_keeps_settled [OF assms(3) consume_inv [OF assms(1) q] this] obtain r' where
    t: "inv s2" "re_find repo s2 i = Some r'" "ap_status r' \<noteq> Appr_pending" by blast
  with consume_settled [OF t, of now'] show ?thesis
    by (auto simp: consume_checked_def consumeApproval_def check_approval_def split: prod.splits)
qed

lemma approve:
  assumes "inv s" "re_find repo s i = Some r" "check_approval c secret (Some r) token v now = Inr ()"
    and "now < bi_expiresAt (ac_binding (ap_action r))"
  shows "\<exists>a s'. consumeApproval repo c secret i token v now s = Inr (a, s') \<and> ac_status a = Act_approved \<and>
    ac_actionHash a = ac_actionHash (ap_action r) \<and> ac_params a = ac_params (ap_action r)"
proof -
  from assms(3) have p: "ap_status r = Appr_pending" by (simp add: check_approval_def result_simps)
  from consume_live [OF assms(1,2) p assms(4)] obtain q s' where q: "re_consumePending repo now i s = (Some q, s')" by blast
  from consume_some [OF assms(1) q] assms(2) have "same_approval r q" by auto
  with q assms show ?thesis by (simp add: consumeApproval_def consume_checked_def same_approval_def)
qed

end

interpretation mem_approval: approval_contract memory_approvals "\<lambda>_. True"
  by unfold_locales (auto simp: memory_approvals_def same_approval_def split: option.splits if_splits)

text \<open>
  In PostgreSQL every approval has its action's row, and action ids are unique.  The model holds the rows
  of \<^verbatim>\<open>agent_actions\<close> that belong to an approval; those of other actions have ids of their own.
\<close>

definition approvals_ok :: "approval_db \<Rightarrow> bool" where
  "approvals_ok db \<longleftrightarrow> distinct (map aw_action_id (ad_approvals db)) \<and>
     (\<forall>p \<in> set (ad_approvals db). \<exists>a \<in> set (ad_actions db). al_id a = aw_action_id p) \<and>
     (\<forall>a \<in> set (ad_actions db). \<exists>p \<in> set (ad_approvals db). al_id a = aw_action_id p)"

lemma joined_Some:
  assumes "approvals_ok db" "p \<in> set (ad_approvals db)"
  shows "\<exists>a. find (\<lambda>a. al_id a = aw_action_id p) (ad_actions db) = Some a"
  using assms by (cases "find (\<lambda>a. al_id a = aw_action_id p) (ad_actions db)") (auto simp: approvals_ok_def find_None_iff_ball)

lemma find_approval:
  "distinct (map aw_action_id ps) \<Longrightarrow> find (\<lambda>p. aw_action_id p = i) ps = Some p \<longleftrightarrow> p \<in> set ps \<and> aw_action_id p = i"
  by (induction ps) auto

lemma pg_find_Some:
  assumes "approvals_ok db"
  shows "pg_find db i = Some r \<longleftrightarrow> (\<exists>p a. p \<in> set (ad_approvals db) \<and> aw_action_id p = i \<and>
    find (\<lambda>a. al_id a = i) (ad_actions db) = Some a \<and> r = toRecord a p)"
  using assms by (auto simp: pg_find_def joined_def bind_eq_Some_conv find_approval approvals_ok_def)

lemma toRecord_pending [simp]: "ap_status (toRecord a p) = Appr_pending \<longleftrightarrow> aw_status p = Row_pending"
  by (simp add: toRecord_def)

lemma pg_find_None:
  assumes "approvals_ok db"
  shows "pg_find db i = None \<longleftrightarrow> (\<forall>p \<in> set (ad_approvals db). aw_action_id p \<noteq> i)"
proof
  assume "pg_find db i = None"
  then show "\<forall>p \<in> set (ad_approvals db). aw_action_id p \<noteq> i"
    using pg_find_Some [OF assms] joined_Some [OF assms] by (metis option.distinct(1))
next
  assume "\<forall>p \<in> set (ad_approvals db). aw_action_id p \<noteq> i"
  then have "find (\<lambda>p. aw_action_id p = i) (ad_approvals db) = None" by (simp add: find_None_iff_ball)
  then show "pg_find db i = None" by (simp add: pg_find_def)
qed

lemma pg_save_cases:
  assumes "pg_save r db = Inr db'" "approvals_ok db"
  shows "approvals_ok db'" and "j \<noteq> ac_actionId (ap_action r) \<Longrightarrow> pg_find db' j = pg_find db j"
    and "pg_find db (ac_actionId (ap_action r)) = None \<Longrightarrow> ap_status r = Appr_pending \<Longrightarrow>
      \<exists>q. pg_find db' (ac_actionId (ap_action r)) = Some q \<and> same_approval r q \<and> ap_status q = Appr_pending"
proof -
  let ?id = "ac_actionId (ap_action r)" and ?a = "ap_action r"
  let ?line = "\<lparr>al_id = ?id, al_run_id = ac_runId ?a, al_params = ac_params ?a, al_risk_level = ac_risk ?a\<rparr>"
  let ?row = "\<lparr>aw_action_id = ?id, aw_user_id = ac_userId ?a, aw_session_id = ac_sessionId ?a,
    aw_canvas_id = ac_canvasId ?a, aw_canvas_version = ac_canvasVersion ?a, aw_tool_name = ac_toolName ?a,
    aw_action_hash = ac_actionHash ?a, aw_estimated_cost = ac_estimatedCost ?a, aw_nonce = ap_nonce r,
    aw_token_signature = ap_tokenSignature r, aw_expires_at = bi_expiresAt (ac_binding ?a), aw_status = Row_pending\<rparr>"
  define actions where "actions = (if \<exists>l \<in> set (ad_actions db). al_id l = ?id then ad_actions db else ad_actions db @ [?line])"
  have look: "find (\<lambda>l. al_id l = j) actions = (case find (\<lambda>l. al_id l = j) (ad_actions db) of
      Some l \<Rightarrow> Some l | None \<Rightarrow> if j = ?id then Some ?line else None)" for j
  proof (cases "find (\<lambda>l. al_id l = ?id) (ad_actions db)")
    case None
    then have "actions = ad_actions db @ [?line]" by (auto simp: actions_def find_None_iff_ball)
    then show ?thesis by (simp add: find_append split: option.split)
  next
    case (Some l)
    then have "actions = ad_actions db" by (auto simp: actions_def dest: find_SomeD)
    then show ?thesis using Some by (auto split: option.split)
  qed
  consider (old) "\<exists>p \<in> set (ad_approvals db). aw_action_id p = ?id" "db' = db\<lparr>ad_actions := actions\<rparr>"
    | (new) "\<forall>p \<in> set (ad_approvals db). aw_action_id p \<noteq> ?id"
        "db' = db\<lparr>ad_actions := actions, ad_approvals := ad_approvals db @ [?row]\<rparr>"
    using assms(1) by (auto simp: pg_save_def Let_def actions_def [symmetric] result_simps split: if_splits)
  note cases = this
  have sub: "set (ad_actions db) \<subseteq> set actions" by (auto simp: actions_def)
  have has: "\<exists>l \<in> set actions. al_id l = ?id" by (auto simp: actions_def)
  from cases show ok': "approvals_ok db'"
  proof cases
    case old
    have "\<forall>a \<in> set actions. \<exists>p \<in> set (ad_approvals db). al_id a = aw_action_id p"
      using old(1) assms(2) by (auto simp: actions_def approvals_ok_def)
    moreover have "\<forall>p \<in> set (ad_approvals db). \<exists>a \<in> set actions. al_id a = aw_action_id p"
      using assms(2) sub unfolding approvals_ok_def by blast
    ultimately show ?thesis using assms(2) by (simp add: approvals_ok_def old(2))
  next
    case new
    have "\<forall>a \<in> set actions. al_id a = ?id \<or> (\<exists>p \<in> set (ad_approvals db). al_id a = aw_action_id p)"
      using assms(2) by (auto simp: actions_def approvals_ok_def)
    moreover have "\<forall>p \<in> set (ad_approvals db). \<exists>a \<in> set actions. al_id a = aw_action_id p"
      using assms(2) sub unfolding approvals_ok_def by blast
    moreover have "?id \<notin> aw_action_id ` set (ad_approvals db)" using new(1) by auto
    ultimately show ?thesis using assms(2) has by (auto simp: approvals_ok_def new(2))
  qed
  show "pg_find db' j = pg_find db j" if "j \<noteq> ?id"
  proof -
    have "find (\<lambda>p. aw_action_id p = j) (ad_approvals db') = find (\<lambda>p. aw_action_id p = j) (ad_approvals db)"
      using cases that by cases (auto simp: find_append split: option.split)
    moreover have "joined db' p = joined db p" if "p \<in> set (ad_approvals db)" for p
      using cases joined_Some [OF assms(2) that] by cases (auto simp: joined_def look)
    ultimately show ?thesis
      by (cases "find (\<lambda>p. aw_action_id p = j) (ad_approvals db)") (auto simp: pg_find_def dest: find_SomeD)
  qed
  assume none: "pg_find db ?id = None" and "ap_status r = Appr_pending"
  then have out: "\<forall>p \<in> set (ad_approvals db). aw_action_id p \<noteq> ?id" by (simp add: pg_find_None [OF assms(2)])
  with cases have db': "db' = db\<lparr>ad_actions := actions, ad_approvals := ad_approvals db @ [?row]\<rparr>" by cases auto
  have "find (\<lambda>p. aw_action_id p = ?id) (ad_approvals db) = None" using out by (simp add: find_None_iff_ball)
  moreover have "find (\<lambda>l. al_id l = ?id) (ad_actions db) = None"
    using out assms(2) unfolding find_None_iff_ball approvals_ok_def by metis
  then have l: "find (\<lambda>l. al_id l = ?id) actions = Some ?line" by (simp add: look)
  ultimately have "pg_find db' ?id = Some (toRecord ?line ?row)" by (simp add: pg_find_def db' find_append joined_def)
  moreover have "same_approval r (toRecord ?line ?row)" by (simp add: same_approval_def toRecord_def)
  ultimately show "\<exists>q. pg_find db' ?id = Some q \<and> same_approval r q \<and> ap_status q = Appr_pending" by simp
qed

lemma pg_consume:
  assumes "approvals_ok db" "pg_consumePending now i db = (out, db')"
  shows "approvals_ok db'" and "j \<noteq> i \<Longrightarrow> pg_find db' j = pg_find db j"
    and "pg_find db i = Some r \<Longrightarrow> ap_status r \<noteq> Appr_pending \<Longrightarrow> out = None \<and> pg_find db' i = Some r"
    and "out = Some q \<Longrightarrow> \<exists>r r'. pg_find db i = Some r \<and> ap_status r = Appr_pending \<and> same_approval r q \<and>
      pg_find db' i = Some r' \<and> ap_status r' \<noteq> Appr_pending"
    and "pg_find db i = Some r \<Longrightarrow> ap_status r = Appr_pending \<Longrightarrow> now < bi_expiresAt (ac_binding (ap_action r)) \<Longrightarrow>
      out \<noteq> None"
proof -
  let ?hit = "\<lambda>p. aw_action_id p = i \<and> aw_status p = Row_pending \<and> now < aw_expires_at p"
  define f where "f = (\<lambda>p :: approval_row. if ?hit p then p\<lparr>aw_status := Row_consumed\<rparr> else p)"
  have fid: "aw_action_id (f p) = aw_action_id p" for p by (simp add: f_def)
  have db': "db' = db\<lparr>ad_approvals := map f (ad_approvals db)\<rparr>"
    and out: "out = Option.bind (find ?hit (ad_approvals db)) (\<lambda>p. joined db (p\<lparr>aw_status := Row_consumed\<rparr>))"
    using assms(2) by (simp_all add: pg_consumePending_def f_def)
  have jd: "joined db' = joined db" by (simp add: joined_def db' fun_eq_iff)
  have pf: "pg_find db' j = Option.bind (map_option f (find (\<lambda>p. aw_action_id p = j) (ad_approvals db))) (joined db)" for j
    by (simp add: pg_find_def jd) (simp add: db' find_map_keep fid)
  show ok': "approvals_ok db'" using assms(1) by (simp add: approvals_ok_def db' fid comp_def)
  show "pg_find db' j = pg_find db j" if "j \<noteq> i"
    unfolding pf unfolding pg_find_def
    using that by (cases "find (\<lambda>p. aw_action_id p = j) (ad_approvals db)") (auto simp: f_def dest: find_SomeD)
  have one: "find ?hit (ad_approvals db) = (if ?hit p then Some p else None)"
    if "p \<in> set (ad_approvals db)" "aw_action_id p = i" for p
  proof -
    have "inj_on aw_action_id (set (ad_approvals db))" using assms(1) by (simp add: approvals_ok_def distinct_map)
    then have eq: "q = p" if "q \<in> set (ad_approvals db)" "aw_action_id q = i" for q
      using that \<open>p \<in> _\<close> \<open>aw_action_id p = i\<close> by (metis inj_onD)
    show ?thesis
    proof (cases "find ?hit (ad_approvals db)")
      case None
      then have "\<not> ?hit p" using \<open>p \<in> _\<close> unfolding find_None_iff_ball by blast
      then show ?thesis unfolding None by (simp only: if_False)
    next
      case (Some q)
      from find_SomeD [OF this] have "?hit q" "q = p" using eq by blast+
      then show ?thesis unfolding Some by simp
    qed
  qed
  have found: "find (\<lambda>p. aw_action_id p = i) (ad_approvals db) = Some p"
    if "p \<in> set (ad_approvals db)" "aw_action_id p = i" for p
    using that assms(1) by (simp add: find_approval approvals_ok_def)
  show "out = None \<and> pg_find db' i = Some r" if r: "pg_find db i = Some r" "ap_status r \<noteq> Appr_pending"
  proof -
    from r(1) obtain p a where p: "p \<in> set (ad_approvals db)" "aw_action_id p = i"
      "find (\<lambda>a. al_id a = i) (ad_actions db) = Some a" "r = toRecord a p"
      by (auto simp: pg_find_Some [OF assms(1)])
    with r(2) one [OF p(1,2)] found [OF p(1,2)] show ?thesis by (simp add: out pf f_def joined_def)
  qed
  show "\<exists>r r'. pg_find db i = Some r \<and> ap_status r = Appr_pending \<and> same_approval r q \<and>
      pg_find db' i = Some r' \<and> ap_status r' \<noteq> Appr_pending" if "out = Some q"
  proof -
    from that out obtain p where h: "find ?hit (ad_approvals db) = Some p"
      and q: "joined db (p\<lparr>aw_status := Row_consumed\<rparr>) = Some q" by (auto simp: bind_eq_Some_conv)
    from find_SomeD [OF h] have p: "p \<in> set (ad_approvals db)" "aw_action_id p = i" "?hit p" by auto
    from q obtain a where a: "find (\<lambda>a. al_id a = i) (ad_actions db) = Some a" "q = toRecord a (p\<lparr>aw_status := Row_consumed\<rparr>)"
      using p by (auto simp: joined_def)
    have "pg_find db i = Some (toRecord a p)" using found [OF p(1,2)] a p by (simp add: pg_find_def joined_def)
    moreover have "pg_find db' i = Some q" using found [OF p(1,2)] a p by (simp add: pf f_def joined_def)
    moreover have "same_approval (toRecord a p) q" "ap_status q \<noteq> Appr_pending"
      using a by (simp_all add: same_approval_def toRecord_def)
    ultimately show ?thesis using p by auto
  qed
  show "out \<noteq> None" if r: "pg_find db i = Some r" "ap_status r = Appr_pending" "now < bi_expiresAt (ac_binding (ap_action r))"
  proof -
    from r(1) obtain p a where p: "p \<in> set (ad_approvals db)" "aw_action_id p = i"
      "find (\<lambda>a. al_id a = i) (ad_actions db) = Some a" "r = toRecord a p"
      by (auto simp: pg_find_Some [OF assms(1)])
    have "?hit p" using r(2,3) p by (simp add: toRecord_def split: if_splits)
    with one [OF p(1,2)] p show ?thesis by (simp add: out joined_def)
  qed
qed

interpretation pg_approval: approval_contract pg_approvals approvals_ok
proof unfold_locales
  fix s s' :: approval_db and r q :: approval_record and i j :: string and now :: int and out
  let ?repo = "pg_approvals"
  have defs: "re_save ?repo = pg_save" "re_find ?repo = pg_find" "re_consumePending ?repo = pg_consumePending"
    by (simp_all add: pg_approvals_def)
  assume ok: "approvals_ok s"
  show "re_save ?repo r s = Inr s' \<Longrightarrow> approvals_ok s'"
    unfolding defs by (rule pg_save_cases(1) [OF _ ok])
  show "re_find ?repo s (ac_actionId (ap_action r)) = None \<Longrightarrow> ap_status r = Appr_pending \<Longrightarrow> re_save ?repo r s = Inr s' \<Longrightarrow>
      \<exists>q. re_find ?repo s' (ac_actionId (ap_action r)) = Some q \<and> same_approval r q \<and> ap_status q = Appr_pending"
    unfolding defs by (rule pg_save_cases(3) [OF _ ok])
  show "re_save ?repo r s = Inr s' \<Longrightarrow> i \<noteq> ac_actionId (ap_action r) \<Longrightarrow> re_find ?repo s' i = re_find ?repo s i"
    unfolding defs by (rule pg_save_cases(2) [OF _ ok])
  show "re_consumePending ?repo now i s = (out, s') \<Longrightarrow> approvals_ok s'"
    unfolding defs by (rule pg_consume(1) [OF ok])
  show "re_consumePending ?repo now i s = (Some q, s') \<Longrightarrow> \<exists>r r'. re_find ?repo s i = Some r \<and>
      ap_status r = Appr_pending \<and> same_approval r q \<and> re_find ?repo s' i = Some r' \<and> ap_status r' \<noteq> Appr_pending"
    unfolding defs by (rule pg_consume(4) [OF ok _ refl])
  show "re_find ?repo s i = Some r \<Longrightarrow> ap_status r = Appr_pending \<Longrightarrow> now < bi_expiresAt (ac_binding (ap_action r)) \<Longrightarrow>
      \<exists>q s'. re_consumePending ?repo now i s = (Some q, s')"
    unfolding defs using pg_consume(5) [OF ok, of now i] by (cases "pg_consumePending now i s") auto
  show "re_find ?repo s i = Some r \<Longrightarrow> ap_status r \<noteq> Appr_pending \<Longrightarrow> fst (re_consumePending ?repo now i s) = None"
    unfolding defs using pg_consume(3) [OF ok, of now i] by (cases "pg_consumePending now i s") auto
  show "re_consumePending ?repo now i s = (out, s') \<Longrightarrow> j \<noteq> i \<Longrightarrow> re_find ?repo s' j = re_find ?repo s j"
    unfolding defs by (rule pg_consume(2) [OF ok])
  show "re_consumePending ?repo now i s = (out, s') \<Longrightarrow> re_find ?repo s i = Some r \<Longrightarrow> ap_status r \<noteq> Appr_pending \<Longrightarrow>
      \<exists>r'. re_find ?repo s' i = Some r' \<and> ap_status r' \<noteq> Appr_pending"
    unfolding defs using pg_consume(3) [OF ok] by blast
qed

section \<open>What the check accepts\<close>

lemma check_approval_ok:
  "check_approval c secret r token v now = Inr () \<longleftrightarrow>
     (\<exists>q payload signature rest b. r = Some q \<and> ap_status q = Appr_pending \<and> ac_canvasVersion (ap_action q) = v \<and>
        js_split (CHR ''.'') token = payload # signature # rest \<and> payload \<noteq> [] \<and> signature \<noteq> [] \<and>
        signature = cr_hmac c secret payload \<and> decode_binding c payload = Some b \<and> now < bi_expiresAt b \<and>
        bi_actionHash b = ac_actionHash (ap_action q) \<and> bi_userId b = ac_userId (ap_action q) \<and>
        bi_sessionId b = ac_sessionId (ap_action q) \<and> bi_canvasId b = ac_canvasId (ap_action q) \<and>
        bi_canvasVersion b = ac_canvasVersion (ap_action q))"
  by (auto simp: check_approval_def result_simps split: option.splits list.splits)

text \<open>What a token made for a binding needs to be read back: documented behaviour of the codec and of HMAC.\<close>

definition token_text_ok :: "crypto \<Rightarrow> string \<Rightarrow> action_binding \<Rightarrow> string \<Rightarrow> bool" where
  "token_text_ok c secret b nonce \<longleftrightarrow>
     (let payload = encode_binding c b nonce; signature = cr_hmac c secret payload in
      cr_parse c payload = Some (binding_json b nonce) \<and> payload \<noteq> [] \<and> CHR ''.'' \<notin> set payload \<and>
      signature \<noteq> [] \<and> CHR ''.'' \<notin> set signature)"

lemma check_own_token:
  assumes "token_text_ok c secret b nonce"
    and "token = encode_binding c b nonce @ ''.'' @ cr_hmac c secret (encode_binding c b nonce)"
    and "ap_status q = Appr_pending" "ac_canvasVersion (ap_action q) = v" "now < bi_expiresAt b"
    and "bi_actionHash b = ac_actionHash (ap_action q)" "bi_userId b = ac_userId (ap_action q)"
      "bi_sessionId b = ac_sessionId (ap_action q)" "bi_canvasId b = ac_canvasId (ap_action q)"
      "bi_canvasVersion b = ac_canvasVersion (ap_action q)"
  shows "check_approval c secret (Some q) token v now = Inr ()"
  using assms by (simp add: check_approval_ok token_text_ok_def Let_def js_split_append js_split_free decode_own_binding)

lemma createPlan_approval:
  assumes "createPlan c secret ttl i nonce input now = Inr (action, Some r)"
  shows "ap_action r = action \<and> ap_status r = Appr_pending \<and> ac_actionId action = i \<and>
    ac_userId action = pi_userId input \<and> ac_sessionId action = pi_sessionId input \<and>
    ac_canvasId action = pi_canvasId input \<and> ac_canvasVersion action = pi_canvasVersion input \<and>
    ac_actionHash action = action_hash c input \<and> ac_params action = pi_params input \<and>
    ac_binding action = binding_for ttl input (action_hash c input) now \<and>
    ac_approvalToken action = Some (encode_binding c (ac_binding action) nonce @ ''.'' @ cr_hmac c secret (encode_binding c (ac_binding action) nonce))"
  using assms by (auto simp: createPlan_def result_simps Let_def split: if_splits)

lemma planAction_approval:
  assumes "approvals_ok db" "planAction pg_approvals c secret ttl i nonce input now db = Inr (action, db1)"
    and "ac_approvalToken action = Some token" "pg_find db i = None"
  shows "approvals_ok db1 \<and> (\<forall>j. j \<noteq> i \<longrightarrow> pg_find db1 j = pg_find db j) \<and>
    token = encode_binding c (ac_binding action) nonce @ ''.'' @ cr_hmac c secret (encode_binding c (ac_binding action) nonce) \<and>
    ac_binding action = binding_for ttl input (action_hash c input) now \<and>
    (\<exists>q. pg_find db1 i = Some q \<and> ap_status q = Appr_pending \<and>
      ac_userId (ap_action q) = pi_userId input \<and> ac_sessionId (ap_action q) = pi_sessionId input \<and>
      ac_canvasId (ap_action q) = pi_canvasId input \<and> ac_canvasVersion (ap_action q) = pi_canvasVersion input \<and>
      ac_actionHash (ap_action q) = action_hash c input \<and> ac_params (ap_action q) = pi_params input \<and>
      bi_expiresAt (ac_binding (ap_action q)) = now + ttl * 1000)"
proof -
  from assms(2) obtain r where create: "createPlan c secret ttl i nonce input now = Inr (action, r)"
    and save: "case r of None \<Rightarrow> db1 = db | Some r \<Rightarrow> pg_save r db = Inr db1"
    by (auto simp: planAction_def pg_approvals_def result_simps split: option.splits)
  have "r \<noteq> None" using create assms(3) by (auto simp: createPlan_def result_simps Let_def split: if_splits)
  then obtain rec where r: "r = Some rec" by auto
  note cp = createPlan_approval [OF create [unfolded r]]
  have save: "pg_save rec db = Inr db1" using save r by simp
  have id: "ac_actionId (ap_action rec) = i" and pend: "ap_status rec = Appr_pending" using cp by auto
  from pg_save_cases(3) [OF save assms(1)] assms(4) pend obtain q where
    "pg_find db1 i = Some q" "same_approval rec q" "ap_status q = Appr_pending" by (auto simp: id)
  with cp pg_save_cases(1,2) [OF save assms(1)] assms(3) show ?thesis
    by (auto simp: id same_approval_def binding_for_def)
qed

section \<open>Properties\<close>

text \<open>
  C17. An approval is consumed at most once.  After one request has consumed an action, even one that raced
  with others through the same checks, then whatever other actions are planned or consumed in
  between, every later attempt to consume it fails, with any token and at any time.
\<close>

theorem approval_consumed_once:
  assumes "approvals_ok db" "consume_checked pg_approvals i now db = Inr (a, db1)" "approvals_run pg_approvals db1 db2"
  shows "consume_checked pg_approvals i now' db2 = Inl CONFIRMATION_REQUIRED \<and>
    consumeApproval pg_approvals c secret i token v now' db2 = Inl CONFIRMATION_REQUIRED"
  by (rule pg_approval.once [OF assms])

text \<open>
  C18. The token of a planned action approves it: until the binding expires, and while the canvas version is
  the planned one, the first consumption with the token returns the action as approved, with the
  parameters that were planned.  With another canvas version it is a \<^verbatim>\<open>VERSION_CONFLICT\<close>, and from the
  expiry on it is refused.
\<close>

theorem planned_action_can_be_approved:
  assumes "approvals_ok db" "planAction pg_approvals c secret ttl i nonce input now db = Inr (action, db1)"
    and "ac_approvalToken action = Some token" "pg_find db i = None"
    and "token_text_ok c secret (ac_binding action) nonce"
  shows "(t < now + ttl * 1000 \<longrightarrow>
      (\<exists>a db2. consumeApproval pg_approvals c secret i token (pi_canvasVersion input) t db1 = Inr (a, db2) \<and>
        ac_status a = Act_approved \<and> ac_params a = pi_params input)) \<and>
    (now + ttl * 1000 \<le> t \<longrightarrow>
      consumeApproval pg_approvals c secret i token (pi_canvasVersion input) t db1 = Inl CONFIRMATION_REQUIRED) \<and>
    (v \<noteq> pi_canvasVersion input \<longrightarrow> consumeApproval pg_approvals c secret i token v t db1 = Inl VERSION_CONFLICT)"
proof -
  from planAction_approval [OF assms(1-4)] obtain q where
    ok: "approvals_ok db1" and q: "pg_find db1 i = Some q" "ap_status q = Appr_pending"
    and tok: "token = encode_binding c (ac_binding action) nonce @ ''.'' @ cr_hmac c secret (encode_binding c (ac_binding action) nonce)"
    and b: "ac_binding action = binding_for ttl input (action_hash c input) now"
    and same: "ac_userId (ap_action q) = pi_userId input" "ac_sessionId (ap_action q) = pi_sessionId input"
      "ac_canvasId (ap_action q) = pi_canvasId input" "ac_canvasVersion (ap_action q) = pi_canvasVersion input"
      "ac_actionHash (ap_action q) = action_hash c input" "ac_params (ap_action q) = pi_params input"
      "bi_expiresAt (ac_binding (ap_action q)) = now + ttl * 1000" by blast
  have find: "re_find pg_approvals db1 i = Some q" using q(1) by (simp add: pg_approvals_def)
  have live: "\<exists>a db2. consumeApproval pg_approvals c secret i token (pi_canvasVersion input) t db1 = Inr (a, db2) \<and>
        ac_status a = Act_approved \<and> ac_params a = pi_params input" if "t < now + ttl * 1000"
  proof -
    have "check_approval c secret (Some q) token (pi_canvasVersion input) t = Inr ()"
      by (rule check_own_token [OF assms(5) tok q(2)]) (use that same in \<open>simp_all add: b binding_for_def\<close>)
    from pg_approval.approve [OF ok find this] that same show ?thesis by fastforce
  qed
  have "decode_binding c (encode_binding c (ac_binding action) nonce) = Some (ac_binding action)"
    and split: "js_split (CHR ''.'') token = [encode_binding c (ac_binding action) nonce, cr_hmac c secret (encode_binding c (ac_binding action) nonce)]"
    using assms(5) by (simp_all add: token_text_ok_def Let_def tok js_split_append js_split_free decode_own_binding)
  then have "check_approval c secret (Some q) token (pi_canvasVersion input) t = Inl CONFIRMATION_REQUIRED" if "now + ttl * 1000 \<le> t"
    using that q(2) same by (simp add: check_approval_def) (simp add: b binding_for_def throw_if_def)
  moreover have "check_approval c secret (Some q) token v t = Inl VERSION_CONFLICT" if "v \<noteq> pi_canvasVersion input"
    using that q(2) same by (simp add: check_approval_def)
  ultimately show ?thesis using live find by (simp add: consumeApproval_def)
qed

text \<open>
  A token is bound to what is asked for, not to the action it was issued for.  When the same request is
  planned twice, the token issued for the first action approves the second: the nonce and the signature
  that the record stores are never compared.
\<close>

theorem token_approves_equal_action:
  assumes "approvals_ok db" "i \<noteq> j" "pg_find db i = None" "pg_find db j = None"
    and "planAction pg_approvals c secret ttl i n1 input now1 db = Inr (a1, db1)"
    and "planAction pg_approvals c secret ttl j n2 input now2 db1 = Inr (a2, db2)"
    and "ac_approvalToken a1 = Some token1" "ac_approvalToken a2 = Some token2"
    and "token_text_ok c secret (ac_binding a1) n1" "now1 \<le> now2" "t < now1 + ttl * 1000"
  shows "\<exists>a db3. consumeApproval pg_approvals c secret j token1 (pi_canvasVersion input) t db2 = Inr (a, db3)"
proof -
  note p1 = planAction_approval [OF assms(1,5,7,3)]
  then have ok1: "approvals_ok db1" and "pg_find db1 j = None" using assms(2,4) by auto
  note p2 = planAction_approval [OF ok1 assms(6,8) this(2)]
  then obtain q where ok2: "approvals_ok db2" and q: "pg_find db2 j = Some q" "ap_status q = Appr_pending"
    and same: "ac_userId (ap_action q) = pi_userId input" "ac_sessionId (ap_action q) = pi_sessionId input"
      "ac_canvasId (ap_action q) = pi_canvasId input" "ac_canvasVersion (ap_action q) = pi_canvasVersion input"
      "ac_actionHash (ap_action q) = action_hash c input" "bi_expiresAt (ac_binding (ap_action q)) = now2 + ttl * 1000"
    by blast
  have b1: "ac_binding a1 = binding_for ttl input (action_hash c input) now1"
    and tok: "token1 = encode_binding c (ac_binding a1) n1 @ ''.'' @ cr_hmac c secret (encode_binding c (ac_binding a1) n1)"
    using p1 by blast+
  have "check_approval c secret (Some q) token1 (pi_canvasVersion input) t = Inr ()"
    by (rule check_own_token [OF assms(9) tok q(2)]) (use assms(11) same in \<open>simp_all add: b1 binding_for_def\<close>)
  from pg_approval.approve [OF ok2 _ this] q(1) same assms(10,11) show ?thesis by (fastforce simp: pg_approvals_def)
qed

text \<open>For the witnesses: a codec for one binding, and a request that costs two points.\<close>

definition sample_approval_input :: plan_action_input where
  "sample_approval_input = \<lparr>pi_userId = ''u'', pi_runId = None, pi_sessionId = ''s'', pi_canvasId = ''c'',
     pi_canvasVersion = 3, pi_toolName = ''submit_generation'', pi_params = [], pi_estimatedCost = 2,
     pi_risk = None, pi_requiresApproval = None\<rparr>"

definition sample_crypto :: crypto where
  "sample_crypto = \<lparr>cr_sha256 = (\<lambda>_. ''h''), cr_hmac = (\<lambda>k v. ''m''), cr_text = (\<lambda>_. ''p''),
     cr_parse = (\<lambda>_. Some (binding_json (binding_for 60 sample_approval_input ''h'' 0) ''n1'')), cr_scalar = (\<lambda>_. ''v''),
     cr_before = (\<lambda>_ _. True)\<rparr>"

definition empty_approvals :: approval_db where
  "empty_approvals = \<lparr>ad_actions = [], ad_approvals = []\<rparr>"

lemmas sample_approval_defs = sample_approval_input_def sample_crypto_def empty_approvals_def planAction_def
  createPlan_def needs_approval_def action_hash_def binding_for_def pg_approvals_def pg_save_def Let_def
  approvals_ok_def pg_find_def token_text_ok_def encode_binding_def

lemma sample_plans:
  "\<exists>a1 db1 a2 db2 token1 token2.
     planAction pg_approvals sample_crypto ''k'' 60 ''1'' ''n1'' sample_approval_input 0 empty_approvals = Inr (a1, db1) \<and>
     planAction pg_approvals sample_crypto ''k'' 60 ''2'' ''n2'' sample_approval_input 0 db1 = Inr (a2, db2) \<and>
     ac_approvalToken a1 = Some token1 \<and> ac_approvalToken a2 = Some token2 \<and>
     token_text_ok sample_crypto ''k'' (ac_binding a1) ''n1''"
  by (simp add: sample_approval_defs)

lemma empty_approvals_ok: "approvals_ok empty_approvals" "pg_find empty_approvals i = None"
  by (simp_all add: approvals_ok_def empty_approvals_def pg_find_def)

theorem planned_action_can_be_approved_witness:
  "\<exists>db1 a db2 token. consumeApproval pg_approvals sample_crypto ''k'' ''1'' token 3 59999 db1 = Inr (a, db2) \<and>
     consumeApproval pg_approvals sample_crypto ''k'' ''1'' token 4 0 db1 = Inl VERSION_CONFLICT"
proof -
  obtain a1 db1 token1 where p: "planAction pg_approvals sample_crypto ''k'' 60 ''1'' ''n1'' sample_approval_input 0 empty_approvals = Inr (a1, db1)"
    "ac_approvalToken a1 = Some token1" and tok: "token_text_ok sample_crypto ''k'' (ac_binding a1) ''n1''"
    using sample_plans by blast
  note planned = planned_action_can_be_approved [OF empty_approvals_ok(1) p(1,2) empty_approvals_ok(2) tok]
  have "\<exists>a db2. consumeApproval pg_approvals sample_crypto ''k'' ''1'' token1 3 59999 db1 = Inr (a, db2)"
    using planned [of 59999 3] by (auto simp: sample_approval_input_def)
  moreover have "consumeApproval pg_approvals sample_crypto ''k'' ''1'' token1 4 0 db1 = Inl VERSION_CONFLICT"
    using planned [of 0 4] by (simp add: sample_approval_input_def)
  ultimately show ?thesis by blast
qed

theorem token_approves_equal_action_witness:
  "\<exists>token1 a db2 db3. consumeApproval pg_approvals sample_crypto ''k'' ''2'' token1 3 5 db2 = Inr (a, db3)"
proof -
  obtain a1 db1 a2 db2 token1 token2 where p:
    "planAction pg_approvals sample_crypto ''k'' 60 ''1'' ''n1'' sample_approval_input 0 empty_approvals = Inr (a1, db1)"
    "planAction pg_approvals sample_crypto ''k'' 60 ''2'' ''n2'' sample_approval_input 0 db1 = Inr (a2, db2)"
    "ac_approvalToken a1 = Some token1" "ac_approvalToken a2 = Some token2"
    and tok: "token_text_ok sample_crypto ''k'' (ac_binding a1) ''n1''"
    using sample_plans by blast
  have "\<exists>a db3. consumeApproval pg_approvals sample_crypto ''k'' ''2'' token1 (pi_canvasVersion sample_approval_input) 5 db2 = Inr (a, db3)"
    by (rule token_approves_equal_action [OF empty_approvals_ok(1) _ empty_approvals_ok(2) empty_approvals_ok(2) p tok]) simp_all
  then show ?thesis by (auto simp: sample_approval_input_def)
qed

theorem approval_consumed_once_witness:
  "\<exists>a db1 db2. consume_checked pg_approvals ''1'' 4 db1 = Inr (a, db2) \<and>
     consume_checked pg_approvals ''1'' 5 db2 = Inl CONFIRMATION_REQUIRED"
proof -
  obtain a1 db1 token1 where p: "planAction pg_approvals sample_crypto ''k'' 60 ''1'' ''n1'' sample_approval_input 0 empty_approvals = Inr (a1, db1)"
    "ac_approvalToken a1 = Some token1" using sample_plans by blast
  from planAction_approval [OF empty_approvals_ok(1) p empty_approvals_ok(2)] obtain q where ok: "approvals_ok db1"
    and q: "pg_find db1 ''1'' = Some q" "ap_status q = Appr_pending" "bi_expiresAt (ac_binding (ap_action q)) = 60000" by auto
  obtain r db2 where c: "pg_consumePending 4 ''1'' db1 = (Some r, db2)"
    using pg_consume(5) [OF ok _ q(1,2)] q(3) by (cases "pg_consumePending 4 ''1'' db1") fastforce
  then have first: "consume_checked pg_approvals ''1'' 4 db1 = Inr ((ap_action r)\<lparr>ac_status := Act_approved\<rparr>, db2)"
    by (simp add: consume_checked_def pg_approvals_def)
  note once = approval_consumed_once [OF ok this approvals_run.here, THEN conjunct1]
  show ?thesis by (intro exI conjI, rule first, rule once)
qed

end
