(* ===== verification/SessionRuns.thy ===== *)
theory SessionRuns
  imports Prelude
begin

text \<open>
  Agent runs: \<^verbatim>\<open>domain/agent-run.ts\<close>, \<^verbatim>\<open>application/session-run-service.ts\<close>
  with its in-memory repository, and \<^verbatim>\<open>infrastructure/pg-run-repository.ts\<close> with the
  constraints of its tables (\<^verbatim>\<open>migrations/003_agent_runs_events.sql\<close>).

  A repository is a record of operations over a state; the optional members of the interface are
  options, as the service tests for them.  Ids and the clock are arguments.  The literal
  \<open>runtime: "pi"\<close> and the columns of a session other than its event counter are left out.
\<close>

section \<open>Data\<close>

datatype run_status =
    Run_queued | Run_running | Run_waiting_confirmation | Run_waiting_task
  | Run_completed | Run_failed | Run_aborted

datatype run_event_type =
    Ev_assistant_delta | Ev_tool_started | Ev_tool_completed | Ev_confirmation_required
  | Ev_task_status | Ev_run_completed | Ev_run_failed | Ev_run_aborted

record agent_run =
  ru_runId :: string
  ru_sessionId :: string
  ru_idempotencyKey :: string
  ru_status :: run_status
  ru_createdAt :: int
  ru_updatedAt :: int

record agent_run_event =
  ev_eventId :: string
  ev_runId :: string
  ev_sessionId :: string
  ev_eventSeq :: nat
  ev_type :: run_event_type
  ev_runtimeVersion :: string
  ev_data :: "(string \<times> json) list"
  ev_createdAt :: int

fun isActiveRunStatus :: "run_status \<Rightarrow> bool" where
  "isActiveRunStatus Run_queued = True"
| "isActiveRunStatus Run_running = True"
| "isActiveRunStatus Run_waiting_confirmation = True"
| "isActiveRunStatus Run_waiting_task = True"
| "isActiveRunStatus _ = False"

abbreviation run_active :: "agent_run \<Rightarrow> bool" where
  "run_active r \<equiv> isActiveRunStatus (ru_status r)"

datatype run_error =
    SESSION_BUSY | RUN_NOT_ACTIVE | RUN_NOT_FOUND | SESSION_EVENT_SEQUENCE_FAILED | RUN_CONSTRAINT

record 's run_repository =
  rr_findByIdempotency :: "'s \<Rightarrow> string \<Rightarrow> string \<Rightarrow> agent_run option"
  rr_findActive :: "'s \<Rightarrow> string \<Rightarrow> agent_run option"
  rr_findById :: "'s \<Rightarrow> string \<Rightarrow> agent_run option"
  rr_startRunAtomic :: "(string \<Rightarrow> string \<Rightarrow> string \<Rightarrow> int \<Rightarrow> 's \<Rightarrow> run_error + (agent_run \<times> 's)) option"
  rr_save :: "agent_run \<Rightarrow> 's \<Rightarrow> run_error + 's"
  rr_updateStatus :: "int \<Rightarrow> string \<Rightarrow> run_status \<Rightarrow> 's \<Rightarrow> run_error + 's"
  rr_appendEvent :: "agent_run_event \<Rightarrow> 's \<Rightarrow> run_error + 's"
  rr_listEvents :: "'s \<Rightarrow> string \<Rightarrow> agent_run_event list"
  rr_listSessionEvents :: "('s \<Rightarrow> string \<Rightarrow> nat \<Rightarrow> agent_run_event list) option"
  rr_appendEventAtomic :: "(string \<Rightarrow> int \<Rightarrow> string \<Rightarrow> run_event_type \<Rightarrow> (string \<times> json) list \<Rightarrow> 's \<Rightarrow>
     run_error + (agent_run_event \<times> 's)) option"
  rr_cancelIfActive :: "(int \<Rightarrow> string \<Rightarrow> 's \<Rightarrow> bool \<times> 's) option"

section \<open>The service\<close>

definition new_run :: "string \<Rightarrow> string \<Rightarrow> string \<Rightarrow> int \<Rightarrow> agent_run" where
  "new_run runId sessionId key now = \<lparr>ru_runId = runId, ru_sessionId = sessionId, ru_idempotencyKey = key,
     ru_status = Run_queued, ru_createdAt = now, ru_updatedAt = now\<rparr>"

definition startRun :: "'s run_repository \<Rightarrow> string \<Rightarrow> string \<Rightarrow> string \<Rightarrow> int \<Rightarrow> 's \<Rightarrow> run_error + (agent_run \<times> 's)" where
  "startRun repo sessionId key runId now s = (case rr_startRunAtomic repo of
     Some atomic \<Rightarrow> atomic sessionId key runId now s
   | None \<Rightarrow> (case rr_findByIdempotency repo s sessionId key of
       Some existing \<Rightarrow> Inr (existing, s)
     | None \<Rightarrow> throw_if (rr_findActive repo s sessionId \<noteq> None) SESSION_BUSY
         (let run = new_run runId sessionId key now
          in rbind (rr_save repo run s) (\<lambda>s'. Inr (run, s')))))"

definition requireRun :: "'s run_repository \<Rightarrow> string \<Rightarrow> 's \<Rightarrow> run_error + agent_run" where
  "requireRun repo runId s = require_some RUN_NOT_FOUND (rr_findById repo s runId)"

definition next_seq :: "agent_run_event list \<Rightarrow> nat" where
  "next_seq current = (if current = [] then 0 else ev_eventSeq (last current)) + 1"

definition append_event :: "'s run_repository \<Rightarrow> agent_run \<Rightarrow> run_event_type \<Rightarrow> (string \<times> json) list \<Rightarrow> string \<Rightarrow> int \<Rightarrow> 's \<Rightarrow>
    run_error + (agent_run_event \<times> 's)" where
  "append_event repo run type data eventId now s =
     (let event = \<lparr>ev_eventId = eventId, ev_runId = ru_runId run, ev_sessionId = ru_sessionId run,
            ev_eventSeq = next_seq (rr_listEvents repo s (ru_runId run)), ev_type = type,
            ev_runtimeVersion = ''0.1.0'', ev_data = data, ev_createdAt = now\<rparr>
      in rbind (rr_appendEvent repo event s) (\<lambda>s'. Inr (event, s')))"

definition appendEvent :: "'s run_repository \<Rightarrow> string \<Rightarrow> run_event_type \<Rightarrow> (string \<times> json) list \<Rightarrow> string \<Rightarrow> int \<Rightarrow> 's \<Rightarrow>
    run_error + (agent_run_event \<times> 's)" where
  "appendEvent repo runId type data eventId now s =
     rbind (requireRun repo runId s) (\<lambda>run.
       throw_if (\<not> run_active run) RUN_NOT_ACTIVE
         (case rr_appendEventAtomic repo of
            Some atomic \<Rightarrow> atomic eventId now runId type data s
          | None \<Rightarrow> append_event repo run type data eventId now s))"

definition setStatus :: "'s run_repository \<Rightarrow> string \<Rightarrow> run_status \<Rightarrow> (string \<times> json) list \<Rightarrow> string \<Rightarrow> int \<Rightarrow> 's \<Rightarrow> run_error + 's" where
  "setStatus repo runId status data eventId now s =
     rbind (requireRun repo runId s) (\<lambda>run.
       rbind (rr_updateStatus repo now runId status s) (\<lambda>s'.
         if status = Run_completed then rbind (append_event repo run Ev_run_completed data eventId now s') (\<lambda>(e, s''). Inr s'')
         else if status = Run_failed then rbind (append_event repo run Ev_run_failed data eventId now s') (\<lambda>(e, s''). Inr s'')
         else Inr s'))"

definition cancelRun :: "'s run_repository \<Rightarrow> string \<Rightarrow> string \<Rightarrow> int \<Rightarrow> 's \<Rightarrow> run_error + (bool \<times> 's)" where
  "cancelRun repo runId eventId now s = (case rr_cancelIfActive repo of
     Some cancel \<Rightarrow> (let (canceled, s1) = cancel now runId s in
       if \<not> canceled then Inr (False, s1)
       else rbind (requireRun repo runId s1) (\<lambda>run.
         rbind (append_event repo run Ev_run_aborted [] eventId now s1) (\<lambda>(e, s2). Inr (True, s2))))
   | None \<Rightarrow> (case rr_findById repo s runId of
       None \<Rightarrow> Inr (False, s)
     | Some run \<Rightarrow> if \<not> run_active run then Inr (False, s)
         else rbind (rr_updateStatus repo now runId Run_aborted s) (\<lambda>s1.
           rbind (append_event repo run Ev_run_aborted [] eventId now s1) (\<lambda>(e, s2). Inr (True, s2)))))"

definition listEvents :: "'s run_repository \<Rightarrow> string \<Rightarrow> nat \<Rightarrow> 's \<Rightarrow> agent_run_event list" where
  "listEvents repo runId afterSeq s = filter (\<lambda>e. afterSeq < ev_eventSeq e) (rr_listEvents repo s runId)"

definition listSessionEvents :: "'s run_repository \<Rightarrow> string \<Rightarrow> nat \<Rightarrow> 's \<Rightarrow> agent_run_event list" where
  "listSessionEvents repo sessionId afterSeq s = (case rr_listSessionEvents repo of
     Some list \<Rightarrow> filter (\<lambda>e. afterSeq < ev_eventSeq e) (list s sessionId afterSeq)
   | None \<Rightarrow> (case rr_findActive repo s sessionId of
       None \<Rightarrow> [] | Some run \<Rightarrow> listEvents repo (ru_runId run) afterSeq s))"

section \<open>The in-memory repository\<close>

record memory_runs =
  mr_runs :: "(string, agent_run) jmap"
  mr_events :: "(string, agent_run_event list) jmap"

definition events_of :: "memory_runs \<Rightarrow> string \<Rightarrow> agent_run_event list" where
  "events_of m runId = (case jget (mr_events m) runId of None \<Rightarrow> [] | Some es \<Rightarrow> es)"

definition memory_run_repository :: "memory_runs run_repository" where
  "memory_run_repository = \<lparr>
     rr_findByIdempotency = (\<lambda>m sid key. find (\<lambda>r. ru_sessionId r = sid \<and> ru_idempotencyKey r = key) (jvalues (mr_runs m))),
     rr_findActive = (\<lambda>m sid. find (\<lambda>r. ru_sessionId r = sid \<and> run_active r) (jvalues (mr_runs m))),
     rr_findById = (\<lambda>m i. jget (mr_runs m) i),
     rr_startRunAtomic = None,
     rr_save = (\<lambda>r m. Inr (m\<lparr>mr_runs := jset (ru_runId r) r (mr_runs m)\<rparr>)),
     rr_updateStatus = (\<lambda>now i st m. Inr (case jget (mr_runs m) i of
        None \<Rightarrow> m
      | Some r \<Rightarrow> m\<lparr>mr_runs := jset i (r\<lparr>ru_status := st, ru_updatedAt := now\<rparr>) (mr_runs m)\<rparr>)),
     rr_appendEvent = (\<lambda>e m. Inr (m\<lparr>mr_events := jset (ev_runId e) (events_of m (ev_runId e) @ [e]) (mr_events m)\<rparr>)),
     rr_listEvents = events_of,
     rr_listSessionEvents = Some (\<lambda>m sid afterSeq.
        sort_key ev_eventSeq (filter (\<lambda>e. ev_sessionId e = sid \<and> afterSeq < ev_eventSeq e) (concat (jvalues (mr_events m))))),
     rr_appendEventAtomic = None,
     rr_cancelIfActive = None\<rparr>"

section \<open>The PostgreSQL repository\<close>

text \<open>
  The payload of an outbox row is the event; \<open>appendEventAtomic\<close> leaves its creation time out.
\<close>

record outbox_row =
  ob_eventId :: string
  ob_runId :: string
  ob_sessionId :: string
  ob_eventSeq :: nat
  ob_payload :: agent_run_event
  ob_withCreatedAt :: bool

record run_db =
  rd_sessions :: "(string, nat) jmap"
  rd_runs :: "agent_run list"
  rd_events :: "agent_run_event list"
  rd_outbox :: "outbox_row list"

definition pg_findByIdempotency :: "run_db \<Rightarrow> string \<Rightarrow> string \<Rightarrow> agent_run option" where
  "pg_findByIdempotency db sid key = find (\<lambda>r. ru_sessionId r = sid \<and> ru_idempotencyKey r = key) (rd_runs db)"

text \<open>\<open>ORDER BY created_at DESC LIMIT 1\<close>.\<close>

definition pg_findActive :: "run_db \<Rightarrow> string \<Rightarrow> agent_run option" where
  "pg_findActive db sid =
     (case sort_key (\<lambda>r. - ru_createdAt r) (filter (\<lambda>r. ru_sessionId r = sid \<and> run_active r) (rd_runs db)) of
        [] \<Rightarrow> None | r # _ \<Rightarrow> Some r)"

definition pg_findRun :: "run_db \<Rightarrow> string \<Rightarrow> agent_run option" where
  "pg_findRun db i = find (\<lambda>r. ru_runId r = i) (rd_runs db)"

text \<open>
  What the indexes of \<open>agent_runs\<close> allow beside the rows \<open>rows\<close>: a primary key, one row for a
  session and key, one active row for a session, and a session that exists.
\<close>

definition compatible :: "agent_run \<Rightarrow> agent_run \<Rightarrow> bool" where
  "compatible q r \<longleftrightarrow> ru_runId q \<noteq> ru_runId r
     \<and> (ru_sessionId q = ru_sessionId r \<longrightarrow> ru_idempotencyKey q \<noteq> ru_idempotencyKey r)
     \<and> \<not> (run_active q \<and> run_active r \<and> ru_sessionId q = ru_sessionId r)"

definition unique_run :: "agent_run list \<Rightarrow> agent_run \<Rightarrow> bool" where
  "unique_run rows r \<longleftrightarrow> (\<forall>q \<in> set rows. compatible q r)"

definition pg_startRunAtomic :: "string \<Rightarrow> string \<Rightarrow> string \<Rightarrow> int \<Rightarrow> run_db \<Rightarrow> run_error + (agent_run \<times> run_db)" where
  "pg_startRunAtomic sid key runId now db = (case pg_findByIdempotency db sid key of
     Some existing \<Rightarrow> Inr (existing, db)
   | None \<Rightarrow> throw_if (jget (rd_sessions db) sid = None) RUN_CONSTRAINT
       (let run = new_run runId sid key now
        in throw_if (\<not> unique_run (rd_runs db) run) SESSION_BUSY
          (Inr (run, db\<lparr>rd_runs := rd_runs db @ [run]\<rparr>))))"

definition pg_save_run :: "agent_run \<Rightarrow> run_db \<Rightarrow> run_error + run_db" where
  "pg_save_run r db = throw_if (jget (rd_sessions db) (ru_sessionId r) = None \<or> \<not> unique_run (rd_runs db) r) RUN_CONSTRAINT
     (Inr (db\<lparr>rd_runs := rd_runs db @ [r]\<rparr>))"

definition with_status :: "int \<Rightarrow> run_status \<Rightarrow> agent_run \<Rightarrow> agent_run" where
  "with_status now st r = r\<lparr>ru_status := st, ru_updatedAt := now\<rparr>"

definition pg_updateStatus :: "int \<Rightarrow> string \<Rightarrow> run_status \<Rightarrow> run_db \<Rightarrow> run_error + run_db" where
  "pg_updateStatus now i st db =
     (let others = filter (\<lambda>r. ru_runId r \<noteq> i) (rd_runs db)
      in throw_if (\<exists>r \<in> set (rd_runs db). ru_runId r = i \<and> \<not> unique_run others (with_status now st r)) RUN_CONSTRAINT
        (Inr (db\<lparr>rd_runs := map (\<lambda>r. if ru_runId r = i then with_status now st r else r) (rd_runs db)\<rparr>)))"

definition pg_cancelIfActive :: "int \<Rightarrow> string \<Rightarrow> run_db \<Rightarrow> bool \<times> run_db" where
  "pg_cancelIfActive now i db =
     (let hit = (\<lambda>r. ru_runId r = i \<and> run_active r)
      in (list_ex hit (rd_runs db),
          db\<lparr>rd_runs := map (\<lambda>r. if hit r then with_status now Run_aborted r else r) (rd_runs db)\<rparr>))"

definition eventable :: "agent_run \<Rightarrow> run_event_type \<Rightarrow> bool" where
  "eventable r type \<longleftrightarrow> run_active r
     \<or> ru_status r = Run_completed \<and> type = Ev_run_completed
     \<or> ru_status r = Run_failed \<and> type = Ev_run_failed
     \<or> ru_status r = Run_aborted \<and> type = Ev_run_aborted"

text \<open>The rows both inserts write; the primary key of events and \<open>UNIQUE (run_id, event_seq)\<close>.\<close>

definition store_event :: "bool \<Rightarrow> agent_run_event \<Rightarrow> run_db \<Rightarrow> run_error + run_db" where
  "store_event withCreatedAt e db =
     throw_if (\<exists>f \<in> set (rd_events db). ev_eventId f = ev_eventId e
         \<or> ev_runId f = ev_runId e \<and> ev_eventSeq f = ev_eventSeq e) RUN_CONSTRAINT
       (Inr (db\<lparr>rd_sessions := jset (ev_sessionId e) (ev_eventSeq e) (rd_sessions db),
          rd_events := rd_events db @ [e],
          rd_outbox := rd_outbox db @ [\<lparr>ob_eventId = ev_eventId e, ob_runId = ev_runId e, ob_sessionId = ev_sessionId e,
            ob_eventSeq = ev_eventSeq e, ob_payload = e, ob_withCreatedAt = withCreatedAt\<rparr>]\<rparr>))"

definition pg_appendEventAtomic :: "string \<Rightarrow> int \<Rightarrow> string \<Rightarrow> run_event_type \<Rightarrow> (string \<times> json) list \<Rightarrow> run_db \<Rightarrow>
    run_error + (agent_run_event \<times> run_db)" where
  "pg_appendEventAtomic eventId now runId type data db =
     (case find (\<lambda>r. ru_runId r = runId \<and> eventable r type) (rd_runs db) of
        None \<Rightarrow> Inl RUN_NOT_ACTIVE
      | Some r \<Rightarrow> (case jget (rd_sessions db) (ru_sessionId r) of
          None \<Rightarrow> Inl RUN_NOT_ACTIVE
        | Some n \<Rightarrow>
           (let e = \<lparr>ev_eventId = eventId, ev_runId = runId, ev_sessionId = ru_sessionId r, ev_eventSeq = n + 1,
                  ev_type = type, ev_runtimeVersion = ''0.1.0'', ev_data = data, ev_createdAt = now\<rparr>
            in rbind (store_event False e db) (\<lambda>db'. Inr (e, db')))))"

definition pg_appendEvent :: "agent_run_event \<Rightarrow> run_db \<Rightarrow> run_error + run_db" where
  "pg_appendEvent e db = (case jget (rd_sessions db) (ev_sessionId e) of
     None \<Rightarrow> Inl SESSION_EVENT_SEQUENCE_FAILED
   | Some n \<Rightarrow> throw_if (\<forall>r \<in> set (rd_runs db). ru_runId r \<noteq> ev_runId e) RUN_CONSTRAINT
       (store_event True (e\<lparr>ev_eventSeq := n + 1\<rparr>) db))"

definition pg_listEvents :: "run_db \<Rightarrow> string \<Rightarrow> agent_run_event list" where
  "pg_listEvents db i = sort_key ev_eventSeq (filter (\<lambda>e. ev_runId e = i) (rd_events db))"

definition pg_listSessionEvents :: "run_db \<Rightarrow> string \<Rightarrow> nat \<Rightarrow> agent_run_event list" where
  "pg_listSessionEvents db sid afterSeq =
     sort_key ev_eventSeq (filter (\<lambda>e. ev_sessionId e = sid \<and> afterSeq < ev_eventSeq e) (rd_events db))"

definition pg_run_repository :: "run_db run_repository" where
  "pg_run_repository = \<lparr>
     rr_findByIdempotency = pg_findByIdempotency, rr_findActive = pg_findActive, rr_findById = pg_findRun,
     rr_startRunAtomic = Some pg_startRunAtomic, rr_save = pg_save_run, rr_updateStatus = pg_updateStatus,
     rr_appendEvent = pg_appendEvent, rr_listEvents = pg_listEvents,
     rr_listSessionEvents = Some pg_listSessionEvents, rr_appendEventAtomic = Some pg_appendEventAtomic,
     rr_cancelIfActive = Some pg_cancelIfActive\<rparr>"

section \<open>The contract of a repository\<close>

text \<open>
  What the service promises over a repository, whichever of the two paths of its methods the
  repository makes it take: a session is served by one run at a time, a repeated key gets its run back,
  and a run takes events while it is active.
\<close>

locale run_contract =
  fixes repo :: "'s run_repository"
    and ok :: "'s \<Rightarrow> bool"
    and has_session :: "'s \<Rightarrow> string \<Rightarrow> bool"
    and fresh_run :: "'s \<Rightarrow> string \<Rightarrow> bool"
    and fresh_event :: "'s \<Rightarrow> string \<Rightarrow> bool"
  assumes start_again: "ok s \<Longrightarrow> rr_findByIdempotency repo s sid key = Some r \<Longrightarrow> startRun repo sid key i now s = Inr (r, s)"
    and start_busy: "ok s \<Longrightarrow> rr_findByIdempotency repo s sid key = None \<Longrightarrow> rr_findActive repo s sid \<noteq> None \<Longrightarrow>
      has_session s sid \<Longrightarrow> startRun repo sid key i now s = Inl SESSION_BUSY"
    and start_free: "ok s \<Longrightarrow> rr_findByIdempotency repo s sid key = None \<Longrightarrow> rr_findActive repo s sid = None \<Longrightarrow>
      has_session s sid \<Longrightarrow> fresh_run s i \<Longrightarrow>
      \<exists>s'. startRun repo sid key i now s = Inr (new_run i sid key now, s') \<and> ok s' \<and> has_session s' sid
        \<and> rr_findByIdempotency repo s' sid key = Some (new_run i sid key now)
        \<and> rr_findById repo s' i = Some (new_run i sid key now)"
    and active_found: "ok s \<Longrightarrow> rr_findById repo s i = Some r \<Longrightarrow> run_active r \<Longrightarrow> rr_findActive repo s (ru_sessionId r) \<noteq> None"
    and found_id: "ok s \<Longrightarrow> rr_findById repo s i = Some r \<Longrightarrow> ru_runId r = i"
    and append_active: "ok s \<Longrightarrow> rr_findById repo s i = Some r \<Longrightarrow> run_active r \<Longrightarrow> fresh_event s eid \<Longrightarrow>
      \<exists>e s'. appendEvent repo i type data eid now s = Inr (e, s') \<and> ok s' \<and> ev_type e = type \<and> ev_data e = data
        \<and> rr_listEvents repo s' i = rr_listEvents repo s i @ [e] \<and> rr_findById repo s' i = Some r"
    and seqs_increase: "ok s \<Longrightarrow> sorted_wrt (\<lambda>a b. ev_eventSeq a < ev_eventSeq b) (rr_listEvents repo s i)"
    and cancel_active: "ok s \<Longrightarrow> rr_findById repo s i = Some r \<Longrightarrow> run_active r \<Longrightarrow> fresh_event s eid \<Longrightarrow>
      \<exists>e s'. cancelRun repo i eid now s = Inr (True, s') \<and> ok s' \<and> ev_type e = Ev_run_aborted
        \<and> rr_listEvents repo s' i = rr_listEvents repo s i @ [e]
        \<and> rr_findById repo s' i = Some (r\<lparr>ru_status := Run_aborted, ru_updatedAt := now\<rparr>)"
    and cancel_ended: "ok s \<Longrightarrow> rr_findById repo s i = Some r \<Longrightarrow> \<not> run_active r \<Longrightarrow> cancelRun repo i eid now s = Inr (False, s)"
begin

lemma append_ended:
  "rr_findById repo s i = Some r \<Longrightarrow> \<not> run_active r \<Longrightarrow> appendEvent repo i type data eid now s = Inl RUN_NOT_ACTIVE"
  by (simp add: appendEvent_def requireRun_def)

lemma append_unknown: "rr_findById repo s i = None \<Longrightarrow> appendEvent repo i type data eid now s = Inl RUN_NOT_FOUND"
  by (simp add: appendEvent_def requireRun_def)

text \<open>A request that is repeated gets the run it started, and starts nothing.\<close>

lemma start_twice:
  assumes "ok s" "rr_findByIdempotency repo s sid key = None" "rr_findActive repo s sid = None" "has_session s sid" "fresh_run s i"
  shows "\<exists>s'. startRun repo sid key i now s = Inr (new_run i sid key now, s') \<and> ok s' \<and>
    startRun repo sid key j later s' = Inr (new_run i sid key now, s')"
  using start_free [OF assms] start_again by blast

text \<open>A second request with another key has to wait.\<close>

lemma start_excludes:
  assumes "ok s" "rr_findByIdempotency repo s sid key = None" "rr_findActive repo s sid = None" "has_session s sid" "fresh_run s i"
  shows "\<exists>s'. startRun repo sid key i now s = Inr (new_run i sid key now, s') \<and>
    (rr_findByIdempotency repo s' sid key' = None \<longrightarrow> startRun repo sid key' j later s' = Inl SESSION_BUSY)"
proof -
  obtain s' where s': "startRun repo sid key i now s = Inr (new_run i sid key now, s')" "ok s'" "has_session s' sid"
    "rr_findById repo s' i = Some (new_run i sid key now)" using start_free [OF assms] by blast
  have "rr_findActive repo s' sid \<noteq> None" using active_found [OF s'(2,4)] by (simp add: new_run_def)
  with s' show ?thesis using start_busy by blast
qed

text \<open>A cancelled run is over: a second cancel does nothing, and it takes no more events.\<close>

lemma cancel_once:
  assumes "ok s" "rr_findById repo s i = Some r" "run_active r" "fresh_event s eid"
  shows "\<exists>s'. cancelRun repo i eid now s = Inr (True, s') \<and> cancelRun repo i eid' later s' = Inr (False, s') \<and>
    appendEvent repo i type data eid' later s' = Inl RUN_NOT_ACTIVE"
  using cancel_active [OF assms, of now] by (fastforce intro: cancel_ended append_ended)

text \<open>A client that has read the events up to one it names gets the ones after it.\<close>

lemma list_after:
  assumes "ok s" "rr_listEvents repo s i = es @ e # es'"
  shows "listEvents repo i (ev_eventSeq e) s = es'"
proof -
  have "sorted_wrt (\<lambda>a b. ev_eventSeq a < ev_eventSeq b) (es @ e # es')" using seqs_increase [OF assms(1), of i] assms(2) by simp
  then have "filter (\<lambda>x. ev_eventSeq e < ev_eventSeq x) es = []" "filter (\<lambda>x. ev_eventSeq e < ev_eventSeq x) es' = es'"
    by (force simp: sorted_wrt_append filter_empty_conv intro: filter_True)+
  then show ?thesis by (simp add: listEvents_def assms(2))
qed

end

end
