(* ===== verification/RunRepository.thy ===== *)
theory RunRepository
  imports SessionRuns
begin

text \<open>
  The run repositories keep the contract of a run repository.  For PostgreSQL the tables change by single
  statements (\<open>run_step\<close>), in any order and by any number of servers; every operation of the service
  is a sequence of such statements, so what holds after any sequence holds under every interleaving.
\<close>

section \<open>Statements\<close>

text \<open>
  An event reaches the plain \<open>appendEvent\<close> from the service alone, which takes run and session from a
  run that it read.
\<close>

inductive run_step :: "run_db \<Rightarrow> run_db \<Rightarrow> bool" where
  session: "jget (rd_sessions db) sid = None \<Longrightarrow> run_step db (db\<lparr>rd_sessions := jset sid 0 (rd_sessions db)\<rparr>)"
| start: "pg_startRunAtomic sid key i now db = Inr (r, db') \<Longrightarrow> run_step db db'"
| save: "pg_save_run r db = Inr db' \<Longrightarrow> run_step db db'"
| status: "pg_updateStatus now i st db = Inr db' \<Longrightarrow> run_step db db'"
| cancel: "pg_cancelIfActive now i db = (b, db') \<Longrightarrow> run_step db db'"
| atomic: "pg_appendEventAtomic eid now i type data db = Inr (e, db') \<Longrightarrow> run_step db db'"
| append: "pg_appendEvent e db = Inr db' \<Longrightarrow> r \<in> set (rd_runs db) \<Longrightarrow> ru_runId r = ev_runId e \<Longrightarrow>
    ru_sessionId r = ev_sessionId e \<Longrightarrow> run_step db db'"

definition empty_run_db :: run_db where
  "empty_run_db = \<lparr>rd_sessions = [], rd_runs = [], rd_events = [], rd_outbox = []\<rparr>"

abbreviation run_reaches :: "run_db \<Rightarrow> run_db \<Rightarrow> bool" where
  "run_reaches \<equiv> run_step\<^sup>*\<^sup>*"

section \<open>The invariant of the tables\<close>

definition session_events :: "run_db \<Rightarrow> string \<Rightarrow> agent_run_event list" where
  "session_events db sid = filter (\<lambda>e. ev_sessionId e = sid) (rd_events db)"

definition runs_ok :: "run_db \<Rightarrow> bool" where
  "runs_ok db \<longleftrightarrow> sorted_wrt compatible (rd_runs db)
     \<and> (\<forall>r \<in> set (rd_runs db). jget (rd_sessions db) (ru_sessionId r) \<noteq> None)"

definition mirrors :: "agent_run_event \<Rightarrow> outbox_row \<Rightarrow> bool" where
  "mirrors e b \<longleftrightarrow> ob_payload b = e \<and> ob_eventId b = ev_eventId e \<and> ob_runId b = ev_runId e
     \<and> ob_sessionId b = ev_sessionId e \<and> ob_eventSeq b = ev_eventSeq e"

definition events_ok :: "run_db \<Rightarrow> bool" where
  "events_ok db \<longleftrightarrow> distinct (map ev_eventId (rd_events db))
     \<and> (\<forall>sid n. jget (rd_sessions db) sid = Some n \<longrightarrow> map ev_eventSeq (session_events db sid) = [1..<n + 1])
     \<and> (\<forall>e \<in> set (rd_events db). \<exists>r \<in> set (rd_runs db). ru_runId r = ev_runId e \<and> ru_sessionId r = ev_sessionId e)
     \<and> list_all2 mirrors (rd_events db) (rd_outbox db)"

lemma compatible_sym: "compatible q r \<longleftrightarrow> compatible r q"
  by (auto simp: compatible_def)

lemma find_unique:
  assumes "sorted_wrt (\<lambda>x y. \<not> (P x \<and> P y)) xs" "x \<in> set xs" "P x"
  shows "find P xs = Some x" "filter P xs = [x]"
proof -
  obtain as bs where xs: "xs = as @ x # bs" using assms(2) by (auto simp: in_set_conv_decomp)
  have "\<forall>y \<in> set as. \<not> P y" "\<forall>y \<in> set bs. \<not> P y" using assms(1,3) by (auto simp: xs sorted_wrt_append)
  then show "find P xs = Some x" "filter P xs = [x]" using assms(3)
    by (auto simp: xs find_append filter_empty_conv split: option.split dest: find_SomeD)
qed

lemma compatible_run: "sorted_wrt compatible rs \<Longrightarrow> sorted_wrt (\<lambda>x y. \<not> (ru_runId x = i \<and> ru_runId y = i)) rs"
  by (rule sorted_wrt_mono_rel) (auto simp: compatible_def)

lemma compatible_key:
  "sorted_wrt compatible rs \<Longrightarrow>
     sorted_wrt (\<lambda>x y. \<not> ((ru_sessionId x = sid \<and> ru_idempotencyKey x = k) \<and> (ru_sessionId y = sid \<and> ru_idempotencyKey y = k))) rs"
  by (rule sorted_wrt_mono_rel) (auto simp: compatible_def)

lemma compatible_active:
  "sorted_wrt compatible rs \<Longrightarrow>
     sorted_wrt (\<lambda>x y. \<not> ((ru_sessionId x = sid \<and> run_active x) \<and> (ru_sessionId y = sid \<and> run_active y))) rs"
  by (rule sorted_wrt_mono_rel) (auto simp: compatible_def)

lemma pg_findRun_iff: "runs_ok db \<Longrightarrow> pg_findRun db i = Some r \<longleftrightarrow> r \<in> set (rd_runs db) \<and> ru_runId r = i"
  unfolding pg_findRun_def runs_ok_def
  by (auto dest: find_SomeD intro: find_unique(1) [OF compatible_run])

lemma find_run_where:
  assumes "runs_ok db" "r \<in> set (rd_runs db)" "P r"
  shows "find (\<lambda>q. ru_runId q = ru_runId r \<and> P q) (rd_runs db) = Some r"
proof (rule find_unique(1))
  show "sorted_wrt (\<lambda>x y. \<not> ((ru_runId x = ru_runId r \<and> P x) \<and> (ru_runId y = ru_runId r \<and> P y))) (rd_runs db)"
    by (rule sorted_wrt_mono_rel [OF _ compatible_run [where i = "ru_runId r"]])
      (use assms(1) in \<open>auto simp: runs_ok_def\<close>)
qed (use assms in simp_all)

lemma pg_findByIdempotency_iff:
  "runs_ok db \<Longrightarrow> pg_findByIdempotency db sid k = Some r \<longleftrightarrow>
     r \<in> set (rd_runs db) \<and> ru_sessionId r = sid \<and> ru_idempotencyKey r = k"
  unfolding pg_findByIdempotency_def runs_ok_def
  by (auto dest: find_SomeD intro: find_unique(1) [OF compatible_key])

lemma pg_findActive_iff:
  assumes "runs_ok db"
  shows "pg_findActive db sid = Some r \<longleftrightarrow> r \<in> set (rd_runs db) \<and> ru_sessionId r = sid \<and> run_active r"
proof -
  let ?P = "\<lambda>r. ru_sessionId r = sid \<and> run_active r"
  have one: "filter ?P (rd_runs db) = [q]" if "q \<in> set (rd_runs db)" "?P q" for q
    using find_unique(2) [OF compatible_active that(1), of sid] assms that(2) by (simp add: runs_ok_def)
  show ?thesis
  proof (cases "filter ?P (rd_runs db)")
    case Nil
    then have "\<forall>q \<in> set (rd_runs db). \<not> ?P q" by (simp add: filter_empty_conv)
    then show ?thesis by (auto simp: pg_findActive_def Nil)
  next
    case (Cons q qs)
    then have "q \<in> set (filter ?P (rd_runs db))" by simp
    then have q: "q \<in> set (rd_runs db)" "?P q" by simp_all
    then have "filter ?P (rd_runs db) = [q]" by (rule one)
    moreover have "r = q" if "r \<in> set (rd_runs db)" "?P r" using one [OF that] one [OF q] by simp
    ultimately show ?thesis using q by (auto simp: pg_findActive_def)
  qed
qed

section \<open>Every statement keeps it\<close>

lemma runs_ok_append:
  "runs_ok db \<Longrightarrow> unique_run (rd_runs db) r \<Longrightarrow> jget (rd_sessions db) (ru_sessionId r) \<noteq> None \<Longrightarrow>
     runs_ok (db\<lparr>rd_runs := rd_runs db @ [r]\<rparr>)"
  by (auto simp: runs_ok_def sorted_wrt_append unique_run_def)

lemma runs_ok_sessions:
  "runs_ok db \<Longrightarrow> (\<And>sid. jget (rd_sessions db) sid \<noteq> None \<Longrightarrow> jget ss sid \<noteq> None) \<Longrightarrow>
     runs_ok (db\<lparr>rd_sessions := ss, rd_events := es, rd_outbox := ob\<rparr>)"
  by (auto simp: runs_ok_def)

lemma runs_ok_map:
  assumes "runs_ok db" "\<And>r. ru_runId (f r) = ru_runId r" "\<And>r. ru_sessionId (f r) = ru_sessionId r"
    "\<And>r. ru_idempotencyKey (f r) = ru_idempotencyKey r"
    and act: "\<And>x y. x \<in> set (rd_runs db) \<Longrightarrow> y \<in> set (rd_runs db) \<Longrightarrow> compatible x y \<Longrightarrow> compatible (f x) (f y)"
  shows "runs_ok (db\<lparr>rd_runs := map f (rd_runs db)\<rparr>)"
  using assms by (auto simp: runs_ok_def sorted_wrt_map intro: sorted_wrt_mono_rel [OF act])

lemma with_status_sel [simp]:
  "ru_runId (with_status now st r) = ru_runId r" "ru_sessionId (with_status now st r) = ru_sessionId r"
  "ru_idempotencyKey (with_status now st r) = ru_idempotencyKey r" "ru_status (with_status now st r) = st"
  by (simp_all add: with_status_def)

lemma updateStatus_ok:
  assumes "runs_ok db" "pg_updateStatus now i st db = Inr db'"
  shows "runs_ok db'"
proof -
  let ?f = "\<lambda>r. if ru_runId r = i then with_status now st r else r"
  from assms(2) have db': "db' = db\<lparr>rd_runs := map ?f (rd_runs db)\<rparr>"
    and uniq: "\<And>r. r \<in> set (rd_runs db) \<Longrightarrow> ru_runId r = i \<Longrightarrow>
      unique_run (filter (\<lambda>r. ru_runId r \<noteq> i) (rd_runs db)) (with_status now st r)"
    by (auto simp: pg_updateStatus_def Let_def result_simps)
  have "compatible (?f x) (?f y)" if xy: "x \<in> set (rd_runs db)" "y \<in> set (rd_runs db)" "compatible x y" for x y
  proof -
    consider "ru_runId x = i" "ru_runId y \<noteq> i" | "ru_runId x \<noteq> i" "ru_runId y = i" | "ru_runId x \<noteq> i" "ru_runId y \<noteq> i"
      using xy(3) by (auto simp: compatible_def)
    then show ?thesis
    proof cases
      case 1 then show ?thesis using uniq [OF xy(1)] xy(2) by (simp add: unique_run_def compatible_sym)
    next
      case 2 then show ?thesis using uniq [OF xy(2)] xy(1) by (simp add: unique_run_def)
    next
      case 3 then show ?thesis using xy by simp
    qed
  qed
  then show ?thesis unfolding db' by (intro runs_ok_map [OF assms(1)]) auto
qed

lemma cancelIfActive_ok: "runs_ok db \<Longrightarrow> pg_cancelIfActive now i db = (b, db') \<Longrightarrow> runs_ok db'"
  by (auto simp: pg_cancelIfActive_def Let_def compatible_def intro!: runs_ok_map)

lemma store_event_Inr:
  "store_event w e db = Inr db' \<Longrightarrow>
     db' = db\<lparr>rd_sessions := jset (ev_sessionId e) (ev_eventSeq e) (rd_sessions db), rd_events := rd_events db @ [e],
       rd_outbox := rd_outbox db @ [\<lparr>ob_eventId = ev_eventId e, ob_runId = ev_runId e, ob_sessionId = ev_sessionId e,
            ob_eventSeq = ev_eventSeq e, ob_payload = e, ob_withCreatedAt = w\<rparr>]\<rparr>
     \<and> ev_eventId e \<notin> set (map ev_eventId (rd_events db))"
  by (auto simp: store_event_def result_simps)

lemma store_event_ok:
  assumes "events_ok db" "runs_ok db" "store_event w e db = Inr db'" "jget (rd_sessions db) (ev_sessionId e) = Some n"
    "ev_eventSeq e = n + 1" "r \<in> set (rd_runs db)" "ru_runId r = ev_runId e" "ru_sessionId r = ev_sessionId e"
  shows "events_ok db' \<and> runs_ok db'"
proof
  note db' = store_event_Inr [OF assms(3)]
  show "runs_ok db'" using runs_ok_sessions [OF assms(2)] db' by simp
  have "map ev_eventSeq (session_events db' sid) = [1..<m + 1]" if "jget (rd_sessions db') sid = Some m" for sid m
  proof (cases "sid = ev_sessionId e")
    case True
    then have "m = n + 1" using that assms(5) db' by simp
    moreover have "map ev_eventSeq (session_events db sid) = [1..<n + 1]" using assms(1,4) True by (simp add: events_ok_def)
    ultimately show ?thesis using True db' assms(5) by (simp add: session_events_def)
  next
    case False
    then show ?thesis using that assms(1) db' by (simp add: events_ok_def session_events_def)
  qed
  moreover have "list_all2 mirrors (rd_events db') (rd_outbox db')"
    using assms(1) db' by (simp add: events_ok_def list_all2_appendI mirrors_def)
  moreover have "\<forall>f \<in> set (rd_events db'). \<exists>r \<in> set (rd_runs db'). ru_runId r = ev_runId f \<and> ru_sessionId r = ev_sessionId f"
    using assms(1,6-8) db' by (auto simp: events_ok_def)
  moreover have "distinct (map ev_eventId (rd_events db'))" using assms(1) db' by (simp add: events_ok_def)
  ultimately show "events_ok db'" by (simp add: events_ok_def)
qed

lemma appendEventAtomic_Inr:
  "pg_appendEventAtomic eid now i type data db = Inr (e, db') \<Longrightarrow>
   \<exists>r n. r \<in> set (rd_runs db) \<and> ru_runId r = i \<and> eventable r type \<and> jget (rd_sessions db) (ru_sessionId r) = Some n \<and>
     e = \<lparr>ev_eventId = eid, ev_runId = i, ev_sessionId = ru_sessionId r, ev_eventSeq = n + 1, ev_type = type,
       ev_runtimeVersion = ''0.1.0'', ev_data = data, ev_createdAt = now\<rparr> \<and> store_event False e db = Inr db'"
  by (auto simp: pg_appendEventAtomic_def Let_def result_simps split: option.splits dest: find_SomeD)

lemma appendEvent_Inr:
  "pg_appendEvent e db = Inr db' \<Longrightarrow>
   \<exists>n. jget (rd_sessions db) (ev_sessionId e) = Some n \<and> store_event True (e\<lparr>ev_eventSeq := n + 1\<rparr>) db = Inr db'"
  by (auto simp: pg_appendEvent_def result_simps split: option.splits)

lemma events_ok_runs:
  "events_ok db \<Longrightarrow> (\<And>r. r \<in> set (rd_runs db) \<Longrightarrow> \<exists>q \<in> set rs. ru_runId q = ru_runId r \<and> ru_sessionId q = ru_sessionId r) \<Longrightarrow>
     events_ok (db\<lparr>rd_runs := rs\<rparr>)"
  unfolding events_ok_def session_events_def by (simp, metis)

lemma events_ok_map:
  "events_ok db \<Longrightarrow> (\<And>r. ru_runId (f r) = ru_runId r \<and> ru_sessionId (f r) = ru_sessionId r) \<Longrightarrow>
     events_ok (db\<lparr>rd_runs := map f (rd_runs db)\<rparr>)"
  by (erule events_ok_runs) (metis image_eqI list.set_map)

lemma updateStatus_rows:
  "pg_updateStatus now i st db = Inr db' \<Longrightarrow>
     db' = db\<lparr>rd_runs := map (\<lambda>r. if ru_runId r = i then with_status now st r else r) (rd_runs db)\<rparr>"
  by (simp add: pg_updateStatus_def Let_def result_simps)

lemma cancel_rows:
  "pg_cancelIfActive now i db = (b, db') \<Longrightarrow>
     db' = db\<lparr>rd_runs := map (\<lambda>r. if ru_runId r = i \<and> run_active r then with_status now Run_aborted r else r) (rd_runs db)\<rparr>"
  by (simp add: pg_cancelIfActive_def Let_def)

lemma run_step_ok: "run_step db db' \<Longrightarrow> runs_ok db \<Longrightarrow> events_ok db \<Longrightarrow> runs_ok db' \<and> events_ok db'"
proof (induction rule: run_step.induct)
  case (session db sid)
  have "jget (rd_sessions db) (ev_sessionId e) \<noteq> None" if "e \<in> set (rd_events db)" for e
    using session(2,3) that unfolding runs_ok_def events_ok_def by metis
  then have "session_events db sid = []" unfolding session_events_def filter_empty_conv using session(1) by metis
  then have "events_ok (db\<lparr>rd_sessions := jset sid 0 (rd_sessions db)\<rparr>)"
    using session(3) by (auto simp: events_ok_def session_events_def)
  then show ?case using session(2) by (auto simp: runs_ok_def)
next
  case (start sid key i now db r db')
  then show ?case
    by (auto simp: pg_startRunAtomic_def Let_def result_simps new_run_def split: option.splits
      intro!: runs_ok_append events_ok_runs)
next
  case (save r db db')
  then show ?case by (auto simp: pg_save_run_def result_simps intro!: runs_ok_append events_ok_runs)
next
  case (status now i st db db')
  have "events_ok db'" unfolding updateStatus_rows [OF status(1)] by (rule events_ok_map [OF status(3)]) simp
  with status updateStatus_ok show ?case by blast
next
  case (cancel now i db b db')
  have "events_ok db'" unfolding cancel_rows [OF cancel(1)] by (rule events_ok_map [OF cancel(3)]) simp
  with cancel cancelIfActive_ok show ?case by blast
next
  case (atomic eid now i type data db e db')
  from appendEventAtomic_Inr [OF atomic(1)] obtain r n where r: "r \<in> set (rd_runs db)" "ru_runId r = i"
    "jget (rd_sessions db) (ru_sessionId r) = Some n" "store_event False e db = Inr db'"
    and e: "ev_runId e = i" "ev_sessionId e = ru_sessionId r" "ev_eventSeq e = n + 1" by auto
  have "events_ok db' \<and> runs_ok db'"
    by (rule store_event_ok [OF atomic(3,2) r(4) _ e(3) r(1)]) (simp_all add: r e)
  then show ?case by blast
next
  case (append e db db' r)
  from appendEvent_Inr [OF append(1)] obtain n where n: "jget (rd_sessions db) (ev_sessionId e) = Some n"
    "store_event True (e\<lparr>ev_eventSeq := n + 1\<rparr>) db = Inr db'" by blast
  have "events_ok db' \<and> runs_ok db'"
    by (rule store_event_ok [OF append(6,5) n(2) _ _ append(2)]) (simp_all add: n(1) append(3,4))
  then show ?case by blast
qed

lemma run_reaches_ok: "run_reaches db db' \<Longrightarrow> runs_ok db \<Longrightarrow> events_ok db \<Longrightarrow> runs_ok db' \<and> events_ok db'"
  by (induction rule: rtranclp_induct) (auto dest: run_step_ok)

lemma empty_run_db_ok: "runs_ok empty_run_db" "events_ok empty_run_db"
  by (simp_all add: empty_run_db_def runs_ok_def events_ok_def session_events_def)

lemma reached_ok: "run_reaches empty_run_db db \<Longrightarrow> runs_ok db \<and> events_ok db"
  using run_reaches_ok empty_run_db_ok by blast

section \<open>Operations of the service are sequences of statements\<close>

lemma pg_run_sel [simp]:
  "rr_findByIdempotency pg_run_repository = pg_findByIdempotency" "rr_findActive pg_run_repository = pg_findActive"
  "rr_findById pg_run_repository = pg_findRun" "rr_startRunAtomic pg_run_repository = Some pg_startRunAtomic"
  "rr_updateStatus pg_run_repository = pg_updateStatus" "rr_appendEvent pg_run_repository = pg_appendEvent"
  "rr_listEvents pg_run_repository = pg_listEvents" "rr_listSessionEvents pg_run_repository = Some pg_listSessionEvents"
  "rr_appendEventAtomic pg_run_repository = Some pg_appendEventAtomic"
  "rr_cancelIfActive pg_run_repository = Some pg_cancelIfActive"
  by (simp_all add: pg_run_repository_def)

text \<open>The rows of a run keep their id and session, so a run that was read earlier still has its row.\<close>

definition has_row :: "run_db \<Rightarrow> agent_run \<Rightarrow> bool" where
  "has_row db r \<longleftrightarrow> (\<exists>q \<in> set (rd_runs db). ru_runId q = ru_runId r \<and> ru_sessionId q = ru_sessionId r)"

lemma has_row_find: "pg_findRun db i = Some r \<Longrightarrow> has_row db r"
  by (auto simp: pg_findRun_def has_row_def dest: find_SomeD)

lemma has_row_map:
  "has_row db r \<Longrightarrow> (\<And>q. ru_runId (f q) = ru_runId q \<and> ru_sessionId (f q) = ru_sessionId q) \<Longrightarrow>
     has_row (db\<lparr>rd_runs := map f (rd_runs db)\<rparr>) r"
  by (fastforce simp: has_row_def)

lemma run_step_row: "run_step db db' \<Longrightarrow> has_row db r \<Longrightarrow> has_row db' r"
proof (induction rule: run_step.induct)
  case (atomic eid now i type data db e db')
  then show ?case by (auto simp: has_row_def dest!: appendEventAtomic_Inr store_event_Inr)
next
  case (append e db db' r)
  then show ?case by (auto simp: has_row_def dest!: appendEvent_Inr store_event_Inr)
next
  case (status now i st db db')
  show ?case unfolding updateStatus_rows [OF status(1)] by (rule has_row_map [OF status(2)]) simp
next
  case (cancel now i db b db')
  show ?case unfolding cancel_rows [OF cancel(1)] by (rule has_row_map [OF cancel(2)]) simp
qed (auto simp: has_row_def pg_startRunAtomic_def pg_save_run_def Let_def result_simps split: option.splits)

lemma append_event_step: "has_row db r \<Longrightarrow> append_event pg_run_repository r type data eid now db = Inr (e, db') \<Longrightarrow> run_step db db'"
  by (auto simp: append_event_def Let_def result_simps has_row_def intro: run_step.append)

lemma service_steps:
  "startRun pg_run_repository sid key i now db = Inr (r, db') \<Longrightarrow> run_reaches db db'"
  "appendEvent pg_run_repository i type data eid now db = Inr (e, db') \<Longrightarrow> run_reaches db db'"
  "setStatus pg_run_repository i st data eid now db = Inr db' \<Longrightarrow> run_reaches db db'"
  "cancelRun pg_run_repository i eid now db = Inr (b, db') \<Longrightarrow> run_reaches db db'"
proof -
  show "startRun pg_run_repository sid key i now db = Inr (r, db') \<Longrightarrow> run_reaches db db'"
    by (simp add: startRun_def) (blast intro: run_step.start)
  show "appendEvent pg_run_repository i type data eid now db = Inr (e, db') \<Longrightarrow> run_reaches db db'"
    by (auto simp: appendEvent_def result_simps intro: run_step.atomic)
  show "run_reaches db db'" if set: "setStatus pg_run_repository i st data eid now db = Inr db'"
  proof -
    from set obtain r db1 where r: "pg_findRun db i = Some r" and db1: "pg_updateStatus now i st db = Inr db1"
      and rest: "db' = db1 \<or> (\<exists>t e. append_event pg_run_repository r t data eid now db1 = Inr (e, db'))"
      by (auto simp: setStatus_def requireRun_def result_simps split: if_splits)
    have one: "run_step db db1" using db1 by (rule run_step.status)
    moreover have "has_row db1 r" using run_step_row [OF one] has_row_find [OF r] .
    ultimately show ?thesis using rest append_event_step
      by (metis converse_rtranclp_into_rtranclp r_into_rtranclp rtranclp.rtrancl_refl)
  qed
  show "run_reaches db db'" if cancel: "cancelRun pg_run_repository i eid now db = Inr (b, db')"
  proof -
    obtain c db1 where c: "pg_cancelIfActive now i db = (c, db1)" by fastforce
    have one: "run_step db db1" using c by (rule run_step.cancel)
    from cancel c have "db' = db1 \<or> (\<exists>r e. pg_findRun db1 i = Some r \<and> append_event pg_run_repository r Ev_run_aborted [] eid now db1 = Inr (e, db'))"
      by (auto simp: cancelRun_def requireRun_def result_simps split: if_splits)
    then show ?thesis using one append_event_step has_row_find
      by (metis converse_rtranclp_into_rtranclp r_into_rtranclp rtranclp.rtrancl_refl)
  qed
qed

section \<open>Reading\<close>

lemma sorted_upt_map: "map f xs = [a..<b] \<Longrightarrow> sorted_wrt (\<lambda>x y. f x < f y) xs"
  by (metis sorted_wrt_map sorted_wrt_upt)

lemma sorted_wrt_filterI: "sorted_wrt P xs \<Longrightarrow> sorted_wrt P (filter Q xs)"
  by (induction xs) auto

lemma sort_key_increasing: "sorted_wrt (\<lambda>x y. f x < f y) xs \<Longrightarrow> sort_key f xs = xs" for f :: "'a \<Rightarrow> nat"
  by (rule sort_key_id_if_sorted) (auto simp: sorted_wrt_map intro: sorted_wrt_mono_rel [rotated])

lemma session_events_sorted:
  assumes "events_ok db" "runs_ok db"
  shows "sorted_wrt (\<lambda>a b. ev_eventSeq a < ev_eventSeq b) (session_events db sid)"
proof (cases "jget (rd_sessions db) sid")
  case None
  have "jget (rd_sessions db) (ev_sessionId e) \<noteq> None" if "e \<in> set (rd_events db)" for e
    using assms that unfolding runs_ok_def events_ok_def by metis
  then have "session_events db sid = []" unfolding session_events_def filter_empty_conv using None by metis
  then show ?thesis by simp
next
  case (Some n)
  then have "map ev_eventSeq (session_events db sid) = [1..<n + 1]" using assms(1) by (simp add: events_ok_def del: upt_Suc)
  then show ?thesis by (rule sorted_upt_map)
qed

lemma run_events_of_session:
  assumes "events_ok db" "runs_ok db" "r \<in> set (rd_runs db)"
  shows "filter (\<lambda>e. ev_runId e = ru_runId r) (rd_events db) =
    filter (\<lambda>e. ev_runId e = ru_runId r) (session_events db (ru_sessionId r))"
proof -
  have "ev_sessionId e = ru_sessionId r" if "e \<in> set (rd_events db)" "ev_runId e = ru_runId r" for e
  proof -
    obtain q where q: "q \<in> set (rd_runs db)" "ru_runId q = ev_runId e" "ru_sessionId q = ev_sessionId e"
      using assms(1) \<open>e \<in> set (rd_events db)\<close> by (auto simp: events_ok_def)
    have "pg_findRun db (ru_runId r) = Some q" "pg_findRun db (ru_runId r) = Some r"
      using q that(2) assms(3) by (simp_all add: pg_findRun_iff [OF assms(2)])
    with q show ?thesis by simp
  qed
  then show ?thesis by (auto simp: session_events_def intro: filter_cong)
qed

lemma pg_listEvents_eq:
  assumes "events_ok db" "runs_ok db"
  shows "pg_listEvents db i = filter (\<lambda>e. ev_runId e = i) (rd_events db)"
    and "sorted_wrt (\<lambda>a b. ev_eventSeq a < ev_eventSeq b) (pg_listEvents db i)"
proof -
  have sorted: "sorted_wrt (\<lambda>a b. ev_eventSeq a < ev_eventSeq b) (filter (\<lambda>e. ev_runId e = i) (rd_events db))"
  proof (cases "\<exists>r \<in> set (rd_runs db). ru_runId r = i")
    case True
    then obtain r where "r \<in> set (rd_runs db)" "i = ru_runId r" by blast
    then show ?thesis
      using run_events_of_session [OF assms] sorted_wrt_filterI [OF session_events_sorted [OF assms]] by simp
  next
    case False
    then have "filter (\<lambda>e. ev_runId e = i) (rd_events db) = []"
      using assms(1) unfolding filter_empty_conv events_ok_def by metis
    then show ?thesis by simp
  qed
  then show "pg_listEvents db i = filter (\<lambda>e. ev_runId e = i) (rd_events db)"
    by (simp add: pg_listEvents_def sort_key_increasing)
  with sorted show "sorted_wrt (\<lambda>a b. ev_eventSeq a < ev_eventSeq b) (pg_listEvents db i)" by simp
qed

section \<open>PostgreSQL keeps the contract\<close>

text \<open>An event whose id is new is always stored: the counter of the session makes its number new.\<close>

lemma store_event_succeeds:
  assumes "events_ok db" "runs_ok db" "jget (rd_sessions db) (ev_sessionId e) = Some n" "ev_eventSeq e = n + 1"
    "r \<in> set (rd_runs db)" "ru_runId r = ev_runId e" "ru_sessionId r = ev_sessionId e" "ev_eventId e \<notin> ev_eventId ` set (rd_events db)"
  shows "\<exists>db'. store_event w e db = Inr db'"
proof -
  have "ev_eventSeq f \<noteq> n + 1" if "f \<in> set (rd_events db)" "ev_runId f = ev_runId e" for f
  proof -
    have "f \<in> set (filter (\<lambda>x. ev_runId x = ru_runId r) (rd_events db))" using that assms(6) by simp
    then have "f \<in> set (session_events db (ru_sessionId r))"
      unfolding run_events_of_session [OF assms(1,2,5)] by simp
    then have "ev_eventSeq f \<in> set (map ev_eventSeq (session_events db (ru_sessionId r)))" by simp
    also have "map ev_eventSeq (session_events db (ru_sessionId r)) = [1..<n + 1]"
      using assms(1,3,7) by (simp add: events_ok_def del: upt_Suc)
    finally show ?thesis by auto
  qed
  then have "\<not> (\<exists>f \<in> set (rd_events db). ev_eventId f = ev_eventId e \<or> ev_runId f = ev_runId e \<and> ev_eventSeq f = ev_eventSeq e)"
    using assms(4,8) by (metis image_eqI)
  then show ?thesis by (auto simp: store_event_def throw_if_def)
qed

lemma atomic_succeeds:
  assumes "events_ok db" "runs_ok db" "r \<in> set (rd_runs db)" "eventable r type" "eid \<notin> ev_eventId ` set (rd_events db)"
  shows "\<exists>e db'. pg_appendEventAtomic eid now (ru_runId r) type data db = Inr (e, db') \<and> ev_type e = type \<and> ev_data e = data \<and>
    ev_runId e = ru_runId r \<and> rd_events db' = rd_events db @ [e] \<and> rd_runs db' = rd_runs db"
proof -
  from assms(2,3) obtain n where n: "jget (rd_sessions db) (ru_sessionId r) = Some n" by (auto simp: runs_ok_def)
  let ?e = "\<lparr>ev_eventId = eid, ev_runId = ru_runId r, ev_sessionId = ru_sessionId r, ev_eventSeq = n + 1, ev_type = type,
      ev_runtimeVersion = ''0.1.0'', ev_data = data, ev_createdAt = now\<rparr>"
  obtain db' where db': "store_event False ?e db = Inr db'"
    using store_event_succeeds [OF assms(1,2), of ?e n r False] n assms(3,5) by simp blast
  have "pg_appendEventAtomic eid now (ru_runId r) type data db = Inr (?e, db')"
    using find_run_where [OF assms(2,3), of "\<lambda>q. eventable q type"] assms(4) n db' by (simp add: pg_appendEventAtomic_def)
  with store_event_Inr [OF db'] show ?thesis by (intro exI [of _ ?e] exI [of _ db']) simp
qed

lemma append_event_succeeds:
  assumes "events_ok db" "runs_ok db" "has_row db r" "eid \<notin> ev_eventId ` set (rd_events db)"
  shows "\<exists>e f db'. append_event pg_run_repository r type data eid now db = Inr (e, db') \<and> ev_type f = type \<and>
    rd_events db' = rd_events db @ [f] \<and> ev_runId f = ru_runId r \<and> rd_runs db' = rd_runs db"
proof -
  obtain q where q: "q \<in> set (rd_runs db)" "ru_runId q = ru_runId r" "ru_sessionId q = ru_sessionId r"
    using assms(3) by (auto simp: has_row_def)
  then obtain n where n: "jget (rd_sessions db) (ru_sessionId r) = Some n" using assms(2) by (auto simp: runs_ok_def)
  define e where "e = \<lparr>ev_eventId = eid, ev_runId = ru_runId r, ev_sessionId = ru_sessionId r,
    ev_eventSeq = next_seq (pg_listEvents db (ru_runId r)), ev_type = type, ev_runtimeVersion = ''0.1.0'',
    ev_data = data, ev_createdAt = now\<rparr>"
  obtain db' where db': "store_event True (e\<lparr>ev_eventSeq := n + 1\<rparr>) db = Inr db'"
    using store_event_succeeds [of db "e\<lparr>ev_eventSeq := n + 1\<rparr>" n q] assms(1,2,4) q n by (auto simp: e_def)
  have "pg_appendEvent e db = Inr db'" using db' n q by (auto simp: pg_appendEvent_def e_def result_simps)
  then have "append_event pg_run_repository r type data eid now db = Inr (e, db')"
    by (simp add: append_event_def e_def)
  with store_event_Inr [OF db'] show ?thesis by (auto simp: e_def)
qed

lemma find_map_row:
  "(\<And>x. ru_runId (f x) = ru_runId x) \<Longrightarrow>
     find (\<lambda>r. ru_runId r = i) (map f rs) = map_option f (find (\<lambda>r. ru_runId r = i) rs)"
  for f :: "agent_run \<Rightarrow> agent_run"
  by (rule find_map_keep)

interpretation pg_runs: run_contract pg_run_repository "\<lambda>db. runs_ok db \<and> events_ok db"
  "\<lambda>db sid. jget (rd_sessions db) sid \<noteq> None" "\<lambda>db i. \<forall>r \<in> set (rd_runs db). ru_runId r \<noteq> i"
  "\<lambda>db eid. eid \<notin> ev_eventId ` set (rd_events db)"
proof (unfold_locales, unfold pg_run_sel)
  fix db sid key r i now
  assume ok: "runs_ok db \<and> events_ok db"
  show "pg_findByIdempotency db sid key = Some r \<Longrightarrow> startRun pg_run_repository sid key i now db = Inr (r, db)"
    by (simp add: startRun_def pg_startRunAtomic_def)
  show "startRun pg_run_repository sid key i now db = Inl SESSION_BUSY"
    if "pg_findByIdempotency db sid key = None" "pg_findActive db sid \<noteq> None" "jget (rd_sessions db) sid \<noteq> None"
  proof -
    from that(2) obtain q where "q \<in> set (rd_runs db)" "ru_sessionId q = sid" "run_active q"
      using pg_findActive_iff ok by blast
    then have "\<not> unique_run (rd_runs db) (new_run i sid key now)"
      by (auto simp: unique_run_def compatible_def new_run_def)
    with that show ?thesis by (auto simp add: startRun_def pg_startRunAtomic_def)
  qed
  show "\<exists>db'. startRun pg_run_repository sid key i now db = Inr (new_run i sid key now, db') \<and> (runs_ok db' \<and> events_ok db') \<and>
      jget (rd_sessions db') sid \<noteq> None \<and> pg_findByIdempotency db' sid key = Some (new_run i sid key now) \<and>
      pg_findRun db' i = Some (new_run i sid key now)"
    if none: "pg_findByIdempotency db sid key = None" "pg_findActive db sid = None" "jget (rd_sessions db) sid \<noteq> None"
      "\<forall>r \<in> set (rd_runs db). ru_runId r \<noteq> i"
  proof -
    let ?r = "new_run i sid key now" and ?db = "db\<lparr>rd_runs := rd_runs db @ [new_run i sid key now]\<rparr>"
    have key: "\<not> (ru_sessionId q = sid \<and> ru_idempotencyKey q = key)" if "q \<in> set (rd_runs db)" for q
      using pg_findByIdempotency_iff [of db sid key q] ok none(1) that by simp
    have "\<not> (ru_sessionId q = sid \<and> run_active q)" if "q \<in> set (rd_runs db)" for q
      using pg_findActive_iff [of db sid q] ok none(2) that by simp
    with key have "unique_run (rd_runs db) ?r" using none(4) by (auto simp: unique_run_def compatible_def new_run_def)
    then have start: "pg_startRunAtomic sid key i now db = Inr (?r, ?db)" using none(1,3) by (auto simp: pg_startRunAtomic_def Let_def)
    then have "runs_ok ?db \<and> events_ok ?db" using run_step_ok [OF run_step.start] ok by blast
    moreover from this have "pg_findByIdempotency ?db sid key = Some ?r" "pg_findRun ?db i = Some ?r"
      by (simp_all add: pg_findByIdempotency_iff pg_findRun_iff) (simp_all add: new_run_def)
    ultimately show ?thesis using start none(3) by (intro exI [of _ ?db]) (simp add: startRun_def)
  qed
  show "run_active r \<Longrightarrow> pg_findRun db i = Some r \<Longrightarrow> pg_findActive db (ru_sessionId r) \<noteq> None"
    using pg_findRun_iff pg_findActive_iff ok by (metis option.distinct(1))
  show "pg_findRun db i = Some r \<Longrightarrow> ru_runId r = i" using pg_findRun_iff ok by blast
  show "sorted_wrt (\<lambda>a b. ev_eventSeq a < ev_eventSeq b) (pg_listEvents db i)" using pg_listEvents_eq(2) ok by blast
  show "cancelRun pg_run_repository i eid now db = Inr (False, db)" if "pg_findRun db i = Some r" "\<not> run_active r" for eid
  proof -
    have "\<not> (ru_runId q = i \<and> run_active q)" if "q \<in> set (rd_runs db)" for q
      using that \<open>pg_findRun db i = Some r\<close> \<open>\<not> run_active r\<close> pg_findRun_iff ok by (metis option.inject)
    then have "pg_cancelIfActive now i db = (False, db)"
      by (auto simp: pg_cancelIfActive_def list_ex_iff intro!: run_db.equality map_idI)
    then show ?thesis by (simp add: cancelRun_def)
  qed
  fix eid type data
  assume r: "pg_findRun db i = Some r" "run_active r" and fresh: "eid \<notin> ev_eventId ` set (rd_events db)"
  from ok have ok1: "runs_ok db" and ok2: "events_ok db" by simp_all
  have row: "r \<in> set (rd_runs db)" "ru_runId r = i" using r(1) pg_findRun_iff [OF ok1] by blast+
  then obtain n where n: "jget (rd_sessions db) (ru_sessionId r) = Some n" using ok1 by (auto simp: runs_ok_def)
  show "\<exists>e db'. appendEvent pg_run_repository i type data eid now db = Inr (e, db') \<and> (runs_ok db' \<and> events_ok db') \<and>
      ev_type e = type \<and> ev_data e = data \<and> pg_listEvents db' i = pg_listEvents db i @ [e] \<and> pg_findRun db' i = Some r"
  proof -
    from atomic_succeeds [OF ok2 ok1 row(1) _ fresh, of type now data] row(2) r(2)
    obtain e db' where atomic: "pg_appendEventAtomic eid now i type data db = Inr (e, db')"
      and e: "ev_type e = type" "ev_data e = data" "ev_runId e = i" "rd_events db' = rd_events db @ [e]" "rd_runs db' = rd_runs db"
      by (auto simp: eventable_def)
    then have ok': "runs_ok db' \<and> events_ok db'" using run_step_ok [OF run_step.atomic ok1 ok2] by blast
    have "appendEvent pg_run_repository i type data eid now db = Inr (e, db')"
      using r atomic by (simp add: appendEvent_def requireRun_def)
    moreover have "pg_listEvents db' i = pg_listEvents db i @ [e]" "pg_findRun db' i = Some r"
      using pg_listEvents_eq(1) [OF ok2 ok1] pg_listEvents_eq(1) [of db' i] ok' e r(1)
      by (simp_all add: pg_findRun_def)
    ultimately show ?thesis using ok' e(1,2) by blast
  qed
  show "\<exists>e db'. cancelRun pg_run_repository i eid now db = Inr (True, db') \<and> (runs_ok db' \<and> events_ok db') \<and>
      ev_type e = Ev_run_aborted \<and> pg_listEvents db' i = pg_listEvents db i @ [e] \<and>
      pg_findRun db' i = Some (r\<lparr>ru_status := Run_aborted, ru_updatedAt := now\<rparr>)"
  proof -
    let ?f = "\<lambda>q. if ru_runId q = i \<and> run_active q then with_status now Run_aborted q else q"
    let ?db = "db\<lparr>rd_runs := map ?f (rd_runs db)\<rparr>"
    have cancel: "pg_cancelIfActive now i db = (True, ?db)"
      using row r(2) by (auto simp: pg_cancelIfActive_def list_ex_iff)
    then have ok3: "runs_ok ?db" and ok4: "events_ok ?db" using run_step_ok [OF run_step.cancel ok1 ok2] by blast+
    have found: "pg_findRun ?db i = Some (with_status now Run_aborted r)"
      using r row by (simp add: pg_findRun_def find_map_row)
    obtain e f db' where db': "append_event pg_run_repository (with_status now Run_aborted r) Ev_run_aborted [] eid now ?db = Inr (e, db')"
      "ev_type f = Ev_run_aborted" "rd_events db' = rd_events db @ [f]" "ev_runId f = i" "rd_runs db' = map ?f (rd_runs db)"
      using append_event_succeeds [OF ok4 ok3 has_row_find [OF found], of eid Ev_run_aborted "[]" now] fresh row(2) by auto
    have ok': "runs_ok db' \<and> events_ok db'"
      using run_step_ok [OF append_event_step [OF has_row_find [OF found] db'(1)] ok3 ok4] by blast
    have "cancelRun pg_run_repository i eid now db = Inr (True, db')"
      using cancel found db'(1) by (simp add: cancelRun_def requireRun_def)
    moreover have "pg_listEvents db' i = pg_listEvents db i @ [f]"
      using pg_listEvents_eq(1) [OF ok2 ok1] pg_listEvents_eq(1) [of db' i] ok' db'(3,4) by simp
    moreover have "pg_findRun db' i = Some (r\<lparr>ru_status := Run_aborted, ru_updatedAt := now\<rparr>)"
      using found db'(5) by (simp add: pg_findRun_def with_status_def)
    ultimately show ?thesis using ok' db'(2) by blast
  qed
qed

section \<open>The in-memory repository keeps the contract\<close>

definition memory_runs_ok :: "memory_runs \<Rightarrow> bool" where
  "memory_runs_ok m \<longleftrightarrow> (\<forall>i r. jget (mr_runs m) i = Some r \<longrightarrow> ru_runId r = i)
     \<and> (\<forall>i. map ev_eventSeq (events_of m i) = [1..<length (events_of m i) + 1])"

lemma memory_run_sel [simp]:
  "rr_findByIdempotency memory_run_repository m sid key = find (\<lambda>r. ru_sessionId r = sid \<and> ru_idempotencyKey r = key) (jvalues (mr_runs m))"
  "rr_findActive memory_run_repository m sid = find (\<lambda>r. ru_sessionId r = sid \<and> run_active r) (jvalues (mr_runs m))"
  "rr_findById memory_run_repository m i = jget (mr_runs m) i" "rr_startRunAtomic memory_run_repository = None"
  "rr_save memory_run_repository r m = Inr (m\<lparr>mr_runs := jset (ru_runId r) r (mr_runs m)\<rparr>)"
  "rr_listEvents memory_run_repository = events_of"
  "rr_appendEventAtomic memory_run_repository = None" "rr_cancelIfActive memory_run_repository = None"
  by (simp_all add: memory_run_repository_def)

lemma next_seq_upt: "map ev_eventSeq es = [1..<length es + 1] \<Longrightarrow> next_seq es = length es + 1"
  by (cases es rule: rev_cases) (auto simp: next_seq_def)

text \<open>Appending to a run whose record carries its id numbers the event after the ones the run has.\<close>

lemma memory_append:
  assumes "memory_runs_ok m"
  shows "\<exists>e m'. append_event memory_run_repository r type data eid now m = Inr (e, m') \<and> memory_runs_ok m' \<and>
    ev_type e = type \<and> ev_data e = data \<and> events_of m' (ru_runId r) = events_of m (ru_runId r) @ [e] \<and> mr_runs m' = mr_runs m"
proof -
  let ?es = "events_of m (ru_runId r)"
  let ?e = "\<lparr>ev_eventId = eid, ev_runId = ru_runId r, ev_sessionId = ru_sessionId r, ev_eventSeq = next_seq ?es, ev_type = type,
      ev_runtimeVersion = ''0.1.0'', ev_data = data, ev_createdAt = now\<rparr>"
  let ?m = "m\<lparr>mr_events := jset (ru_runId r) (?es @ [?e]) (mr_events m)\<rparr>"
  have seqs: "map ev_eventSeq (events_of m i) = [1..<length (events_of m i) + 1]" for i
    using assms by (simp add: memory_runs_ok_def del: upt_Suc)
  have ev: "events_of ?m i = (if i = ru_runId r then ?es @ [?e] else events_of m i)" for i
    by (simp add: events_of_def)
  have "map ev_eventSeq (events_of ?m i) = [1..<length (events_of ?m i) + 1]" for i
  proof (cases "i = ru_runId r")
    case True
    have "map ev_eventSeq (?es @ [?e]) = [1..<length ?es + 1] @ [length ?es + 1]"
      using seqs [of "ru_runId r"] next_seq_upt [OF seqs [of "ru_runId r"]] by (simp del: upt_Suc)
    then show ?thesis unfolding ev True by simp
  qed (use seqs [of i] in \<open>simp only: ev if_False\<close>)
  then have "memory_runs_ok ?m" using assms by (simp add: memory_runs_ok_def del: upt_Suc)
  moreover have "append_event memory_run_repository r type data eid now m = Inr (?e, ?m)"
    by (simp add: append_event_def Let_def) (simp add: memory_run_repository_def)
  ultimately show ?thesis using ev [of "ru_runId r"] by (intro exI [of _ ?e] exI [of _ ?m]) simp
qed

lemma find_jset_new:
  "find P (map snd m) = None \<Longrightarrow> P v \<Longrightarrow> find P (map snd (jset k v m)) = Some v"
  by (induction m) (auto split: if_splits)

interpretation memory_runs: run_contract memory_run_repository memory_runs_ok "\<lambda>m sid. True" "\<lambda>m i. True" "\<lambda>m eid. True"
proof (unfold_locales, unfold memory_run_sel)
  fix m :: memory_runs and sid key i now r
  assume ok: "memory_runs_ok m"
  show "startRun memory_run_repository sid key i now m = Inr (r, m)"
    if "find (\<lambda>r. ru_sessionId r = sid \<and> ru_idempotencyKey r = key) (jvalues (mr_runs m)) = Some r"
    using that by (simp add: startRun_def)
  show "startRun memory_run_repository sid key i now m = Inl SESSION_BUSY"
    if "find (\<lambda>r. ru_sessionId r = sid \<and> ru_idempotencyKey r = key) (jvalues (mr_runs m)) = None"
      "find (\<lambda>r. ru_sessionId r = sid \<and> run_active r) (jvalues (mr_runs m)) \<noteq> None"
    using that by (auto simp: startRun_def)
  show "\<exists>m'. startRun memory_run_repository sid key i now m = Inr (new_run i sid key now, m') \<and> memory_runs_ok m' \<and> True \<and>
      find (\<lambda>r. ru_sessionId r = sid \<and> ru_idempotencyKey r = key) (jvalues (mr_runs m')) = Some (new_run i sid key now) \<and>
      jget (mr_runs m') i = Some (new_run i sid key now)"
    if none: "find (\<lambda>r. ru_sessionId r = sid \<and> ru_idempotencyKey r = key) (jvalues (mr_runs m)) = None"
      "find (\<lambda>r. ru_sessionId r = sid \<and> run_active r) (jvalues (mr_runs m)) = None"
  proof -
    let ?m = "m\<lparr>mr_runs := jset i (new_run i sid key now) (mr_runs m)\<rparr>"
    have "memory_runs_ok ?m" using ok by (simp add: memory_runs_ok_def events_of_def new_run_def)
    moreover have "find (\<lambda>r. ru_sessionId r = sid \<and> ru_idempotencyKey r = key) (jvalues (mr_runs ?m)) = Some (new_run i sid key now)"
      using find_jset_new [OF none(1), of "new_run i sid key now" i] by (simp add: new_run_def)
    moreover have "startRun memory_run_repository sid key i now m = Inr (new_run i sid key now, ?m)"
      using none by (simp add: startRun_def new_run_def Let_def)
    ultimately show ?thesis by (intro exI [of _ ?m]) simp
  qed
  show "find (\<lambda>q. ru_sessionId q = ru_sessionId r \<and> run_active q) (jvalues (mr_runs m)) \<noteq> None"
    if "jget (mr_runs m) i = Some r" "run_active r"
  proof -
    have "r \<in> set (jvalues (mr_runs m))" using map_of_SomeD [OF that(1)] by force
    with that(2) show ?thesis unfolding find_None_iff_ball by blast
  qed
  show "jget (mr_runs m) i = Some r \<Longrightarrow> ru_runId r = i" using ok by (simp add: memory_runs_ok_def)
  show "sorted_wrt (\<lambda>a b. ev_eventSeq a < ev_eventSeq b) (events_of m i)"
    using ok by (intro sorted_upt_map [of _ _ 1 "length (events_of m i) + 1"]) (simp add: memory_runs_ok_def del: upt_Suc)
  fix eid type data
  show "jget (mr_runs m) i = Some r \<Longrightarrow> \<not> run_active r \<Longrightarrow> cancelRun memory_run_repository i eid now m = Inr (False, m)"
    by (simp add: cancelRun_def)
  assume r: "jget (mr_runs m) i = Some r" "run_active r"
  then have i: "ru_runId r = i" using ok by (simp add: memory_runs_ok_def)
  show "\<exists>e m'. appendEvent memory_run_repository i type data eid now m = Inr (e, m') \<and> memory_runs_ok m' \<and> ev_type e = type \<and>
      ev_data e = data \<and> events_of m' i = events_of m i @ [e] \<and> jget (mr_runs m') i = Some r"
    using memory_append [OF ok, of r type data eid now] r i by (simp add: appendEvent_def requireRun_def) metis
  let ?r = "r\<lparr>ru_status := Run_aborted, ru_updatedAt := now\<rparr>"
  let ?m = "m\<lparr>mr_runs := jset i ?r (mr_runs m)\<rparr>"
  have up: "rr_updateStatus memory_run_repository now i Run_aborted m = Inr ?m" using r by (simp add: memory_run_repository_def)
  have ok': "memory_runs_ok ?m" using ok i by (simp add: memory_runs_ok_def events_of_def)
  have "events_of ?m j = events_of m j" for j by (simp add: events_of_def)
  then show "\<exists>e m'. cancelRun memory_run_repository i eid now m = Inr (True, m') \<and> memory_runs_ok m' \<and> ev_type e = Ev_run_aborted \<and>
      events_of m' i = events_of m i @ [e] \<and> jget (mr_runs m') i = Some ?r"
    using memory_append [OF ok', of r Ev_run_aborted "[]" eid now] r i up by (auto simp: cancelRun_def)
qed

text \<open>
  The in-memory numbers restart with every run, so a client that asks a session for the events after the last
  one it saw misses the first events of the next run.
\<close>

lemma memory_second_run_hidden:
  assumes "memory_runs_ok m" "jget (mr_runs m) j = Some r" "run_active r" "events_of m j = []" "0 < afterSeq"
  shows "\<exists>e m'. appendEvent memory_run_repository j type data eid now m = Inr (e, m') \<and> events_of m' j = [e] \<and>
    e \<notin> set (listSessionEvents memory_run_repository sid afterSeq m')"
proof -
  obtain e m' where e: "appendEvent memory_run_repository j type data eid now m = Inr (e, m')" "memory_runs_ok m'" "events_of m' j = [e]"
    using memory_runs.append_active [where s = m and i = j and r = r and eid = eid and type = type and data = data and now = now] assms by auto
  have "map ev_eventSeq (events_of m' j) = [1..<length (events_of m' j) + 1]"
    using e(2) unfolding memory_runs_ok_def by blast
  then have "ev_eventSeq e = 1" by (simp add: e(3))
  with e assms(5) show ?thesis by (auto simp: listSessionEvents_def memory_run_repository_def)
qed

section \<open>Properties\<close>

lemma pg_listSessionEvents_eq:
  assumes "events_ok db" "runs_ok db"
  shows "listSessionEvents pg_run_repository sid a db = filter (\<lambda>e. a < ev_eventSeq e) (session_events db sid)"
proof -
  have "filter (\<lambda>e. ev_sessionId e = sid \<and> a < ev_eventSeq e) (rd_events db) = filter (\<lambda>e. a < ev_eventSeq e) (session_events db sid)"
    by (auto simp: session_events_def intro: filter_cong)
  then show ?thesis
    using sorted_wrt_filterI [OF session_events_sorted [OF assms]]
    by (simp add: listSessionEvents_def pg_listSessionEvents_def sort_key_increasing)
qed

lemma filter_less_upt:
  "map f xs = [1..<n + 1] \<Longrightarrow> a \<le> n \<Longrightarrow> map f (filter (\<lambda>x. a < f x) xs) = [a + 1..<n + 1]" for f :: "'a \<Rightarrow> nat"
proof -
  assume xs: "map f xs = [1..<n + 1]" and a: "a \<le> n"
  have "map f (filter (\<lambda>x. a < f x) xs) = filter ((<) a) [1..<n + 1]" unfolding xs [symmetric] by (simp add: filter_map o_def)
  also have "[1..<n + 1] = [1..<a + 1] @ [a + 1..<n + 1]" using a upt_add_eq_append [of 1 "a + 1" "n - a"] by simp
  also have "filter ((<) a) \<dots> = [a + 1..<n + 1]" by (simp add: filter_empty_conv filter_id_conv del: upt_Suc)
  finally show ?thesis .
qed

text \<open>Cancelling changes no run but the one it ends.\<close>

lemma cancelRun_rows:
  assumes "cancelRun pg_run_repository i eid now db = Inr (b, db')" "p \<in> set (rd_runs db')"
  shows "\<exists>q \<in> set (rd_runs db). ru_runId q = ru_runId p \<and> ru_sessionId q = ru_sessionId p \<and>
    ru_idempotencyKey q = ru_idempotencyKey p \<and> (run_active p \<longrightarrow> run_active q)"
proof -
  obtain c db1 where c: "pg_cancelIfActive now i db = (c, db1)" by fastforce
  have "rd_runs db' = rd_runs db1"
    using assms(1) c by (auto simp: cancelRun_def append_event_def Let_def result_simps dest!: appendEvent_Inr store_event_Inr split: if_splits)
  with assms(2) show ?thesis unfolding cancel_rows [OF c] by auto
qed

text \<open>A status may be set unless it makes an ended run active.\<close>

lemma updateStatus_Inr:
  assumes "runs_ok db" "pg_findRun db i = Some r" "isActiveRunStatus st \<longrightarrow> run_active r"
  shows "pg_updateStatus now i st db = Inr (db\<lparr>rd_runs := map (\<lambda>q. if ru_runId q = i then with_status now st q else q) (rd_runs db)\<rparr>)"
proof -
  have "compatible q (with_status now st p)"
    if pq: "p \<in> set (rd_runs db)" "q \<in> set (rd_runs db)" "ru_runId p = i" "ru_runId q \<noteq> i" for p q
  proof -
    have "pg_findRun db i = Some p" using pq pg_findRun_iff [OF assms(1)] by blast
    then have "p = r" using assms(2) by simp
    have "compatible p q \<or> compatible q p"
      using assms(1) pq sorted_wrt_nth_less [of compatible "rd_runs db"] unfolding runs_ok_def in_set_conv_nth
      by (metis linorder_neqE_nat)
    then show ?thesis using pq(3,4) assms(3) \<open>p = r\<close> by (auto simp: compatible_def)
  qed
  then show ?thesis by (auto simp: pg_updateStatus_def unique_run_def throw_if_def)
qed

lemma updateStatus_found:
  assumes "pg_updateStatus now i st db = Inr db'" "pg_findRun db i = Some r"
  shows "pg_findRun db' i = Some (with_status now st r)"
  using assms(2) find_SomeD [of "\<lambda>r. ru_runId r = i" "rd_runs db" r] unfolding updateStatus_rows [OF assms(1)]
  by (simp add: pg_findRun_def find_map_row)

text \<open>Setting a run completed or failed succeeds whatever its status is.\<close>

lemma end_any_run:
  assumes ends: "st = Run_completed \<and> type = Ev_run_completed \<or> st = Run_failed \<and> type = Ev_run_failed"
    and given: "runs_ok db" "events_ok db" "pg_findRun db i = Some r" "eid \<notin> ev_eventId ` set (rd_events db)"
  shows "\<exists>db' e q. setStatus pg_run_repository i st data eid now db = Inr db' \<and> ev_type e = type \<and>
    pg_findRun db' i = Some q \<and> ru_status q = st \<and> pg_listEvents db' i = pg_listEvents db i @ [e]"
proof -
  let ?f = "\<lambda>q. if ru_runId q = i then with_status now st q else q"
  let ?db = "db\<lparr>rd_runs := map ?f (rd_runs db)\<rparr>"
  have row: "r \<in> set (rd_runs db)" "ru_runId r = i" using given(3) pg_findRun_iff [OF given(1)] by blast+
  have up: "pg_updateStatus now i st db = Inr ?db" by (rule updateStatus_Inr [OF given(1,3)]) (use ends in auto)
  have ok: "runs_ok ?db" "events_ok ?db" using run_step_ok [OF run_step.status [OF up] given(1,2)] by simp_all
  have found: "pg_findRun ?db i = Some (with_status now st r)"
    using given(3) row by (simp add: pg_findRun_def find_map_row)
  obtain e f db' where db': "append_event pg_run_repository r type data eid now ?db = Inr (e, db')"
    "ev_type f = type" "rd_events db' = rd_events db @ [f]" "ev_runId f = i" "rd_runs db' = map ?f (rd_runs db)"
    using append_event_succeeds [OF ok(2,1), of r eid type data now] has_row_find [OF found] given(4) row(2)
    by (auto simp: has_row_def)
  have "run_step ?db db'" by (rule append_event_step [OF _ db'(1)]) (use has_row_find [OF found] in \<open>simp add: has_row_def\<close>)
  then have ok': "runs_ok db'" "events_ok db'" using run_step_ok ok by blast+
  have "setStatus pg_run_repository i st data eid now db = Inr db'"
    using given(3) up db'(1) ends by (auto simp: setStatus_def requireRun_def)
  moreover have "pg_listEvents db' i = pg_listEvents db i @ [f]"
    using pg_listEvents_eq(1) [OF given(2,1)] pg_listEvents_eq(1) [OF ok'(2,1)] db'(3,4) by simp
  moreover have "pg_findRun db' i = Some (with_status now st r)" using found db'(5) by (simp add: pg_findRun_def)
  ultimately show ?thesis using db'(2) by (intro exI [of _ db'] exI [of _ f]) simp
qed

lemmas complete_any_run = end_any_run [OF disjI1, OF conjI, OF refl refl]
lemmas fail_any_run = end_any_run [OF disjI2, OF conjI, OF refl refl]

text \<open>Statements only add events, and number them on.\<close>

lemma run_step_extends:
  assumes "run_step db db'"
  shows "\<exists>es. rd_events db' = rd_events db @ es"
  using assms
proof (induction rule: run_step.induct)
  case (atomic eid now i type data db e db')
  then show ?case by (auto dest!: appendEventAtomic_Inr store_event_Inr)
next
  case (append e db db' r)
  then show ?case by (auto dest!: appendEvent_Inr store_event_Inr)
qed (auto simp: pg_startRunAtomic_def pg_save_run_def pg_updateStatus_def pg_cancelIfActive_def Let_def result_simps split: option.splits)

lemma run_step_session: "run_step db db' \<Longrightarrow> jget (rd_sessions db) sid \<noteq> None \<Longrightarrow> jget (rd_sessions db') sid \<noteq> None"
proof (induction rule: run_step.induct)
  case (atomic eid now i type data db e db')
  then show ?case by (auto dest!: appendEventAtomic_Inr store_event_Inr)
next
  case (append e db db' r)
  then show ?case by (auto dest!: appendEvent_Inr store_event_Inr)
qed (auto simp: pg_startRunAtomic_def pg_save_run_def pg_updateStatus_def pg_cancelIfActive_def Let_def result_simps split: option.splits)

lemma run_reaches_session: "run_reaches db db' \<Longrightarrow> jget (rd_sessions db) sid \<noteq> None \<Longrightarrow> jget (rd_sessions db') sid \<noteq> None"
  by (induction rule: rtranclp_induct) (blast dest: run_step_session)+

lemma run_reaches_extends: "run_reaches db db' \<Longrightarrow> \<exists>es. rd_events db' = rd_events db @ es"
  by (induction rule: rtranclp_induct) (auto dest!: run_step_extends)

text \<open>
  C19. However the statements of any number of servers interleave, a session has at most one active run.  A start
  with a key that was used gets that run back and changes nothing; with a new key it is refused as busy while a
  run is active, and otherwise starts a queued run.
\<close>

theorem one_active_run_per_session:
  assumes "run_reaches empty_run_db db"
  shows "length (filter (\<lambda>r. ru_sessionId r = sid \<and> run_active r) (rd_runs db)) \<le> 1 \<and>
    (\<forall>r. pg_findByIdempotency db sid key = Some r \<longrightarrow> startRun pg_run_repository sid key i now db = Inr (r, db)) \<and>
    (pg_findByIdempotency db sid key = None \<and> jget (rd_sessions db) sid \<noteq> None \<longrightarrow>
      (pg_findActive db sid \<noteq> None \<longrightarrow> startRun pg_run_repository sid key i now db = Inl SESSION_BUSY) \<and>
      (pg_findActive db sid = None \<and> pg_findRun db i = None \<longrightarrow>
        (\<exists>db'. startRun pg_run_repository sid key i now db = Inr (new_run i sid key now, db') \<and>
          pg_findActive db' sid = Some (new_run i sid key now) \<and>
          (pg_findByIdempotency db' sid key' = None \<longrightarrow> startRun pg_run_repository sid key' j later db' = Inl SESSION_BUSY))))"
proof -
  from reached_ok [OF assms] have ok: "runs_ok db \<and> events_ok db" .
  then have ok1: "runs_ok db" by simp
  have one: "length (filter (\<lambda>r. ru_sessionId r = sid \<and> run_active r) (rd_runs db)) \<le> 1"
  proof (cases "pg_findActive db sid")
    case None
    then have "filter (\<lambda>r. ru_sessionId r = sid \<and> run_active r) (rd_runs db) = []"
      using pg_findActive_iff [OF ok1, of sid] by (simp add: filter_empty_conv)
    then show ?thesis by simp
  next
    case (Some q)
    then have "q \<in> set (rd_runs db)" "ru_sessionId q = sid \<and> run_active q" using pg_findActive_iff [OF ok1, of sid] by blast+
    from find_unique(2) [OF compatible_active this] ok1 show ?thesis by (simp add: runs_ok_def)
  qed
  have new: "\<exists>db'. startRun pg_run_repository sid key i now db = Inr (new_run i sid key now, db') \<and>
      pg_findActive db' sid = Some (new_run i sid key now) \<and>
      (pg_findByIdempotency db' sid key' = None \<longrightarrow> startRun pg_run_repository sid key' j later db' = Inl SESSION_BUSY)"
    if none: "pg_findByIdempotency db sid key = None" "pg_findActive db sid = None" "jget (rd_sessions db) sid \<noteq> None" "pg_findRun db i = None"
  proof -
    have "\<forall>r \<in> set (rd_runs db). ru_runId r \<noteq> i" using none(4) by (simp add: pg_findRun_def find_None_iff_ball)
    with pg_runs.start_free [of db sid key i now] ok none obtain db' where
      db': "startRun pg_run_repository sid key i now db = Inr (new_run i sid key now, db')" "runs_ok db'" "events_ok db'"
      "jget (rd_sessions db') sid \<noteq> None" "pg_findRun db' i = Some (new_run i sid key now)" by auto
    have "pg_findActive db' sid = Some (new_run i sid key now)"
      using db'(5) pg_findRun_iff [OF db'(2)] pg_findActive_iff [OF db'(2)] by (simp add: new_run_def)
    with db' pg_runs.start_busy [of db' sid key' j later] show ?thesis by auto
  qed
  show ?thesis
    using one new pg_runs.start_again [OF ok, of sid key _ i now] pg_runs.start_busy [OF ok, of sid key i now]
    by (intro conjI impI allI) simp_all
qed

text \<open>
  C20. The events of a session are numbered without gaps from one, also across its runs, and the outbox holds the same
  events.  A client that has read the events up to some number and asks later for those after the last one it saw
  gets, with what it has, exactly what one reading from the start gives: nothing is lost and nothing comes twice.
\<close>

theorem session_events_resume:
  assumes "run_reaches empty_run_db db" "run_reaches db db'" "jget (rd_sessions db) sid = Some n" "a \<le> n"
  shows "map ev_eventSeq (listSessionEvents pg_run_repository sid a db) = [a + 1..<n + 1] \<and>
    listSessionEvents pg_run_repository sid a db' =
      listSessionEvents pg_run_repository sid a db @ listSessionEvents pg_run_repository sid n db' \<and>
    map ob_payload (rd_outbox db') = rd_events db'"
proof -
  from reached_ok [OF assms(1)] have ok: "runs_ok db" "events_ok db" by simp_all
  with run_reaches_ok [OF assms(2)] have ok': "runs_ok db'" "events_ok db'" by simp_all
  note read = pg_listSessionEvents_eq [OF ok(2,1)] pg_listSessionEvents_eq [OF ok'(2,1)]
  have seqs: "map ev_eventSeq (session_events db sid) = [1..<n + 1]" using ok(2) assms(3) unfolding events_ok_def by blast
  from run_reaches_extends [OF assms(2)] obtain es where es: "session_events db' sid = session_events db sid @ es"
    by (auto simp: session_events_def)
  have later: "n < ev_eventSeq e" if "e \<in> set es" for e
  proof -
    have "e \<in> set (session_events db' sid)" using that es by simp
    then have "e \<in> set (rd_events db')" "ev_sessionId e = sid" by (simp_all add: session_events_def)
    then obtain m where "jget (rd_sessions db') sid = Some m" using ok' unfolding runs_ok_def events_ok_def by (metis not_None_eq)
    then have "map ev_eventSeq (session_events db' sid) = [1..<m + 1]" using ok'(2) unfolding events_ok_def by blast
    then have "[1..<n + 1] @ map ev_eventSeq es = [1..<m + 1]" by (simp only: es map_append seqs)
    then have "map ev_eventSeq es = drop n [1..<m + 1]" by (metis append_eq_conv_conj diff_add_inverse2 length_upt)
    then have "map ev_eventSeq es = [n + 1..<m + 1]" by (simp only: drop_upt add.commute)
    then have "ev_eventSeq e \<in> set [n + 1..<m + 1]" using that by (metis image_eqI list.set_map)
    then show ?thesis by auto
  qed
  have "ev_eventSeq e \<le> n" if "e \<in> set (session_events db sid)" for e
  proof -
    have "ev_eventSeq e \<in> set (map ev_eventSeq (session_events db sid))" using that by simp
    then show ?thesis unfolding seqs by auto
  qed
  then have "filter (\<lambda>e. n < ev_eventSeq e) (session_events db' sid) = es"
    using later by (fastforce simp: es filter_empty_conv filter_id_conv)
  moreover have "filter (\<lambda>e. a < ev_eventSeq e) es = es" using later assms(4) by (fastforce simp: filter_id_conv)
  moreover have "map ob_payload (rd_outbox db') = rd_events db'"
    using ok'(2) unfolding events_ok_def by (intro nth_equalityI) (auto simp: list_all2_conv_all_nth mirrors_def)
  moreover have "map ev_eventSeq (filter (\<lambda>e. a < ev_eventSeq e) (session_events db sid)) = [a + 1..<n + 1]"
    by (rule filter_less_upt [OF seqs assms(4)])
  ultimately show ?thesis by (simp only: read) (simp add: es del: upt_Suc)
qed

text \<open>
  A cancelled run takes no more events and cannot be cancelled again, but nothing keeps it cancelled: the
  request that was running it may set it completed afterwards, and the run then holds the abort and the completion.
\<close>

theorem cancelled_run_completed_later:
  assumes "run_reaches empty_run_db db" "pg_findRun db i = Some r" "run_active r"
    and "eid \<notin> ev_eventId ` set (rd_events db)"
  shows "\<exists>db1. cancelRun pg_run_repository i eid now db = Inr (True, db1) \<and>
    (\<exists>e. ev_type e = Ev_run_aborted \<and> pg_listEvents db1 i = pg_listEvents db i @ [e] \<and>
      appendEvent pg_run_repository i type data eid' later db1 = Inl RUN_NOT_ACTIVE \<and>
      cancelRun pg_run_repository i eid' later db1 = Inr (False, db1) \<and>
      (eid' \<notin> ev_eventId ` set (rd_events db1) \<longrightarrow>
        (\<exists>db2 e' q. setStatus pg_run_repository i Run_completed data eid' later db1 = Inr db2 \<and> ev_type e' = Ev_run_completed \<and>
          pg_findRun db2 i = Some q \<and> ru_status q = Run_completed \<and> pg_listEvents db2 i = pg_listEvents db i @ [e, e'])))"
proof -
  from reached_ok [OF assms(1)] have ok: "runs_ok db \<and> events_ok db" .
  let ?r = "r\<lparr>ru_status := Run_aborted, ru_updatedAt := now\<rparr>"
  from pg_runs.cancel_active [unfolded pg_run_sel, OF ok assms(2-4), of now] obtain e db1 where
    c: "cancelRun pg_run_repository i eid now db = Inr (True, db1)" "runs_ok db1" "events_ok db1" "ev_type e = Ev_run_aborted"
      "pg_listEvents db1 i = pg_listEvents db i @ [e]" "pg_findRun db1 i = Some ?r" by blast
  have "appendEvent pg_run_repository i type data eid' later db1 = Inl RUN_NOT_ACTIVE"
    using c(6) by (simp add: appendEvent_def requireRun_def)
  moreover have "cancelRun pg_run_repository i eid' later db1 = Inr (False, db1)"
    by (rule pg_runs.cancel_ended [unfolded pg_run_sel, OF conjI [OF c(2,3)] c(6)]) simp
  moreover have "\<exists>db2 e' q. setStatus pg_run_repository i Run_completed data eid' later db1 = Inr db2 \<and> ev_type e' = Ev_run_completed \<and>
      pg_findRun db2 i = Some q \<and> ru_status q = Run_completed \<and> pg_listEvents db2 i = pg_listEvents db i @ [e, e']"
    if "eid' \<notin> ev_eventId ` set (rd_events db1)"
    using complete_any_run [OF c(2,3,6) that, of data later] unfolding c(5) append_assoc by simp
  ultimately show ?thesis using c by blast
qed

section \<open>Instances\<close>

definition sample_run_db :: run_db where
  "sample_run_db = \<lparr>rd_sessions = [(''s'', 0)], rd_runs = [new_run ''1'' ''s'' ''k'' 0], rd_events = [], rd_outbox = []\<rparr>"

lemma sample_run_db_reached: "run_reaches empty_run_db sample_run_db"
proof -
  let ?db = "\<lparr>rd_sessions = [(''s'', 0)], rd_runs = [], rd_events = [], rd_outbox = []\<rparr> :: run_db"
  have "run_step empty_run_db ?db"
    using run_step.session [of empty_run_db "''s''"] by (simp add: empty_run_db_def)
  moreover have "run_step ?db sample_run_db"
    by (rule run_step.start [of "''s''" "''k''" "''1''" 0 _ "new_run ''1'' ''s'' ''k'' 0"])
      (simp add: pg_startRunAtomic_def pg_findByIdempotency_def unique_run_def sample_run_db_def Let_def)
  ultimately show ?thesis by simp
qed

lemma sample_run_found:
  "pg_findRun sample_run_db ''1'' = Some (new_run ''1'' ''s'' ''k'' 0)" "run_active (new_run ''1'' ''s'' ''k'' 0)"
  "pg_findByIdempotency sample_run_db ''s'' ''k'' = Some (new_run ''1'' ''s'' ''k'' 0)"
  "pg_findByIdempotency sample_run_db ''s'' ''l'' = None" "pg_findActive sample_run_db ''s'' = Some (new_run ''1'' ''s'' ''k'' 0)"
  "jget (rd_sessions sample_run_db) ''s'' = Some 0"
  by (simp_all add: sample_run_db_def pg_findRun_def pg_findByIdempotency_def pg_findActive_def new_run_def)

theorem one_active_run_per_session_witness:
  "startRun pg_run_repository ''s'' ''k'' ''2'' 5 sample_run_db = Inr (new_run ''1'' ''s'' ''k'' 0, sample_run_db) \<and>
   startRun pg_run_repository ''s'' ''l'' ''2'' 5 sample_run_db = Inl SESSION_BUSY"
  using one_active_run_per_session [OF sample_run_db_reached, of "''s''" "''k''" "''2''" 5]
    one_active_run_per_session [OF sample_run_db_reached, of "''s''" "''l''" "''2''" 5] sample_run_found
  by simp

theorem session_events_resume_witness:
  "\<exists>e db'. pg_appendEventAtomic ''e'' 5 ''1'' Ev_tool_started [] sample_run_db = Inr (e, db') \<and>
     listSessionEvents pg_run_repository ''s'' 0 db' =
       listSessionEvents pg_run_repository ''s'' 0 sample_run_db @ listSessionEvents pg_run_repository ''s'' 0 db'"
proof -
  obtain e db' where e: "pg_appendEventAtomic ''e'' 5 ''1'' Ev_tool_started [] sample_run_db = Inr (e, db')"
    by (simp add: pg_appendEventAtomic_def sample_run_db_def new_run_def eventable_def store_event_def Let_def)
  then have "run_reaches sample_run_db db'" by (blast intro: run_step.atomic)
  from session_events_resume [OF sample_run_db_reached this sample_run_found(6), of 0] e show ?thesis by auto
qed

theorem cancelled_run_completed_later_witness:
  "\<exists>db1 e. cancelRun pg_run_repository ''1'' ''e'' 5 sample_run_db = Inr (True, db1) \<and>
     pg_listEvents db1 ''1'' = pg_listEvents sample_run_db ''1'' @ [e] \<and> ev_type e = Ev_run_aborted"
proof -
  have "''e'' \<notin> ev_eventId ` set (rd_events sample_run_db)" by (simp add: sample_run_db_def)
  from cancelled_run_completed_later [OF sample_run_db_reached sample_run_found(1,2) this, of 5] show ?thesis by blast
qed

end
