(* ===== verification/EventStreams.thy ===== *)
theory EventStreams
  imports RunRepository
begin

text \<open>
  Live events: \<^verbatim>\<open>application/run-event-stream.ts\<close> and, from \<^verbatim>\<open>api/app.ts\<close>, the
  route that streams the events of a session to a client, with \<open>toEnvelope\<close> and
  \<open>mergeRunEvents\<close>.  A listener is a number; \<open>publishEvent\<close> returns the listeners it calls, in
  the order of the calls.  No listener of the program unsubscribes inside the call.

  The route runs in pieces between its \<open>await\<close>s: the stored events are read, then they are merged with
  the live ones and written, then the active run is looked up, and only then the client is subscribed.
\<close>

section \<open>The event stream\<close>

record envelope =
  en_eventId :: string
  en_runId :: string
  en_sessionId :: string
  en_eventSeq :: nat
  en_type :: run_event_type
  en_runtimeVersion :: string
  en_data :: "(string \<times> json) list"

definition toEnvelope :: "agent_run_event \<Rightarrow> envelope" where
  "toEnvelope e = \<lparr>en_eventId = ev_eventId e, en_runId = ev_runId e, en_sessionId = ev_sessionId e,
     en_eventSeq = ev_eventSeq e, en_type = ev_type e, en_runtimeVersion = ev_runtimeVersion e, en_data = ev_data e\<rparr>"

text \<open>\<open>next.startsWith(previous) ? next.slice(previous.length) : next\<close>.\<close>

definition strictAssistantDelta :: "string \<Rightarrow> string \<Rightarrow> string" where
  "strictAssistantDelta previous nxt = (if js_starts nxt previous then drop (length previous) nxt else nxt)"

record event_stream =
  es_events :: "(string, envelope list) jmap"
  es_listeners :: "(string, nat list) jmap"
  es_sessionListeners :: "(string, nat list) jmap"
  es_sequences :: "(string, nat) jmap"

definition list_at :: "('k, 'v list) jmap \<Rightarrow> 'k \<Rightarrow> 'v list" where
  "list_at m k = (case jget m k of None \<Rightarrow> [] | Some xs \<Rightarrow> xs)"

definition sequence_of :: "event_stream \<Rightarrow> string \<Rightarrow> nat" where
  "sequence_of s sid = (case jget (es_sequences s) sid of None \<Rightarrow> 0 | Some n \<Rightarrow> n)"

definition publishEvent :: "envelope \<Rightarrow> event_stream \<Rightarrow> event_stream \<times> nat list" where
  "publishEvent e s =
     (let events = list_at (es_events s) (en_runId e)
      in if \<exists>f \<in> set events. en_eventId f = en_eventId e then (s, [])
         else (s\<lparr>es_events := jset (en_runId e) (sort_key en_eventSeq (events @ [e])) (es_events s),
                 es_sequences := jset (en_sessionId e) (max (sequence_of s (en_sessionId e)) (en_eventSeq e)) (es_sequences s)\<rparr>,
               list_at (es_listeners s) (en_runId e) @ list_at (es_sessionListeners s) (en_sessionId e)))"

definition publish :: "string \<Rightarrow> string \<Rightarrow> run_event_type \<Rightarrow> (string \<times> json) list \<Rightarrow> string \<Rightarrow> event_stream \<Rightarrow>
    envelope \<times> event_stream \<times> nat list" where
  "publish runId sessionId type data eventId s =
     (let eventSeq = sequence_of s sessionId + 1;
          s1 = s\<lparr>es_sequences := jset sessionId eventSeq (es_sequences s)\<rparr>;
          e = \<lparr>en_eventId = eventId, en_runId = runId, en_sessionId = sessionId, en_eventSeq = eventSeq,
            en_type = type, en_runtimeVersion = ''0.1.0'', en_data = data\<rparr>
      in (e, publishEvent e s1))"

definition replay :: "event_stream \<Rightarrow> string \<Rightarrow> nat \<Rightarrow> envelope list" where
  "replay s runId afterSeq = filter (\<lambda>e. afterSeq < en_eventSeq e) (list_at (es_events s) runId)"

definition replaySession :: "event_stream \<Rightarrow> string \<Rightarrow> nat \<Rightarrow> envelope list" where
  "replaySession s sessionId afterSeq =
     sort_key en_eventSeq (filter (\<lambda>e. en_sessionId e = sessionId \<and> afterSeq < en_eventSeq e) (concat (jvalues (es_events s))))"

definition latest :: "event_stream \<Rightarrow> string \<Rightarrow> envelope option" where
  "latest s runId = (case list_at (es_events s) runId of [] \<Rightarrow> None | es \<Rightarrow> Some (last es))"

text \<open>A \<open>Set\<close> of listeners: adding one that is there changes nothing.\<close>

definition add_listener :: "nat \<Rightarrow> nat list \<Rightarrow> nat list" where
  "add_listener l ls = (if l \<in> set ls then ls else ls @ [l])"

definition subscribe :: "string \<Rightarrow> nat \<Rightarrow> event_stream \<Rightarrow> event_stream" where
  "subscribe runId l s = s\<lparr>es_listeners := jset runId (add_listener l (list_at (es_listeners s) runId)) (es_listeners s)\<rparr>"

definition subscribeSession :: "string \<Rightarrow> nat \<Rightarrow> event_stream \<Rightarrow> event_stream" where
  "subscribeSession sid l s =
     s\<lparr>es_sessionListeners := jset sid (add_listener l (list_at (es_sessionListeners s) sid)) (es_sessionListeners s)\<rparr>"

definition unsubscribe :: "string \<Rightarrow> nat \<Rightarrow> event_stream \<Rightarrow> event_stream" where
  "unsubscribe runId l s = s\<lparr>es_listeners := jset runId (removeAll l (list_at (es_listeners s) runId)) (es_listeners s)\<rparr>"

definition unsubscribeSession :: "string \<Rightarrow> nat \<Rightarrow> event_stream \<Rightarrow> event_stream" where
  "unsubscribeSession sid l s =
     s\<lparr>es_sessionListeners := jset sid (removeAll l (list_at (es_sessionListeners s) sid)) (es_sessionListeners s)\<rparr>"

section \<open>The route that streams a session\<close>

definition mergeRunEvents :: "envelope list \<Rightarrow> envelope list \<Rightarrow> envelope list" where
  "mergeRunEvents left right = sort_key en_eventSeq (jvalues (fold (\<lambda>e m. jset (en_eventId e) e m) (left @ right) []))"

record sse_client =
  cl_lastSeq :: nat
  cl_written :: "envelope list"

definition sse_write :: "envelope \<Rightarrow> sse_client \<Rightarrow> sse_client" where
  "sse_write e c = (if en_eventSeq e \<le> cl_lastSeq c then c
     else \<lparr>cl_lastSeq = en_eventSeq e, cl_written = cl_written c @ [e]\<rparr>)"

text \<open>\<open>Number.parseInt\<close> of the query gave an integer; a cursor that is negative or unsafe is 0.\<close>

definition cursor_of :: "int option \<Rightarrow> nat" where
  "cursor_of afterSeq = (case afterSeq of None \<Rightarrow> 0 | Some a \<Rightarrow> if 0 \<le> a \<and> a < 2 ^ 53 then nat a else 0)"

definition open_stream :: "nat \<Rightarrow> agent_run_event list \<Rightarrow> event_stream \<Rightarrow> string \<Rightarrow> sse_client" where
  "open_stream cursor persisted s sid =
     fold sse_write (mergeRunEvents (map toEnvelope persisted) (replaySession s sid cursor)) \<lparr>cl_lastSeq = cursor, cl_written = []\<rparr>"

text \<open>
  What happens to one client \<open>l\<close> of session \<open>sid\<close>: events are published, and once the look-up of
  the active run has returned, the client is subscribed.  \<open>None\<close> marks that point.
\<close>

fun client_step :: "string \<Rightarrow> nat \<Rightarrow> envelope option \<Rightarrow> event_stream \<times> sse_client \<Rightarrow> event_stream \<times> sse_client" where
  "client_step sid l None (s, c) = (subscribeSession sid l s, c)"
| "client_step sid l (Some e) (s, c) = (let (s', called) = publishEvent e s
     in (s', if l \<in> set called then sse_write e c else c))"

definition client_run :: "string \<Rightarrow> nat \<Rightarrow> envelope option list \<Rightarrow> event_stream \<times> sse_client \<Rightarrow> event_stream \<times> sse_client" where
  "client_run sid l = fold (client_step sid l)"

section \<open>What a client is sent\<close>

text \<open>A client is sent events with growing numbers after its cursor, and its cursor is the last number sent.\<close>

definition client_ok :: "nat \<Rightarrow> sse_client \<Rightarrow> bool" where
  "client_ok cursor c \<longleftrightarrow> sorted_wrt (\<lambda>a b. en_eventSeq a < en_eventSeq b) (cl_written c)
     \<and> (\<forall>e \<in> set (cl_written c). cursor < en_eventSeq e \<and> en_eventSeq e \<le> cl_lastSeq c) \<and> cursor \<le> cl_lastSeq c"

lemma write_ok: "client_ok cursor c \<Longrightarrow> client_ok cursor (sse_write e c)"
  by (auto simp: client_ok_def sse_write_def sorted_wrt_append)

lemma write_extends: "\<exists>ys. cl_written (sse_write e c) = cl_written c @ ys"
  by (simp add: sse_write_def)

lemma fold_write_ok: "client_ok cursor c \<Longrightarrow> client_ok cursor (fold sse_write es c)"
  by (induction es arbitrary: c) (simp_all add: write_ok)

lemma client_step_ok: "client_ok cursor c \<Longrightarrow> client_step sid l x (s, c) = (s', c') \<Longrightarrow> client_ok cursor c'"
  by (cases x) (auto simp: write_ok split: prod.splits if_splits)

lemma client_step_extends: "client_step sid l x (s, c) = (s', c') \<Longrightarrow> \<exists>ys. cl_written c' = cl_written c @ ys"
  by (cases x) (auto simp: write_extends split: prod.splits if_splits)

lemma client_run_ok: "client_ok cursor c \<Longrightarrow> client_run sid l xs (s, c) = (s', c') \<Longrightarrow> client_ok cursor c'"
proof (induction xs arbitrary: s c)
  case (Cons x xs)
  obtain s1 c1 where one: "client_step sid l x (s, c) = (s1, c1)" by fastforce
  then show ?case using Cons client_step_ok [OF Cons.prems(1) one] by (simp add: client_run_def)
qed (simp add: client_run_def)

lemma client_run_extends: "client_run sid l xs (s, c) = (s', c') \<Longrightarrow> \<exists>ys. cl_written c' = cl_written c @ ys"
proof (induction xs arbitrary: s c)
  case (Cons x xs)
  obtain s1 c1 where one: "client_step sid l x (s, c) = (s1, c1)" by fastforce
  then have "\<exists>ys. cl_written c' = cl_written c1 @ ys" using Cons by (simp add: client_run_def)
  then show ?case using client_step_extends [OF one] by auto
qed (simp add: client_run_def)

text \<open>Writing a sorted list whose numbers differ sends the part of it that is after the cursor.\<close>

lemma fold_write_sorted:
  assumes "sorted_wrt (\<lambda>a b. en_eventSeq a < en_eventSeq b) es"
  shows "cl_written (fold sse_write es c) = cl_written c @ filter (\<lambda>e. cl_lastSeq c < en_eventSeq e) es"
  using assms
proof (induction es arbitrary: c)
  case (Cons e es)
  show ?case
  proof (cases "cl_lastSeq c < en_eventSeq e")
    case True
    have "filter (\<lambda>x. en_eventSeq e < en_eventSeq x) es = filter (\<lambda>x. cl_lastSeq c < en_eventSeq x) es"
      using Cons.prems True by (intro filter_cong) auto
    with Cons True show ?thesis by (simp add: sse_write_def)
  next
    case False
    with Cons show ?thesis by (simp add: sse_write_def)
  qed
qed simp

text \<open>When no two events share an id, merging loses none of them and keeps each once.\<close>

lemma merged_map:
  assumes "inj_on en_eventId (set es)"
  shows "jmap_ok (fold (\<lambda>e m. jset (en_eventId e) e m) es []) \<and>
    (\<forall>k v. jget (fold (\<lambda>e m. jset (en_eventId e) e m) es []) k = Some v \<longleftrightarrow> v \<in> set es \<and> k = en_eventId v)"
  using assms
proof (induction es rule: rev_induct)
  case (snoc e es)
  then have "inj_on en_eventId (set es)" by (auto intro: inj_on_subset)
  note IH = snoc.IH [OF this]
  have "en_eventId e = en_eventId v \<longleftrightarrow> e = v" if "v \<in> set es" for v
    using snoc.prems that by (auto simp: inj_on_def)
  with IH show ?case by auto
qed simp

lemma mergeRunEvents_sorted:
  assumes "inj_on en_eventId (set (ls @ rs))" "inj_on en_eventSeq (set (ls @ rs))"
  shows "set (mergeRunEvents ls rs) = set ls \<union> set rs"
    and "sorted_wrt (\<lambda>a b. en_eventSeq a < en_eventSeq b) (mergeRunEvents ls rs)"
proof -
  define m where "m = fold (\<lambda>e m. jset (en_eventId e) e m) (ls @ rs) []"
  note M = merged_map [OF assms(1), folded m_def]
  show set: "set (mergeRunEvents ls rs) = set ls \<union> set rs"
    unfolding mergeRunEvents_def m_def [symmetric] set_sort using jvalues_mem [of m] M by auto
  have pairs: "k = en_eventId v" if "(k, v) \<in> set m" for k v
    using M that by (metis map_of_is_SomeI)
  have "inj_on snd (set m)" by (rule inj_onI) (metis pairs prod.collapse)
  moreover have "distinct m" using M [THEN conjunct1] by (simp only: distinct_map)
  ultimately have "distinct (jvalues m)" by (simp only: distinct_map)
  then have "distinct (mergeRunEvents ls rs)" unfolding mergeRunEvents_def m_def [symmetric] by simp
  moreover have "sorted (map en_eventSeq (mergeRunEvents ls rs))" by (simp add: mergeRunEvents_def)
  moreover have "inj_on en_eventSeq (set (mergeRunEvents ls rs))" using assms(2) set by simp
  ultimately have "sorted_wrt (<) (map en_eventSeq (mergeRunEvents ls rs))"
    by (simp add: distinct_map strict_sorted_iff)
  then show "sorted_wrt (\<lambda>a b. en_eventSeq a < en_eventSeq b) (mergeRunEvents ls rs)" by (simp add: sorted_wrt_map)
qed

text \<open>Envelopes of stored events of one session differ in id and number.\<close>

lemma stored_envelopes:
  assumes "events_ok db" "jget (rd_sessions db) sid = Some n"
  shows "inj_on en_eventId (toEnvelope ` set (session_events db sid))" "inj_on en_eventSeq (toEnvelope ` set (session_events db sid))"
proof -
  have "distinct (map ev_eventId (rd_events db))" using assms(1) by (simp add: events_ok_def)
  then have "inj_on ev_eventId (set (session_events db sid))"
    by (auto simp: distinct_map session_events_def intro: inj_on_subset)
  then show "inj_on en_eventId (toEnvelope ` set (session_events db sid))" by (auto simp: inj_on_def toEnvelope_def)
  have "map ev_eventSeq (session_events db sid) = [1..<n + 1]" using assms unfolding events_ok_def by blast
  then have "distinct (map ev_eventSeq (session_events db sid))" by (simp only: distinct_upt)
  then have "inj_on ev_eventSeq (set (session_events db sid))" by (simp add: distinct_map)
  then show "inj_on en_eventSeq (toEnvelope ` set (session_events db sid))" by (auto simp: inj_on_def toEnvelope_def)
qed

text \<open>The live stream holds events that are stored.\<close>

definition stream_ok :: "event_stream \<Rightarrow> run_db \<Rightarrow> bool" where
  "stream_ok s db \<longleftrightarrow> (\<forall>e \<in> set (concat (jvalues (es_events s))). \<exists>a \<in> set (rd_events db). e = toEnvelope a)"

lemma replaySession_stored:
  "stream_ok s db \<Longrightarrow> e \<in> set (replaySession s sid a) \<Longrightarrow> e \<in> toEnvelope ` set (session_events db sid) \<and> a < en_eventSeq e"
  by (fastforce simp: stream_ok_def replaySession_def session_events_def toEnvelope_def)

lemma open_stream_written:
  assumes "runs_ok db" "events_ok db" "run_reaches db db'" "jget (rd_sessions db) sid = Some n" "stream_ok s db'"
    and c_def: "c = open_stream cursor (listSessionEvents pg_run_repository sid cursor db) s sid"
  shows "set (cl_written c) = toEnvelope ` set (listSessionEvents pg_run_repository sid cursor db) \<union> set (replaySession s sid cursor)"
    and "client_ok cursor c"
proof -
  let ?ls = "map toEnvelope (listSessionEvents pg_run_repository sid cursor db)" and ?rs = "replaySession s sid cursor"
  have ok': "runs_ok db'" "events_ok db'" using run_reaches_ok [OF assms(3,1,2)] by simp_all
  have "jget (rd_sessions db') sid \<noteq> None" using run_reaches_session [OF assms(3)] assms(4) by blast
  then obtain m where m: "jget (rd_sessions db') sid = Some m" by blast
  have "set (session_events db sid) \<subseteq> set (session_events db' sid)"
    using run_reaches_extends [OF assms(3)] by (auto simp: session_events_def)
  then have "set (?ls @ ?rs) \<subseteq> toEnvelope ` set (session_events db' sid)"
    using replaySession_stored [OF assms(5)] by (auto simp: pg_listSessionEvents_eq [OF assms(2,1)])
  note inj = stored_envelopes [OF ok'(2) m, THEN inj_on_subset, OF this]
  have after: "\<forall>e \<in> set (?ls @ ?rs). cursor < en_eventSeq e"
    using replaySession_stored [OF assms(5)] by (auto simp: pg_listSessionEvents_eq [OF assms(2,1)] toEnvelope_def)
  have "cl_written c = mergeRunEvents ?ls ?rs"
    using fold_write_sorted [OF mergeRunEvents_sorted(2) [OF inj]] mergeRunEvents_sorted(1) [OF inj] after
    by (auto simp: c_def open_stream_def filter_id_conv)
  with mergeRunEvents_sorted(1) [OF inj] show "set (cl_written c) = toEnvelope ` set (listSessionEvents pg_run_repository sid cursor db) \<union> set ?rs"
    by simp
  show "client_ok cursor c" unfolding c_def open_stream_def by (rule fold_write_ok) (simp add: client_ok_def)
qed

text \<open>
  C21. A client that opens the stream of a session after a cursor is sent every event that was stored when the route read
  the table, and every live one the process still holds; then and later, whatever is published, it is sent events with growing
  numbers, all after its cursor: none twice, and nothing that it was sent is withdrawn.
\<close>

theorem session_stream_delivers:
  assumes "run_reaches empty_run_db db" "run_reaches db db'" "jget (rd_sessions db) sid = Some n" "stream_ok s db'"
    and "client_run sid l xs (s, open_stream cursor (listSessionEvents pg_run_repository sid cursor db) s sid) = (s', c)"
  shows "sorted_wrt (\<lambda>a b. en_eventSeq a < en_eventSeq b) (cl_written c) \<and>
    (\<forall>e \<in> set (cl_written c). cursor < en_eventSeq e \<and> en_eventSeq e \<le> cl_lastSeq c) \<and>
    toEnvelope ` set (listSessionEvents pg_run_repository sid cursor db) \<union> set (replaySession s sid cursor) \<subseteq> set (cl_written c)"
proof -
  have ok: "runs_ok db" "events_ok db" using reached_ok [OF assms(1)] by simp_all
  note opened = open_stream_written [OF ok assms(2-4) refl, of cursor]
  from client_run_ok [OF opened(2) assms(5)] client_run_extends [OF assms(5)] opened(1)
  show ?thesis by (auto simp: client_ok_def)
qed

text \<open>A publication calls the listeners of the run and of the session, unless the run has the event.\<close>

definition unpublished :: "event_stream \<Rightarrow> envelope \<Rightarrow> bool" where
  "unpublished s e \<longleftrightarrow> (\<forall>f \<in> set (list_at (es_events s) (en_runId e)). en_eventId f \<noteq> en_eventId e)"

lemma list_at_jset [simp]: "list_at (jset k xs m) j = (if j = k then xs else list_at m j)"
  by (simp add: list_at_def)

lemma publishEvent_new:
  "unpublished s e \<Longrightarrow> publishEvent e s = (s\<lparr>es_events := jset (en_runId e) (sort_key en_eventSeq (list_at (es_events s) (en_runId e) @ [e])) (es_events s),
      es_sequences := jset (en_sessionId e) (max (sequence_of s (en_sessionId e)) (en_eventSeq e)) (es_sequences s)\<rparr>,
    list_at (es_listeners s) (en_runId e) @ list_at (es_sessionListeners s) (en_sessionId e))"
  by (auto simp: publishEvent_def Let_def unpublished_def)

lemma client_publish:
  assumes "unpublished s e" "en_sessionId e = sid" "\<And>r. l \<notin> set (list_at (es_listeners s) r)"
  shows "\<exists>s'. client_step sid l (Some e) (s, c) = (s', if l \<in> set (list_at (es_sessionListeners s) sid) then sse_write e c else c) \<and>
    es_listeners s' = es_listeners s \<and> es_sessionListeners s' = es_sessionListeners s \<and>
    (\<forall>f. unpublished s f \<and> en_eventId f \<noteq> en_eventId e \<longrightarrow> unpublished s' f)"
  using assms(2,3) unfolding client_step.simps publishEvent_new [OF assms(1)] by (auto simp: unpublished_def)

lemma client_subscribe:
  "\<exists>s'. client_step sid l None (s, c) = (s', c) \<and> l \<in> set (list_at (es_sessionListeners s') sid) \<and>
    es_listeners s' = es_listeners s \<and> (\<forall>f. unpublished s f \<longrightarrow> unpublished s' f)"
  by (simp add: subscribeSession_def add_listener_def unpublished_def)

text \<open>
  The route subscribes a client only after it has written the events it read and has looked up the active run: an
  event that is published in between is never sent to the client, and the next event moves the client's cursor past it, so that
  resuming from the cursor does not bring it back.  The same happens when two events are published in the other order
  than their numbers.
\<close>

theorem event_before_subscription_lost:
  assumes "unpublished s e1" "unpublished s e2" "en_eventId e1 \<noteq> en_eventId e2" "en_sessionId e1 = sid" "en_sessionId e2 = sid"
    and "cl_lastSeq c < en_eventSeq e1" "en_eventSeq e1 < en_eventSeq e2"
    and "l \<notin> set (list_at (es_sessionListeners s) sid)" "\<And>r. l \<notin> set (list_at (es_listeners s) r)"
  shows "(\<exists>s'. client_run sid l [Some e1, None, Some e2] (s, c) = (s', \<lparr>cl_lastSeq = en_eventSeq e2, cl_written = cl_written c @ [e2]\<rparr>)) \<and>
    (\<exists>s'. client_run sid l [None, Some e2, Some e1] (s, c) = (s', \<lparr>cl_lastSeq = en_eventSeq e2, cl_written = cl_written c @ [e2]\<rparr>)) \<and>
    (\<exists>s'. client_run sid l [None, Some e1, Some e2] (s, c) = (s', \<lparr>cl_lastSeq = en_eventSeq e2, cl_written = cl_written c @ [e1, e2]\<rparr>)) \<and>
    (\<forall>db a. toEnvelope a = e1 \<longrightarrow> a \<notin> set (listSessionEvents pg_run_repository sid (en_eventSeq e2) db))"
proof -
  from client_subscribe [of sid l s c] obtain s1 where s1: "client_step sid l None (s, c) = (s1, c)"
    "l \<in> set (list_at (es_sessionListeners s1) sid)" "\<And>r. l \<notin> set (list_at (es_listeners s1) r)" "unpublished s1 e1" "unpublished s1 e2"
    using assms(1,2,9) by auto
  have both: "\<exists>s'. client_run sid l [None, Some e, Some f] (s, c) = (s', sse_write f (sse_write e c))"
    if ef: "e = e1 \<and> f = e2 \<or> e = e2 \<and> f = e1" for e f
  proof -
    have e: "unpublished s1 e" "en_sessionId e = sid" "en_eventId f \<noteq> en_eventId e" and f: "unpublished s1 f" "en_sessionId f = sid"
      using ef s1(4,5) assms(3-5) by auto
    from client_publish [OF e(1,2) s1(3), of c] s1(2) obtain s2 where s2: "client_step sid l (Some e) (s1, c) = (s2, sse_write e c)"
      "l \<in> set (list_at (es_sessionListeners s2) sid)" "\<And>r. l \<notin> set (list_at (es_listeners s2) r)" "unpublished s2 f"
      using e(3) f(1) s1(3) by auto
    from client_publish [OF s2(4) f(2) s2(3), of "sse_write e c"] s2(2) obtain s3 where
      "client_step sid l (Some f) (s2, sse_write e c) = (s3, sse_write f (sse_write e c))" by auto
    with s1(1) s2(1) show ?thesis by (simp add: client_run_def)
  qed
  have gap: "\<exists>s'. client_run sid l [Some e1, None, Some e2] (s, c) = (s', sse_write e2 c)"
  proof -
    from client_publish [OF assms(1,4,9), of c] assms(2,3,8,9) obtain s2 where s2: "client_step sid l (Some e1) (s, c) = (s2, c)"
      "\<And>r. l \<notin> set (list_at (es_listeners s2) r)" "unpublished s2 e2" by auto
    from client_subscribe [of sid l s2 c] s2(2,3) obtain s3 where s3: "client_step sid l None (s2, c) = (s3, c)"
      "l \<in> set (list_at (es_sessionListeners s3) sid)" "\<And>r. l \<notin> set (list_at (es_listeners s3) r)" "unpublished s3 e2" by auto
    from client_publish [OF s3(4) assms(5) s3(3), of c] s3(2) obtain s4 where
      "client_step sid l (Some e2) (s3, c) = (s4, sse_write e2 c)" by auto
    with s2(1) s3(1) show ?thesis by (simp add: client_run_def)
  qed
  have "a \<notin> set (listSessionEvents pg_run_repository sid (en_eventSeq e2) db)" if "toEnvelope a = e1" for a db
    using that assms(7) by (auto simp: listSessionEvents_def toEnvelope_def)
  moreover have "sse_write e2 c = \<lparr>cl_lastSeq = en_eventSeq e2, cl_written = cl_written c @ [e2]\<rparr>"
    "sse_write e1 (sse_write e2 c) = \<lparr>cl_lastSeq = en_eventSeq e2, cl_written = cl_written c @ [e2]\<rparr>"
    "sse_write e2 (sse_write e1 c) = \<lparr>cl_lastSeq = en_eventSeq e2, cl_written = cl_written c @ [e1, e2]\<rparr>"
    using assms(6,7) by (simp_all add: sse_write_def)
  ultimately show ?thesis using gap both [of e2 e1] both [of e1 e2] by auto
qed

section \<open>Instances\<close>

definition empty_stream :: event_stream where
  "empty_stream = \<lparr>es_events = [], es_listeners = [], es_sessionListeners = [], es_sequences = []\<rparr>"

definition sample_envelope :: "string \<Rightarrow> nat \<Rightarrow> envelope" where
  "sample_envelope i n = \<lparr>en_eventId = i, en_runId = ''1'', en_sessionId = ''s'', en_eventSeq = n,
     en_type = Ev_tool_started, en_runtimeVersion = ''0.1.0'', en_data = []\<rparr>"

theorem event_before_subscription_lost_witness:
  "\<exists>s'. client_run ''s'' 7 [Some (sample_envelope ''a'' 1), None, Some (sample_envelope ''b'' 2)]
     (empty_stream, \<lparr>cl_lastSeq = 0, cl_written = []\<rparr>) = (s', \<lparr>cl_lastSeq = 2, cl_written = [sample_envelope ''b'' 2]\<rparr>)"
  using event_before_subscription_lost [of empty_stream "sample_envelope ''a'' 1" "sample_envelope ''b'' 2" "''s''"
      "\<lparr>cl_lastSeq = 0, cl_written = []\<rparr>" 7]
  by (simp add: sample_envelope_def empty_stream_def unpublished_def list_at_def)

theorem session_stream_delivers_witness:
  "\<exists>db e s' c. pg_appendEventAtomic ''e'' 5 ''1'' Ev_tool_started [] sample_run_db = Inr (e, db) \<and>
     client_run ''s'' 7 [None] (empty_stream, open_stream 0 (listSessionEvents pg_run_repository ''s'' 0 db) empty_stream ''s'') = (s', c) \<and>
     toEnvelope e \<in> set (cl_written c)"
proof -
  obtain e db where e: "pg_appendEventAtomic ''e'' 5 ''1'' Ev_tool_started [] sample_run_db = Inr (e, db)"
    "jget (rd_sessions db) ''s'' = Some 1" "e \<in> set (listSessionEvents pg_run_repository ''s'' 0 db)"
    by (simp add: pg_appendEventAtomic_def sample_run_db_def new_run_def eventable_def store_event_def Let_def
        listSessionEvents_def pg_listSessionEvents_def)
  have "run_reaches sample_run_db db" using e(1) by (blast intro: run_step.atomic)
  with sample_run_db_reached have "run_reaches empty_run_db db" by (rule rtranclp_trans)
  moreover have "stream_ok empty_stream db" by (simp add: stream_ok_def empty_stream_def)
  moreover obtain s' c where run: "client_run ''s'' 7 [None] (empty_stream,
      open_stream 0 (listSessionEvents pg_run_repository ''s'' 0 db) empty_stream ''s'') = (s', c)" by fastforce
  ultimately have "toEnvelope ` set (listSessionEvents pg_run_repository ''s'' 0 db) \<subseteq> set (cl_written c)"
    using session_stream_delivers [OF _ rtranclp.rtrancl_refl e(2)] by blast
  with e(1,3) run show ?thesis by blast
qed

end
