(* ===== verification/RunRoutes.thy ===== *)
theory RunRoutes
  imports EventStreams
begin

text \<open>
  How the routes of \<^verbatim>\<open>api/app.ts\<close> drive a run: the message route (start of the run, the events of the model's
  turn, the end of the turn) and the cancel route.  The state is the run repository with the two collections the server
  keeps in memory, \<open>activeRuns\<close> and \<open>cancelledSessions\<close>.

  Left out: the messages and usage counters written beside the run, the response itself, and what the model does inside a
  turn, which enters as the list of its events.  The pieces of a route are run one after the other here; what other requests
  do in between is the subject of the run repository's own theorems.
\<close>

section \<open>Events of a turn\<close>

datatype turn_event_type = Turn_thinking | Turn_assistant_message | Turn_tool_started | Turn_tool | Turn_usage | Turn_error

record turn_event =
  te_type :: turn_event_type
  te_content :: "string option"
  te_toolName :: "string option"
  te_details :: "json option"
  te_totalTokens :: "nat option"
  te_errorCode :: "string option"
  te_ok :: "bool option"

text \<open>A property whose value is \<open>undefined\<close> is left out when the event's data is stored.\<close>

definition opt_field :: "string \<Rightarrow> json option \<Rightarrow> (string \<times> json) list" where
  "opt_field k v = (case v of None \<Rightarrow> [] | Some x \<Rightarrow> [(k, x)])"

definition error_code_of :: "turn_event \<Rightarrow> string" where
  "error_code_of e = (case te_errorCode e of None \<Rightarrow> ''MODEL_UNAVAILABLE'' | Some c \<Rightarrow> c)"

text \<open>What \<open>persistTurnEvent\<close> appends for an event, and the assistant's text after it.\<close>

definition turn_payload :: "turn_event \<Rightarrow> string \<Rightarrow> (run_event_type \<times> (string \<times> json) list) option \<times> string" where
  "turn_payload e assistantText =
     (if te_type e = Turn_assistant_message \<and> truthy (te_content e) then
        (let content = the (te_content e);
             delta = (if js_starts content assistantText then drop (length assistantText) content else content)
         in (if delta = [] then None else Some (Ev_assistant_delta, [(''text'', JStr delta)]), content))
      else if te_type e = Turn_tool_started then
        (Some (Ev_tool_started, opt_field ''tool'' (map_option JStr (te_toolName e)) @ opt_field ''args'' (te_details e)), assistantText)
      else if te_type e = Turn_tool then
        (Some (Ev_tool_completed, opt_field ''tool'' (map_option JStr (te_toolName e)) @ opt_field ''details'' (te_details e) @
          [(''ok'', JBool (te_ok e \<noteq> Some False))]), assistantText)
      else if te_type e = Turn_error then
        (Some (if te_errorCode e = Some ''RUN_ABORTED'' then Ev_run_aborted else Ev_run_failed,
          (''errorCode'', JStr (error_code_of e)) # opt_field ''message'' (map_option JStr (te_content e))), assistantText)
      else (None, assistantText))"

definition persistTurnEvent :: "'s run_repository \<Rightarrow> string \<Rightarrow> turn_event \<Rightarrow> string \<Rightarrow> string \<Rightarrow> int \<Rightarrow> 's \<Rightarrow>
    run_error + (string \<times> agent_run_event option \<times> 's)" where
  "persistTurnEvent repo runId e assistantText eventId now s = (case turn_payload e assistantText of
     (None, text) \<Rightarrow> Inr (text, None, s)
   | (Some (type, data), text) \<Rightarrow> (case appendEvent repo runId type data eventId now s of
       Inr (persisted, s') \<Rightarrow> Inr (text, Some persisted, s')
     | Inl err \<Rightarrow> throw_if (err \<noteq> RUN_NOT_ACTIVE) err (Inr (text, None, s))))"

fun persistTurnEvents :: "'s run_repository \<Rightarrow> string \<Rightarrow> turn_event list \<Rightarrow> string \<Rightarrow> (nat \<Rightarrow> string) \<Rightarrow> int \<Rightarrow> 's \<Rightarrow> run_error + 's" where
  "persistTurnEvents repo runId [] text ids now s = Inr s"
| "persistTurnEvents repo runId (e # es) text ids now s =
     rbind (persistTurnEvent repo runId e text (ids 0) now s) (\<lambda>(text', _, s').
       persistTurnEvents repo runId es text' (\<lambda>n. ids (Suc n)) now s')"

section \<open>What the message route keeps of a live turn\<close>

record live_turn =
  lt_assistantText :: string
  lt_count :: nat
  lt_repeatedReadLimitReached :: bool
  lt_toolCalls :: "(string, nat) jmap"
  lt_errorCode :: "string option"

definition fresh_turn :: live_turn where
  "fresh_turn = \<lparr>lt_assistantText = [], lt_count = 0, lt_repeatedReadLimitReached = False, lt_toolCalls = [], lt_errorCode = None\<rparr>"

text \<open>The hook \<open>onEvent\<close>, up to the call of \<open>persistTurnEvent\<close>.\<close>

definition note_event :: "turn_event \<Rightarrow> live_turn \<Rightarrow> live_turn" where
  "note_event e live =
     (let l1 = live\<lparr>lt_count := lt_count live + 1\<rparr>;
          calls = (case jget (lt_toolCalls l1) ''get_canvas_summary'' of None \<Rightarrow> 0 | Some n \<Rightarrow> n) + 1;
          l2 = (if te_type e = Turn_tool_started \<and> te_toolName e = Some ''get_canvas_summary''
            then l1\<lparr>lt_toolCalls := jset ''get_canvas_summary'' calls (lt_toolCalls l1),
                    lt_repeatedReadLimitReached := lt_repeatedReadLimitReached l1 \<or> 2 \<le> calls\<rparr> else l1);
          l3 = (if te_type e = Turn_error then l2\<lparr>lt_errorCode := Some (error_code_of e)\<rparr> else l2)
      in if te_type e = Turn_tool \<and> te_ok e = Some False \<and> truthy (te_errorCode e)
         then l3\<lparr>lt_errorCode := te_errorCode e\<rparr> else l3)"

definition onEvent :: "'s run_repository \<Rightarrow> string \<Rightarrow> turn_event \<Rightarrow> string \<Rightarrow> int \<Rightarrow> live_turn \<times> 's \<Rightarrow> run_error + (live_turn \<times> 's)" where
  "onEvent repo runId e eventId now = (\<lambda>(live, s).
     rbind (persistTurnEvent repo runId e (lt_assistantText live) eventId now s) (\<lambda>(text, _, s').
       Inr ((note_event e live)\<lparr>lt_assistantText := text\<rparr>, s')))"

section \<open>The routes\<close>

record 's server =
  sv_runs :: 's
  sv_activeRuns :: "(string, string) jmap"
  sv_cancelledSessions :: "string list"

definition shouldStopAfterTurn :: "'s run_repository \<Rightarrow> string \<Rightarrow> string \<Rightarrow> live_turn \<Rightarrow> 's server \<Rightarrow> bool" where
  "shouldStopAfterTurn repo sessionId runId live sv \<longleftrightarrow> sessionId \<in> set (sv_cancelledSessions sv) \<or> truthy (lt_errorCode live)
     \<or> lt_repeatedReadLimitReached live \<or> map_option ru_status (rr_findById repo (sv_runs sv) runId) = Some Run_aborted"

datatype begun = Replayed "agent_run_event list" | Begun agent_run

definition enter_turn :: "'s run_repository \<Rightarrow> string \<Rightarrow> agent_run \<Rightarrow> int \<Rightarrow> 's server \<Rightarrow> run_error + 's server" where
  "enter_turn repo sessionId run now sv =
     rbind (rr_updateStatus repo now (ru_runId run) Run_running (sv_runs sv)) (\<lambda>s.
       Inr (sv\<lparr>sv_runs := s, sv_activeRuns := jset sessionId (ru_runId run) (sv_activeRuns sv)\<rparr>))"

text \<open>The route up to the start of the turn: a key that was used is answered with the events of its run.\<close>

definition begin_message :: "'s run_repository \<Rightarrow> string \<Rightarrow> string \<Rightarrow> string \<Rightarrow> int \<Rightarrow> 's server \<Rightarrow> run_error + (begun \<times> 's server)" where
  "begin_message repo sessionId idempotencyKey newId now sv =
     (case rr_findByIdempotency repo (sv_runs sv) sessionId idempotencyKey of
        Some existing \<Rightarrow> Inr (Replayed (listEvents repo (ru_runId existing) 0 (sv_runs sv)), sv)
      | None \<Rightarrow> rbind (startRun repo sessionId idempotencyKey newId now (sv_runs sv)) (\<lambda>(run, s1).
          rbind (enter_turn repo sessionId run now (sv\<lparr>sv_runs := s1\<rparr>)) (\<lambda>sv'. Inr (Begun run, sv'))))"

datatype turn_exit = Exit_cancelled | Exit_waiting | Exit_failed | Exit_completed

text \<open>
  The route after the turn.  \<open>reply\<close> is the text of the reply, \<open>failure\<close> the message of a failed run, \<open>outcome\<close> the
  events the turn returned; the last step is the \<open>finally\<close> block.
\<close>

definition finish_message :: "'s run_repository \<Rightarrow> string \<Rightarrow> string \<Rightarrow> live_turn \<Rightarrow> turn_event list \<Rightarrow> string \<Rightarrow> string \<Rightarrow> (nat \<Rightarrow> string) \<Rightarrow> int \<Rightarrow>
    's server \<Rightarrow> run_error + (turn_exit \<times> 's server)" where
  "finish_message repo sessionId runId live outcome reply failure ids now sv =
     (let s = sv_runs sv;
          status = map_option ru_status (rr_findById repo s runId);
          done = (\<lambda>s'. sv\<lparr>sv_runs := s', sv_activeRuns := jdel sessionId (sv_activeRuns sv)\<rparr>)
      in if sessionId \<in> set (sv_cancelledSessions sv)
         then Inr (Exit_cancelled, (done s)\<lparr>sv_cancelledSessions := removeAll sessionId (sv_cancelledSessions sv)\<rparr>)
         else if status = Some Run_aborted then Inr (Exit_cancelled, done s)
         else if status = Some Run_waiting_confirmation then Inr (Exit_waiting, done s)
         else if truthy (lt_errorCode live) then
           (if lt_errorCode live = Some ''RUN_ABORTED''
            then rbind (cancelRun repo runId (ids 0) now s) (\<lambda>(_, s'). Inr (Exit_failed, done s'))
            else rbind (setStatus repo runId Run_failed [(''errorCode'', JStr (the (lt_errorCode live))), (''message'', JStr failure)] (ids 0) now s)
              (\<lambda>s'. Inr (Exit_failed, done s')))
         else rbind (if lt_count live = 0 then persistTurnEvents repo runId outcome [] (\<lambda>n. ids (Suc n)) now s else Inr s) (\<lambda>s1.
           rbind (setStatus repo runId Run_completed [(''text'', JStr reply)] (ids 0) now s1) (\<lambda>s2. Inr (Exit_completed, done s2))))"

definition cancel_session :: "'s run_repository \<Rightarrow> string \<Rightarrow> string \<Rightarrow> int \<Rightarrow> 's server \<Rightarrow> run_error + (bool \<times> 's server)" where
  "cancel_session repo sessionId eventId now sv =
     (case (case jget (sv_activeRuns sv) sessionId of Some i \<Rightarrow> Some i
            | None \<Rightarrow> map_option ru_runId (rr_findActive repo (sv_runs sv) sessionId)) of
        None \<Rightarrow> Inr (False, sv)
      | Some runId \<Rightarrow> rbind (cancelRun repo runId eventId now (sv_runs sv)) (\<lambda>(cancelled, s').
          if \<not> cancelled then Inr (False, sv\<lparr>sv_runs := s'\<rparr>)
          else Inr (True, sv\<lparr>sv_runs := s', sv_cancelledSessions := List.insert sessionId (sv_cancelledSessions sv)\<rparr>)))"

section \<open>The text a client puts together\<close>

text \<open>What a client shows: the deltas put together.\<close>

definition shown_text :: "(run_event_type \<times> (string \<times> json) list) list \<Rightarrow> string" where
  "shown_text ps = concat (map (\<lambda>(t, d). case (t, json_field d ''text'') of (Ev_assistant_delta, Some (JStr s)) \<Rightarrow> s | _ \<Rightarrow> []) ps)"

definition message_event :: "string \<Rightarrow> turn_event" where
  "message_event content = \<lparr>te_type = Turn_assistant_message, te_content = Some content, te_toolName = None, te_details = None,
     te_totalTokens = None, te_errorCode = None, te_ok = None\<rparr>"

definition is_message :: "turn_event \<Rightarrow> bool" where
  "is_message e \<longleftrightarrow> te_type e = Turn_assistant_message \<and> truthy (te_content e)"

text \<open>Every message of the turn goes on from the one before.\<close>

fun grows :: "string \<Rightarrow> turn_event list \<Rightarrow> bool" where
  "grows shown [] = True"
| "grows shown (e # es) = (if is_message e then js_starts (the (te_content e)) shown \<and> grows (the (te_content e)) es else grows shown es)"

definition final_text :: "string \<Rightarrow> turn_event list \<Rightarrow> string" where
  "final_text shown es = (case rev (filter is_message es) of [] \<Rightarrow> shown | e # _ \<Rightarrow> the (te_content e))"

lemma final_text_Cons: "final_text shown (e # es) = final_text (if is_message e then the (te_content e) else shown) es"
  by (auto simp: final_text_def split: list.split)

lemma shown_text_simps [simp]:
  "shown_text [] = []"
  "shown_text ((Ev_assistant_delta, [(''text'', JStr s)]) # ps) = s @ shown_text ps"
  "t \<noteq> Ev_assistant_delta \<Longrightarrow> shown_text ((t, d) # ps) = shown_text ps"
  by (auto simp: shown_text_def json_field_def split: run_event_type.split)

lemma turn_payload_message:
  "is_message e \<Longrightarrow> turn_payload e shown =
     (if strictAssistantDelta shown (the (te_content e)) = [] then None
      else Some (Ev_assistant_delta, [(''text'', JStr (strictAssistantDelta shown (the (te_content e))))]), the (te_content e))"
  by (simp add: turn_payload_def is_message_def strictAssistantDelta_def Let_def)

lemma turn_payload_other:
  "\<not> is_message e \<Longrightarrow> snd (turn_payload e shown) = shown \<and> (\<forall>t d. fst (turn_payload e shown) = Some (t, d) \<longrightarrow> t \<noteq> Ev_assistant_delta)"
  by (auto simp: turn_payload_def is_message_def)

lemma starts_take: "js_starts s t \<Longrightarrow> t @ drop (length t) s = s"
  unfolding js_starts_def by (metis append_take_drop_id)

text \<open>One more event at the end.\<close>

lemma grows_snoc: "grows shown (es @ [e]) \<longleftrightarrow> grows shown es \<and> (is_message e \<longrightarrow> js_starts (the (te_content e)) (final_text shown es))"
proof (induction es arbitrary: shown)
  case Nil
  then show ?case by (simp add: final_text_def)
next
  case (Cons x es)
  then show ?case by (simp add: final_text_Cons)
qed

lemma final_text_snoc: "final_text shown (es @ [e]) = (if is_message e then the (te_content e) else final_text shown es)"
  by (simp add: final_text_def)

text \<open>
  A turn of run \<open>i\<close> as its hook \<open>onEvent\<close> is called with one event after the other, under new ids, while other
  requests work on the tables as they like in between, as long as they leave the run active; only the turn itself stores the text of its
  assistant.  The third component are the envelopes that the route has given to \<open>publishEvent\<close>.
\<close>

definition active_in :: "run_db \<Rightarrow> string \<Rightarrow> bool" where
  "active_in db i \<longleftrightarrow> (\<exists>r. pg_findRun db i = Some r \<and> run_active r)"

inductive turn_run :: "string \<Rightarrow> run_db \<Rightarrow> turn_event list \<Rightarrow> run_db \<Rightarrow> live_turn \<Rightarrow> envelope list \<Rightarrow> bool" for i db0 where
  started: "active_in db0 i \<Longrightarrow> turn_run i db0 [] db0 fresh_turn []"
| others: "turn_run i db0 es db live sent \<Longrightarrow> run_step db db' \<Longrightarrow> active_in db' i \<Longrightarrow>
    (\<And>e. e \<in> set (rd_events db') \<Longrightarrow> e \<notin> set (rd_events db) \<Longrightarrow> ev_runId e = i \<Longrightarrow> ev_type e \<noteq> Ev_assistant_delta) \<Longrightarrow>
    turn_run i db0 es db' live sent"
| event: "turn_run i db0 es db live sent \<Longrightarrow> eid \<notin> ev_eventId ` set (rd_events db) \<Longrightarrow>
    persistTurnEvent pg_run_repository i e (lt_assistantText live) eid now db = Inr (text, p, db') \<Longrightarrow>
    onEvent pg_run_repository i e eid now (live, db) = Inr (live', db') \<Longrightarrow>
    turn_run i db0 (es @ [e]) db' live' (sent @ (case p of None \<Rightarrow> [] | Some a \<Rightarrow> [toEnvelope a]))"

lemma shown_text_append [simp]: "shown_text (ps @ qs) = shown_text ps @ shown_text qs"
  by (simp add: shown_text_def)

lemma shown_text_none: "\<forall>(t, d) \<in> set ps. t \<noteq> Ev_assistant_delta \<Longrightarrow> shown_text ps = []"
  by (induction ps) auto

definition stored_deltas :: "agent_run_event list \<Rightarrow> (run_event_type \<times> (string \<times> json) list) list" where
  "stored_deltas es = map (\<lambda>e. (ev_type e, ev_data e)) es"

definition sent_deltas :: "envelope list \<Rightarrow> (run_event_type \<times> (string \<times> json) list) list" where
  "sent_deltas es = map (\<lambda>e. (en_type e, en_data e)) es"

text \<open>What one event does while the run is active.\<close>

lemma persist_active:
  assumes "runs_ok db" "events_ok db" "active_in db i" "eid \<notin> ev_eventId ` set (rd_events db)"
  shows "\<exists>p db'. persistTurnEvent pg_run_repository i e text eid now db = Inr (snd (turn_payload e text), p, db') \<and>
    runs_ok db' \<and> events_ok db' \<and> active_in db' i \<and>
    (case fst (turn_payload e text) of None \<Rightarrow> p = None \<and> db' = db
     | Some (t, d) \<Rightarrow> \<exists>a. p = Some a \<and> ev_type a = t \<and> ev_data a = d \<and> pg_listEvents db' i = pg_listEvents db i @ [a])"
proof -
  obtain q nxt where q: "turn_payload e text = (q, nxt)" by fastforce
  show ?thesis
  proof (cases q)
    case None
    then show ?thesis using q assms by (simp add: persistTurnEvent_def)
  next
    case (Some td)
    obtain t d where td: "td = (t, d)" by fastforce
    obtain r where r: "pg_findRun db i = Some r" "run_active r" using assms(3) by (auto simp: active_in_def)
    have "\<exists>a db'. appendEvent pg_run_repository i t d eid now db = Inr (a, db') \<and> runs_ok db' \<and> events_ok db' \<and>
        ev_type a = t \<and> ev_data a = d \<and> pg_listEvents db' i = pg_listEvents db i @ [a] \<and> pg_findRun db' i = Some r"
      using pg_runs.append_active [unfolded pg_run_sel, OF conjI [OF assms(1,2)] r assms(4), of t d now] by blast
    then obtain a db' where a: "appendEvent pg_run_repository i t d eid now db = Inr (a, db')" "runs_ok db'" "events_ok db'"
      "ev_type a = t" "ev_data a = d" "pg_listEvents db' i = pg_listEvents db i @ [a]" "pg_findRun db' i = Some r" by blast
    then show ?thesis using q Some td r(2) by (simp add: persistTurnEvent_def active_in_def)
  qed
qed

lemma turn_run_text:
  assumes "turn_run i db0 es db live sent" "runs_ok db0" "events_ok db0" "grows [] es"
  shows "runs_ok db \<and> events_ok db \<and> active_in db i \<and> lt_assistantText live = final_text [] es \<and>
    (\<exists>new. pg_listEvents db i = pg_listEvents db0 i @ new \<and> shown_text (stored_deltas new) = final_text [] es) \<and>
    shown_text (sent_deltas sent) = final_text [] es"
  using assms
proof (induction rule: turn_run.induct)
  case started
  then show ?case by (simp add: fresh_turn_def final_text_def stored_deltas_def sent_deltas_def)
next
  case (others es db live sent db')
  then have ok: "runs_ok db" "events_ok db" by simp_all
  then have ok': "runs_ok db'" "events_ok db'" using run_step_ok [OF others(2)] by simp_all
  from run_step_extends [OF others(2)] obtain more where more: "rd_events db' = rd_events db @ more" by blast
  have "distinct (rd_events db')" using ok'(2) by (auto simp: events_ok_def distinct_map)
  then have "ev_type e \<noteq> Ev_assistant_delta" if "e \<in> set more" "ev_runId e = i" for e
    using others(4) [of e] that more by auto
  then have "shown_text (stored_deltas (filter (\<lambda>e. ev_runId e = i) more)) = []"
    by (intro shown_text_none) (auto simp: stored_deltas_def)
  moreover have "pg_listEvents db' i = pg_listEvents db i @ filter (\<lambda>e. ev_runId e = i) more"
    using pg_listEvents_eq(1) [OF ok(2,1)] pg_listEvents_eq(1) [OF ok'(2,1)] more by simp
  moreover have "\<And>xs ys. stored_deltas (xs @ ys) = stored_deltas xs @ stored_deltas ys" by (simp add: stored_deltas_def)
  ultimately show ?case using others ok' by auto
next
  case (event es db live sent eid e now words p db' live')
  from event.prems(3) have g: "grows [] es" "is_message e \<longrightarrow> js_starts (the (te_content e)) (final_text [] es)"
    by (simp_all add: grows_snoc)
  with event.IH event.prems have ok: "runs_ok db" "events_ok db" "active_in db i" and shown: "lt_assistantText live = final_text [] es"
    and sent: "shown_text (sent_deltas sent) = final_text [] es" by simp_all
  from event.IH event.prems g obtain new where new: "pg_listEvents db i = pg_listEvents db0 i @ new"
    "shown_text (stored_deltas new) = final_text [] es" by blast
  from persist_active [OF ok event.hyps(2), of e "lt_assistantText live" now] event.hyps(3)
  have ok': "runs_ok db'" "events_ok db'" "active_in db' i" and words: "words = snd (turn_payload e (final_text [] es))"
    and p: "case fst (turn_payload e (final_text [] es)) of None \<Rightarrow> p = None \<and> db' = db
      | Some (t, d) \<Rightarrow> \<exists>a. p = Some a \<and> ev_type a = t \<and> ev_data a = d \<and> pg_listEvents db' i = pg_listEvents db i @ [a]"
    by (auto simp: shown)
  have live': "lt_assistantText live' = words" using event.hyps(3,4) by (auto simp: onEvent_def)
  define q where "q = fst (turn_payload e (final_text [] es))"
  have delta: "final_text [] es @ shown_text (case q of None \<Rightarrow> [] | Some td \<Rightarrow> [td]) = final_text [] (es @ [e])
      \<and> words = final_text [] (es @ [e])"
  proof (cases "is_message e")
    case True
    then have "final_text [] es @ strictAssistantDelta (final_text [] es) (the (te_content e)) = the (te_content e)"
      using g(2) by (simp add: strictAssistantDelta_def starts_take)
    then show ?thesis using True by (auto simp: q_def words turn_payload_message final_text_snoc)
  next
    case False
    with turn_payload_other [OF False, of "final_text [] es"] show ?thesis
      by (auto simp: q_def words final_text_snoc split: option.split)
  qed
  show ?case
  proof (cases q)
    case None
    then show ?thesis using p delta ok' new sent live' by (auto simp: q_def [symmetric])
  next
    case (Some td)
    obtain t d where td: "td = (t, d)" by fastforce
    with Some p obtain a where a: "p = Some a" "ev_type a = t" "ev_data a = d" "pg_listEvents db' i = pg_listEvents db i @ [a]"
      by (auto simp: q_def [symmetric])
    have one: "final_text [] es @ shown_text [(t, d)] = final_text [] (es @ [e])" using delta Some td by simp
    have "shown_text (stored_deltas (new @ [a])) = final_text [] (es @ [e])"
      using new(2) one by (simp add: stored_deltas_def a del: shown_text_simps)
    moreover have "shown_text (sent_deltas (sent @ [toEnvelope a])) = final_text [] (es @ [e])"
      using sent one by (simp add: sent_deltas_def toEnvelope_def a del: shown_text_simps)
    ultimately show ?thesis using ok' delta live' a(1,4) new(1) by auto
  qed
qed

text \<open>
  C22. A client can put the assistant's text together from the deltas.  While a turn runs on an active run, whatever
  other requests do to the tables in between as long as the run stays active, and when each message that the model streams goes on
  from the one before it: the texts of the deltas that have been stored for the run since the start of the turn, put together,
  are the last message, and so are those of the events that have been sent, no part being lost and none repeated; and
  the next event of the turn is taken, whatever it is.
\<close>

theorem assistant_deltas_rebuild_message:
  assumes "run_reaches empty_run_db db0" "turn_run i db0 es db live sent" "grows [] es"
  shows "(\<exists>new. pg_listEvents db i = pg_listEvents db0 i @ new \<and>
      concat (map (\<lambda>e. case (ev_type e, json_field (ev_data e) ''text'') of (Ev_assistant_delta, Some (JStr s)) \<Rightarrow> s | _ \<Rightarrow> []) new) = final_text [] es) \<and>
    concat (map (\<lambda>e. case (en_type e, json_field (en_data e) ''text'') of (Ev_assistant_delta, Some (JStr s)) \<Rightarrow> s | _ \<Rightarrow> []) sent) = final_text [] es \<and>
    lt_assistantText live = final_text [] es \<and>
    (\<forall>e eid now. eid \<notin> ev_eventId ` set (rd_events db) \<longrightarrow>
      (\<exists>live' db'. onEvent pg_run_repository i e eid now (live, db) = Inr (live', db')))"
proof -
  have ok0: "runs_ok db0" "events_ok db0" using reached_ok [OF assms(1)] by simp_all
  note all = turn_run_text [OF assms(2) ok0 assms(3)]
  have "\<exists>live' db'. onEvent pg_run_repository i e eid now (live, db) = Inr (live', db')"
    if "eid \<notin> ev_eventId ` set (rd_events db)" for e eid now
    using persist_active [of db i eid e "lt_assistantText live" now] all that by (auto simp: onEvent_def)
  with all show ?thesis by (auto simp: shown_text_def stored_deltas_def sent_deltas_def comp_def)
qed

lemma turn_run_next:
  assumes "turn_run i db0 es db live sent" "runs_ok db" "events_ok db" "active_in db i"
  shows "\<exists>db' live' sent'. turn_run i db0 (es @ [e]) db' live' sent' \<and> runs_ok db' \<and> events_ok db' \<and> active_in db' i"
proof -
  have "\<exists>eid :: string. eid \<notin> ev_eventId ` set (rd_events db)"
    by (rule ex_new_if_finite [OF infinite_UNIV_listI]) simp
  then obtain eid where eid: "eid \<notin> ev_eventId ` set (rd_events db)" by blast
  from persist_active [OF assms(2-4) eid, of e "lt_assistantText live" 0] obtain p db' where
    "persistTurnEvent pg_run_repository i e (lt_assistantText live) eid 0 db = Inr (snd (turn_payload e (lt_assistantText live)), p, db')"
    "runs_ok db'" "events_ok db'" "active_in db' i" by blast
  with turn_run.event [OF assms(1) eid this(1)] show ?thesis by (fastforce simp: onEvent_def)
qed

theorem assistant_deltas_rebuild_message_witness:
  "\<exists>db live sent. turn_run ''1'' sample_run_db [message_event ''a'', message_event ''abc''] db live sent \<and>
    lt_assistantText live = ''abc'' \<and>
    concat (map (\<lambda>e. case (en_type e, json_field (en_data e) ''text'') of (Ev_assistant_delta, Some (JStr s)) \<Rightarrow> s | _ \<Rightarrow> []) sent) = ''abc''"
proof -
  have ok: "runs_ok sample_run_db" "events_ok sample_run_db" using reached_ok [OF sample_run_db_reached] by simp_all
  have active: "active_in sample_run_db ''1''" using sample_run_found by (auto simp: active_in_def new_run_def)
  obtain db1 live1 sent1 where one: "turn_run ''1'' sample_run_db [message_event ''a''] db1 live1 sent1"
    "runs_ok db1" "events_ok db1" "active_in db1 ''1''"
    using turn_run_next [OF turn_run.started [OF active] ok active] by fastforce
  obtain db live sent where two: "turn_run ''1'' sample_run_db [message_event ''a'', message_event ''abc''] db live sent"
    using turn_run_next [OF one, of "message_event ''abc''"] by fastforce
  have grow: "grows [] [message_event ''a'', message_event ''abc'']"
    and last_one: "final_text [] [message_event ''a'', message_event ''abc''] = ''abc''"
    by (simp_all add: message_event_def is_message_def js_starts_def final_text_def)
  from assistant_deltas_rebuild_message [OF sample_run_db_reached two grow] show ?thesis
    using two unfolding last_one by blast
qed

section \<open>Cancelling a session that waits\<close>

lemma with_status_active [simp]: "run_active (with_status now st r) = isActiveRunStatus st"
  by simp

text \<open>Starting a run in a free session and setting it running.\<close>

lemma begin_message_free:
  assumes "runs_ok db" "events_ok db" "pg_findByIdempotency db sid key = None" "pg_findActive db sid = None"
    "jget (rd_sessions db) sid \<noteq> None" "pg_findRun db i = None" "sv_runs sv = db"
  shows "\<exists>db'. begin_message pg_run_repository sid key i now sv =
      Inr (Begun (new_run i sid key now), sv\<lparr>sv_runs := db', sv_activeRuns := jset sid i (sv_activeRuns sv)\<rparr>) \<and>
    runs_ok db' \<and> events_ok db' \<and> jget (rd_sessions db') sid \<noteq> None \<and>
    pg_findRun db' i = Some (with_status now Run_running (new_run i sid key now))"
proof -
  have fresh: "\<forall>r \<in> set (rd_runs db). ru_runId r \<noteq> i" using assms(6) by (simp add: pg_findRun_def find_None_iff_ball)
  from pg_runs.start_free [unfolded pg_run_sel, OF conjI [OF assms(1,2)] assms(3-5) fresh, of now] obtain db1 where
    db1: "startRun pg_run_repository sid key i now db = Inr (new_run i sid key now, db1)" "runs_ok db1" "events_ok db1"
      "jget (rd_sessions db1) sid \<noteq> None" "pg_findRun db1 i = Some (new_run i sid key now)" by blast
  define db2 where "db2 = db1\<lparr>rd_runs := map (\<lambda>q. if ru_runId q = i then with_status now Run_running q else q) (rd_runs db1)\<rparr>"
  have up: "pg_updateStatus now i Run_running db1 = Inr db2"
    unfolding db2_def by (rule updateStatus_Inr [OF db1(2,5)]) (simp add: new_run_def)
  have "begin_message pg_run_repository sid key i now sv =
      Inr (Begun (new_run i sid key now), sv\<lparr>sv_runs := db2, sv_activeRuns := jset sid i (sv_activeRuns sv)\<rparr>)"
    using assms(3,7) db1(1) up by (simp add: begin_message_def enter_turn_def new_run_def)
  with run_step_ok [OF run_step.status [OF up] db1(2,3)] updateStatus_found [OF up db1(5)] db1(4) show ?thesis
    by (intro exI [of _ db2]) (simp add: db2_def)
qed

lemma finish_cancelled:
  "sid \<in> set (sv_cancelledSessions sv) \<Longrightarrow> finish_message repo sid i live outcome reply failure ids now sv =
     Inr (Exit_cancelled, sv\<lparr>sv_activeRuns := jdel sid (sv_activeRuns sv), sv_cancelledSessions := removeAll sid (sv_cancelledSessions sv)\<rparr>)"
  by (simp add: finish_message_def Let_def)

text \<open>
  Cancelling a session whose run waits (for a confirmation or a task, so that no request is serving it) leaves the
  session marked as cancelled.  The next message starts its run, and whatever its turn did, the end of the route takes the
  mark for its own: the run stays running with no request behind it, and every later message is refused as busy.
\<close>

theorem cancel_of_waiting_run_blocks_session:
  assumes "run_reaches empty_run_db db" "sv_runs sv = db" "jget (sv_activeRuns sv) sid = None"
    and "pg_findActive db sid = Some r" "eid \<notin> ev_eventId ` set (rd_events db)"
    and "pg_findRun db i = None" "pg_findByIdempotency db sid key = None"
  shows "\<exists>sv1 sv2. cancel_session pg_run_repository sid eid now sv = Inr (True, sv1) \<and>
    begin_message pg_run_repository sid key i now sv1 = Inr (Begun (new_run i sid key now), sv2) \<and>
    (\<exists>sv3 q. finish_message pg_run_repository sid i live outcome reply failure ids now sv2 = Inr (Exit_cancelled, sv3) \<and>
      pg_findRun (sv_runs sv3) i = Some q \<and> ru_status q = Run_running \<and> jget (sv_activeRuns sv3) sid = None \<and>
      sid \<notin> set (sv_cancelledSessions sv3) \<and>
      (pg_findByIdempotency (sv_runs sv3) sid key' = None \<longrightarrow>
        begin_message pg_run_repository sid key' j later sv3 = Inl SESSION_BUSY))"
proof -
  have ok: "runs_ok db" "events_ok db" using reached_ok [OF assms(1)] by simp_all
  have row: "r \<in> set (rd_runs db)" "ru_sessionId r = sid" "run_active r" using assms(4) pg_findActive_iff [OF ok(1)] by blast+
  then have found: "pg_findRun db (ru_runId r) = Some r" using pg_findRun_iff [OF ok(1)] by blast
  let ?r = "r\<lparr>ru_status := Run_aborted, ru_updatedAt := now\<rparr>"
  from pg_runs.cancel_active [unfolded pg_run_sel, OF conjI [OF ok] found row(3) assms(5), of now] obtain e db1 where
    db1: "cancelRun pg_run_repository (ru_runId r) eid now db = Inr (True, db1)" "runs_ok db1" "events_ok db1"
      "pg_findRun db1 (ru_runId r) = Some ?r" by blast
  have same: "\<exists>q \<in> set (rd_runs db). ru_runId q = ru_runId p \<and> ru_sessionId q = ru_sessionId p \<and>
      ru_idempotencyKey q = ru_idempotencyKey p \<and> (run_active p \<longrightarrow> run_active q)" if "p \<in> set (rd_runs db1)" for p
    using cancelRun_rows [OF db1(1) that] .
  have "pg_findByIdempotency db1 sid key = None"
    using assms(7) same by (simp add: pg_findByIdempotency_def find_None_iff_ball) metis
  moreover have "pg_findRun db1 i = None"
    using assms(6) same by (simp add: pg_findRun_def find_None_iff_ball) metis
  moreover have "pg_findActive db1 sid = None"
  proof (rule ccontr)
    assume "pg_findActive db1 sid \<noteq> None"
    then obtain p where p: "p \<in> set (rd_runs db1)" "ru_sessionId p = sid" "run_active p" using pg_findActive_iff [OF db1(2)] by blast
    then obtain q where q: "q \<in> set (rd_runs db)" "ru_runId q = ru_runId p" "ru_sessionId q = sid" "run_active q" using same by metis
    then have "pg_findActive db sid = Some q" using pg_findActive_iff [OF ok(1)] by blast
    then have "pg_findRun db1 (ru_runId r) = Some p" using p q assms(4) pg_findRun_iff [OF db1(2)] by simp
    then have "p = ?r" using db1(4) by simp
    then have "\<not> run_active p" by (simp only:) simp
    then show False using p(3) by blast
  qed
  moreover have "jget (rd_sessions db1) sid \<noteq> None"
    using run_reaches_session [OF service_steps(4) [OF db1(1)]] ok(1) row by (auto simp: runs_ok_def)
  ultimately have free: "pg_findByIdempotency db1 sid key = None" "pg_findActive db1 sid = None" "jget (rd_sessions db1) sid \<noteq> None"
    "pg_findRun db1 i = None" by simp_all
  define sv1 where "sv1 = sv\<lparr>sv_runs := db1, sv_cancelledSessions := List.insert sid (sv_cancelledSessions sv)\<rparr>"
  have "cancel_session pg_run_repository sid eid now sv = Inr (True, sv1)"
    using assms(2-4) db1(1) by (simp add: cancel_session_def sv1_def)
  moreover obtain db2 where db2: "begin_message pg_run_repository sid key i now sv1 =
      Inr (Begun (new_run i sid key now), sv1\<lparr>sv_runs := db2, sv_activeRuns := jset sid i (sv_activeRuns sv1)\<rparr>)"
    "runs_ok db2" "events_ok db2" "jget (rd_sessions db2) sid \<noteq> None" "pg_findRun db2 i = Some (with_status now Run_running (new_run i sid key now))"
    using begin_message_free [OF db1(2,3) free, of sv1 now] by (auto simp: sv1_def)
  moreover define sv2 where "sv2 = sv1\<lparr>sv_runs := db2, sv_activeRuns := jset sid i (sv_activeRuns sv1)\<rparr>"
  moreover have "sid \<in> set (sv_cancelledSessions sv2)" by (simp add: sv2_def sv1_def)
  note fin = finish_cancelled [OF this, of pg_run_repository i live outcome reply failure ids now]
  moreover have "pg_findActive db2 sid \<noteq> None"
    using pg_runs.active_found [unfolded pg_run_sel, OF conjI [OF db2(2,3)] db2(5)] by (simp add: new_run_def with_status_def)
  then have "pg_findByIdempotency db2 sid key' = None \<longrightarrow> startRun pg_run_repository sid key' j later db2 = Inl SESSION_BUSY"
    using pg_runs.start_busy [unfolded pg_run_sel, OF conjI [OF db2(2,3)]] db2(4) by blast
  ultimately show ?thesis
    by (intro exI [of _ sv1] exI [of _ sv2]) (auto simp: fin sv2_def begin_message_def)
qed

theorem cancel_of_waiting_run_blocks_session_witness:
  "\<exists>sv1 sv2 sv3. cancel_session pg_run_repository ''s'' ''e'' 5
      \<lparr>sv_runs = sample_run_db, sv_activeRuns = [], sv_cancelledSessions = []\<rparr> = Inr (True, sv1) \<and>
    begin_message pg_run_repository ''s'' ''l'' ''2'' 5 sv1 = Inr (Begun (new_run ''2'' ''s'' ''l'' 5), sv2) \<and>
    finish_message pg_run_repository ''s'' ''2'' fresh_turn [] ''ok'' ''no'' (\<lambda>n. ''x'') 5 sv2 = Inr (Exit_cancelled, sv3)"
proof -
  let ?sv = "\<lparr>sv_runs = sample_run_db, sv_activeRuns = [], sv_cancelledSessions = []\<rparr>"
  have "''e'' \<notin> ev_eventId ` set (rd_events sample_run_db)" "pg_findRun sample_run_db ''2'' = None"
    by (simp_all add: sample_run_db_def pg_findRun_def new_run_def)
  from cancel_of_waiting_run_blocks_session [OF sample_run_db_reached _ _ sample_run_found(5) this sample_run_found(4), of ?sv 5]
  show ?thesis by simp blast
qed

section \<open>A failed turn\<close>

text \<open>
  The error of a turn is stored as a \<open>run_failed\<close> event when it is streamed, and the end of the route stores a second one.
\<close>

lemma failed_turn_reported_twice:
  assumes "runs_ok db" "events_ok db" "pg_findRun db i = Some r" "ru_status r = Run_running" "sid \<notin> set (sv_cancelledSessions sv)"
    and "te_type e = Turn_error" "te_errorCode e = Some c" "c \<noteq> []" "c \<noteq> ''RUN_ABORTED''"
    and "eid \<notin> ev_eventId ` set (rd_events db)" "ids 0 \<notin> ev_eventId ` set (rd_events db)" "ids 0 \<noteq> eid"
  shows "\<exists>live1 db1 sv2 f1 f2. onEvent pg_run_repository i e eid now (live, db) = Inr (live1, db1) \<and>
    finish_message pg_run_repository sid i live1 outcome reply failure ids now (sv\<lparr>sv_runs := db1\<rparr>) = Inr (Exit_failed, sv2) \<and>
    pg_listEvents (sv_runs sv2) i = pg_listEvents db i @ [f1, f2] \<and> ev_type f1 = Ev_run_failed \<and> ev_type f2 = Ev_run_failed"
proof -
  have row: "r \<in> set (rd_runs db)" "ru_runId r = i" using assms(3) pg_findRun_iff [OF assms(1)] by blast+
  have active: "run_active r" by (simp add: assms(4))
  let ?data = "(''errorCode'', JStr c) # opt_field ''message'' (map_option JStr (te_content e))"
  from atomic_succeeds [OF assms(2,1) row(1) _ assms(10), of Ev_run_failed now ?data] active row(2) obtain f1 db1 where
    atomic: "pg_appendEventAtomic eid now i Ev_run_failed ?data db = Inr (f1, db1)" and f1: "ev_type f1 = Ev_run_failed" "ev_runId f1 = i"
      "rd_events db1 = rd_events db @ [f1]" "rd_runs db1 = rd_runs db" by (auto simp: eventable_def)
  have ok1: "runs_ok db1" "events_ok db1" using run_step_ok [OF run_step.atomic [OF atomic] assms(1,2)] by simp_all
  have found: "pg_findRun db1 i = Some r" using assms(3) f1(4) by (simp add: pg_findRun_def)
  have "ev_eventId f1 = eid" using appendEventAtomic_Inr [OF atomic] by auto
  then have fresh: "ids 0 \<notin> ev_eventId ` set (rd_events db1)" using assms(11,12) f1(3) by auto
  from fail_any_run [OF ok1 found fresh, of "[(''errorCode'', JStr c), (''message'', JStr failure)]" now] obtain db2 f2 where
    db2: "setStatus pg_run_repository i Run_failed [(''errorCode'', JStr c), (''message'', JStr failure)] (ids 0) now db1 = Inr db2"
      "ev_type f2 = Ev_run_failed" "pg_listEvents db2 i = pg_listEvents db1 i @ [f2]" by blast
  define live1 where "live1 = (note_event e live)\<lparr>lt_assistantText := lt_assistantText live\<rparr>"
  have "appendEvent pg_run_repository i Ev_run_failed ?data eid now db = Inr (f1, db1)"
    using assms(3) active atomic by (simp add: appendEvent_def requireRun_def)
  then have "onEvent pg_run_repository i e eid now (live, db) = Inr (live1, db1)"
    using assms(6-9) by (simp add: onEvent_def persistTurnEvent_def turn_payload_def error_code_of_def live1_def)
  moreover have "lt_errorCode live1 = Some c" using assms(6,7) by (simp add: live1_def note_event_def Let_def error_code_of_def)
  then have "finish_message pg_run_repository sid i live1 outcome reply failure ids now (sv\<lparr>sv_runs := db1\<rparr>) =
      Inr (Exit_failed, sv\<lparr>sv_runs := db2, sv_activeRuns := jdel sid (sv_activeRuns sv)\<rparr>)"
    using assms(4,5,8,9) found db2(1) by (simp add: finish_message_def Let_def)
  moreover have "pg_listEvents db1 i = pg_listEvents db i @ [f1]"
    using f1 pg_listEvents_eq(1) [OF assms(2,1)] pg_listEvents_eq(1) [OF ok1(2,1)] by simp
  ultimately show ?thesis using db2 f1(1) by (intro exI [of _ live1] exI [of _ db1]) auto
qed

end
