(* ===== verification/DramaState.thy ===== *)
theory DramaState
  imports Prelude
begin

text \<open>
  The short-drama domain, \<^verbatim>\<open>domain/drama-state.ts\<close>: series, characters with their reference packs, shots,
  keyframes and render lineages, with the in-memory store.  A JavaScript number is a \<open>num\<close>.  The literal members of
  a format (\<open>aspectRatio: "9:16"\<close>, \<open>keyframeFirst: true\<close>) are kept as values, as the code checks them.
\<close>

section \<open>Data\<close>

record drama_format =
  df_id :: string
  df_aspectRatio :: string
  df_targetDurationSeconds :: num
  df_minShotCount :: num
  df_maxShotCount :: num
  df_minShotDurationSeconds :: num
  df_maxShotDurationSeconds :: num
  df_keyframeFirst :: bool

definition STANDARD_VERTICAL_SHORT_DRAMA_FORMAT :: drama_format where
  "STANDARD_VERTICAL_SHORT_DRAMA_FORMAT = \<lparr>df_id = ''vertical-short-drama-v1'', df_aspectRatio = ''9:16'',
     df_targetDurationSeconds = 180, df_minShotCount = 60, df_maxShotCount = 90,
     df_minShotDurationSeconds = 2, df_maxShotDurationSeconds = 5, df_keyframeFirst = True\<rparr>"

datatype pack_status = Pack_draft | Pack_approved | Pack_retired
datatype keyframe_status = Key_draft | Key_accepted | Key_rejected | Key_stale
datatype lineage_status = Lin_draft | Lin_ready_for_video | Lin_submitted | Lin_stale

datatype drama_error =
    INVALID_INPUT | INVALID_IDENTITY_ANCHORS | INCOMPLETE_REFERENCE_PACK | CONFLICT | INVALID_FORMAT | NOT_FOUND
  | VERSION_CONFLICT | INVALID_SHOT_DURATION | INVALID_CHARACTER_BINDING | MISSING_CHARACTER_REFERENCE
  | CHARACTER_REFERENCE_AMBIGUOUS | KEYFRAME_NOT_ACCEPTED | INVALID_STATE | DRAMA_CONSTRAINT

record drama_series =
  ds_id :: string
  ds_ownerId :: "string option"
  ds_canvasId :: string
  ds_activeCanonRevision :: num
  ds_format :: drama_format

record character_profile =
  ch_id :: string
  ch_seriesId :: string
  ch_name :: string
  ch_identityAnchors :: "string list"
  ch_activeLookRevision :: num
  ch_voiceId :: string

record reference_pack =
  rp_id :: string
  rp_characterId :: string
  rp_lookRevision :: num
  rp_status :: pack_status
  rp_frontAssetId :: string
  rp_sideAssetId :: string
  rp_backAssetId :: string
  rp_expressionAssetIds :: "string list"

record shot_binding =
  sb_characterId :: string
  sb_lookRevision :: num

record shot_spec =
  sh_id :: string
  sh_seriesId :: string
  sh_episodeNo :: num
  sh_shotNo :: num
  sh_durationSeconds :: num
  sh_characterBindings :: "shot_binding list"
  sh_promptRevision :: num

record keyframe_render =
  kf_id :: string
  kf_shotId :: string
  kf_status :: keyframe_status
  kf_referencePackIds :: "string list"

record render_lineage =
  li_id :: string
  li_shotId :: string
  li_keyframeRenderId :: string
  li_status :: lineage_status

record keyframe_draft =
  kd_shotId :: string
  kd_referenceAssetIds :: "string list"
  kd_referencePackIds :: "string list"

record video_draft =
  vd_shotId :: string
  vd_keyframeRenderId :: string
  vd_referencePackIds :: "string list"

record 's drama_store =
  dr_prepareKeyframeNode :: "'s \<Rightarrow> string \<Rightarrow> string option \<Rightarrow> drama_error + keyframe_draft"
  dr_prepareVideoNode :: "'s \<Rightarrow> string \<Rightarrow> string option \<Rightarrow> drama_error + video_draft"

section \<open>Checks\<close>

definition requireText :: "string \<Rightarrow> drama_error + string" where
  "requireText v = throw_if (blank v) INVALID_INPUT (Inr (js_trim v))"

definition assertIdentityAnchors :: "string list \<Rightarrow> drama_error + unit" where
  "assertIdentityAnchors anchors = rbind (rmap requireText anchors) (\<lambda>normalized.
     throw_if (length normalized < 3 \<or> 5 < length normalized) INVALID_IDENTITY_ANCHORS
       (throw_if (length (uniq normalized) \<noteq> length normalized) INVALID_IDENTITY_ANCHORS (Inr ())))"

definition assertReferencePackComplete :: "reference_pack \<Rightarrow> drama_error + unit" where
  "assertReferencePackComplete p =
     rbind (requireText (rp_frontAssetId p)) (\<lambda>_. rbind (requireText (rp_sideAssetId p)) (\<lambda>_.
       rbind (requireText (rp_backAssetId p)) (\<lambda>_.
         throw_if (rp_expressionAssetIds p = []) INCOMPLETE_REFERENCE_PACK (Inr ()))))"

section \<open>The in-memory store\<close>

record drama_state =
  dm_series :: "(string, drama_series) jmap"
  dm_characters :: "(string, character_profile) jmap"
  dm_packs :: "(string, reference_pack list) jmap"
  dm_shots :: "(string, shot_spec) jmap"
  dm_keyframes :: "(string, keyframe_render) jmap"
  dm_lineages :: "(string, render_lineage) jmap"

definition packs_of :: "drama_state \<Rightarrow> string \<Rightarrow> reference_pack list" where
  "packs_of s c = (case jget (dm_packs s) c of None \<Rightarrow> [] | Some ps \<Rightarrow> ps)"

text \<open>\<open>ownerId && series?.ownerId !== ownerId\<close>: no owner, or the empty one, sees every series.\<close>

definition hidden_from :: "string option \<Rightarrow> drama_series option \<Rightarrow> bool" where
  "hidden_from owner series \<longleftrightarrow> truthy owner \<and> Option.bind series ds_ownerId \<noteq> owner"

definition createSeries :: "drama_series \<Rightarrow> string option \<Rightarrow> drama_state \<Rightarrow> drama_error + drama_state" where
  "createSeries series owner s =
     throw_if (jget (dm_series s) (ds_id series) \<noteq> None) CONFLICT
       (throw_if (df_aspectRatio (ds_format series) \<noteq> ''9:16'') INVALID_FORMAT
         (Inr (s\<lparr>dm_series := jset (ds_id series) (if truthy owner then series\<lparr>ds_ownerId := owner\<rparr> else series) (dm_series s)\<rparr>)))"

definition createCharacter :: "character_profile \<Rightarrow> string option \<Rightarrow> drama_state \<Rightarrow> drama_error + drama_state" where
  "createCharacter c owner s =
     (let series = jget (dm_series s) (ch_seriesId c)
      in throw_if (series = None \<or> hidden_from owner series) NOT_FOUND
        (throw_if (jget (dm_characters s) (ch_id c) \<noteq> None) CONFLICT
          (rbind (requireText (ch_name c)) (\<lambda>_. rbind (requireText (ch_voiceId c)) (\<lambda>_.
            rbind (assertIdentityAnchors (ch_identityAnchors c)) (\<lambda>_.
              Inr (s\<lparr>dm_characters := jset (ch_id c) c (dm_characters s)\<rparr>)))))))"

definition addReferencePack :: "reference_pack \<Rightarrow> string option \<Rightarrow> drama_state \<Rightarrow> drama_error + drama_state" where
  "addReferencePack p owner s =
     (case jget (dm_characters s) (rp_characterId p) of
        None \<Rightarrow> Inl NOT_FOUND
      | Some c \<Rightarrow> throw_if (hidden_from owner (jget (dm_series s) (ch_seriesId c))) NOT_FOUND
          (throw_if (rp_lookRevision p \<noteq> ch_activeLookRevision c) VERSION_CONFLICT
            (rbind (if rp_status p = Pack_approved then assertReferencePackComplete p else Inr ()) (\<lambda>_.
              let existing = packs_of s (rp_characterId p)
              in throw_if (\<exists>q \<in> set existing. rp_id q = rp_id p) CONFLICT
                (Inr (s\<lparr>dm_packs := jset (rp_characterId p) (existing @ [p]) (dm_packs s)\<rparr>))))))"

definition check_binding :: "drama_state \<Rightarrow> string \<Rightarrow> shot_binding \<Rightarrow> drama_error + unit" where
  "check_binding s seriesId b = (case jget (dm_characters s) (sb_characterId b) of
     None \<Rightarrow> Inl INVALID_CHARACTER_BINDING
   | Some c \<Rightarrow> throw_if (ch_seriesId c \<noteq> seriesId) INVALID_CHARACTER_BINDING
       (throw_if (sb_lookRevision b \<noteq> ch_activeLookRevision c) VERSION_CONFLICT (Inr ())))"

definition createShot :: "shot_spec \<Rightarrow> string option \<Rightarrow> drama_state \<Rightarrow> drama_error + drama_state" where
  "createShot shot owner s = (case jget (dm_series s) (sh_seriesId shot) of
     None \<Rightarrow> Inl NOT_FOUND
   | Some series \<Rightarrow> throw_if (hidden_from owner (Some series)) NOT_FOUND
       (throw_if (jget (dm_shots s) (sh_id shot) \<noteq> None) CONFLICT
         (throw_if (sh_durationSeconds shot < df_minShotDurationSeconds (ds_format series)
             \<or> df_maxShotDurationSeconds (ds_format series) < sh_durationSeconds shot) INVALID_SHOT_DURATION
           (rbind (for_each (check_binding s (sh_seriesId shot)) (sh_characterBindings shot)) (\<lambda>_.
             Inr (s\<lparr>dm_shots := jset (sh_id shot) shot (dm_shots s)\<rparr>))))))"

definition requireShot :: "drama_state \<Rightarrow> string \<Rightarrow> string option \<Rightarrow> drama_error + shot_spec" where
  "requireShot s shotId owner = (case jget (dm_shots s) shotId of
     None \<Rightarrow> Inl NOT_FOUND
   | Some shot \<Rightarrow> throw_if (hidden_from owner (jget (dm_series s) (sh_seriesId shot))) NOT_FOUND (Inr shot))"

definition approved_for :: "shot_binding \<Rightarrow> reference_pack list \<Rightarrow> reference_pack list" where
  "approved_for b ps = filter (\<lambda>p. rp_status p = Pack_approved \<and> rp_lookRevision p = sb_lookRevision b) ps"

definition single_pack :: "reference_pack list \<Rightarrow> drama_error + reference_pack" where
  "single_pack ps = (case ps of [] \<Rightarrow> Inl MISSING_CHARACTER_REFERENCE
     | [p] \<Rightarrow> Inr p | _ \<Rightarrow> Inl CHARACTER_REFERENCE_AMBIGUOUS)"

definition resolveSingleApprovedReferencePack :: "drama_state \<Rightarrow> shot_binding \<Rightarrow> drama_error + reference_pack" where
  "resolveSingleApprovedReferencePack s b = single_pack (approved_for b (packs_of s (sb_characterId b)))"

definition pack_assets :: "reference_pack \<Rightarrow> string list" where
  "pack_assets p = [rp_frontAssetId p, rp_sideAssetId p, rp_backAssetId p] @ rp_expressionAssetIds p"

definition keyframe_draft_of :: "string \<Rightarrow> reference_pack list \<Rightarrow> keyframe_draft" where
  "keyframe_draft_of shotId packs = \<lparr>kd_shotId = shotId, kd_referenceAssetIds = concat (map pack_assets packs),
     kd_referencePackIds = map rp_id packs\<rparr>"

definition prepareKeyframeNode :: "drama_state \<Rightarrow> string \<Rightarrow> string option \<Rightarrow> drama_error + keyframe_draft" where
  "prepareKeyframeNode s shotId owner = rbind (requireShot s shotId owner) (\<lambda>shot.
     rbind (rmap (resolveSingleApprovedReferencePack s) (sh_characterBindings shot)) (\<lambda>packs.
       Inr (keyframe_draft_of (sh_id shot) packs)))"

text \<open>The packs of a keyframe against the expected ones: as many, and each an expected one.\<close>

definition packs_differ :: "string list \<Rightarrow> string list \<Rightarrow> bool" where
  "packs_differ actual expected \<longleftrightarrow> length actual \<noteq> length expected \<or> (\<exists>i \<in> set actual. i \<notin> set expected)"

definition recordKeyframe :: "keyframe_render \<Rightarrow> string option \<Rightarrow> drama_state \<Rightarrow> drama_error + drama_state" where
  "recordKeyframe k owner s = rbind (requireShot s (kf_shotId k) owner) (\<lambda>shot.
     rbind (if kf_status k = Key_accepted
            then rbind (prepareKeyframeNode s (sh_id shot) owner) (\<lambda>d.
              throw_if (packs_differ (kf_referencePackIds k) (kd_referencePackIds d)) MISSING_CHARACTER_REFERENCE (Inr ()))
            else Inr ()) (\<lambda>_.
       Inr (s\<lparr>dm_keyframes := jset (kf_id k) k (dm_keyframes s)\<rparr>)))"

definition prepareVideoNode :: "drama_state \<Rightarrow> string \<Rightarrow> string option \<Rightarrow> drama_error + video_draft" where
  "prepareVideoNode s shotId owner = rbind (requireShot s shotId owner) (\<lambda>shot.
     case find (\<lambda>k. kf_shotId k = sh_id shot \<and> kf_status k = Key_accepted) (jvalues (dm_keyframes s)) of
       None \<Rightarrow> Inl KEYFRAME_NOT_ACCEPTED
     | Some k \<Rightarrow> rbind (prepareKeyframeNode s (sh_id shot) None) (\<lambda>d.
         throw_if (packs_differ (kf_referencePackIds k) (kd_referencePackIds d)) MISSING_CHARACTER_REFERENCE
           (Inr \<lparr>vd_shotId = sh_id shot, vd_keyframeRenderId = kf_id k, vd_referencePackIds = kd_referencePackIds d\<rparr>)))"

definition recordLineage :: "render_lineage \<Rightarrow> string option \<Rightarrow> drama_state \<Rightarrow> drama_error + drama_state" where
  "recordLineage l owner s = rbind (requireShot s (li_shotId l) owner) (\<lambda>_.
     throw_if (jget (dm_keyframes s) (li_keyframeRenderId l) = None) NOT_FOUND
       (Inr (s\<lparr>dm_lineages := jset (li_id l) l (dm_lineages s)\<rparr>)))"

text \<open>The loop over the lineages; a throw in the middle leaves the ones marked so far.\<close>

fun mark_stale :: "string \<Rightarrow> string option \<Rightarrow> render_lineage list \<Rightarrow> string list \<Rightarrow> drama_state \<Rightarrow>
    (drama_error + string list) \<times> drama_state" where
  "mark_stale characterId owner [] staleIds s = (Inr staleIds, s)"
| "mark_stale characterId owner (l # ls) staleIds s = (case requireShot s (li_shotId l) owner of
     Inl e \<Rightarrow> if truthy owner \<and> e = NOT_FOUND then mark_stale characterId owner ls staleIds s else (Inl e, s)
   | Inr shot \<Rightarrow> if \<not> (\<exists>b \<in> set (sh_characterBindings shot). sb_characterId b = characterId)
       then mark_stale characterId owner ls staleIds s
       else if li_status l \<noteq> Lin_stale
       then mark_stale characterId owner ls (staleIds @ [li_id l])
         (s\<lparr>dm_lineages := jset (li_id l) (l\<lparr>li_status := Lin_stale\<rparr>) (dm_lineages s)\<rparr>)
       else mark_stale characterId owner ls staleIds s)"

definition markLineagesStaleForCharacter :: "string \<Rightarrow> string option \<Rightarrow> drama_state \<Rightarrow> (drama_error + string list) \<times> drama_state" where
  "markLineagesStaleForCharacter characterId owner s = mark_stale characterId owner (jvalues (dm_lineages s)) [] s"

definition memory_drama_store :: "drama_state drama_store" where
  "memory_drama_store = \<lparr>dr_prepareKeyframeNode = prepareKeyframeNode, dr_prepareVideoNode = prepareVideoNode\<rparr>"

section \<open>The invariant of the store\<close>

definition characters_ok :: "drama_state \<Rightarrow> bool" where
  "characters_ok s \<longleftrightarrow> (\<forall>i c. jget (dm_characters s) i = Some c \<longrightarrow> ch_id c = i \<and> jget (dm_series s) (ch_seriesId c) \<noteq> None
     \<and> assertIdentityAnchors (ch_identityAnchors c) = Inr ())"

definition packs_ok :: "drama_state \<Rightarrow> bool" where
  "packs_ok s \<longleftrightarrow> (\<forall>i ps. jget (dm_packs s) i = Some ps \<longrightarrow> distinct (map rp_id ps) \<and>
     (\<exists>c. jget (dm_characters s) i = Some c \<and> (\<forall>p \<in> set ps. rp_characterId p = i \<and> rp_lookRevision p = ch_activeLookRevision c
       \<and> (rp_status p = Pack_approved \<longrightarrow> assertReferencePackComplete p = Inr ()))))"

definition shots_ok :: "drama_state \<Rightarrow> bool" where
  "shots_ok s \<longleftrightarrow> (\<forall>i shot. jget (dm_shots s) i = Some shot \<longrightarrow> sh_id shot = i \<and>
     (\<exists>series. jget (dm_series s) (sh_seriesId shot) = Some series
       \<and> df_minShotDurationSeconds (ds_format series) \<le> sh_durationSeconds shot
       \<and> sh_durationSeconds shot \<le> df_maxShotDurationSeconds (ds_format series))
     \<and> (\<forall>b \<in> set (sh_characterBindings shot). check_binding s (sh_seriesId shot) b = Inr ()))"

definition renders_ok :: "drama_state \<Rightarrow> bool" where
  "renders_ok s \<longleftrightarrow> (\<forall>i k. jget (dm_keyframes s) i = Some k \<longrightarrow> kf_id k = i \<and> jget (dm_shots s) (kf_shotId k) \<noteq> None)
     \<and> (\<forall>i l. jget (dm_lineages s) i = Some l \<longrightarrow> li_id l = i \<and> jget (dm_shots s) (li_shotId l) \<noteq> None
         \<and> jget (dm_keyframes s) (li_keyframeRenderId l) \<noteq> None)
     \<and> jmap_ok (dm_lineages s) \<and> jmap_ok (dm_keyframes s)"

definition series_ok :: "drama_state \<Rightarrow> bool" where
  "series_ok s \<longleftrightarrow> (\<forall>i d. jget (dm_series s) i = Some d \<longrightarrow> ds_id d = i \<and> df_aspectRatio (ds_format d) = ''9:16'')"

definition drama_ok :: "drama_state \<Rightarrow> bool" where
  "drama_ok s \<longleftrightarrow> series_ok s \<and> characters_ok s \<and> packs_ok s \<and> shots_ok s \<and> renders_ok s"

inductive drama_reaches :: "drama_state \<Rightarrow> bool" where
  new: "drama_reaches \<lparr>dm_series = [], dm_characters = [], dm_packs = [], dm_shots = [], dm_keyframes = [], dm_lineages = []\<rparr>"
| series: "drama_reaches s \<Longrightarrow> createSeries d owner s = Inr s' \<Longrightarrow> drama_reaches s'"
| character: "drama_reaches s \<Longrightarrow> createCharacter c owner s = Inr s' \<Longrightarrow> drama_reaches s'"
| pack: "drama_reaches s \<Longrightarrow> addReferencePack p owner s = Inr s' \<Longrightarrow> drama_reaches s'"
| shot: "drama_reaches s \<Longrightarrow> createShot shot owner s = Inr s' \<Longrightarrow> drama_reaches s'"
| keyframe: "drama_reaches s \<Longrightarrow> recordKeyframe k owner s = Inr s' \<Longrightarrow> drama_reaches s'"
| lineage: "drama_reaches s \<Longrightarrow> recordLineage l owner s = Inr s' \<Longrightarrow> drama_reaches s'"
| stale: "drama_reaches s \<Longrightarrow> markLineagesStaleForCharacter i owner s = (r, s') \<Longrightarrow> drama_reaches s'"

declare map_of_eq_Some_iff [simp del] Some_eq_map_of_iff [simp del]

lemmas drama_ok_defs = drama_ok_def series_ok_def characters_ok_def packs_ok_def shots_ok_def renders_ok_def

lemma check_binding_cong:
  "dm_characters s' = dm_characters s \<Longrightarrow> check_binding s' = check_binding s"
  by (simp add: check_binding_def fun_eq_iff)

lemma check_binding_new_character:
  "jget (dm_characters s) i = None \<Longrightarrow> dm_characters s' = jset i c (dm_characters s) \<Longrightarrow>
     check_binding s sid b = Inr () \<Longrightarrow> check_binding s' sid b = Inr ()"
  by (auto simp: check_binding_def split: option.splits)

lemma createSeries_ok:
  assumes "drama_ok s" "createSeries d owner s = Inr s'"
  shows "drama_ok s'"
proof -
  define e where "e = (if truthy owner then d\<lparr>ds_ownerId := owner\<rparr> else d)"
  from assms(2) have new: "jget (dm_series s) (ds_id d) = None" and fmt: "df_aspectRatio (ds_format d) = ''9:16''"
    and s': "s' = s\<lparr>dm_series := jset (ds_id d) e (dm_series s)\<rparr>"
    by (auto simp: createSeries_def result_simps e_def)
  have e: "ds_id e = ds_id d" "df_aspectRatio (ds_format e) = ''9:16''" using fmt by (simp_all add: e_def)
  have cb: "check_binding s' = check_binding s" by (rule check_binding_cong) (simp add: s')
  have more: "jget (dm_series s') i = Some x" if "jget (dm_series s) i = Some x" for i x using that new by (auto simp: s')
  have "series_ok s'" using assms(1) e by (simp add: drama_ok_def series_ok_def s')
  moreover have "characters_ok s'" using assms(1) by (simp add: drama_ok_def characters_ok_def s')
  moreover have "shots_ok s'" unfolding shots_ok_def cb using assms(1) more
    by (simp add: drama_ok_def shots_ok_def s' del: jget_jset) blast
  ultimately show ?thesis using assms(1) by (simp add: drama_ok_def packs_ok_def renders_ok_def s')
qed

lemma createCharacter_ok:
  assumes "drama_ok s" "createCharacter c owner s = Inr s'"
  shows "drama_ok s'"
proof -
  from assms(2) have new: "jget (dm_characters s) (ch_id c) = None" and sr: "jget (dm_series s) (ch_seriesId c) \<noteq> None"
    and an: "assertIdentityAnchors (ch_identityAnchors c) = Inr ()"
    and s': "s' = s\<lparr>dm_characters := jset (ch_id c) c (dm_characters s)\<rparr>"
    by (auto simp: createCharacter_def Let_def result_simps)
  have "check_binding s' sid b = Inr ()" if "check_binding s sid b = Inr ()" for sid b
    using check_binding_new_character [OF new _ that] s' by simp
  then have "shots_ok s'" using assms(1) by (fastforce simp: drama_ok_def shots_ok_def s')
  moreover have "packs_ok s'" using assms(1) new by (fastforce simp: drama_ok_def packs_ok_def s')
  moreover have "characters_ok s'" using assms(1) sr an by (simp add: drama_ok_def characters_ok_def s')
  ultimately show ?thesis using assms(1) by (simp add: drama_ok_def series_ok_def renders_ok_def s')
qed

lemma addReferencePack_ok: "drama_ok s \<Longrightarrow> addReferencePack p owner s = Inr s' \<Longrightarrow> drama_ok s'"
proof -
  assume ok: "drama_ok s" and add: "addReferencePack p owner s = Inr s'"
  from add obtain c where c: "jget (dm_characters s) (rp_characterId p) = Some c" "rp_lookRevision p = ch_activeLookRevision c"
    and full: "rp_status p = Pack_approved \<longrightarrow> assertReferencePackComplete p = Inr ()"
    and new: "\<forall>q \<in> set (packs_of s (rp_characterId p)). rp_id q \<noteq> rp_id p"
    and s': "s' = s\<lparr>dm_packs := jset (rp_characterId p) (packs_of s (rp_characterId p) @ [p]) (dm_packs s)\<rparr>"
    by (auto simp: addReferencePack_def Let_def result_simps split: option.splits if_splits)
  have old: "distinct (map rp_id (packs_of s (rp_characterId p))) \<and> (\<forall>q \<in> set (packs_of s (rp_characterId p)). rp_characterId q = rp_characterId p
      \<and> rp_lookRevision q = ch_activeLookRevision c \<and> (rp_status q = Pack_approved \<longrightarrow> assertReferencePackComplete q = Inr ()))"
  proof (cases "jget (dm_packs s) (rp_characterId p)")
    case (Some ps)
    then have "distinct (map rp_id ps) \<and> (\<exists>c. jget (dm_characters s) (rp_characterId p) = Some c \<and>
        (\<forall>q \<in> set ps. rp_characterId q = rp_characterId p \<and> rp_lookRevision q = ch_activeLookRevision c \<and>
          (rp_status q = Pack_approved \<longrightarrow> assertReferencePackComplete q = Inr ())))"
      using ok unfolding drama_ok_def packs_ok_def by blast
    with c(1) Some show ?thesis by (simp add: packs_of_def)
  qed (simp add: packs_of_def)
  have "packs_ok s'" using ok c full new old by (auto simp: drama_ok_def packs_ok_def s')
  moreover have cb: "check_binding s' = check_binding s" by (rule check_binding_cong) (simp add: s')
  have "shots_ok s'" unfolding shots_ok_def cb using ok by (simp add: drama_ok_def shots_ok_def s')
  ultimately show ?thesis using ok by (simp add: drama_ok_def series_ok_def characters_ok_def renders_ok_def s')
qed

lemma createShot_ok:
  assumes "drama_ok s" "createShot shot owner s = Inr s'"
  shows "drama_ok s'"
proof -
  from assms(2) obtain series where series: "jget (dm_series s) (sh_seriesId shot) = Some series"
    "df_minShotDurationSeconds (ds_format series) \<le> sh_durationSeconds shot" "sh_durationSeconds shot \<le> df_maxShotDurationSeconds (ds_format series)"
    and b: "\<forall>b \<in> set (sh_characterBindings shot). check_binding s (sh_seriesId shot) b = Inr ()"
    and s': "s' = s\<lparr>dm_shots := jset (sh_id shot) shot (dm_shots s)\<rparr>"
    by (auto simp: createShot_def result_simps split: option.splits)
  have cb: "check_binding s' = check_binding s" by (rule check_binding_cong) (simp add: s')
  have "shots_ok s'" unfolding shots_ok_def cb using assms(1) series b by (simp add: drama_ok_def shots_ok_def s')
  moreover have "renders_ok s'" using assms(1) by (simp add: drama_ok_def renders_ok_def s')
  ultimately show ?thesis using assms(1) by (simp add: drama_ok_def series_ok_def characters_ok_def packs_ok_def s')
qed

lemma renders_only:
  assumes "drama_ok s" "renders_ok s'" "dm_series s' = dm_series s" "dm_characters s' = dm_characters s" "dm_packs s' = dm_packs s"
    "dm_shots s' = dm_shots s"
  shows "drama_ok s'"
  using assms by (simp add: drama_ok_def series_ok_def characters_ok_def packs_ok_def shots_ok_def check_binding_cong [OF assms(4)])

lemma requireShot_Inr: "requireShot s i owner = Inr shot \<Longrightarrow> jget (dm_shots s) i = Some shot"
  by (auto simp: requireShot_def result_simps split: option.splits)

lemma recordKeyframe_ok: "drama_ok s \<Longrightarrow> recordKeyframe k owner s = Inr s' \<Longrightarrow> drama_ok s'"
  by (rule renders_only [of s])
    (auto simp: recordKeyframe_def result_simps drama_ok_def renders_ok_def dest!: requireShot_Inr split: if_splits)

lemma recordLineage_ok: "drama_ok s \<Longrightarrow> recordLineage l owner s = Inr s' \<Longrightarrow> drama_ok s'"
  by (rule renders_only [of s])
    (auto simp: recordLineage_def result_simps drama_ok_def renders_ok_def dest!: requireShot_Inr split: if_splits)

section \<open>Marking lineages stale\<close>

definition affected :: "drama_state \<Rightarrow> string \<Rightarrow> string option \<Rightarrow> render_lineage \<Rightarrow> bool" where
  "affected s characterId owner l \<longleftrightarrow> (\<exists>shot. requireShot s (li_shotId l) owner = Inr shot \<and>
     (\<exists>b \<in> set (sh_characterBindings shot). sb_characterId b = characterId))"

lemma requireShot_cong:
  "dm_shots s' = dm_shots s \<Longrightarrow> dm_series s' = dm_series s \<Longrightarrow> requireShot s' = requireShot s"
  by (simp add: requireShot_def fun_eq_iff split: option.split)

definition marked :: "(render_lineage \<Rightarrow> bool) \<Rightarrow> render_lineage \<Rightarrow> render_lineage" where
  "marked hit l = (if hit l then l\<lparr>li_status := Lin_stale\<rparr> else l)"

lemma mark_stale_run:
  assumes "\<forall>l \<in> set ls. truthy owner \<or> jget (dm_shots s) (li_shotId l) \<noteq> None"
  shows "mark_stale i owner ls ids s =
    (Inr (ids @ map li_id (filter (\<lambda>l. affected s i owner l \<and> li_status l \<noteq> Lin_stale) ls)),
     s\<lparr>dm_lineages := fold (\<lambda>l m. if affected s i owner l \<and> li_status l \<noteq> Lin_stale
        then jset (li_id l) (l\<lparr>li_status := Lin_stale\<rparr>) m else m) ls (dm_lineages s)\<rparr>)"
  using assms
proof (induction ls arbitrary: ids s)
  case (Cons l ls)
  show ?case
  proof (cases "requireShot s (li_shotId l) owner")
    case (Inl e)
    then have "e = NOT_FOUND" "truthy owner" using Cons.prems
      by (auto simp: requireShot_def result_simps hidden_from_def split: option.splits)
    moreover have "\<not> affected s i owner l" using Inl by (simp add: affected_def)
    ultimately show ?thesis using Cons Inl by simp
  next
    case (Inr shot)
    have aff: "affected s i owner l \<longleftrightarrow> (\<exists>b \<in> set (sh_characterBindings shot). sb_characterId b = i)"
      using Inr by (simp add: affected_def)
    let ?s = "s\<lparr>dm_lineages := jset (li_id l) (l\<lparr>li_status := Lin_stale\<rparr>) (dm_lineages s)\<rparr>"
    have same: "affected ?s i owner = affected s i owner"
      by (simp add: affected_def fun_eq_iff requireShot_cong [of ?s s])
    have "\<forall>l \<in> set ls. truthy owner \<or> jget (dm_shots ?s) (li_shotId l) \<noteq> None" using Cons.prems by auto
    note IH = Cons.IH [OF this, unfolded same]
    have "\<forall>l \<in> set ls. truthy owner \<or> jget (dm_shots s) (li_shotId l) \<noteq> None" using Cons.prems by auto
    note IH0 = Cons.IH [OF this]
    show ?thesis using Inr aff by (simp add: IH IH0)
  qed
qed simp

lemma fold_jset_unique:
  assumes "distinct (map li_id ls)" "jmap_ok m" "\<forall>l \<in> set ls. jget m (li_id l) = Some l"
  shows "jget (fold (\<lambda>l m. if hit l then jset (li_id l) (l\<lparr>li_status := Lin_stale\<rparr>) m else m) ls m) i =
    (if i \<in> li_id ` set ls then map_option (marked hit) (jget m i) else jget m i)
    \<and> jmap_ok (fold (\<lambda>l m. if hit l then jset (li_id l) (l\<lparr>li_status := Lin_stale\<rparr>) m else m) ls m)"
  using assms
proof (induction ls arbitrary: m)
  case (Cons l ls)
  let ?m = "if hit l then jset (li_id l) (l\<lparr>li_status := Lin_stale\<rparr>) m else m"
  have "jmap_ok ?m" "\<forall>k \<in> set ls. jget ?m (li_id k) = Some k" using Cons.prems by (auto simp: image_iff)
  with Cons have "jget (fold (\<lambda>l m. if hit l then jset (li_id l) (l\<lparr>li_status := Lin_stale\<rparr>) m else m) ls ?m) i =
    (if i \<in> li_id ` set ls then map_option (marked hit) (jget ?m i) else jget ?m i) \<and>
    jmap_ok (fold (\<lambda>l m. if hit l then jset (li_id l) (l\<lparr>li_status := Lin_stale\<rparr>) m else m) ls ?m)" by simp
  with Cons.prems show ?case by (auto simp: marked_def)
qed simp

lemma markLineagesStale:
  assumes "drama_ok s"
    and hit_def: "hit = (\<lambda>l. affected s i owner l \<and> li_status l \<noteq> Lin_stale)"
  shows "\<exists>m. markLineagesStaleForCharacter i owner s =
      (Inr (map li_id (filter hit (jvalues (dm_lineages s)))), s\<lparr>dm_lineages := m\<rparr>) \<and> jmap_ok m \<and>
    (\<forall>k. jget m k = map_option (marked hit) (jget (dm_lineages s) k))"
proof -
  have ren: "renders_ok s" using assms(1) by (simp add: drama_ok_def)
  have val: "jget (dm_lineages s) (li_id l) = Some l \<and> jget (dm_shots s) (li_shotId l) \<noteq> None" if "l \<in> set (jvalues (dm_lineages s))" for l
    using ren that jvalues_mem [of "dm_lineages s" l] unfolding renders_ok_def by metis
  have keys: "map li_id (jvalues (dm_lineages s)) = map fst (dm_lineages s)"
    using ren by (auto simp: renders_ok_def intro!: map_of_is_SomeI)
  define m where "m = fold (\<lambda>l m. if hit l then jset (li_id l) (l\<lparr>li_status := Lin_stale\<rparr>) m else m) (jvalues (dm_lineages s)) (dm_lineages s)"
  have "markLineagesStaleForCharacter i owner s = (Inr (map li_id (filter hit (jvalues (dm_lineages s)))), s\<lparr>dm_lineages := m\<rparr>)"
    unfolding markLineagesStaleForCharacter_def m_def hit_def
    by (subst mark_stale_run) (use val in auto)
  moreover have "distinct (map li_id (jvalues (dm_lineages s)))" unfolding keys using ren by (simp add: renders_ok_def)
  note F = fold_jset_unique [OF this, of "dm_lineages s" hit, folded m_def]
  have "jget m k = map_option (marked hit) (jget (dm_lineages s) k) \<and> jmap_ok m" for k
  proof (cases "k \<in> li_id ` set (jvalues (dm_lineages s))")
    case True then show ?thesis using F [of k] ren val by (simp add: renders_ok_def)
  next
    case False
    then have "jget (dm_lineages s) k = None" using keys by (metis list.set_map map_of_eq_None_iff)
    then show ?thesis using F [of k] False ren val by (simp add: renders_ok_def)
  qed
  ultimately show ?thesis by blast
qed

lemma markLineagesStale_ok: "drama_ok s \<Longrightarrow> markLineagesStaleForCharacter i owner s = (r, s') \<Longrightarrow> drama_ok s'"
proof -
  assume ok: "drama_ok s" and mark: "markLineagesStaleForCharacter i owner s = (r, s')"
  from markLineagesStale [OF ok refl, of i owner] mark obtain hit m where s': "s' = s\<lparr>dm_lineages := m\<rparr>" "jmap_ok m"
    "\<And>k. jget m k = map_option (marked hit) (jget (dm_lineages s) k)" by auto
  have "renders_ok s'" using ok s'(2) by (auto simp: drama_ok_def renders_ok_def s'(1,3) marked_def)
  then show ?thesis by (rule renders_only [OF ok]) (simp_all add: s'(1))
qed

lemma drama_reaches_ok: "drama_reaches s \<Longrightarrow> drama_ok s"
proof (induction rule: drama_reaches.induct)
  case new
  then show ?case by (simp add: drama_ok_defs)
qed (blast intro: createSeries_ok createCharacter_ok addReferencePack_ok createShot_ok recordKeyframe_ok recordLineage_ok
  markLineagesStale_ok)+

section \<open>The contract of a store\<close>

text \<open>
  What the tools rely on: a keyframe node carries the references of exactly one approved pack for each character of the
  shot, in their order, and a video node is made from an accepted keyframe of the shot whose packs are among these.
  \<open>shot_of\<close>, \<open>packs_in\<close> and \<open>keyframe_in\<close> read the state behind a store.
\<close>

locale drama_contract =
  fixes store :: "'s drama_store"
    and ok :: "'s \<Rightarrow> bool"
    and shot_of :: "'s \<Rightarrow> string option \<Rightarrow> string \<Rightarrow> shot_spec option"
    and packs_in :: "'s \<Rightarrow> string \<Rightarrow> reference_pack list"
    and keyframe_in :: "'s \<Rightarrow> keyframe_render \<Rightarrow> bool"
  assumes prepares: "ok s \<Longrightarrow> dr_prepareKeyframeNode store s i owner = Inr d \<Longrightarrow>
      \<exists>shot packs. shot_of s owner i = Some shot \<and> d = keyframe_draft_of i packs \<and>
        list_all2 (\<lambda>b p. approved_for b (packs_in s (sb_characterId b)) = [p]) (sh_characterBindings shot) packs"
    and refuses: "ok s \<Longrightarrow> shot_of s owner i = Some shot \<Longrightarrow> b \<in> set (sh_characterBindings shot) \<Longrightarrow>
      length (approved_for b (packs_in s (sb_characterId b))) \<noteq> 1 \<Longrightarrow> \<exists>e. dr_prepareKeyframeNode store s i owner = Inl e"
    and video: "ok s \<Longrightarrow> dr_prepareVideoNode store s i owner = Inr v \<Longrightarrow>
      \<exists>k d. keyframe_in s k \<and> kf_id k = vd_keyframeRenderId v \<and> kf_shotId k = i \<and> kf_status k = Key_accepted \<and>
        dr_prepareKeyframeNode store s i owner = Inr d \<and> vd_shotId v = i \<and> vd_referencePackIds v = kd_referencePackIds d \<and>
        length (kf_referencePackIds k) = length (kd_referencePackIds d) \<and> set (kf_referencePackIds k) \<subseteq> set (kd_referencePackIds d)"
begin

lemma keyframe_packs_approved:
  assumes "ok s" "dr_prepareKeyframeNode store s i owner = Inr d" "j \<in> set (kd_referencePackIds d)"
  shows "\<exists>shot b p. shot_of s owner i = Some shot \<and> b \<in> set (sh_characterBindings shot) \<and> p \<in> set (packs_in s (sb_characterId b)) \<and>
    rp_id p = j \<and> rp_status p = Pack_approved \<and> rp_lookRevision p = sb_lookRevision b \<and> set (pack_assets p) \<subseteq> set (kd_referenceAssetIds d)"
proof -
  from prepares [OF assms(1,2)] obtain shot packs where shot: "shot_of s owner i = Some shot" and d: "d = keyframe_draft_of i packs"
    and all: "list_all2 (\<lambda>b p. approved_for b (packs_in s (sb_characterId b)) = [p]) (sh_characterBindings shot) packs" by blast
  from assms(3) d obtain p where p: "p \<in> set packs" "rp_id p = j" by (auto simp: keyframe_draft_of_def)
  with all obtain b where b: "b \<in> set (sh_characterBindings shot)" "approved_for b (packs_in s (sb_characterId b)) = [p]"
    by (auto dest: list_all2_in_right)
  then have "p \<in> set (approved_for b (packs_in s (sb_characterId b)))" by simp
  then have "p \<in> set (packs_in s (sb_characterId b)) \<and> rp_status p = Pack_approved \<and> rp_lookRevision p = sb_lookRevision b"
    by (simp add: approved_for_def)
  with shot b(1) p d show ?thesis by (fastforce simp: keyframe_draft_of_def)
qed

lemma video_references_approved_packs:
  assumes "ok s" "dr_prepareVideoNode store s i owner = Inr v"
  shows "\<exists>k. keyframe_in s k \<and> kf_id k = vd_keyframeRenderId v \<and> kf_shotId k = i \<and> kf_status k = Key_accepted \<and> vd_shotId v = i \<and>
    (\<forall>j \<in> set (kf_referencePackIds k) \<union> set (vd_referencePackIds v). \<exists>shot b p. shot_of s owner i = Some shot \<and>
      b \<in> set (sh_characterBindings shot) \<and> p \<in> set (packs_in s (sb_characterId b)) \<and> rp_id p = j \<and> rp_status p = Pack_approved \<and>
      rp_lookRevision p = sb_lookRevision b)"
proof -
  from video [OF assms] obtain k d where k: "keyframe_in s k" "kf_id k = vd_keyframeRenderId v" "kf_shotId k = i" "kf_status k = Key_accepted"
    and d: "dr_prepareKeyframeNode store s i owner = Inr d" "vd_shotId v = i" "vd_referencePackIds v = kd_referencePackIds d"
      "set (kf_referencePackIds k) \<subseteq> set (kd_referencePackIds d)" by blast
  have "set (kf_referencePackIds k) \<union> set (vd_referencePackIds v) \<subseteq> set (kd_referencePackIds d)" using d(3,4) by simp
  with keyframe_packs_approved [OF assms(1) d(1)] k d(2) show ?thesis by (intro exI [of _ k]) blast
qed

end

lemma keyed_value: "jmap_ok m \<Longrightarrow> \<forall>i v. jget m i = Some v \<longrightarrow> key v = i \<Longrightarrow> v \<in> set (jvalues m) \<Longrightarrow> jget m (key v) = Some v"
  using jvalues_mem by metis

definition visible_shot :: "drama_state \<Rightarrow> string option \<Rightarrow> string \<Rightarrow> shot_spec option" where
  "visible_shot s owner i = (case requireShot s i owner of Inl e \<Rightarrow> None | Inr shot \<Rightarrow> Some shot)"

lemma single_pack_Inr: "single_pack ps = Inr p \<longleftrightarrow> ps = [p]"
  by (auto simp: single_pack_def split: list.splits)

lemma prepareKeyframeNode_Inr:
  "prepareKeyframeNode s i owner = Inr d \<longleftrightarrow> (\<exists>shot packs. requireShot s i owner = Inr shot \<and> d = keyframe_draft_of (sh_id shot) packs \<and>
     list_all2 (\<lambda>b p. approved_for b (packs_of s (sb_characterId b)) = [p]) (sh_characterBindings shot) packs)"
  by (auto simp: prepareKeyframeNode_def result_simps resolveSingleApprovedReferencePack_def single_pack_Inr)

lemma requireShot_no_owner: "requireShot s i owner = Inr shot \<Longrightarrow> requireShot s i None = Inr shot"
  by (auto simp: requireShot_def result_simps hidden_from_def split: option.splits)

lemma requireShot_id: "drama_ok s \<Longrightarrow> requireShot s i owner = Inr shot \<Longrightarrow> sh_id shot = i"
  using requireShot_Inr [of s i owner shot] by (auto simp: drama_ok_def shots_ok_def)

lemma approved_not_single:
  "b \<in> set bs \<Longrightarrow> length (f b) \<noteq> 1 \<Longrightarrow> \<not> list_all2 (\<lambda>b p. f b = [p]) bs ps"
  by (force simp: list_all2_conv_all_nth in_set_conv_nth)

interpretation memory_drama: drama_contract memory_drama_store drama_ok visible_shot packs_of
  "\<lambda>s k. jget (dm_keyframes s) (kf_id k) = Some k"
proof (unfold_locales, unfold memory_drama_store_def drama_store.simps)
  fix s i owner assume ok: "drama_ok s"
  show "\<exists>shot packs. visible_shot s owner i = Some shot \<and> d = keyframe_draft_of i packs \<and>
      list_all2 (\<lambda>b p. approved_for b (packs_of s (sb_characterId b)) = [p]) (sh_characterBindings shot) packs"
    if "prepareKeyframeNode s i owner = Inr d" for d
    using that requireShot_id [OF ok] by (auto simp: prepareKeyframeNode_Inr visible_shot_def)
  show "\<exists>e. prepareKeyframeNode s i owner = Inl e" if "visible_shot s owner i = Some shot" "b \<in> set (sh_characterBindings shot)"
    "length (approved_for b (packs_of s (sb_characterId b))) \<noteq> 1" for shot b
  proof (cases "prepareKeyframeNode s i owner")
    case (Inr d)
    from that(1) have "requireShot s i owner = Inr shot" by (simp add: visible_shot_def split: sum.splits)
    with Inr obtain packs where
      "list_all2 (\<lambda>b p. approved_for b (packs_of s (sb_characterId b)) = [p]) (sh_characterBindings shot) packs"
      by (auto simp: prepareKeyframeNode_Inr)
    with approved_not_single [of b _ "\<lambda>b. approved_for b (packs_of s (sb_characterId b))", OF that(2,3)] show ?thesis by blast
  qed simp
  show "\<exists>k d. jget (dm_keyframes s) (kf_id k) = Some k \<and> kf_id k = vd_keyframeRenderId v \<and> kf_shotId k = i \<and> kf_status k = Key_accepted \<and>
      prepareKeyframeNode s i owner = Inr d \<and> vd_shotId v = i \<and> vd_referencePackIds v = kd_referencePackIds d \<and>
      length (kf_referencePackIds k) = length (kd_referencePackIds d) \<and> set (kf_referencePackIds k) \<subseteq> set (kd_referencePackIds d)"
    if video: "prepareVideoNode s i owner = Inr v" for v
  proof -
    from video obtain shot k d where shot: "requireShot s i owner = Inr shot"
      and found: "find (\<lambda>k. kf_shotId k = sh_id shot \<and> kf_status k = Key_accepted) (jvalues (dm_keyframes s)) = Some k"
      and d: "prepareKeyframeNode s (sh_id shot) None = Inr d" "\<not> packs_differ (kf_referencePackIds k) (kd_referencePackIds d)"
      and v: "v = \<lparr>vd_shotId = sh_id shot, vd_keyframeRenderId = kf_id k, vd_referencePackIds = kd_referencePackIds d\<rparr>"
      by (auto simp: prepareVideoNode_def result_simps split: option.splits)
    have i: "sh_id shot = i" by (rule requireShot_id [OF ok shot])
    have "prepareKeyframeNode s i owner = Inr d"
      using d(1) shot requireShot_no_owner [OF shot] unfolding i prepareKeyframeNode_Inr by auto
    moreover have mem: "k \<in> set (jvalues (dm_keyframes s))" using find_SomeD [OF found] by blast
    have "renders_ok s" using ok by (simp add: drama_ok_def)
    then have "jget (dm_keyframes s) (kf_id k) = Some k"
      unfolding renders_ok_def by (intro keyed_value [OF _ _ mem]) blast+
    moreover have "kf_shotId k = i" "kf_status k = Key_accepted" using find_SomeD [OF found] i by simp_all
    moreover have "length (kf_referencePackIds k) = length (kd_referencePackIds d)" "set (kf_referencePackIds k) \<subseteq> set (kd_referencePackIds d)"
      using d(2) by (auto simp: packs_differ_def)
    moreover have "vd_shotId v = i" "vd_keyframeRenderId v = kf_id k" "vd_referencePackIds v = kd_referencePackIds d" by (simp_all add: v i)
    ultimately show ?thesis by (intro exI [of _ k] exI [of _ d]) simp
  qed
qed

end
