(* ===== verification/PgDramaState.thy ===== *)
theory PgDramaState
  imports DramaState
begin

text \<open>
  The PostgreSQL store of the short-drama domain, \<^verbatim>\<open>infrastructure/pg-drama-state-store.ts\<close>, over its six tables with
  their primary keys and references.  A JSONB column is a \<open>json\<close> value: what is written is encoded, what is read is checked
  as the code checks it.  Column types and widths are left out.  Where the code resolves the packs of a shot concurrently,
  the first binding that fails decides the error.
\<close>

section \<open>Tables\<close>

record series_line =
  sl_id :: string
  sl_canvas_id :: string
  sl_owner_id :: "string option"
  sl_active_canon_revision :: num
  sl_format :: json

record character_line =
  cl_id :: string
  cl_series_id :: string
  cl_name :: string
  cl_identity_anchors :: json
  cl_active_look_revision :: num
  cl_voice_id :: string

record pack_line =
  pk_id :: string
  pk_character_id :: string
  pk_look_revision :: num
  pk_status :: pack_status
  pk_front_asset_id :: string
  pk_side_asset_id :: string
  pk_back_asset_id :: string
  pk_expression_asset_ids :: json

record shot_line =
  sn_id :: string
  sn_series_id :: string
  sn_episode_no :: num
  sn_shot_no :: num
  sn_duration_seconds :: num
  sn_character_bindings :: json
  sn_prompt_revision :: num

record keyframe_line =
  kl_id :: string
  kl_shot_id :: string
  kl_status :: keyframe_status
  kl_reference_pack_ids :: json
  kl_created_at :: int

record drama_db =
  dd_series :: "series_line list"
  dd_characters :: "character_line list"
  dd_packs :: "pack_line list"
  dd_shots :: "shot_line list"
  dd_keyframes :: "keyframe_line list"
  dd_lineages :: "render_lineage list"

section \<open>JSON columns\<close>

definition strings_json :: "string list \<Rightarrow> json" where
  "strings_json xs = JArr (map JStr xs)"

fun as_string :: "json \<Rightarrow> string option" where
  "as_string (JStr s) = Some s"
| "as_string _ = None"

definition asStringArray :: "json \<Rightarrow> drama_error + string list" where
  "asStringArray v = (case v of
     JArr xs \<Rightarrow> if list_all (\<lambda>x. as_string x \<noteq> None) xs then Inr (List.map_filter as_string xs) else Inl INVALID_STATE
   | _ \<Rightarrow> Inl INVALID_STATE)"

definition binding_json :: "shot_binding \<Rightarrow> json" where
  "binding_json b = JObj [(''characterId'', JStr (sb_characterId b)), (''lookRevision'', JNum (sb_lookRevision b))]"

definition as_binding :: "json \<Rightarrow> drama_error + shot_binding" where
  "as_binding v = (case v of
     JObj fs \<Rightarrow> (case (json_field fs ''characterId'', json_field fs ''lookRevision'') of
         (Some (JStr c), Some (JNum n)) \<Rightarrow> Inr \<lparr>sb_characterId = c, sb_lookRevision = n\<rparr>
       | _ \<Rightarrow> Inl INVALID_STATE)
   | _ \<Rightarrow> Inl INVALID_STATE)"

definition bindings_json :: "shot_binding list \<Rightarrow> json" where
  "bindings_json bs = JArr (map binding_json bs)"

definition asBindings :: "json \<Rightarrow> drama_error + shot_binding list" where
  "asBindings v = (case v of JArr xs \<Rightarrow> rmap as_binding xs | _ \<Rightarrow> Inl INVALID_STATE)"

definition format_json :: "drama_format \<Rightarrow> json" where
  "format_json f = JObj [(''id'', JStr (df_id f)), (''aspectRatio'', JStr (df_aspectRatio f)),
     (''targetDurationSeconds'', JNum (df_targetDurationSeconds f)), (''minShotCount'', JNum (df_minShotCount f)),
     (''maxShotCount'', JNum (df_maxShotCount f)), (''minShotDurationSeconds'', JNum (df_minShotDurationSeconds f)),
     (''maxShotDurationSeconds'', JNum (df_maxShotDurationSeconds f)), (''keyframeFirst'', JBool (df_keyframeFirst f))]"

definition as_format :: "json \<Rightarrow> drama_error + drama_format" where
  "as_format v = (case v of
     JObj fs \<Rightarrow> (case (json_field fs ''id'', json_field fs ''aspectRatio'', json_field fs ''targetDurationSeconds'', json_field fs ''minShotCount'',
         json_field fs ''maxShotCount'', json_field fs ''minShotDurationSeconds'', json_field fs ''maxShotDurationSeconds'', json_field fs ''keyframeFirst'') of
         (Some (JStr i), Some (JStr a), Some (JNum d), Some (JNum n), Some (JNum m), Some (JNum x), Some (JNum y), Some (JBool k)) \<Rightarrow>
           throw_if (a \<noteq> ''9:16'' \<or> \<not> k) INVALID_STATE
             (Inr \<lparr>df_id = i, df_aspectRatio = a, df_targetDurationSeconds = d, df_minShotCount = n, df_maxShotCount = m,
               df_minShotDurationSeconds = x, df_maxShotDurationSeconds = y, df_keyframeFirst = k\<rparr>)
       | _ \<Rightarrow> Inl INVALID_STATE)
   | _ \<Rightarrow> Inl NOT_FOUND)"

text \<open>What is written is read back.\<close>

lemma asStringArray_strings [simp]: "asStringArray (strings_json xs) = Inr xs"
  by (simp add: asStringArray_def strings_json_def list_all_iff List.map_filter_def o_def)

lemma asBindings_bindings [simp]: "asBindings (bindings_json bs) = Inr bs"
proof -
  have "rmap as_binding (map binding_json bs) = Inr bs"
    by (induction bs) (simp_all add: as_binding_def binding_json_def json_field_def)
  then show ?thesis by (simp add: asBindings_def bindings_json_def)
qed

lemma as_format_format: "df_aspectRatio f = ''9:16'' \<Longrightarrow> df_keyframeFirst f \<Longrightarrow> as_format (format_json f) = Inr f"
  by (simp add: as_format_def format_json_def json_field_def)

section \<open>Checks\<close>

definition requireNonBlank :: "string \<Rightarrow> drama_error + unit" where
  "requireNonBlank v = throw_if (blank v) INVALID_INPUT (Inr ())"

definition validateCharacter :: "character_profile \<Rightarrow> drama_error + unit" where
  "validateCharacter c = rbind (requireNonBlank (ch_name c)) (\<lambda>_. rbind (requireNonBlank (ch_voiceId c)) (\<lambda>_.
     throw_if (length (ch_identityAnchors c) < 3 \<or> 5 < length (ch_identityAnchors c)) INVALID_IDENTITY_ANCHORS
       (throw_if (length (uniq (ch_identityAnchors c)) \<noteq> length (ch_identityAnchors c)) INVALID_IDENTITY_ANCHORS (Inr ()))))"

definition validateReferencePack :: "reference_pack \<Rightarrow> drama_error + unit" where
  "validateReferencePack p = rbind (for_each requireNonBlank [rp_frontAssetId p, rp_sideAssetId p, rp_backAssetId p]) (\<lambda>_.
     throw_if (rp_expressionAssetIds p = []) INCOMPLETE_REFERENCE_PACK (Inr ()))"

section \<open>Reading\<close>

text \<open>\<open>$2::bigint IS NULL OR owner_id = $2::bigint\<close>.\<close>

definition owned :: "string option \<Rightarrow> series_line \<Rightarrow> bool" where
  "owned owner r \<longleftrightarrow> owner = None \<or> sl_owner_id r = owner"

definition series_visible :: "drama_db \<Rightarrow> string option \<Rightarrow> string \<Rightarrow> bool" where
  "series_visible db owner i \<longleftrightarrow> (\<exists>r \<in> set (dd_series db). sl_id r = i \<and> owned owner r)"

definition pg_requireSeries :: "drama_db \<Rightarrow> string \<Rightarrow> string option \<Rightarrow> drama_error + drama_series" where
  "pg_requireSeries db i owner = (case find (\<lambda>r. sl_id r = i \<and> owned owner r) (dd_series db) of
     None \<Rightarrow> Inl NOT_FOUND
   | Some r \<Rightarrow> rbind (as_format (sl_format r)) (\<lambda>f.
       Inr \<lparr>ds_id = sl_id r, ds_ownerId = sl_owner_id r, ds_canvasId = sl_canvas_id r,
         ds_activeCanonRevision = sl_active_canon_revision r, ds_format = f\<rparr>))"

definition pg_requireCharacter :: "drama_db \<Rightarrow> string \<Rightarrow> string option \<Rightarrow> drama_error + character_profile" where
  "pg_requireCharacter db i owner = (case find (\<lambda>r. cl_id r = i \<and> series_visible db owner (cl_series_id r)) (dd_characters db) of
     None \<Rightarrow> Inl NOT_FOUND
   | Some r \<Rightarrow> rbind (asStringArray (cl_identity_anchors r)) (\<lambda>anchors.
       Inr \<lparr>ch_id = cl_id r, ch_seriesId = cl_series_id r, ch_name = cl_name r, ch_identityAnchors = anchors,
         ch_activeLookRevision = cl_active_look_revision r, ch_voiceId = cl_voice_id r\<rparr>))"

definition pg_requireShot :: "drama_db \<Rightarrow> string \<Rightarrow> string option \<Rightarrow> drama_error + shot_spec" where
  "pg_requireShot db i owner = (case find (\<lambda>r. sn_id r = i \<and> series_visible db owner (sn_series_id r)) (dd_shots db) of
     None \<Rightarrow> Inl NOT_FOUND
   | Some r \<Rightarrow> rbind (asBindings (sn_character_bindings r)) (\<lambda>bs.
       Inr \<lparr>sh_id = sn_id r, sh_seriesId = sn_series_id r, sh_episodeNo = sn_episode_no r, sh_shotNo = sn_shot_no r,
         sh_durationSeconds = sn_duration_seconds r, sh_characterBindings = bs, sh_promptRevision = sn_prompt_revision r\<rparr>))"

definition pack_of_line :: "pack_line \<Rightarrow> string list \<Rightarrow> reference_pack" where
  "pack_of_line r expressions = \<lparr>rp_id = pk_id r, rp_characterId = pk_character_id r, rp_lookRevision = pk_look_revision r,
     rp_status = pk_status r, rp_frontAssetId = pk_front_asset_id r, rp_sideAssetId = pk_side_asset_id r,
     rp_backAssetId = pk_back_asset_id r, rp_expressionAssetIds = expressions\<rparr>"

definition resolveReferencePack :: "drama_db \<Rightarrow> shot_binding \<Rightarrow> drama_error + reference_pack" where
  "resolveReferencePack db b =
     (case filter (\<lambda>r. pk_character_id r = sb_characterId b \<and> pk_look_revision r = sb_lookRevision b \<and> pk_status r = Pack_approved) (dd_packs db) of
        [] \<Rightarrow> Inl MISSING_CHARACTER_REFERENCE
      | [r] \<Rightarrow> rbind (asStringArray (pk_expression_asset_ids r)) (\<lambda>xs.
          rbind (validateReferencePack (pack_of_line r xs)) (\<lambda>_. Inr (pack_of_line r xs)))
      | _ \<Rightarrow> Inl CHARACTER_REFERENCE_AMBIGUOUS)"

definition sameIds :: "string list \<Rightarrow> string list \<Rightarrow> bool" where
  "sameIds actual expected \<longleftrightarrow> length actual = length expected \<and> (\<forall>i \<in> set actual. i \<in> set expected)"

definition pg_prepareKeyframeNode :: "drama_db \<Rightarrow> string \<Rightarrow> string option \<Rightarrow> drama_error + keyframe_draft" where
  "pg_prepareKeyframeNode db i owner = rbind (pg_requireShot db i owner) (\<lambda>shot.
     rbind (rmap (resolveReferencePack db) (sh_characterBindings shot)) (\<lambda>packs.
       Inr (keyframe_draft_of (sh_id shot) packs)))"

text \<open>\<open>ORDER BY created_at DESC LIMIT 1\<close>.\<close>

definition latest_accepted :: "drama_db \<Rightarrow> string \<Rightarrow> keyframe_line option" where
  "latest_accepted db i = (case sort_key (\<lambda>k. - kl_created_at k) (filter (\<lambda>k. kl_shot_id k = i \<and> kl_status k = Key_accepted) (dd_keyframes db)) of
     [] \<Rightarrow> None | k # _ \<Rightarrow> Some k)"

definition pg_prepareVideoNode :: "drama_db \<Rightarrow> string \<Rightarrow> string option \<Rightarrow> drama_error + video_draft" where
  "pg_prepareVideoNode db i owner = rbind (pg_prepareKeyframeNode db i owner) (\<lambda>expected.
     case latest_accepted db i of
       None \<Rightarrow> Inl KEYFRAME_NOT_ACCEPTED
     | Some k \<Rightarrow> rbind (asStringArray (kl_reference_pack_ids k)) (\<lambda>ids.
         throw_if (\<not> sameIds ids (kd_referencePackIds expected)) MISSING_CHARACTER_REFERENCE
           (Inr \<lparr>vd_shotId = i, vd_keyframeRenderId = kl_id k, vd_referencePackIds = kd_referencePackIds expected\<rparr>)))"

section \<open>Writing\<close>

definition pg_createSeries :: "drama_series \<Rightarrow> string option \<Rightarrow> drama_db \<Rightarrow> drama_error + drama_db" where
  "pg_createSeries d owner db =
     throw_if (df_aspectRatio (ds_format d) \<noteq> ''9:16'') INVALID_FORMAT
       (throw_if (\<exists>r \<in> set (dd_series db). sl_id r = ds_id d) CONFLICT
         (Inr (db\<lparr>dd_series := dd_series db @ [\<lparr>sl_id = ds_id d, sl_canvas_id = ds_canvasId d,
            sl_owner_id = (case owner of None \<Rightarrow> ds_ownerId d | Some o' \<Rightarrow> Some o'),
            sl_active_canon_revision = ds_activeCanonRevision d, sl_format = format_json (ds_format d)\<rparr>]\<rparr>)))"

definition pg_createCharacter :: "character_profile \<Rightarrow> string option \<Rightarrow> drama_db \<Rightarrow> drama_error + drama_db" where
  "pg_createCharacter c owner db =
     rbind (validateCharacter c) (\<lambda>_. rbind (pg_requireSeries db (ch_seriesId c) owner) (\<lambda>_.
       throw_if (\<exists>r \<in> set (dd_characters db). cl_id r = ch_id c) CONFLICT
         (Inr (db\<lparr>dd_characters := dd_characters db @ [\<lparr>cl_id = ch_id c, cl_series_id = ch_seriesId c, cl_name = ch_name c,
            cl_identity_anchors = strings_json (ch_identityAnchors c), cl_active_look_revision = ch_activeLookRevision c,
            cl_voice_id = ch_voiceId c\<rparr>]\<rparr>))))"

definition pg_addReferencePack :: "reference_pack \<Rightarrow> string option \<Rightarrow> drama_db \<Rightarrow> drama_error + drama_db" where
  "pg_addReferencePack p owner db =
     rbind (pg_requireCharacter db (rp_characterId p) owner) (\<lambda>c.
       throw_if (rp_lookRevision p \<noteq> ch_activeLookRevision c) VERSION_CONFLICT
         (rbind (if rp_status p = Pack_approved then validateReferencePack p else Inr ()) (\<lambda>_.
           throw_if (\<exists>r \<in> set (dd_packs db). pk_id r = rp_id p) CONFLICT
             (Inr (db\<lparr>dd_packs := dd_packs db @ [\<lparr>pk_id = rp_id p, pk_character_id = rp_characterId p,
                pk_look_revision = rp_lookRevision p, pk_status = rp_status p, pk_front_asset_id = rp_frontAssetId p,
                pk_side_asset_id = rp_sideAssetId p, pk_back_asset_id = rp_backAssetId p,
                pk_expression_asset_ids = strings_json (rp_expressionAssetIds p)\<rparr>]\<rparr>)))))"

definition pg_check_binding :: "drama_db \<Rightarrow> string option \<Rightarrow> string \<Rightarrow> shot_binding \<Rightarrow> drama_error + unit" where
  "pg_check_binding db owner seriesId b = rbind (pg_requireCharacter db (sb_characterId b) owner) (\<lambda>c.
     throw_if (ch_seriesId c \<noteq> seriesId \<or> ch_activeLookRevision c \<noteq> sb_lookRevision b) INVALID_CHARACTER_BINDING (Inr ()))"

definition pg_createShot :: "shot_spec \<Rightarrow> string option \<Rightarrow> drama_db \<Rightarrow> drama_error + drama_db" where
  "pg_createShot shot owner db =
     rbind (pg_requireSeries db (sh_seriesId shot) owner) (\<lambda>series.
       throw_if (sh_durationSeconds shot < df_minShotDurationSeconds (ds_format series)
           \<or> df_maxShotDurationSeconds (ds_format series) < sh_durationSeconds shot) INVALID_SHOT_DURATION
         (rbind (for_each (pg_check_binding db owner (sh_seriesId shot)) (sh_characterBindings shot)) (\<lambda>_.
           throw_if (\<exists>r \<in> set (dd_shots db). sn_id r = sh_id shot \<or>
               sn_series_id r = sh_seriesId shot \<and> sn_episode_no r = sh_episodeNo shot \<and> sn_shot_no r = sh_shotNo shot) CONFLICT
             (Inr (db\<lparr>dd_shots := dd_shots db @ [\<lparr>sn_id = sh_id shot, sn_series_id = sh_seriesId shot, sn_episode_no = sh_episodeNo shot,
                sn_shot_no = sh_shotNo shot, sn_duration_seconds = sh_durationSeconds shot,
                sn_character_bindings = bindings_json (sh_characterBindings shot), sn_prompt_revision = sh_promptRevision shot\<rparr>]\<rparr>)))))"

definition pg_recordKeyframe :: "keyframe_render \<Rightarrow> string option \<Rightarrow> int \<Rightarrow> drama_db \<Rightarrow> drama_error + drama_db" where
  "pg_recordKeyframe k owner now db =
     rbind (pg_prepareKeyframeNode db (kf_shotId k) owner) (\<lambda>expected.
       throw_if (kf_status k = Key_accepted \<and> \<not> sameIds (kf_referencePackIds k) (kd_referencePackIds expected)) MISSING_CHARACTER_REFERENCE
         (throw_if (\<exists>r \<in> set (dd_keyframes db). kl_id r = kf_id k) DRAMA_CONSTRAINT
           (Inr (db\<lparr>dd_keyframes := dd_keyframes db @ [\<lparr>kl_id = kf_id k, kl_shot_id = kf_shotId k, kl_status = kf_status k,
              kl_reference_pack_ids = strings_json (kf_referencePackIds k), kl_created_at = now\<rparr>]\<rparr>))))"

definition pg_recordLineage :: "render_lineage \<Rightarrow> string option \<Rightarrow> drama_db \<Rightarrow> drama_error + drama_db" where
  "pg_recordLineage l owner db =
     rbind (pg_requireShot db (li_shotId l) owner) (\<lambda>_.
       throw_if (\<forall>k \<in> set (dd_keyframes db). kl_id k \<noteq> li_keyframeRenderId l) NOT_FOUND
         (throw_if (\<exists>r \<in> set (dd_lineages db). li_id r = li_id l) DRAMA_CONSTRAINT
           (Inr (db\<lparr>dd_lineages := dd_lineages db @ [l]\<rparr>))))"

text \<open>The joined rows of the first query: a lineage that is not stale with the bindings of its shot.\<close>

definition lineage_rows :: "drama_db \<Rightarrow> string option \<Rightarrow> (render_lineage \<times> json) list" where
  "lineage_rows db owner = concat (map (\<lambda>l. map (\<lambda>r. (l, sn_character_bindings r))
     (filter (\<lambda>r. sn_id r = li_shotId l \<and> series_visible db owner (sn_series_id r)) (dd_shots db)))
     (filter (\<lambda>l. li_status l \<noteq> Lin_stale) (dd_lineages db)))"

definition pg_markLineagesStaleForCharacter :: "string \<Rightarrow> string option \<Rightarrow> drama_db \<Rightarrow> drama_error + (string list \<times> drama_db)" where
  "pg_markLineagesStaleForCharacter characterId owner db =
     rbind (rmap (\<lambda>(l, v). rbind (asBindings v) (\<lambda>bs. Inr (l, bs))) (lineage_rows db owner)) (\<lambda>rows.
       let ids = map (\<lambda>(l, bs). li_id l) (filter (\<lambda>(l, bs). \<exists>b \<in> set bs. sb_characterId b = characterId) rows)
       in Inr (ids, if ids = [] then db
          else db\<lparr>dd_lineages := map (\<lambda>l. if li_id l \<in> set ids then l\<lparr>li_status := Lin_stale\<rparr> else l) (dd_lineages db)\<rparr>))"

definition pg_drama_store :: "drama_db drama_store" where
  "pg_drama_store = \<lparr>dr_prepareKeyframeNode = pg_prepareKeyframeNode, dr_prepareVideoNode = pg_prepareVideoNode\<rparr>"

section \<open>The invariant of the tables\<close>

text \<open>Ids are unique, references lead somewhere, and the JSON columns hold what the store writes.\<close>

definition pg_series_ok :: "drama_db \<Rightarrow> bool" where
  "pg_series_ok db \<longleftrightarrow> distinct (map sl_id (dd_series db)) \<and> distinct (map cl_id (dd_characters db)) \<and> distinct (map pk_id (dd_packs db))
     \<and> distinct (map sn_id (dd_shots db)) \<and> distinct (map kl_id (dd_keyframes db)) \<and> distinct (map li_id (dd_lineages db))"

definition pg_columns_ok :: "drama_db \<Rightarrow> bool" where
  "pg_columns_ok db \<longleftrightarrow> (\<forall>r \<in> set (dd_characters db). \<exists>xs. cl_identity_anchors r = strings_json xs)
     \<and> (\<forall>r \<in> set (dd_packs db). \<exists>xs. pk_expression_asset_ids r = strings_json xs)
     \<and> (\<forall>r \<in> set (dd_shots db). \<exists>bs. sn_character_bindings r = bindings_json bs)
     \<and> (\<forall>r \<in> set (dd_keyframes db). \<exists>xs. kl_reference_pack_ids r = strings_json xs)"

definition pg_refs_ok :: "drama_db \<Rightarrow> bool" where
  "pg_refs_ok db \<longleftrightarrow> (\<forall>r \<in> set (dd_characters db). \<exists>d \<in> set (dd_series db). sl_id d = cl_series_id r)
     \<and> (\<forall>r \<in> set (dd_packs db). \<exists>c \<in> set (dd_characters db). cl_id c = pk_character_id r \<and> cl_active_look_revision c = pk_look_revision r)
     \<and> (\<forall>r \<in> set (dd_shots db). \<exists>d \<in> set (dd_series db). sl_id d = sn_series_id r)
     \<and> (\<forall>r \<in> set (dd_keyframes db). \<exists>d \<in> set (dd_shots db). sn_id d = kl_shot_id r)
     \<and> (\<forall>l \<in> set (dd_lineages db). (\<exists>d \<in> set (dd_shots db). sn_id d = li_shotId l) \<and> (\<exists>k \<in> set (dd_keyframes db). kl_id k = li_keyframeRenderId l))"

definition pg_drama_ok :: "drama_db \<Rightarrow> bool" where
  "pg_drama_ok db \<longleftrightarrow> pg_series_ok db \<and> pg_columns_ok db \<and> pg_refs_ok db"

inductive pg_drama_reaches :: "drama_db \<Rightarrow> bool" where
  new: "pg_drama_reaches \<lparr>dd_series = [], dd_characters = [], dd_packs = [], dd_shots = [], dd_keyframes = [], dd_lineages = []\<rparr>"
| series: "pg_drama_reaches db \<Longrightarrow> pg_createSeries d owner db = Inr db' \<Longrightarrow> pg_drama_reaches db'"
| character: "pg_drama_reaches db \<Longrightarrow> pg_createCharacter c owner db = Inr db' \<Longrightarrow> pg_drama_reaches db'"
| pack: "pg_drama_reaches db \<Longrightarrow> pg_addReferencePack p owner db = Inr db' \<Longrightarrow> pg_drama_reaches db'"
| shot: "pg_drama_reaches db \<Longrightarrow> pg_createShot shot owner db = Inr db' \<Longrightarrow> pg_drama_reaches db'"
| keyframe: "pg_drama_reaches db \<Longrightarrow> pg_recordKeyframe k owner now db = Inr db' \<Longrightarrow> pg_drama_reaches db'"
| lineage: "pg_drama_reaches db \<Longrightarrow> pg_recordLineage l owner db = Inr db' \<Longrightarrow> pg_drama_reaches db'"
| stale: "pg_drama_reaches db \<Longrightarrow> pg_markLineagesStaleForCharacter i owner db = Inr (ids, db') \<Longrightarrow> pg_drama_reaches db'"

lemmas pg_drama_ok_defs = pg_drama_ok_def pg_series_ok_def pg_columns_ok_def pg_refs_ok_def

lemma pg_requireSeries_Inr: "pg_requireSeries db i owner = Inr d \<Longrightarrow> \<exists>r \<in> set (dd_series db). sl_id r = i"
  by (auto simp: pg_requireSeries_def split: option.splits dest: find_SomeD)

lemma pg_requireCharacter_Inr:
  "pg_requireCharacter db i owner = Inr c \<Longrightarrow> \<exists>r \<in> set (dd_characters db). cl_id r = i \<and> cl_active_look_revision r = ch_activeLookRevision c"
  by (auto simp: pg_requireCharacter_def result_simps split: option.splits dest: find_SomeD)

lemma pg_requireShot_Inr:
  "pg_requireShot db i owner = Inr shot \<Longrightarrow> (\<exists>r \<in> set (dd_shots db). sn_id r = i) \<and> sh_id shot = i"
  by (auto simp: pg_requireShot_def result_simps split: option.splits dest: find_SomeD)

lemma pg_prepareKeyframeNode_Inr:
  "pg_prepareKeyframeNode db i owner = Inr d \<longleftrightarrow> (\<exists>shot packs. pg_requireShot db i owner = Inr shot \<and> d = keyframe_draft_of (sh_id shot) packs \<and>
     list_all2 (\<lambda>b p. resolveReferencePack db b = Inr p) (sh_characterBindings shot) packs)"
  by (auto simp: pg_prepareKeyframeNode_def result_simps)

lemma pg_createSeries_ok: "pg_drama_ok db \<Longrightarrow> pg_createSeries d owner db = Inr db' \<Longrightarrow> pg_drama_ok db'"
  unfolding pg_drama_ok_defs by (fastforce simp: pg_createSeries_def result_simps)

lemma pg_createCharacter_ok: "pg_drama_ok db \<Longrightarrow> pg_createCharacter c owner db = Inr db' \<Longrightarrow> pg_drama_ok db'"
  unfolding pg_drama_ok_defs by (fastforce simp: pg_createCharacter_def result_simps dest: pg_requireSeries_Inr)

lemma pg_addReferencePack_ok: "pg_drama_ok db \<Longrightarrow> pg_addReferencePack p owner db = Inr db' \<Longrightarrow> pg_drama_ok db'"
  unfolding pg_drama_ok_defs by (fastforce simp: pg_addReferencePack_def result_simps dest: pg_requireCharacter_Inr)

lemma pg_createShot_ok: "pg_drama_ok db \<Longrightarrow> pg_createShot shot owner db = Inr db' \<Longrightarrow> pg_drama_ok db'"
  unfolding pg_drama_ok_defs by (fastforce simp: pg_createShot_def result_simps dest: pg_requireSeries_Inr)

lemma pg_recordKeyframe_ok: "pg_drama_ok db \<Longrightarrow> pg_recordKeyframe k owner now db = Inr db' \<Longrightarrow> pg_drama_ok db'"
  unfolding pg_drama_ok_defs
  by (fastforce simp: pg_recordKeyframe_def result_simps pg_prepareKeyframeNode_Inr dest: pg_requireShot_Inr)

lemma pg_recordLineage_ok: "pg_drama_ok db \<Longrightarrow> pg_recordLineage l owner db = Inr db' \<Longrightarrow> pg_drama_ok db'"
proof -
  assume ok: "pg_drama_ok db" and add: "pg_recordLineage l owner db = Inr db'"
  from add obtain shot where "pg_requireShot db (li_shotId l) owner = Inr shot" and k: "\<exists>k \<in> set (dd_keyframes db). kl_id k = li_keyframeRenderId l"
    and new: "\<forall>r \<in> set (dd_lineages db). li_id r \<noteq> li_id l" and db': "db' = db\<lparr>dd_lineages := dd_lineages db @ [l]\<rparr>"
    by (auto simp: pg_recordLineage_def result_simps)
  then have "\<exists>d \<in> set (dd_shots db). sn_id d = li_shotId l" using pg_requireShot_Inr by blast
  with ok k new show ?thesis by (auto simp: pg_drama_ok_defs db')
qed

lemma pg_stale_rows:
  "pg_markLineagesStaleForCharacter i owner db = Inr (ids, db') \<Longrightarrow>
     db' = db\<lparr>dd_lineages := map (\<lambda>l. if li_id l \<in> set ids then l\<lparr>li_status := Lin_stale\<rparr> else l) (dd_lineages db)\<rparr>"
proof -
  assume "pg_markLineagesStaleForCharacter i owner db = Inr (ids, db')"
  then have "db' = (if ids = [] then db else db\<lparr>dd_lineages := map (\<lambda>l. if li_id l \<in> set ids then l\<lparr>li_status := Lin_stale\<rparr> else l) (dd_lineages db)\<rparr>)"
    unfolding pg_markLineagesStaleForCharacter_def Let_def rbind_Inr by blast
  then show ?thesis by (cases "ids = []") simp_all
qed

lemma pg_stale_ok: "pg_drama_ok db \<Longrightarrow> pg_markLineagesStaleForCharacter i owner db = Inr (ids, db') \<Longrightarrow> pg_drama_ok db'"
proof -
  assume ok: "pg_drama_ok db" and mark: "pg_markLineagesStaleForCharacter i owner db = Inr (ids, db')"
  note db' = pg_stale_rows [OF mark]
  have "map li_id (dd_lineages db') = map li_id (dd_lineages db)" by (simp add: db')
  then have "pg_series_ok db'" using ok by (simp add: pg_drama_ok_def pg_series_ok_def) (simp add: db')
  moreover have "pg_refs_ok db'" using ok by (simp add: pg_drama_ok_def pg_refs_ok_def db') auto
  moreover have "pg_columns_ok db'" using ok by (simp add: pg_drama_ok_def pg_columns_ok_def db')
  ultimately show ?thesis by (simp add: pg_drama_ok_def)
qed

lemma pg_drama_reaches_ok: "pg_drama_reaches db \<Longrightarrow> pg_drama_ok db"
proof (induction rule: pg_drama_reaches.induct)
  case new
  then show ?case by (simp add: pg_drama_ok_defs)
qed (blast intro: pg_createSeries_ok pg_createCharacter_ok pg_addReferencePack_ok pg_createShot_ok pg_recordKeyframe_ok
  pg_recordLineage_ok pg_stale_ok)+

section \<open>PostgreSQL keeps the contract\<close>

definition strings_of :: "json \<Rightarrow> string list" where
  "strings_of v = (case asStringArray v of Inr xs \<Rightarrow> xs | Inl e \<Rightarrow> [])"

definition pack_value :: "pack_line \<Rightarrow> reference_pack" where
  "pack_value r = pack_of_line r (strings_of (pk_expression_asset_ids r))"

definition packs_in_db :: "drama_db \<Rightarrow> string \<Rightarrow> reference_pack list" where
  "packs_in_db db c = map pack_value (filter (\<lambda>r. pk_character_id r = c) (dd_packs db))"

definition keyframe_value :: "keyframe_line \<Rightarrow> keyframe_render" where
  "keyframe_value r = \<lparr>kf_id = kl_id r, kf_shotId = kl_shot_id r, kf_status = kl_status r,
     kf_referencePackIds = strings_of (kl_reference_pack_ids r)\<rparr>"

definition pg_visible_shot :: "drama_db \<Rightarrow> string option \<Rightarrow> string \<Rightarrow> shot_spec option" where
  "pg_visible_shot db owner i = (case pg_requireShot db i owner of Inl e \<Rightarrow> None | Inr shot \<Rightarrow> Some shot)"

lemma approved_in_db:
  "approved_for b (packs_in_db db (sb_characterId b)) = map pack_value (filter (\<lambda>r. pk_character_id r = sb_characterId b \<and>
     pk_look_revision r = sb_lookRevision b \<and> pk_status r = Pack_approved) (dd_packs db))"
  by (auto simp: approved_for_def packs_in_db_def filter_map o_def pack_value_def pack_of_line_def conj_ac intro: filter_cong)

lemma resolveReferencePack_Inr:
  "resolveReferencePack db b = Inr p \<Longrightarrow> approved_for b (packs_in_db db (sb_characterId b)) = [p]"
  unfolding approved_in_db
  by (auto simp: resolveReferencePack_def result_simps pack_value_def strings_of_def split: list.splits)

lemma latest_accepted_Some:
  "latest_accepted db i = Some k \<Longrightarrow> k \<in> set (dd_keyframes db) \<and> kl_shot_id k = i \<and> kl_status k = Key_accepted"
proof -
  assume latest: "latest_accepted db i = Some k"
  let ?ks = "filter (\<lambda>k. kl_shot_id k = i \<and> kl_status k = Key_accepted) (dd_keyframes db)"
  from latest have "k \<in> set (sort_key (\<lambda>k. - kl_created_at k) ?ks)"
    by (auto simp: latest_accepted_def simp del: set_sort split: list.splits)
  then show ?thesis by simp
qed

interpretation pg_drama: drama_contract pg_drama_store pg_drama_ok pg_visible_shot packs_in_db
  "\<lambda>db k. \<exists>r \<in> set (dd_keyframes db). k = keyframe_value r"
proof (unfold_locales, unfold pg_drama_store_def drama_store.simps)
  fix db i owner assume ok: "pg_drama_ok db"
  show "\<exists>shot packs. pg_visible_shot db owner i = Some shot \<and> d = keyframe_draft_of i packs \<and>
      list_all2 (\<lambda>b p. approved_for b (packs_in_db db (sb_characterId b)) = [p]) (sh_characterBindings shot) packs"
    if "pg_prepareKeyframeNode db i owner = Inr d" for d
  proof -
    from that obtain shot packs where shot: "pg_requireShot db i owner = Inr shot" "d = keyframe_draft_of (sh_id shot) packs"
      "list_all2 (\<lambda>b p. resolveReferencePack db b = Inr p) (sh_characterBindings shot) packs" by (auto simp: pg_prepareKeyframeNode_Inr)
    have "list_all2 (\<lambda>b p. approved_for b (packs_in_db db (sb_characterId b)) = [p]) (sh_characterBindings shot) packs"
      using shot(3) by (rule list_all2_mono) (rule resolveReferencePack_Inr)
    with shot pg_requireShot_Inr [OF shot(1)] show ?thesis by (auto simp: pg_visible_shot_def)
  qed
  show "\<exists>e. pg_prepareKeyframeNode db i owner = Inl e" if "pg_visible_shot db owner i = Some shot" "b \<in> set (sh_characterBindings shot)"
    "length (approved_for b (packs_in_db db (sb_characterId b))) \<noteq> 1" for shot b
  proof (cases "pg_prepareKeyframeNode db i owner")
    case (Inr d)
    from that(1) have "pg_requireShot db i owner = Inr shot" by (simp add: pg_visible_shot_def split: sum.splits)
    with Inr obtain packs where "list_all2 (\<lambda>b p. resolveReferencePack db b = Inr p) (sh_characterBindings shot) packs"
      by (auto simp: pg_prepareKeyframeNode_Inr)
    then have "list_all2 (\<lambda>b p. approved_for b (packs_in_db db (sb_characterId b)) = [p]) (sh_characterBindings shot) packs"
      by (rule list_all2_mono) (rule resolveReferencePack_Inr)
    with approved_not_single [of b _ "\<lambda>b. approved_for b (packs_in_db db (sb_characterId b))", OF that(2,3)] show ?thesis by blast
  qed simp
  show "\<exists>k d. (\<exists>r \<in> set (dd_keyframes db). k = keyframe_value r) \<and> kf_id k = vd_keyframeRenderId v \<and> kf_shotId k = i \<and> kf_status k = Key_accepted \<and>
      pg_prepareKeyframeNode db i owner = Inr d \<and> vd_shotId v = i \<and> vd_referencePackIds v = kd_referencePackIds d \<and>
      length (kf_referencePackIds k) = length (kd_referencePackIds d) \<and> set (kf_referencePackIds k) \<subseteq> set (kd_referencePackIds d)"
    if video: "pg_prepareVideoNode db i owner = Inr v" for v
  proof -
    from video obtain d r ids where d: "pg_prepareKeyframeNode db i owner = Inr d" and r: "latest_accepted db i = Some r"
      and ids: "asStringArray (kl_reference_pack_ids r) = Inr ids" "sameIds ids (kd_referencePackIds d)"
      and v: "v = \<lparr>vd_shotId = i, vd_keyframeRenderId = kl_id r, vd_referencePackIds = kd_referencePackIds d\<rparr>"
      by (auto simp: pg_prepareVideoNode_def result_simps split: option.splits)
    have "kf_referencePackIds (keyframe_value r) = ids" using ids(1) by (simp add: keyframe_value_def strings_of_def)
    with d ids(2) v latest_accepted_Some [OF r] show ?thesis
      by (intro exI [of _ "keyframe_value r"] exI [of _ d]) (auto simp: keyframe_value_def sameIds_def)
  qed
qed

section \<open>Properties\<close>

text \<open>
  C23. In both stores a video node is prepared only from an accepted keyframe of the shot, and every reference pack that the
  keyframe and the node name is an approved pack, of the look revision the shot binds, of one of the shot's characters.
\<close>

theorem video_needs_accepted_keyframe:
  assumes "drama_reaches s" "prepareVideoNode s i owner = Inr v" "pg_drama_reaches db" "pg_prepareVideoNode db j owner' = Inr w"
  shows "(\<exists>k. jget (dm_keyframes s) (vd_keyframeRenderId v) = Some k \<and> kf_shotId k = i \<and> kf_status k = Key_accepted \<and> vd_shotId v = i \<and>
      (\<forall>p \<in> set (kf_referencePackIds k) \<union> set (vd_referencePackIds v). \<exists>shot b q. visible_shot s owner i = Some shot \<and>
        b \<in> set (sh_characterBindings shot) \<and> q \<in> set (packs_of s (sb_characterId b)) \<and> rp_id q = p \<and> rp_status q = Pack_approved \<and>
        rp_lookRevision q = sb_lookRevision b)) \<and>
    (\<exists>k. k \<in> keyframe_value ` set (dd_keyframes db) \<and> kf_id k = vd_keyframeRenderId w \<and> kf_shotId k = j \<and> kf_status k = Key_accepted \<and> vd_shotId w = j \<and>
      (\<forall>p \<in> set (kf_referencePackIds k) \<union> set (vd_referencePackIds w). \<exists>shot b q. pg_visible_shot db owner' j = Some shot \<and>
        b \<in> set (sh_characterBindings shot) \<and> q \<in> set (packs_in_db db (sb_characterId b)) \<and> rp_id q = p \<and> rp_status q = Pack_approved \<and>
        rp_lookRevision q = sb_lookRevision b))"
proof
  have "dr_prepareVideoNode memory_drama_store s i owner = Inr v" using assms(2) by (simp add: memory_drama_store_def)
  from memory_drama.video_references_approved_packs [OF drama_reaches_ok [OF assms(1)] this]
  show "\<exists>k. jget (dm_keyframes s) (vd_keyframeRenderId v) = Some k \<and> kf_shotId k = i \<and> kf_status k = Key_accepted \<and> vd_shotId v = i \<and>
      (\<forall>p \<in> set (kf_referencePackIds k) \<union> set (vd_referencePackIds v). \<exists>shot b q. visible_shot s owner i = Some shot \<and>
        b \<in> set (sh_characterBindings shot) \<and> q \<in> set (packs_of s (sb_characterId b)) \<and> rp_id q = p \<and> rp_status q = Pack_approved \<and>
        rp_lookRevision q = sb_lookRevision b)" by metis
  have "dr_prepareVideoNode pg_drama_store db j owner' = Inr w" using assms(4) by (simp add: pg_drama_store_def)
  from pg_drama.video_references_approved_packs [OF pg_drama_reaches_ok [OF assms(3)] this]
  show "\<exists>k. k \<in> keyframe_value ` set (dd_keyframes db) \<and> kf_id k = vd_keyframeRenderId w \<and> kf_shotId k = j \<and> kf_status k = Key_accepted \<and> vd_shotId w = j \<and>
      (\<forall>p \<in> set (kf_referencePackIds k) \<union> set (vd_referencePackIds w). \<exists>shot b q. pg_visible_shot db owner' j = Some shot \<and>
        b \<in> set (sh_characterBindings shot) \<and> q \<in> set (packs_in_db db (sb_characterId b)) \<and> rp_id q = p \<and> rp_status q = Pack_approved \<and>
        rp_lookRevision q = sb_lookRevision b)" unfolding image_iff by blast
qed

text \<open>A series with one character, its approved pack, a shot and its accepted keyframe, in both stores.\<close>

definition demo_series :: drama_series where
  "demo_series = \<lparr>ds_id = ''s'', ds_ownerId = None, ds_canvasId = ''c'', ds_activeCanonRevision = 1,
     ds_format = STANDARD_VERTICAL_SHORT_DRAMA_FORMAT\<rparr>"

definition demo_character :: character_profile where
  "demo_character = \<lparr>ch_id = ''h'', ch_seriesId = ''s'', ch_name = ''Lin'', ch_identityAnchors = [''scar'', ''coat'', ''hair''],
     ch_activeLookRevision = 1, ch_voiceId = ''v''\<rparr>"

definition demo_pack :: reference_pack where
  "demo_pack = \<lparr>rp_id = ''p'', rp_characterId = ''h'', rp_lookRevision = 1, rp_status = Pack_approved, rp_frontAssetId = ''f'',
     rp_sideAssetId = ''g'', rp_backAssetId = ''b'', rp_expressionAssetIds = [''x'']\<rparr>"

definition demo_shot :: shot_spec where
  "demo_shot = \<lparr>sh_id = ''t'', sh_seriesId = ''s'', sh_episodeNo = 1, sh_shotNo = 1, sh_durationSeconds = 3,
     sh_characterBindings = [\<lparr>sb_characterId = ''h'', sb_lookRevision = 1\<rparr>], sh_promptRevision = 1\<rparr>"

definition demo_keyframe :: keyframe_render where
  "demo_keyframe = \<lparr>kf_id = ''k'', kf_shotId = ''t'', kf_status = Key_accepted, kf_referencePackIds = [''p'']\<rparr>"

definition demo_memory :: "drama_error + drama_state" where
  "demo_memory = rbind (createSeries demo_series (Some ''7'')
       \<lparr>dm_series = [], dm_characters = [], dm_packs = [], dm_shots = [], dm_keyframes = [], dm_lineages = []\<rparr>)
     (\<lambda>s. rbind (createCharacter demo_character (Some ''7'') s) (\<lambda>s. rbind (addReferencePack demo_pack (Some ''7'') s)
       (\<lambda>s. rbind (createShot demo_shot (Some ''7'') s) (recordKeyframe demo_keyframe (Some ''7'')))))"

definition demo_db :: "drama_error + drama_db" where
  "demo_db = rbind (pg_createSeries demo_series (Some ''7'')
       \<lparr>dd_series = [], dd_characters = [], dd_packs = [], dd_shots = [], dd_keyframes = [], dd_lineages = []\<rparr>)
     (\<lambda>s. rbind (pg_createCharacter demo_character (Some ''7'') s) (\<lambda>s. rbind (pg_addReferencePack demo_pack (Some ''7'') s)
       (\<lambda>s. rbind (pg_createShot demo_shot (Some ''7'') s) (pg_recordKeyframe demo_keyframe (Some ''7'') 1))))"

lemma demo_memory_reached: "demo_memory = Inr s \<Longrightarrow> drama_reaches s"
  unfolding demo_memory_def rbind_Inr
  by (elim exE conjE, rule drama_reaches.keyframe [rotated], assumption, rule drama_reaches.shot [rotated], assumption,
    rule drama_reaches.pack [rotated], assumption, rule drama_reaches.character [rotated], assumption,
    rule drama_reaches.series [rotated], assumption, rule drama_reaches.new)

lemma demo_db_reached: "demo_db = Inr db \<Longrightarrow> pg_drama_reaches db"
  unfolding demo_db_def rbind_Inr
  by (elim exE conjE, rule pg_drama_reaches.keyframe [rotated], assumption, rule pg_drama_reaches.shot [rotated], assumption,
    rule pg_drama_reaches.pack [rotated], assumption, rule pg_drama_reaches.character [rotated], assumption,
    rule pg_drama_reaches.series [rotated], assumption, rule pg_drama_reaches.new)

definition demo_video :: video_draft where
  "demo_video = \<lparr>vd_shotId = ''t'', vd_keyframeRenderId = ''k'', vd_referencePackIds = [''p'']\<rparr>"

lemma demo_videos:
  "demo_memory = Inr (projr demo_memory)" "prepareVideoNode (projr demo_memory) ''t'' (Some ''7'') = Inr demo_video"
  "demo_db = Inr (projr demo_db)" "pg_prepareVideoNode (projr demo_db) ''t'' (Some ''7'') = Inr demo_video"
  by code_simp+

theorem video_needs_accepted_keyframe_witness:
  "(\<exists>k. jget (dm_keyframes (projr demo_memory)) ''k'' = Some k \<and> kf_status k = Key_accepted) \<and>
   (\<exists>k. k \<in> keyframe_value ` set (dd_keyframes (projr demo_db)) \<and> kf_id k = ''k'' \<and> kf_status k = Key_accepted)"
  using video_needs_accepted_keyframe [OF demo_memory_reached [OF demo_videos(1)] demo_videos(2)
    demo_db_reached [OF demo_videos(3)] demo_videos(4)]
  by (auto simp: demo_video_def)

text \<open>
  The two stores compare the packs of a keyframe with the expected ones by number and membership only, so a keyframe that
  names one pack twice passes for a shot with two characters; and the anchors of a character, which the in-memory store
  trims before it compares them, are compared as they are by the other.
\<close>

lemma pack_named_twice_accepted:
  "a \<noteq> b \<Longrightarrow> \<not> packs_differ [a, a] [a, b] \<and> sameIds [a, a] [a, b]"
  by (simp add: packs_differ_def sameIds_def)

lemma blank_anchor_stores_differ:
  "assertIdentityAnchors [''scar'', ''coat'', '' ''] = Inl INVALID_INPUT \<and>
   assertIdentityAnchors [''scar'', ''coat'', ''coat '', ''hair''] = Inl INVALID_IDENTITY_ANCHORS \<and>
   validateCharacter (demo_character\<lparr>ch_identityAnchors := [''scar'', ''coat'', '' '']\<rparr>) = Inr () \<and>
   validateCharacter (demo_character\<lparr>ch_identityAnchors := [''scar'', ''coat'', ''coat '', ''hair'']\<rparr>) = Inr ()"
  by code_simp

end
