(* ===== verification/GenerationActions.thy ===== *)
theory GenerationActions
  imports Prelude
begin

text \<open>
  Generation requests: \<^verbatim>\<open>domain/generation-intent.ts\<close>, which turns a user's intent into a canvas node, and
  \<^verbatim>\<open>application/generation-action-executor.ts\<close>, which estimates, freezes and queues a generation once per action.
  The three gateways and the compensation are asynchronous: an execution is the stages between its awaits, each with
  the request that it makes, and the answers come in any order.  The promise of a call and its removal from the map of
  pending ones settle in one step.  An error is its message.
\<close>

section \<open>Intents\<close>

record director_scene =
  sc_models :: "json list"
  sc_yaw :: num
  sc_pitch :: num
  sc_distance :: num
  sc_rest :: "(string \<times> json) list"

datatype video_mode = Mode_text | Mode_reference | Mode_keyframe

record video_intent =
  vi_prompt :: string
  vi_seconds :: num
  vi_size :: string
  vi_aspectRatio :: string
  vi_mode :: video_mode
  vi_referenceNodeIds :: "string list"
  vi_keyframeNodeId :: "string option"
  vi_withAudio :: bool

record audio_intent =
  ai_text :: "string option"
  ai_textNodeId :: "string option"
  ai_voice :: string
  ai_language :: string
  ai_speed :: num
  ai_tone :: string

datatype generation_intent =
    Text_intent string "string list option"
  | Image_intent string "string option" "string option" "string list option"
  | Video_intent video_intent
  | Audio_intent audio_intent
  | Compose_intent "string list"
  | Derive_intent string "string list" "(string \<times> json) list"
  | Director_intent director_scene

datatype node_type = Node_text | Node_image | Node_video | Node_audio | Node_compose | Node_director

datatype intent_error =
    Blank_prompt | Unsupported_seconds | Too_many_references | Keyframe_missing | Audio_without_text
  | Too_few_videos | Derive_without_source

record compiled_intent =
  cn_type :: node_type
  cn_params :: "(string \<times> json) list"
  cn_requiresApproval :: bool

definition plan_node :: "node_type \<Rightarrow> (string \<times> json) list \<Rightarrow> bool \<Rightarrow> intent_error + compiled_intent" where
  "plan_node t params approval = Inr \<lparr>cn_type = t, cn_params = params, cn_requiresApproval = approval\<rparr>"

definition nonBlank :: "string option \<Rightarrow> bool" where
  "nonBlank v = (case v of None \<Rightarrow> False | Some s \<Rightarrow> js_trim s \<noteq> [])"

definition intent_text :: "string \<Rightarrow> intent_error + string" where
  "intent_text v = throw_if (\<not> nonBlank (Some v)) Blank_prompt (Inr (js_trim v))"

definition uniqueRefs :: "string list \<Rightarrow> string list" where
  "uniqueRefs vs = uniq (filter (\<lambda>v. nonBlank (Some v)) vs)"

definition clamp :: "num \<Rightarrow> num \<Rightarrow> num \<Rightarrow> num" where
  "clamp v lo hi = min hi (max lo v)"

definition json_strings :: "string list \<Rightarrow> json" where
  "json_strings xs = JArr (map JStr xs)"

definition optional_field :: "string \<Rightarrow> ('a \<Rightarrow> json) \<Rightarrow> 'a option \<Rightarrow> (string \<times> json) list" where
  "optional_field k f v = (case v of None \<Rightarrow> [] | Some x \<Rightarrow> [(k, f x)])"

definition camera_json :: "num \<Rightarrow> num \<Rightarrow> num \<Rightarrow> json" where
  "camera_json yaw pitch distance = JObj [(''yaw'', JNum yaw), (''pitch'', JNum pitch), (''distance'', JNum distance)]"

definition normalizeDirectorScene :: "director_scene \<Rightarrow> json" where
  "normalizeDirectorScene scene = JObj (jset ''camera'' (camera_json (clamp (sc_yaw scene) (- 180) 180)
      (clamp (sc_pitch scene) (- 89) 89) (clamp (sc_distance scene) (1 / 2) 100))
     (jset ''models'' (JArr (sc_models scene)) (sc_rest scene)))"

text \<open>\<open>{ ...intent, prompt, referenceNodeIds }\<close>: the fields of the intent, with the checked ones in their place.\<close>

definition mode_text :: "video_mode \<Rightarrow> string" where
  "mode_text m = (case m of Mode_text \<Rightarrow> ''text'' | Mode_reference \<Rightarrow> ''reference'' | Mode_keyframe \<Rightarrow> ''keyframe'')"

definition video_fields :: "video_intent \<Rightarrow> (string \<times> json) list" where
  "video_fields v = [(''kind'', JStr ''video''), (''prompt'', JStr (vi_prompt v)), (''seconds'', JNum (vi_seconds v)),
     (''size'', JStr (vi_size v)), (''aspectRatio'', JStr (vi_aspectRatio v)), (''mode'', JStr (mode_text (vi_mode v))),
     (''referenceNodeIds'', json_strings (vi_referenceNodeIds v))] @ optional_field ''keyframeNodeId'' JStr (vi_keyframeNodeId v) @
     [(''withAudio'', JBool (vi_withAudio v))]"

definition audio_fields :: "audio_intent \<Rightarrow> (string \<times> json) list" where
  "audio_fields a = [(''kind'', JStr ''audio'')] @ optional_field ''text'' (\<lambda>t. JStr (js_trim t)) (ai_text a) @
     optional_field ''textNodeId'' JStr (ai_textNodeId a) @ [(''voice'', JStr (ai_voice a)), (''language'', JStr (ai_language a)),
     (''speed'', JNum (ai_speed a)), (''tone'', JStr (ai_tone a))]"

fun compileIntent :: "generation_intent \<Rightarrow> intent_error + compiled_intent" where
  "compileIntent (Text_intent prompt refs) =
     rbind (intent_text prompt) (\<lambda>p. plan_node Node_text [(''prompt'', JStr p)] False)"
| "compileIntent (Image_intent prompt sz ratio refs) =
     rbind (intent_text prompt) (\<lambda>p. plan_node Node_image
       (jset ''referenceNodeIds'' (json_strings (uniqueRefs (case refs of None \<Rightarrow> [] | Some rs \<Rightarrow> rs)))
         ([(''kind'', JStr ''image''), (''prompt'', JStr p)] @ optional_field ''size'' JStr sz @ optional_field ''ratio'' JStr ratio)) True)"
| "compileIntent (Video_intent v) =
     throw_if (vi_seconds v \<notin> {4, 8, 12}) Unsupported_seconds
       (let references = uniqueRefs (vi_referenceNodeIds v)
        in throw_if (5 < length references) Too_many_references
          (throw_if (vi_mode v = Mode_keyframe \<and> \<not> truthy (vi_keyframeNodeId v)) Keyframe_missing
            (rbind (intent_text (vi_prompt v)) (\<lambda>p. plan_node Node_video
               (jset ''referenceNodeIds'' (json_strings references) (jset ''prompt'' (JStr p) (video_fields v))) True))))"
| "compileIntent (Audio_intent a) =
     throw_if (\<not> nonBlank (ai_text a) \<and> \<not> nonBlank (ai_textNodeId a)) Audio_without_text
       (plan_node Node_audio (audio_fields a) True)"
| "compileIntent (Compose_intent videos) =
     throw_if (length (uniqueRefs videos) < 2) Too_few_videos
       (plan_node Node_compose [(''kind'', JStr ''compose''), (''videoNodeIds'', json_strings (uniqueRefs videos))] True)"
| "compileIntent (Derive_intent operation sources params) =
     throw_if (length (uniqueRefs sources) = 0) Derive_without_source
       (plan_node Node_image [(''kind'', JStr ''derive''), (''operation'', JStr operation),
          (''sourceNodeIds'', json_strings (uniqueRefs sources)), (''params'', JObj params)] True)"
| "compileIntent (Director_intent scene) =
     plan_node Node_director [(''scene'', normalizeDirectorScene scene)] True"

lemma uniqueRefs [simp]: "distinct (uniqueRefs vs)" "v \<in> set (uniqueRefs vs) \<longleftrightarrow> v \<in> set vs \<and> js_trim v \<noteq> []"
  by (auto simp: uniqueRefs_def nonBlank_def)

lemma clamp_bounds: "lo \<le> hi \<Longrightarrow> lo \<le> clamp v lo hi \<and> clamp v lo hi \<le> hi"
  by (auto simp: clamp_def)

lemma clamp_inside [simp]: "lo \<le> v \<Longrightarrow> v \<le> hi \<Longrightarrow> clamp v lo hi = v"
  by (simp add: clamp_def)

section \<open>The executor\<close>

record generation_input =
  gi_actionId :: string
  gi_userId :: string
  gi_canvasId :: string
  gi_nodeId :: string
  gi_modelType :: string
  gi_modelParams :: "(string \<times> json) list"
  gi_requestId :: "string option"
  gi_requestedCost :: num
  gi_costCap :: num

record generation_result =
  gr_actionId :: string
  gr_taskId :: string
  gr_actualCost :: num
  gr_pricingVersion :: num
  gr_compensationRequired :: bool

datatype gateway_request =
    Req_estimate generation_input
  | Req_freeze generation_input num string
  | Req_queue generation_input string string
  | Req_compensate string string string

datatype gateway_answer =
    Estimated num num
  | Frozen string
  | Done
  | Failed string

datatype operation =
    Estimating
  | Freezing num num
  | Queueing num num string
  | Compensating num num string
  | Returned generation_result
  | Threw string

definition freeze_key :: "generation_input \<Rightarrow> string" where
  "freeze_key input = ''agt:'' @ gi_actionId input @ '':1''"

definition queue_key :: "generation_input \<Rightarrow> string" where
  "queue_key input = ''agt:'' @ gi_actionId input @ '':queued''"

text \<open>What the execution awaits in each stage.\<close>

fun awaited :: "generation_input \<Rightarrow> operation \<Rightarrow> gateway_request option" where
  "awaited input Estimating = Some (Req_estimate input)"
| "awaited input (Freezing cost version) = Some (Req_freeze input cost (freeze_key input))"
| "awaited input (Queueing cost version task) = Some (Req_queue input task (queue_key input))"
| "awaited input (Compensating cost version task) = Some (Req_compensate (gi_actionId input) task (gi_userId input))"
| "awaited input _ = None"

definition execution_result :: "generation_input \<Rightarrow> num \<Rightarrow> num \<Rightarrow> string \<Rightarrow> bool \<Rightarrow> operation" where
  "execution_result input cost version task compensated = Returned \<lparr>gr_actionId = gi_actionId input, gr_taskId = task,
     gr_actualCost = cost, gr_pricingVersion = version, gr_compensationRequired = compensated\<rparr>"

text \<open>The stage after an answer.  An answer of another kind than the awaited one does not come.\<close>

fun next_stage :: "generation_input \<Rightarrow> operation \<Rightarrow> gateway_answer \<Rightarrow> operation" where
  "next_stage input Estimating (Estimated cost version) =
     (if \<not> js_is_integer cost \<or> cost < 0 then Threw ''INVALID_ESTIMATE''
      else if gi_costCap input < cost then Threw ''COST_CAP_EXCEEDED''
      else Freezing cost version)"
| "next_stage input (Freezing cost version) (Frozen task) = Queueing cost version task"
| "next_stage input (Queueing cost version task) Done = execution_result input cost version task False"
| "next_stage input (Queueing cost version task) (Failed e) = Compensating cost version task"
| "next_stage input (Compensating cost version task) Done = execution_result input cost version task True"
| "next_stage input _ (Failed e) = Threw e"
| "next_stage input stage _ = stage"

record executor =
  ex_results :: "(string, generation_result) jmap"
  ex_inFlight :: "(string, generation_input \<times> operation) jmap"

definition new_executor :: executor where
  "new_executor = \<lparr>ex_results = [], ex_inFlight = []\<rparr>"

text \<open>
  \<open>execute\<close> up to its return: a result that is there, the pending promise of the action, or a new execution, whose first
  request is made at once.
\<close>

datatype execute_reply = Resolved generation_result | Joined | Started gateway_request

definition execute_call :: "generation_input \<Rightarrow> executor \<Rightarrow> execute_reply \<times> executor" where
  "execute_call input s = (case jget (ex_results s) (gi_actionId input) of
     Some r \<Rightarrow> (Resolved r, s)
   | None \<Rightarrow> (case jget (ex_inFlight s) (gi_actionId input) of
       Some p \<Rightarrow> (Joined, s)
     | None \<Rightarrow> (Started (Req_estimate input), s\<lparr>ex_inFlight := jset (gi_actionId input) (input, Estimating) (ex_inFlight s)\<rparr>)))"

text \<open>An awaited answer: the next request, or the end of the execution.\<close>

definition resume_stage :: "string \<Rightarrow> generation_input \<Rightarrow> operation \<Rightarrow> executor \<Rightarrow> executor" where
  "resume_stage i input stage s = (case stage of
     Returned r \<Rightarrow> s\<lparr>ex_results := jset i r (ex_results s), ex_inFlight := jdel i (ex_inFlight s)\<rparr>
   | Threw e \<Rightarrow> s\<lparr>ex_inFlight := jdel i (ex_inFlight s)\<rparr>
   | _ \<Rightarrow> s\<lparr>ex_inFlight := jset i (input, stage) (ex_inFlight s)\<rparr>)"

definition execute_answer :: "string \<Rightarrow> gateway_answer \<Rightarrow> executor \<Rightarrow> gateway_request option \<times> executor" where
  "execute_answer i a s = (case jget (ex_inFlight s) i of
     None \<Rightarrow> (None, s)
   | Some (input, stage) \<Rightarrow> (let stage' = next_stage input stage a in
       (if stage' = stage then None else awaited input stage', resume_stage i input stage' s)))"

section \<open>Executions one after the other\<close>

text \<open>With the gateways answering, four answers end an execution.\<close>

definition advance_stage :: "(gateway_request \<Rightarrow> gateway_answer) \<Rightarrow> generation_input \<Rightarrow> operation \<Rightarrow> operation" where
  "advance_stage ans input stage = (case awaited input stage of None \<Rightarrow> stage | Some r \<Rightarrow> next_stage input stage (ans r))"

definition executeOnce :: "(gateway_request \<Rightarrow> gateway_answer) \<Rightarrow> generation_input \<Rightarrow> operation" where
  "executeOnce ans input = (advance_stage ans input ^^ 4) Estimating"

definition execute :: "(gateway_request \<Rightarrow> gateway_answer) \<Rightarrow> generation_input \<Rightarrow> (string, generation_result) jmap \<Rightarrow>
    (string + generation_result) \<times> (string, generation_result) jmap" where
  "execute ans input results = (case jget results (gi_actionId input) of
     Some r \<Rightarrow> (Inr r, results)
   | None \<Rightarrow> (case executeOnce ans input of
       Returned r \<Rightarrow> (Inr r, jset (gi_actionId input) r results)
     | Threw e \<Rightarrow> (Inl e, results)
     | _ \<Rightarrow> (Inl [], results)))"

fun executeBatch_loop :: "(gateway_request \<Rightarrow> gateway_answer) \<Rightarrow> generation_input list \<Rightarrow> generation_result list \<Rightarrow>
    (string, generation_result) jmap \<Rightarrow> (string + generation_result list) \<times> (string, generation_result) jmap" where
  "executeBatch_loop ans [] out results = (Inr out, results)"
| "executeBatch_loop ans (input # inputs) out results = (case execute ans input results of
     (Inl e, results') \<Rightarrow> (Inl e, results')
   | (Inr r, results') \<Rightarrow> executeBatch_loop ans inputs (out @ [r]) results')"

definition executeBatch :: "(gateway_request \<Rightarrow> gateway_answer) \<Rightarrow> generation_input list \<Rightarrow> (string, generation_result) jmap \<Rightarrow>
    (string + (generation_result list \<times> num)) \<times> (string, generation_result) jmap" where
  "executeBatch ans inputs results = (case executeBatch_loop ans inputs [] results of
     (Inl e, results') \<Rightarrow> (Inl e, results')
   | (Inr rs, results') \<Rightarrow> (Inr (rs, foldl (\<lambda>sum r. sum + gr_actualCost r) 0 rs), results'))"

section \<open>Every schedule of calls and answers\<close>

text \<open>The executor with the requests made so far.\<close>

inductive executor_run :: "executor \<times> gateway_request list \<Rightarrow> executor \<times> gateway_request list \<Rightarrow> bool" where
  here: "executor_run c c"
| called: "executor_run c (s, sent) \<Longrightarrow> execute_call input s = (reply, s') \<Longrightarrow>
    executor_run c (s', sent @ (case reply of Started q \<Rightarrow> [q] | _ \<Rightarrow> []))"
| answered: "executor_run c (s, sent) \<Longrightarrow> execute_answer i a s = (q, s') \<Longrightarrow>
    executor_run c (s', sent @ (case q of None \<Rightarrow> [] | Some q \<Rightarrow> [q]))"

fun cost_of :: "operation \<Rightarrow> num option" where
  "cost_of (Freezing cost version) = Some cost"
| "cost_of (Queueing cost version task) = Some cost"
| "cost_of (Compensating cost version task) = Some cost"
| "cost_of _ = None"

fun running_stage :: "operation \<Rightarrow> bool" where
  "running_stage (Returned r) \<longleftrightarrow> False"
| "running_stage (Threw e) \<longleftrightarrow> False"
| "running_stage _ \<longleftrightarrow> True"

definition cost_allowed :: "generation_input \<Rightarrow> num \<Rightarrow> bool" where
  "cost_allowed input cost \<longleftrightarrow> js_is_integer cost \<and> 0 \<le> cost \<and> cost \<le> gi_costCap input"

fun request_ok :: "gateway_request \<Rightarrow> bool" where
  "request_ok (Req_freeze input cost key) \<longleftrightarrow> cost_allowed input cost \<and> key = freeze_key input"
| "request_ok _ \<longleftrightarrow> True"

fun request_action :: "gateway_request \<Rightarrow> string" where
  "request_action (Req_estimate input) = gi_actionId input"
| "request_action (Req_freeze input cost key) = gi_actionId input"
| "request_action (Req_queue input task key) = gi_actionId input"
| "request_action (Req_compensate i task user) = i"

definition flights_ok :: "executor \<Rightarrow> gateway_request list \<Rightarrow> bool" where
  "flights_ok s sent \<longleftrightarrow> (\<forall>i input st. jget (ex_inFlight s) i = Some (input, st) \<longrightarrow> gi_actionId input = i \<and> running_stage st \<and>
     jget (ex_results s) i = None \<and> (\<forall>cost. cost_of st = Some cost \<longrightarrow> Req_freeze input cost (freeze_key input) \<in> set sent))"

definition results_paid :: "executor \<Rightarrow> gateway_request list \<Rightarrow> bool" where
  "results_paid s sent \<longleftrightarrow> (\<forall>i r. jget (ex_results s) i = Some r \<longrightarrow> gr_actionId r = i \<and>
     (\<exists>input. gi_actionId input = i \<and> Req_freeze input (gr_actualCost r) (freeze_key input) \<in> set sent))"

definition executor_ok :: "executor \<times> gateway_request list \<Rightarrow> bool" where
  "executor_ok c \<longleftrightarrow> flights_ok (fst c) (snd c) \<and> results_paid (fst c) (snd c) \<and> list_all request_ok (snd c)"

lemma executor_ok_new: "executor_ok (new_executor, [])"
  by (simp add: executor_ok_def flights_ok_def results_paid_def new_executor_def)

lemma execute_call_ok:
  assumes "executor_ok (s, sent)" "execute_call input s = (reply, s')"
  shows "executor_ok (s', sent @ (case reply of Started q \<Rightarrow> [q] | _ \<Rightarrow> []))"
  using assms by (auto simp: executor_ok_def flights_ok_def results_paid_def execute_call_def split: option.splits if_splits)

text \<open>An answer that moves an execution on: what the new stage awaits, and where its cost comes from.\<close>

lemma next_stage_cost:
  assumes "running_stage st" "next_stage input st a = st'" "st' \<noteq> st"
  shows "(\<forall>cost. cost_of st' = Some cost \<longrightarrow> cost_of st = Some cost \<or>
      awaited input st' = Some (Req_freeze input cost (freeze_key input)) \<and> cost_allowed input cost) \<and>
    (\<forall>r. st' = Returned r \<longrightarrow> gr_actionId r = gi_actionId input \<and> cost_of st = Some (gr_actualCost r)) \<and>
    (\<forall>q. awaited input st' = Some q \<longrightarrow> request_ok q \<and> request_action q = gi_actionId input)"
  using assms by (induction input st a rule: next_stage.induct) (auto simp: execution_result_def cost_allowed_def split: if_splits)

lemma execute_answer_cases:
  assumes "execute_answer i a s = (q, s')"
  shows "q = None \<and> s' = s \<or>
    (\<exists>input st st'. jget (ex_inFlight s) i = Some (input, st) \<and> st' = next_stage input st a \<and> st' \<noteq> st \<and> q = awaited input st' \<and>
      (running_stage st' \<and> s' = s\<lparr>ex_inFlight := jset i (input, st') (ex_inFlight s)\<rparr> \<or>
       (\<exists>r. st' = Returned r \<and> s' = s\<lparr>ex_results := jset i r (ex_results s), ex_inFlight := jdel i (ex_inFlight s)\<rparr>) \<or>
       (\<exists>e. st' = Threw e \<and> s' = s\<lparr>ex_inFlight := jdel i (ex_inFlight s)\<rparr>))) \<or>
    (\<exists>input st. jget (ex_inFlight s) i = Some (input, st) \<and> next_stage input st a = st \<and> q = None \<and>
      (running_stage st \<longrightarrow> s' = s\<lparr>ex_inFlight := jset i (input, st) (ex_inFlight s)\<rparr>))"
proof (cases "jget (ex_inFlight s) i")
  case None
  then show ?thesis using assms by (simp add: execute_answer_def)
next
  case (Some p)
  obtain input st where p: "p = (input, st)" by force
  let ?st = "next_stage input st a"
  have eqs: "jget (ex_inFlight s) i = Some (input, st)" "q = (if ?st = st then None else awaited input ?st)" "s' = resume_stage i input ?st s"
    using assms Some by (auto simp: execute_answer_def Let_def p)
  have "running_stage ?st \<Longrightarrow> s' = s\<lparr>ex_inFlight := jset i (input, ?st) (ex_inFlight s)\<rparr>"
    using eqs(3) by (cases ?st) (simp_all add: resume_stage_def)
  moreover have "?st = Returned r \<Longrightarrow> s' = s\<lparr>ex_results := jset i r (ex_results s), ex_inFlight := jdel i (ex_inFlight s)\<rparr>" for r
    using eqs(3) by (simp add: resume_stage_def)
  moreover have "?st = Threw e \<Longrightarrow> s' = s\<lparr>ex_inFlight := jdel i (ex_inFlight s)\<rparr>" for e
    using eqs(3) by (simp add: resume_stage_def)
  moreover have "running_stage ?st \<or> (\<exists>r. ?st = Returned r) \<or> (\<exists>e. ?st = Threw e)" by (cases ?st) simp_all
  ultimately show ?thesis using eqs(1,2) by (cases "?st = st") auto
qed

lemma execute_answer_ok:
  assumes "executor_ok (s, sent)" "execute_answer i a s = (q, s')"
  shows "executor_ok (s', sent @ (case q of None \<Rightarrow> [] | Some q \<Rightarrow> [q]))"
  using execute_answer_cases [OF assms(2)]
proof (elim disjE exE conjE)
  assume "q = None" "s' = s"
  with assms(1) show ?thesis by simp
next
  fix input st
  assume st: "jget (ex_inFlight s) i = Some (input, st)" "q = None"
    "running_stage st \<longrightarrow> s' = s\<lparr>ex_inFlight := jset i (input, st) (ex_inFlight s)\<rparr>"
  from assms(1) st(1) have "running_stage st" by (auto simp: executor_ok_def flights_ok_def)
  with st assms(1) show ?thesis by (auto simp: executor_ok_def flights_ok_def results_paid_def)
next
  fix input st st'
  assume st: "jget (ex_inFlight s) i = Some (input, st)" "st' = next_stage input st a" "st' \<noteq> st" "q = awaited input st'"
    and go: "running_stage st'" "s' = s\<lparr>ex_inFlight := jset i (input, st') (ex_inFlight s)\<rparr>"
  from assms(1) st(1) have now: "running_stage st" "gi_actionId input = i" "jget (ex_results s) i = None"
    "\<forall>cost. cost_of st = Some cost \<longrightarrow> Req_freeze input cost (freeze_key input) \<in> set sent"
    by (auto simp: executor_ok_def flights_ok_def)
  from next_stage_cost [OF now(1) st(2)[symmetric] st(3)] now(4) st(4)
  have "\<forall>cost. cost_of st' = Some cost \<longrightarrow> Req_freeze input cost (freeze_key input) \<in> set sent \<or> q = Some (Req_freeze input cost (freeze_key input))"
    "\<forall>r. q = Some r \<longrightarrow> request_ok r" by auto
  with assms(1) now go show ?thesis
    by (auto simp: executor_ok_def flights_ok_def results_paid_def split: option.splits) blast+
next
  fix input st st' r
  assume st: "jget (ex_inFlight s) i = Some (input, st)" "st' = next_stage input st a" "st' \<noteq> st" "q = awaited input st'"
    and r: "st' = Returned r" "s' = s\<lparr>ex_results := jset i r (ex_results s), ex_inFlight := jdel i (ex_inFlight s)\<rparr>"
  from assms(1) st(1) have now: "running_stage st" "gi_actionId input = i"
    "\<forall>cost. cost_of st = Some cost \<longrightarrow> Req_freeze input cost (freeze_key input) \<in> set sent"
    by (auto simp: executor_ok_def flights_ok_def)
  from next_stage_cost [OF now(1) st(2)[symmetric] st(3)] r(1) now(2,3)
  have "gr_actionId r = i" "Req_freeze input (gr_actualCost r) (freeze_key input) \<in> set sent" by auto
  with assms(1) now(2) r st(4) show ?thesis
    by (auto simp: executor_ok_def flights_ok_def results_paid_def)
next
  fix input st st' e
  assume "q = awaited input st'" "st' = Threw e" "s' = s\<lparr>ex_inFlight := jdel i (ex_inFlight s)\<rparr>"
  with assms(1) show ?thesis by (auto simp: executor_ok_def flights_ok_def results_paid_def)
qed

lemma executor_run_ok: "executor_run c d \<Longrightarrow> executor_ok c \<Longrightarrow> executor_ok d"
  by (induction rule: executor_run.induct) (auto intro: execute_call_ok execute_answer_ok simp del: list_all_append)

text \<open>An action with a result sends no further request.\<close>

definition requests_of :: "string \<Rightarrow> gateway_request list \<Rightarrow> gateway_request list" where
  "requests_of i sent = filter (\<lambda>q. request_action q = i) sent"

lemma executor_run_settled:
  assumes "executor_run c d" "executor_ok c" "jget (ex_results (fst c)) i = Some r"
  shows "jget (ex_results (fst d)) i = Some r \<and> requests_of i (snd d) = requests_of i (snd c)"
  using assms
proof (induction rule: executor_run.induct)
  case (called c s sent input reply s')
  then have "jget (ex_results s) i = Some r \<and> requests_of i sent = requests_of i (snd c)" by simp
  with called.hyps(2) show ?case by (auto simp: execute_call_def requests_of_def split: option.splits)
next
  case (answered c s sent j a q s')
  then have IH: "jget (ex_results s) i = Some r" "requests_of i sent = requests_of i (snd c)" by simp_all
  from executor_run_ok [OF answered.hyps(1) answered.prems(1)] have ok: "flights_ok s sent" by (simp add: executor_ok_def)
  from execute_answer_cases [OF answered.hyps(2)] show ?case
  proof (elim disjE exE conjE)
    assume "q = None" "s' = s" with IH show ?thesis by simp
  next
    fix input st
    assume "jget (ex_inFlight s) j = Some (input, st)" "q = None" "running_stage st \<longrightarrow> s' = s\<lparr>ex_inFlight := jset j (input, st) (ex_inFlight s)\<rparr>"
    with ok IH show ?thesis by (auto simp: flights_ok_def)
  next
    fix input st st'
    assume st: "jget (ex_inFlight s) j = Some (input, st)" "st' = next_stage input st a" "st' \<noteq> st" "q = awaited input st'"
      and s': "s' = s\<lparr>ex_inFlight := jset j (input, st') (ex_inFlight s)\<rparr>"
    from ok st(1) IH have now: "running_stage st" "gi_actionId input = j" "i \<noteq> j" by (auto simp: flights_ok_def)
    from next_stage_cost [OF now(1) st(2)[symmetric] st(3)] st(4) now have "\<forall>p. q = Some p \<longrightarrow> request_action p \<noteq> i" by auto
    with IH s' show ?thesis by (auto simp: requests_of_def split: option.splits)
  next
    fix input st st' r'
    assume st: "jget (ex_inFlight s) j = Some (input, st)" "q = awaited input st'" and r': "st' = Returned r'"
      and s': "s' = s\<lparr>ex_results := jset j r' (ex_results s), ex_inFlight := jdel j (ex_inFlight s)\<rparr>"
    from ok st(1) IH have "i \<noteq> j" by (auto simp: flights_ok_def)
    with IH s' r' st(2) show ?thesis by simp
  next
    fix input st st' e
    assume "q = awaited input st'" "st' = Threw e" "s' = s\<lparr>ex_inFlight := jdel j (ex_inFlight s)\<rparr>"
    with IH show ?thesis by simp
  qed
qed simp

section \<open>Settling and batches\<close>

text \<open>Each request gets an answer of its kind.\<close>

fun answers_request :: "gateway_request \<Rightarrow> gateway_answer \<Rightarrow> bool" where
  "answers_request (Req_estimate input) a \<longleftrightarrow> (\<exists>cost version. a = Estimated cost version) \<or> (\<exists>e. a = Failed e)"
| "answers_request (Req_freeze input cost key) a \<longleftrightarrow> (\<exists>task. a = Frozen task) \<or> (\<exists>e. a = Failed e)"
| "answers_request _ a \<longleftrightarrow> a = Done \<or> (\<exists>e. a = Failed e)"

lemma numeral_4_Suc: "(f ^^ 4) x = f (f (f (f x)))"
  by (simp add: eval_nat_numeral)

lemma executeOnce_settles:
  assumes "\<And>q. answers_request q (ans q)"
  shows "\<not> running_stage (executeOnce ans input)"
proof -
  have est: "(\<exists>e. advance_stage ans input Estimating = Threw e) \<or> (\<exists>cost version. advance_stage ans input Estimating = Freezing cost version)"
    using assms [of "Req_estimate input"] by (auto simp: advance_stage_def split: if_splits)
  have frz: "(\<exists>e. advance_stage ans input (Freezing c v) = Threw e) \<or> (\<exists>task. advance_stage ans input (Freezing c v) = Queueing c v task)" for c v
    using assms [of "Req_freeze input c (freeze_key input)"] by (auto simp: advance_stage_def)
  have que: "(\<exists>r. advance_stage ans input (Queueing c v task) = Returned r) \<or> advance_stage ans input (Queueing c v task) = Compensating c v task" for c v task
    using assms [of "Req_queue input task (queue_key input)"] by (auto simp: advance_stage_def execution_result_def)
  have com: "(\<exists>r. advance_stage ans input (Compensating c v task) = Returned r) \<or> (\<exists>e. advance_stage ans input (Compensating c v task) = Threw e)" for c v task
    using assms [of "Req_compensate (gi_actionId input) task (gi_userId input)"] by (auto simp: advance_stage_def execution_result_def)
  have stay: "advance_stage ans input (Returned r) = Returned r" "advance_stage ans input (Threw e) = Threw e" for r e
    by (simp_all add: advance_stage_def)
  show ?thesis unfolding executeOnce_def numeral_4_Suc using est frz que com stay by (metis running_stage.simps(1,2))
qed

text \<open>\<open>execute\<close> with the gateways answering is one schedule of the executor.\<close>

lemma advance_keeps: "\<not> running_stage st \<Longrightarrow> (advance_stage ans input ^^ n) st = st"
  by (induction n) (cases st; simp add: advance_stage_def)+

lemma drive_execution:
  assumes "executor_run c (s, sent)" "jget (ex_inFlight s) i = Some (input, st)" "running_stage st"
  shows "\<exists>s' sent'. executor_run c (s', sent') \<and> jdel i (ex_inFlight s') = jdel i (ex_inFlight s) \<and>
    (case (advance_stage ans input ^^ n) st of
       Returned r \<Rightarrow> ex_results s' = jset i r (ex_results s) \<and> jget (ex_inFlight s') i = None
     | Threw e \<Rightarrow> ex_results s' = ex_results s \<and> jget (ex_inFlight s') i = None
     | st' \<Rightarrow> ex_results s' = ex_results s \<and> jget (ex_inFlight s') i = Some (input, st'))"
  using assms
proof (induction n)
  case 0
  then show ?case by (intro exI [of _ s] exI [of _ sent]) (cases st; simp)
next
  case (Suc n)
  let ?st = "(advance_stage ans input ^^ n) st"
  from Suc obtain s' sent' where run: "executor_run c (s', sent')" "jdel i (ex_inFlight s') = jdel i (ex_inFlight s)"
    and at: "case ?st of Returned r \<Rightarrow> ex_results s' = jset i r (ex_results s) \<and> jget (ex_inFlight s') i = None
      | Threw e \<Rightarrow> ex_results s' = ex_results s \<and> jget (ex_inFlight s') i = None
      | st' \<Rightarrow> ex_results s' = ex_results s \<and> jget (ex_inFlight s') i = Some (input, st')" by blast
  show ?case
  proof (cases "running_stage ?st")
    case False
    have "(advance_stage ans input ^^ Suc n) st = ?st" using advance_keeps [OF False, where ans = ans and input = input and n = 1] by simp
    with run at show ?thesis by metis
  next
    case True
    then obtain q where q: "awaited input ?st = Some q" by (cases ?st) auto
    have here: "jget (ex_inFlight s') i = Some (input, ?st)" "ex_results s' = ex_results s" using True at by (cases ?st; simp)+
    obtain p s'' where step: "execute_answer i (ans q) s' = (p, s'')" by fastforce
    have new: "(advance_stage ans input ^^ Suc n) st = next_stage input ?st (ans q)" using q by (simp add: advance_stage_def)
    from step here run(2) have "jdel i (ex_inFlight s'') = jdel i (ex_inFlight s) \<and>
      (case next_stage input ?st (ans q) of
         Returned r \<Rightarrow> ex_results s'' = jset i r (ex_results s) \<and> jget (ex_inFlight s'') i = None
       | Threw e \<Rightarrow> ex_results s'' = ex_results s \<and> jget (ex_inFlight s'') i = None
       | st' \<Rightarrow> ex_results s'' = ex_results s \<and> jget (ex_inFlight s'') i = Some (input, st'))"
      by (auto simp: execute_answer_def Let_def resume_stage_def delete_update_same delete_idem split: operation.splits)
    with executor_run.answered [OF run(1) step] show ?thesis unfolding new by blast
  qed
qed

lemma execute_is_a_run:
  assumes "executor_run c (s, sent)" "jget (ex_inFlight s) (gi_actionId input) = None" "\<And>q. answers_request q (ans q)"
    "execute ans input (ex_results s) = (out, results')"
  shows "\<exists>s' sent'. executor_run c (s', sent') \<and> ex_results s' = results' \<and> jdel (gi_actionId input) (ex_inFlight s') = jdel (gi_actionId input) (ex_inFlight s) \<and>
    jget (ex_inFlight s') (gi_actionId input) = None"
proof (cases "jget (ex_results s) (gi_actionId input)")
  case (Some r)
  with assms show ?thesis by (intro exI [of _ s] exI [of _ sent]) (simp add: execute_def)
next
  case None
  let ?i = "gi_actionId input" and ?s = "s\<lparr>ex_inFlight := jset (gi_actionId input) (input, Estimating) (ex_inFlight s)\<rparr>"
  have "execute_call input s = (Started (Req_estimate input), ?s)" using None assms(2) by (simp add: execute_call_def)
  from executor_run.called [OF assms(1) this] have "executor_run c (?s, sent @ [Req_estimate input])" by simp
  note drive = drive_execution [OF this, of ?i input Estimating 4 ans, folded executeOnce_def]
  have sel: "ex_results ?s = ex_results s" "jdel ?i (ex_inFlight ?s) = jdel ?i (ex_inFlight s)" by (simp_all add: delete_update_same)
  from drive [unfolded sel] obtain s' sent' where run: "executor_run c (s', sent')"
    "jdel ?i (ex_inFlight s') = jdel ?i (ex_inFlight s)"
    and at: "case executeOnce ans input of Returned r \<Rightarrow> ex_results s' = jset ?i r (ex_results s) \<and> jget (ex_inFlight s') ?i = None
      | Threw e \<Rightarrow> ex_results s' = ex_results s \<and> jget (ex_inFlight s') ?i = None
      | st' \<Rightarrow> ex_results s' = ex_results s \<and> jget (ex_inFlight s') ?i = Some (input, st')"
    by auto
  show ?thesis
  proof (cases "executeOnce ans input")
    case (Returned r) with run at assms(4) None show ?thesis by (auto simp: execute_def)
  next
    case (Threw e) with run at assms(4) None show ?thesis by (auto simp: execute_def)
  qed (use executeOnce_settles [OF assms(3), of input] in simp_all)
qed

lemma execute_Inr:
  assumes "execute ans input results = (Inr r, results')"
  shows "jget results' (gi_actionId input) = Some r \<and> (\<forall>i q. jget results i = Some q \<longrightarrow> jget results' i = Some q)"
  using assms by (auto simp: execute_def split: option.splits operation.splits)

lemma executeBatch_loop_Inr:
  assumes "executeBatch_loop ans inputs out results = (Inr rs, results')"
  shows "\<exists>qs. rs = out @ qs \<and> list_all2 (\<lambda>input r. jget results' (gi_actionId input) = Some r) inputs qs \<and>
    (\<forall>i q. jget results i = Some q \<longrightarrow> jget results' i = Some q)"
  using assms
proof (induction inputs arbitrary: out results)
  case (Cons input inputs)
  obtain r results1 where one: "execute ans input results = (Inr r, results1)"
    and rest: "executeBatch_loop ans inputs (out @ [r]) results1 = (Inr rs, results')"
    using Cons.prems by (auto split: prod.splits sum.splits)
  from Cons.IH [OF rest] obtain qs where "rs = (out @ [r]) @ qs"
    "list_all2 (\<lambda>input r. jget results' (gi_actionId input) = Some r) inputs qs" "\<forall>i q. jget results1 i = Some q \<longrightarrow> jget results' i = Some q" by blast
  with execute_Inr [OF one] show ?case by (intro exI [of _ "r # qs"]) auto
qed simp

lemma executeBatch_loop_again:
  "list_all2 (\<lambda>input r. jget results (gi_actionId input) = Some r) inputs qs \<Longrightarrow>
     executeBatch_loop ans inputs out results = (Inr (out @ qs), results)"
  by (induction arbitrary: out rule: list_all2_induct) (simp_all add: execute_def)

section \<open>Properties\<close>

text \<open>
  C24. Whatever calls of execute arrive and in whatever order the gateways answer, points are frozen only for a whole,
  non-negative cost within the cap of the request and under the key of its action; and once an action has a result, that
  result was paid for in this way, it never changes, and no gateway is called for the action again.
\<close>

theorem generation_paid_once:
  assumes "executor_run (new_executor, []) (s, sent)" "executor_run (s, sent) (s', sent')"
  shows "(\<forall>input cost key. Req_freeze input cost key \<in> set sent \<longrightarrow>
      js_is_integer cost \<and> 0 \<le> cost \<and> cost \<le> gi_costCap input \<and> key = freeze_key input) \<and>
    (\<forall>i r. jget (ex_results s) i = Some r \<longrightarrow>
      (\<exists>input. gi_actionId input = i \<and> Req_freeze input (gr_actualCost r) (freeze_key input) \<in> set sent) \<and>
      jget (ex_results s') i = Some r \<and> requests_of i sent' = requests_of i sent)"
proof -
  from executor_run_ok [OF assms(1) executor_ok_new] have ok: "executor_ok (s, sent)" .
  then have "\<forall>q \<in> set sent. request_ok q" "results_paid s sent" by (simp_all add: executor_ok_def list_all_iff)
  with executor_run_settled [OF assms(2) ok] show ?thesis
    by (fastforce simp: results_paid_def cost_allowed_def dest: bspec)
qed

text \<open>
  A batch that executes answers every input with the result of its action and totals their costs, and executing the
  same batch again, whatever the gateways would answer now, returns the same and calls none of them.
\<close>

theorem batch_executed_once:
  assumes "executeBatch ans inputs results = (Inr (rs, cost), results')"
  shows "length rs = length inputs \<and> (\<forall>n < length inputs. jget results' (gi_actionId (inputs ! n)) = Some (rs ! n)) \<and>
    cost = sum_list (map gr_actualCost rs) \<and> executeBatch ans' inputs results' = (Inr (rs, cost), results')"
proof -
  have sum: "foldl (\<lambda>sum r. sum + gr_actualCost r) x qs = x + sum_list (map gr_actualCost qs)" for x qs
    by (induction qs arbitrary: x) simp_all
  from assms have "executeBatch_loop ans inputs [] results = (Inr rs, results')" and cost: "cost = sum_list (map gr_actualCost rs)"
    by (auto simp: executeBatch_def sum split: prod.splits sum.splits)
  from executeBatch_loop_Inr [OF this(1)] have all: "list_all2 (\<lambda>input r. jget results' (gi_actionId input) = Some r) inputs rs" by auto
  from executeBatch_loop_again [OF this, of ans' "[]"] cost have "executeBatch ans' inputs results' = (Inr (rs, cost), results')"
    by (simp add: executeBatch_def sum)
  with all cost show ?thesis by (simp add: list_all2_conv_all_nth)
qed

text \<open>The parameters of a compiled node, read back.\<close>

definition string_list :: "json option \<Rightarrow> string list" where
  "string_list v = (case v of Some (JArr xs) \<Rightarrow> concat (map (\<lambda>x. case x of JStr s \<Rightarrow> [s] | _ \<Rightarrow> []) xs) | _ \<Rightarrow> [])"

definition camera_of :: "json option \<Rightarrow> (num \<times> num \<times> num) option" where
  "camera_of v = (case v of Some (JObj fs) \<Rightarrow> (case json_field fs ''camera'' of
       Some (JObj [(_, JNum yaw), (_, JNum pitch), (_, JNum distance)]) \<Rightarrow> Some (yaw, pitch, distance) | _ \<Rightarrow> None) | _ \<Rightarrow> None)"

lemma string_list_json [simp]: "string_list (Some (json_strings xs)) = xs"
  by (induction xs) (simp_all add: string_list_def json_strings_def)

lemma js_trim_nonempty: "nonBlank (Some v) \<longleftrightarrow> js_trim v \<noteq> []"
  by (simp add: nonBlank_def)

lemma mode_text_keyframe: "mode_text m = ''keyframe'' \<longleftrightarrow> m = Mode_keyframe"
  by (cases m) (simp_all add: mode_text_def)

lemma compiled_video_params:
  assumes "compileIntent (Video_intent v) = Inr c"
  shows "cn_type c = Node_video" "cn_requiresApproval c" "vi_seconds v \<in> {4, 8, 12}" "length (uniqueRefs (vi_referenceNodeIds v)) \<le> 5"
    "vi_mode v = Mode_keyframe \<Longrightarrow> truthy (vi_keyframeNodeId v)" "js_trim (vi_prompt v) \<noteq> []"
    "jget (cn_params c) ''prompt'' = Some (JStr (js_trim (vi_prompt v)))"
    "jget (cn_params c) ''referenceNodeIds'' = Some (json_strings (uniqueRefs (vi_referenceNodeIds v)))"
    "jget (cn_params c) ''seconds'' = Some (JNum (vi_seconds v))" "jget (cn_params c) ''kind'' = Some (JStr ''video'')"
    "jget (cn_params c) ''mode'' = Some (JStr (mode_text (vi_mode v)))"
    "jget (cn_params c) ''keyframeNodeId'' = map_option JStr (vi_keyframeNodeId v)"
  using assms
  by (auto simp: plan_node_def result_simps Let_def intent_text_def nonBlank_def video_fields_def optional_field_def split: option.splits)

text \<open>
  C25. A node compiled from an intent stays within what the generators take: a video names at most five distinct references
  and lasts 4, 8 or 12 seconds, and in keyframe mode it names its keyframe; a composition joins at least two distinct
  videos, a derivation has a source, a narration has a text or a text node that is not blank, a director's camera lies in
  its ranges, every prompt has been trimmed and is not blank, and every node but a text asks for approval.
\<close>

theorem compiled_intent_bounds:
  assumes "compileIntent intent = Inr c"
  shows "(cn_type c = Node_video \<longrightarrow> length (string_list (jget (cn_params c) ''referenceNodeIds'')) \<le> 5 \<and>
      distinct (string_list (jget (cn_params c) ''referenceNodeIds'')) \<and> jget (cn_params c) ''seconds'' \<in> Some ` JNum ` {4, 8, 12}) \<and>
    (cn_type c = Node_compose \<longrightarrow> 2 \<le> card (set (string_list (jget (cn_params c) ''videoNodeIds'')))) \<and>
    (jget (cn_params c) ''kind'' = Some (JStr ''derive'') \<longrightarrow> string_list (jget (cn_params c) ''sourceNodeIds'') \<noteq> []) \<and>
    (cn_type c = Node_director \<longrightarrow> (\<exists>yaw pitch distance. camera_of (jget (cn_params c) ''scene'') = Some (yaw, pitch, distance) \<and>
      \<bar>yaw\<bar> \<le> 180 \<and> \<bar>pitch\<bar> \<le> 89 \<and> 1 / 2 \<le> distance \<and> distance \<le> 100)) \<and>
    (jget (cn_params c) ''mode'' = Some (JStr ''keyframe'') \<longrightarrow>
      (\<exists>k. jget (cn_params c) ''keyframeNodeId'' = Some (JStr k) \<and> k \<noteq> [])) \<and>
    (cn_type c = Node_audio \<longrightarrow> (\<exists>t. js_trim t \<noteq> [] \<and>
      (jget (cn_params c) ''text'' = Some (JStr t) \<or> jget (cn_params c) ''textNodeId'' = Some (JStr t)))) \<and>
    (\<forall>p. jget (cn_params c) ''prompt'' = Some (JStr p) \<longrightarrow> js_trim p = p \<and> p \<noteq> []) \<and>
    (cn_requiresApproval c \<longleftrightarrow> cn_type c \<noteq> Node_text)"
proof (cases intent)
  case (Compose_intent videos)
  then show ?thesis using assms distinct_card [OF uniqueRefs(1) [of videos]] by (auto simp: plan_node_def result_simps)
next
  case (Derive_intent operation sources params)
  then show ?thesis using assms by (auto simp: plan_node_def result_simps)
next
  case (Director_intent scene)
  have "\<bar>clamp (sc_yaw scene) (- 180) 180\<bar> \<le> 180" "\<bar>clamp (sc_pitch scene) (- 89) 89\<bar> \<le> 89" "1 / 2 \<le> clamp (sc_distance scene) (1 / 2) 100"
    "clamp (sc_distance scene) (1 / 2) 100 \<le> 100" by (auto simp: clamp_def abs_le_iff)
  then show ?thesis using assms Director_intent
    by (auto simp: plan_node_def camera_of_def normalizeDirectorScene_def json_field_def camera_json_def)
next
  case (Video_intent v)
  with assms show ?thesis by (cases "vi_keyframeNodeId v") (use compiled_video_params [of v c] mode_text_keyframe [of "vi_mode v"] in auto)
next
  case (Image_intent prompt sz ratio refs)
  then show ?thesis using assms by (auto simp: plan_node_def result_simps intent_text_def nonBlank_def optional_field_def split: option.splits)
next
  case (Audio_intent a)
  have either: "(\<exists>t. P t \<and> (a = t \<or> b = t)) \<longleftrightarrow> P a \<or> P b" for P and a b :: string by blast
  from Audio_intent show ?thesis using assms by (auto simp: plan_node_def result_simps audio_fields_def nonBlank_def optional_field_def either split: option.splits)
qed (use assms in \<open>auto simp: plan_node_def result_simps intent_text_def nonBlank_def\<close>)

section \<open>Witnesses\<close>

definition sample_generation :: generation_input where
  "sample_generation = \<lparr>gi_actionId = ''a'', gi_userId = ''7'', gi_canvasId = ''c'', gi_nodeId = ''n'', gi_modelType = ''m'',
     gi_modelParams = [], gi_requestId = None, gi_requestedCost = 5, gi_costCap = 10\<rparr>"

fun sample_answers :: "gateway_request \<Rightarrow> gateway_answer" where
  "sample_answers (Req_estimate input) = Estimated 5 1"
| "sample_answers (Req_freeze input cost key) = Frozen ''t''"
| "sample_answers _ = Done"

definition sample_result :: generation_result where
  "sample_result = \<lparr>gr_actionId = ''a'', gr_taskId = ''t'', gr_actualCost = 5, gr_pricingVersion = 1, gr_compensationRequired = False\<rparr>"

lemma sample_answers_ok: "answers_request q (sample_answers q)"
  by (cases q) simp_all

lemma sample_executes: "execute sample_answers sample_generation [] = (Inr sample_result, [(''a'', sample_result)])"
  by (simp add: execute_def executeOnce_def numeral_4_Suc advance_stage_def sample_generation_def sample_result_def execution_result_def)

theorem generation_paid_once_witness:
  "\<exists>(s :: executor) sent. jget (ex_results s) ''a'' = Some sample_result \<and>
     (\<exists>input. gi_actionId input = ''a'' \<and> Req_freeze input 5 (freeze_key input) \<in> set sent \<and> gi_costCap input \<ge> 5)"
proof -
  have "execute sample_answers sample_generation (ex_results new_executor) = (Inr sample_result, [(''a'', sample_result)])"
    using sample_executes by (simp add: new_executor_def)
  from execute_is_a_run [OF executor_run.here [of "(new_executor, [])"] _ sample_answers_ok this] obtain s sent
    where run: "executor_run (new_executor, []) (s, sent)" and res: "ex_results s = [(''a'', sample_result)]"
    by (auto simp: new_executor_def)
  from res have "jget (ex_results s) ''a'' = Some sample_result" "gr_actualCost sample_result = 5" by (simp_all add: sample_result_def)
  note paid = generation_paid_once [OF run executor_run.here]
  from paid \<open>jget (ex_results s) ''a'' = Some sample_result\<close> obtain input where input: "gi_actionId input = ''a''"
    "Req_freeze input (gr_actualCost sample_result) (freeze_key input) \<in> set sent" by blast
  from paid input(2) have "gr_actualCost sample_result \<le> gi_costCap input" by blast
  with input \<open>jget (ex_results s) ''a'' = Some sample_result\<close> \<open>gr_actualCost sample_result = 5\<close> show ?thesis
    by - (rule exI [of _ s], rule exI [of _ sent], auto)
qed

theorem batch_executed_once_witness:
  "executeBatch (\<lambda>_. Failed ''down'') [sample_generation, sample_generation] [(''a'', sample_result)] =
     (Inr ([sample_result, sample_result], 10), [(''a'', sample_result)])"
proof -
  have "executeBatch sample_answers [sample_generation, sample_generation] [] =
    (Inr ([sample_result, sample_result], 10), [(''a'', sample_result)])"
    by (simp add: executeBatch_def sample_executes) (simp add: execute_def sample_generation_def sample_result_def)
  from batch_executed_once [OF this] show ?thesis by blast
qed

definition sample_video :: video_intent where
  "sample_video = \<lparr>vi_prompt = ''rain'', vi_seconds = 8, vi_size = ''720p'', vi_aspectRatio = ''9:16'', vi_mode = Mode_reference,
     vi_referenceNodeIds = [''n'', ''n'', ''m''], vi_keyframeNodeId = None, vi_withAudio = False\<rparr>"

lemma sample_video_compiles:
  "compileIntent (Video_intent sample_video) = Inr (projr (compileIntent (Video_intent sample_video)))"
  "cn_type (projr (compileIntent (Video_intent sample_video))) = Node_video"
  by (simp_all add: sample_video_def plan_node_def intent_text_def uniqueRefs_def uniq_def nonBlank_def js_trim_def js_space_def Let_def)

theorem compiled_intent_bounds_witness:
  "length (string_list (jget (cn_params (projr (compileIntent (Video_intent sample_video)))) ''referenceNodeIds'')) \<le> 5 \<and>
   cn_requiresApproval (projr (compileIntent (Video_intent sample_video)))"
  using compiled_intent_bounds [OF sample_video_compiles(1)] sample_video_compiles(2) by simp

end
