(* ===== verification/RenderBatches.thy ===== *)
theory RenderBatches
  imports PgDramaState Approval GenerationActions "HOL-Library.List_Lexorder" "HOL-Library.Char_ord" "HOL-Library.Multiset"
begin

text \<open>
  Render batches: \<^verbatim>\<open>domain/render-input-hash.ts\<close>, the in-memory service \<^verbatim>\<open>application/render-batch-service.ts\<close>, and
  \<^verbatim>\<open>infrastructure/pg-render-batch-repository.ts\<close> over its two tables with their keys and unique indexes.  A
  \<open>BIGINT\<close> id of a batch or a job is a natural number, which the code carries as its decimal text; \<open>newId k\<close> is the \<open>k\<close>-th
  id that a call draws.  The digest of the text of an object, SHA-256 of \<open>JSON.stringify\<close>, is the parameter \<open>digest\<close>.
  Column widths are left out.
\<close>

section \<open>The hash of a render input\<close>

record render_input =
  ri_canonRevision :: num
  ri_characterLookRevision :: num
  ri_promptRevision :: num
  ri_canvasVersion :: num
  ri_lineageInputs :: "string list"

record lineage_dependency =
  ld_lineageId :: string
  ld_shotId :: string
  ld_characterIds :: "string list"

definition buildRenderInputHash :: "(json \<Rightarrow> string) \<Rightarrow> render_input \<Rightarrow> string" where
  "buildRenderInputHash digest i = digest (JObj [(''canonRevision'', JNum (ri_canonRevision i)),
     (''characterLookRevision'', JNum (ri_characterLookRevision i)), (''promptRevision'', JNum (ri_promptRevision i)),
     (''canvasVersion'', JNum (ri_canvasVersion i)), (''lineageInputs'', JArr (map JStr (sort (ri_lineageInputs i))))])"

definition computeLineageImpact :: "lineage_dependency list \<Rightarrow> string option \<Rightarrow> string option \<Rightarrow> string list" where
  "computeLineageImpact lineages changedCharacterId changedShotId = map ld_lineageId (filter (\<lambda>l.
     changedShotId = Some (ld_shotId l) \<or> (\<exists>c \<in> set (ld_characterIds l). changedCharacterId = Some c)) lineages)"

section \<open>Batches and jobs\<close>

datatype job_status = Job_draft | Job_running | Job_completed | Job_failed
datatype batch_status = Batch_draft | Batch_awaiting_approval | Batch_running | Batch_partial | Batch_completed | Batch_failed

datatype render_error =
    RB_INVALID_INPUT | RB_INVALID_SHOT_COUNT | RB_COST_CAP_EXCEEDED | RB_INVALID_SHOT_DURATION | RB_DUPLICATE_SHOT
  | RB_KEYFRAME_NOT_ACCEPTED | RB_NOT_FOUND | RB_JOB_NOT_FAILED | RB_BATCH_NOT_SUBMITTABLE | RB_CANVAS_NODE_REQUIRED
  | RB_CONFIRMATION_REQUIRED | RB_PERMISSION_DENIED | RB_CONSTRAINT | RB_APPROVAL approval_error

record render_job_input =
  ji_shotId :: string
  ji_keyframeRenderId :: string
  ji_canvasNodeId :: "string option"
  ji_durationSeconds :: num
  ji_modelType :: string
  ji_modelParams :: "(string \<times> json) list"
  ji_estimatedCost :: num

record render_job =
  rj_id :: nat
  rj_shotId :: string
  rj_keyframeRenderId :: string
  rj_canvasNodeId :: "string option"
  rj_durationSeconds :: num
  rj_modelType :: string
  rj_modelParams :: "(string \<times> json) list"
  rj_estimatedCost :: num
  rj_inputHash :: string
  rj_status :: job_status
  rj_taskId :: "string option"
  rj_errorCode :: "string option"

record render_batch =
  rb_id :: nat
  rb_ownerId :: string
  rb_canvasId :: string
  rb_seriesId :: string
  rb_episodeNo :: num
  rb_costCap :: num
  rb_estimatedCost :: num
  rb_status :: batch_status
  rb_sessionId :: "string option"
  rb_canvasVersion :: "int option"
  rb_approvalActionId :: "string option"
  rb_jobs :: "render_job list"

record create_batch_input =
  bq_ownerId :: string
  bq_canvasId :: string
  bq_seriesId :: string
  bq_episodeNo :: num
  bq_costCap :: num
  bq_idempotencyKey :: string
  bq_sessionId :: "string option"
  bq_canvasVersion :: "int option"
  bq_jobs :: "render_job_input list"

record batch_row =
  br_id :: nat
  br_owner_id :: string
  br_canvas_id :: string
  br_series_id :: string
  br_episode_no :: num
  br_cost_cap :: num
  br_estimated_cost :: num
  br_status :: batch_status
  br_idempotency_key :: string
  br_session_id :: "string option"
  br_canvas_version :: "int option"
  br_approval_action_id :: "string option"
  br_created_at :: int

record job_row =
  jr_id :: nat
  jr_batch_id :: nat
  jr_owner_id :: string
  jr_shot_id :: string
  jr_keyframe_render_id :: string
  jr_canvas_node_id :: "string option"
  jr_duration_seconds :: num
  jr_model_type :: string
  jr_model_params :: json
  jr_estimated_cost :: num
  jr_status :: job_status
  jr_task_id :: "string option"
  jr_error_code :: "string option"
  jr_input_hash :: string
  jr_created_at :: int

record render_db =
  rt_batches :: "batch_row list"
  rt_jobs :: "job_row list"

definition objectValue :: "json \<Rightarrow> (string \<times> json) list" where
  "objectValue v = (case v of JObj fs \<Rightarrow> fs | _ \<Rightarrow> [])"

section \<open>The accepted keyframe of a job\<close>

text \<open>
  \<open>value->>'lookRevision'\<close> where it is written with digits only, else 0, and the greatest over the bindings of the shot.
\<close>

definition digits_value :: "string \<Rightarrow> nat option" where
  "digits_value s = (if s \<noteq> [] \<and> list_all (\<lambda>c. 48 \<le> (of_char c :: nat) \<and> (of_char c :: nat) \<le> 57) s
     then Some (foldl (\<lambda>n c. 10 * n + (of_char c - 48)) 0 s) else None)"

definition look_of :: "json \<Rightarrow> nat" where
  "look_of v = (case v of
     JObj fs \<Rightarrow> (case json_field fs ''lookRevision'' of
         Some (JNum n) \<Rightarrow> if js_is_integer n \<and> 0 \<le> n then nat \<lfloor>n\<rfloor> else 0
       | Some (JStr s) \<Rightarrow> (case digits_value s of Some n \<Rightarrow> n | None \<Rightarrow> 0)
       | _ \<Rightarrow> 0)
   | _ \<Rightarrow> 0)"

definition look_revision :: "json \<Rightarrow> render_error + nat" where
  "look_revision bindings = (case bindings of
     JArr vs \<Rightarrow> Inr (foldl max 0 (map look_of vs)) | _ \<Rightarrow> Inl RB_CONSTRAINT)"

definition assertAcceptedKeyframe :: "(json \<Rightarrow> string) \<Rightarrow> drama_db \<Rightarrow> create_batch_input \<Rightarrow> render_job_input \<Rightarrow> render_error + string" where
  "assertAcceptedKeyframe digest drama input job =
     (case find (\<lambda>(k, s, d). kl_shot_id k = sn_id s \<and> sn_series_id s = sl_id d \<and> sl_id d = bq_seriesId input \<and>
          sl_owner_id d = Some (bq_ownerId input) \<and> sl_canvas_id d = bq_canvasId input \<and> sn_id s = ji_shotId job \<and>
          sn_episode_no s = bq_episodeNo input \<and> sn_duration_seconds s = ji_durationSeconds job \<and>
          kl_id k = ji_keyframeRenderId job \<and> kl_status k = Key_accepted)
        (List.product (dd_keyframes drama) (List.product (dd_shots drama) (dd_series drama))) of
      None \<Rightarrow> Inl RB_KEYFRAME_NOT_ACCEPTED
    | Some (k, s, d) \<Rightarrow> rbind (look_revision (sn_character_bindings s)) (\<lambda>look.
        Inr (buildRenderInputHash digest \<lparr>ri_canonRevision = sl_active_canon_revision d, ri_characterLookRevision = of_nat look,
          ri_promptRevision = sn_prompt_revision s,
          ri_canvasVersion = (case bq_canvasVersion input of None \<Rightarrow> 0 | Some v \<Rightarrow> of_int v),
          ri_lineageInputs = [ji_keyframeRenderId job]\<rparr>)))"

section \<open>Reading\<close>

definition job_of_row :: "job_row \<Rightarrow> render_job" where
  "job_of_row j = \<lparr>rj_id = jr_id j, rj_shotId = jr_shot_id j, rj_keyframeRenderId = jr_keyframe_render_id j,
     rj_canvasNodeId = jr_canvas_node_id j, rj_durationSeconds = jr_duration_seconds j, rj_modelType = jr_model_type j,
     rj_modelParams = objectValue (jr_model_params j), rj_estimatedCost = jr_estimated_cost j, rj_inputHash = jr_input_hash j,
     rj_status = jr_status j, rj_taskId = jr_task_id j, rj_errorCode = jr_error_code j\<rparr>"

text \<open>\<open>ORDER BY created_at, id\<close>.\<close>

definition withJobs :: "render_db \<Rightarrow> batch_row \<Rightarrow> render_batch" where
  "withJobs db r = \<lparr>rb_id = br_id r, rb_ownerId = br_owner_id r, rb_canvasId = br_canvas_id r, rb_seriesId = br_series_id r,
     rb_episodeNo = br_episode_no r, rb_costCap = br_cost_cap r, rb_estimatedCost = br_estimated_cost r, rb_status = br_status r,
     rb_sessionId = br_session_id r, rb_canvasVersion = br_canvas_version r, rb_approvalActionId = br_approval_action_id r,
     rb_jobs = map job_of_row (sort_key jr_created_at (sort_key jr_id (filter (\<lambda>j. jr_batch_id j = br_id r) (rt_jobs db))))\<rparr>"

definition get_batch :: "nat \<Rightarrow> string \<Rightarrow> render_db \<Rightarrow> render_error + render_batch" where
  "get_batch batchId ownerId db = (case find (\<lambda>r. br_id r = batchId \<and> br_owner_id r = ownerId) (rt_batches db) of
     None \<Rightarrow> Inl RB_NOT_FOUND | Some r \<Rightarrow> Inr (withJobs db r))"

text \<open>\<open>ORDER BY created_at DESC, id DESC\<close>.\<close>

definition list_batches :: "string \<Rightarrow> render_db \<Rightarrow> render_batch list" where
  "list_batches ownerId db = map (withJobs db) (sort_key (\<lambda>r. - br_created_at r) (sort_key (\<lambda>r. - int (br_id r))
     (filter (\<lambda>r. br_owner_id r = ownerId) (rt_batches db))))"

definition findByKey :: "string \<Rightarrow> string \<Rightarrow> render_db \<Rightarrow> render_batch option" where
  "findByKey ownerId key db = map_option (withJobs db)
     (find (\<lambda>r. br_owner_id r = ownerId \<and> br_idempotency_key r = key) (rt_batches db))"

section \<open>Creating a batch\<close>

definition job_cost_total :: "render_job_input list \<Rightarrow> num" where
  "job_cost_total jobs = foldl (\<lambda>sum job. sum + ji_estimatedCost job) 0 jobs"

text \<open>The body of the loop over the jobs; \<open>n\<close> is the number of ids drawn before.\<close>

definition create_job :: "(json \<Rightarrow> string) \<Rightarrow> drama_db \<Rightarrow> create_batch_input \<Rightarrow> (nat \<Rightarrow> nat) \<Rightarrow> nat \<Rightarrow> render_job_input \<Rightarrow>
    render_error + render_job" where
  "create_job digest drama input newId n job =
     throw_if (\<not> js_is_integer (ji_durationSeconds job) \<or> ji_durationSeconds job < 2 \<or> 5 < ji_durationSeconds job) RB_INVALID_SHOT_DURATION
    (throw_if (\<not> js_is_integer (ji_estimatedCost job) \<or> ji_estimatedCost job < 0) RB_INVALID_INPUT
    (throw_if (blank (ji_modelType job)) RB_INVALID_INPUT
      (rbind (assertAcceptedKeyframe digest drama input job) (\<lambda>h.
        Inr \<lparr>rj_id = newId n, rj_shotId = ji_shotId job, rj_keyframeRenderId = ji_keyframeRenderId job,
          rj_canvasNodeId = ji_canvasNodeId job, rj_durationSeconds = ji_durationSeconds job, rj_modelType = ji_modelType job,
          rj_modelParams = ji_modelParams job, rj_estimatedCost = ji_estimatedCost job, rj_inputHash = h,
          rj_status = Job_draft, rj_taskId = None, rj_errorCode = None\<rparr>))))"

datatype create_decision = Replayed render_batch | Insert render_batch

definition create_check :: "(json \<Rightarrow> string) \<Rightarrow> drama_db \<Rightarrow> create_batch_input \<Rightarrow> (nat \<Rightarrow> nat) \<Rightarrow> render_db \<Rightarrow>
    render_error + create_decision" where
  "create_check digest drama input newId db =
     throw_if (blank (bq_idempotencyKey input) \<or> 128 < length (bq_idempotencyKey input)) RB_INVALID_INPUT
    (case findByKey (bq_ownerId input) (bq_idempotencyKey input) db of
       Some b \<Rightarrow> Inr (Replayed b)
     | None \<Rightarrow>
        throw_if (bq_jobs input = [] \<or> 90 < length (bq_jobs input)) RB_INVALID_SHOT_COUNT
       (throw_if (\<not> js_is_integer (bq_costCap input) \<or> bq_costCap input < 0) RB_INVALID_INPUT
       (let estimatedCost = job_cost_total (bq_jobs input)
        in throw_if (bq_costCap input < estimatedCost) RB_COST_CAP_EXCEEDED
          (rbind (rmap (\<lambda>(n, job). create_job digest drama input newId n job) (enumerate 0 (bq_jobs input))) (\<lambda>jobs.
             throw_if (length (uniq (map rj_shotId jobs)) \<noteq> length jobs) RB_DUPLICATE_SHOT
              (Inr (Insert \<lparr>rb_id = newId (length jobs), rb_ownerId = bq_ownerId input, rb_canvasId = bq_canvasId input,
                 rb_seriesId = bq_seriesId input, rb_episodeNo = bq_episodeNo input, rb_costCap = bq_costCap input,
                 rb_estimatedCost = estimatedCost,
                 rb_status = (if 0 < estimatedCost then Batch_awaiting_approval else Batch_draft),
                 rb_sessionId = bq_sessionId input, rb_canvasVersion = bq_canvasVersion input, rb_approvalActionId = None,
                 rb_jobs = jobs\<rparr>)))))))"

definition row_of_batch :: "string \<Rightarrow> int \<Rightarrow> render_batch \<Rightarrow> batch_row" where
  "row_of_batch key now b = \<lparr>br_id = rb_id b, br_owner_id = rb_ownerId b, br_canvas_id = rb_canvasId b, br_series_id = rb_seriesId b,
     br_episode_no = rb_episodeNo b, br_cost_cap = rb_costCap b, br_estimated_cost = rb_estimatedCost b, br_status = rb_status b,
     br_idempotency_key = key, br_session_id = rb_sessionId b, br_canvas_version = rb_canvasVersion b, br_approval_action_id = None,
     br_created_at = now\<rparr>"

definition row_of_job :: "nat \<Rightarrow> string \<Rightarrow> int \<Rightarrow> render_job \<Rightarrow> job_row" where
  "row_of_job batchId ownerId now j = \<lparr>jr_id = rj_id j, jr_batch_id = batchId, jr_owner_id = ownerId, jr_shot_id = rj_shotId j,
     jr_keyframe_render_id = rj_keyframeRenderId j, jr_canvas_node_id = rj_canvasNodeId j, jr_duration_seconds = rj_durationSeconds j,
     jr_model_type = rj_modelType j, jr_model_params = JObj (rj_modelParams j), jr_estimated_cost = rj_estimatedCost j,
     jr_status = rj_status j, jr_task_id = None, jr_error_code = None, jr_input_hash = rj_inputHash j, jr_created_at = now\<rparr>"

text \<open>
  The transaction: a row that breaks a unique index rolls it back, and the batch of the key, if there is one now, is returned.
\<close>

definition create_commit :: "string \<Rightarrow> int \<Rightarrow> render_batch \<Rightarrow> render_db \<Rightarrow> render_error + (render_batch \<times> render_db)" where
  "create_commit key now b db =
     (if (\<exists>r \<in> set (rt_batches db). br_id r = rb_id b \<or> br_owner_id r = rb_ownerId b \<and> br_idempotency_key r = key) \<or>
         (\<exists>j \<in> set (rt_jobs db). jr_id j \<in> rj_id ` set (rb_jobs b)) \<or> \<not> distinct (map rj_id (rb_jobs b))
      then (case findByKey (rb_ownerId b) key db of Some b' \<Rightarrow> Inr (b', db) | None \<Rightarrow> Inl RB_CONSTRAINT)
      else Inr (b, db\<lparr>rt_batches := rt_batches db @ [row_of_batch key now b],
        rt_jobs := rt_jobs db @ map (row_of_job (rb_id b) (rb_ownerId b) now) (rb_jobs b)\<rparr>))"

definition create_batch :: "(json \<Rightarrow> string) \<Rightarrow> drama_db \<Rightarrow> create_batch_input \<Rightarrow> (nat \<Rightarrow> nat) \<Rightarrow> int \<Rightarrow> render_db \<Rightarrow>
    render_error + (render_batch \<times> render_db)" where
  "create_batch digest drama input newId now db = rbind (create_check digest drama input newId db) (\<lambda>d.
     case d of Replayed b \<Rightarrow> Inr (b, db) | Insert b \<Rightarrow> create_commit (bq_idempotencyKey input) now b db)"

section \<open>Marking, approving and rerunning\<close>

definition batch_summary :: "nat \<Rightarrow> nat \<Rightarrow> nat \<Rightarrow> batch_status" where
  "batch_summary all completed failed = (if completed = all then Batch_completed
     else if failed = all then Batch_failed
     else if 0 < failed \<and> 0 < completed then Batch_partial
     else Batch_running)"

definition count_status :: "job_status \<Rightarrow> job_row list \<Rightarrow> nat" where
  "count_status st js = length (filter (\<lambda>j. jr_status j = st) js)"

definition jobs_summary :: "job_row list \<Rightarrow> batch_status" where
  "jobs_summary js = batch_summary (length js) (count_status Job_completed js) (count_status Job_failed js)"

definition set_batch_status :: "nat \<Rightarrow> string \<Rightarrow> batch_status \<Rightarrow> batch_row list \<Rightarrow> batch_row list" where
  "set_batch_status batchId ownerId st rs =
     map (\<lambda>r. if br_id r = batchId \<and> br_owner_id r = ownerId then r\<lparr>br_status := st\<rparr> else r) rs"

definition markJob :: "nat \<Rightarrow> string \<Rightarrow> nat \<Rightarrow> job_status \<Rightarrow> string option \<Rightarrow> string option \<Rightarrow> render_db \<Rightarrow> render_error + render_db" where
  "markJob batchId ownerId jobId st taskId errorCode db =
     throw_if (\<not> (\<exists>r \<in> set (rt_batches db). br_id r = batchId \<and> br_owner_id r = ownerId)) RB_NOT_FOUND
    (let hit = (\<lambda>j. jr_id j = jobId \<and> jr_batch_id j = batchId \<and> jr_owner_id j = ownerId);
         jobs = map (\<lambda>j. if hit j then j\<lparr>jr_status := st, jr_task_id := (case taskId of None \<Rightarrow> jr_task_id j | Some t \<Rightarrow> Some t),
           jr_error_code := errorCode\<rparr> else j) (rt_jobs db)
     in throw_if (\<not> (\<exists>j \<in> set (rt_jobs db). hit j)) RB_NOT_FOUND
       (Inr (db\<lparr>rt_jobs := jobs, rt_batches := set_batch_status batchId ownerId
          (jobs_summary (filter (\<lambda>j. jr_batch_id j = batchId \<and> jr_owner_id j = ownerId) jobs)) (rt_batches db)\<rparr>)))"

datatype task_outcome = Task_succeeded | Task_failed | Task_cancelled | Task_expired | Task_settlement_error

definition outcome_text :: "task_outcome \<Rightarrow> string" where
  "outcome_text t = (case t of Task_succeeded \<Rightarrow> ''succeeded'' | Task_failed \<Rightarrow> ''failed'' | Task_cancelled \<Rightarrow> ''cancelled''
     | Task_expired \<Rightarrow> ''expired'' | Task_settlement_error \<Rightarrow> ''settlement_error'')"

text \<open>No job has the task: None.\<close>

definition markTask :: "string \<Rightarrow> task_outcome \<Rightarrow> string option \<Rightarrow> render_db \<Rightarrow> (render_error + render_db) option" where
  "markTask taskId outcome errorCode db = (case find (\<lambda>j. jr_task_id j = Some taskId) (rt_jobs db) of
     None \<Rightarrow> None
   | Some j \<Rightarrow> Some (markJob (jr_batch_id j) (jr_owner_id j) (jr_id j)
       (if outcome = Task_succeeded then Job_completed else Job_failed) (Some taskId)
       (if outcome = Task_succeeded then None
        else case errorCode of Some e \<Rightarrow> Some e | None \<Rightarrow> Some (outcome_text outcome)) db))"

definition attachApproval :: "nat \<Rightarrow> string \<Rightarrow> string \<Rightarrow> render_db \<Rightarrow> render_error + render_db" where
  "attachApproval batchId ownerId actionId db =
     throw_if (\<not> (\<exists>r \<in> set (rt_batches db). br_id r = batchId \<and> br_owner_id r = ownerId)) RB_NOT_FOUND
    (throw_if (\<exists>r \<in> set (rt_batches db). br_approval_action_id r = Some actionId \<and> br_id r \<noteq> batchId) RB_CONSTRAINT
      (Inr (db\<lparr>rt_batches := map (\<lambda>r. if br_id r = batchId \<and> br_owner_id r = ownerId then r\<lparr>br_approval_action_id := Some actionId\<rparr> else r)
         (rt_batches db)\<rparr>)))"

definition rerun_job :: "nat \<Rightarrow> string \<Rightarrow> nat \<Rightarrow> render_db \<Rightarrow> render_error + render_db" where
  "rerun_job batchId ownerId jobId db =
     (let hit = (\<lambda>j. jr_id j = jobId \<and> jr_batch_id j = batchId \<and> jr_owner_id j = ownerId)
      in case find hit (rt_jobs db) of
           None \<Rightarrow> Inl RB_NOT_FOUND
         | Some job \<Rightarrow> throw_if (jr_status job \<noteq> Job_failed) RB_JOB_NOT_FAILED
             (Inr (db\<lparr>rt_jobs := map (\<lambda>j. if hit j then j\<lparr>jr_status := Job_draft, jr_task_id := None, jr_error_code := None\<rparr> else j) (rt_jobs db),
                rt_batches := map (\<lambda>r. if br_id r = batchId \<and> br_owner_id r = ownerId
                  then r\<lparr>br_status := Batch_awaiting_approval, br_approval_action_id := None\<rparr> else r) (rt_batches db)\<rparr>)))"

section \<open>The in-memory service\<close>

record service_job_input =
  sj_shotId :: string
  sj_durationSeconds :: num
  sj_keyframeAccepted :: bool
  sj_estimatedCost :: num

record service_job = service_job_input +
  sj_id :: nat
  sj_status :: job_status
  sj_errorCode :: "string option"

record service_batch =
  sv_id :: nat
  sv_ownerId :: string
  sv_canvasId :: string
  sv_costCap :: num
  sv_status :: batch_status
  sv_jobs :: "service_job list"
  sv_estimatedCost :: num

type_synonym batch_service = "(nat, service_batch) jmap"

definition service_create :: "string \<Rightarrow> string \<Rightarrow> num \<Rightarrow> service_job_input list \<Rightarrow> (nat \<Rightarrow> nat) \<Rightarrow> batch_service \<Rightarrow>
    render_error + (service_batch \<times> batch_service)" where
  "service_create ownerId canvasId costCap inputs newId s =
     throw_if (inputs = [] \<or> 90 < length inputs) RB_INVALID_SHOT_COUNT
    (rbind (for_each (\<lambda>j. throw_if (\<not> sj_keyframeAccepted j) RB_KEYFRAME_NOT_ACCEPTED
         (throw_if (sj_durationSeconds j < 2 \<or> 5 < sj_durationSeconds j) RB_INVALID_SHOT_DURATION (Inr ()))) inputs) (\<lambda>_.
       let estimatedCost = foldl (\<lambda>sum j. sum + sj_estimatedCost j) 0 inputs
       in throw_if (\<not> js_is_integer costCap \<or> costCap < estimatedCost) RB_COST_CAP_EXCEEDED
         (let jobs = map (\<lambda>(n, j). service_job_input.extend j (service_job.fields (newId n) Job_draft None)) (enumerate 0 inputs);
              batch = \<lparr>sv_id = newId (length inputs), sv_ownerId = ownerId, sv_canvasId = canvasId, sv_costCap = costCap,
                sv_status = (if 0 < estimatedCost then Batch_awaiting_approval else Batch_draft), sv_jobs = jobs,
                sv_estimatedCost = estimatedCost\<rparr>
          in Inr (batch, jset (sv_id batch) batch s))))"

definition service_get :: "nat \<Rightarrow> batch_service \<Rightarrow> render_error + service_batch" where
  "service_get i s = require_some RB_NOT_FOUND (jget s i)"

definition service_summary :: "service_job list \<Rightarrow> batch_status" where
  "service_summary jobs =
     (let completed = length (filter (\<lambda>j. sj_status j = Job_completed) jobs);
          failed = length (filter (\<lambda>j. sj_status j = Job_failed) jobs)
      in if completed = length jobs then Batch_completed
         else if 0 < failed \<and> 0 < completed then Batch_partial
         else if failed = length jobs then Batch_failed
         else Batch_running)"

definition service_markJob :: "nat \<Rightarrow> nat \<Rightarrow> job_status \<Rightarrow> string option \<Rightarrow> batch_service \<Rightarrow> render_error + (service_batch \<times> batch_service)" where
  "service_markJob batchId jobId st errorCode s = rbind (service_get batchId s) (\<lambda>batch.
     throw_if (\<not> (\<exists>j \<in> set (sv_jobs batch). sj_id j = jobId)) RB_NOT_FOUND
      (let jobs = map (\<lambda>j. if sj_id j = jobId then (if truthy errorCode then j\<lparr>sj_status := st, sj_errorCode := errorCode\<rparr>
             else j\<lparr>sj_status := st\<rparr>) else j) (sv_jobs batch);
           updated = batch\<lparr>sv_jobs := jobs, sv_status := service_summary jobs\<rparr>
       in Inr (updated, jset batchId updated s)))"

definition service_rerun :: "nat \<Rightarrow> nat \<Rightarrow> batch_service \<Rightarrow> render_error + (service_batch \<times> batch_service)" where
  "service_rerun batchId jobId s = rbind (service_get batchId s) (\<lambda>batch.
     throw_if (\<not> (\<exists>j \<in> set (sv_jobs batch). sj_id j = jobId)) RB_NOT_FOUND
      (let updated = batch\<lparr>sv_jobs := map (\<lambda>j. if sj_id j = jobId then j\<lparr>sj_status := Job_draft, sj_errorCode := None\<rparr> else j) (sv_jobs batch),
             sv_status := Batch_awaiting_approval\<rparr>
       in Inr (updated, jset batchId updated s)))"

section \<open>The invariant of the tables\<close>

definition jobs_in :: "render_db \<Rightarrow> nat \<Rightarrow> job_row list" where
  "jobs_in db i = filter (\<lambda>j. jr_batch_id j = i) (rt_jobs db)"

text \<open>What never changes of a row, and what the rows hold of it.\<close>

type_synonym static_batch = "nat \<times> string \<times> string \<times> num \<times> num"
type_synonym static_job = "nat \<times> nat \<times> string \<times> string \<times> num \<times> num"

definition static_batch :: "batch_row \<Rightarrow> static_batch" where
  "static_batch r = (br_id r, br_owner_id r, br_idempotency_key r, br_estimated_cost r, br_cost_cap r)"

definition static_job :: "job_row \<Rightarrow> static_job" where
  "static_job j = (jr_id j, jr_batch_id j, jr_owner_id j, jr_shot_id j, jr_duration_seconds j, jr_estimated_cost j)"

definition shape_row :: "static_job list \<Rightarrow> static_batch \<Rightarrow> bool" where
  "shape_row jobs = (\<lambda>(i, owner, key, cost, cap). let js = filter (\<lambda>(k, b, u, s, d, c). b = i) jobs in
     js \<noteq> [] \<and> length js \<le> 90 \<and> distinct (map (\<lambda>(k, b, u, s, d, c). s) js) \<and>
     (\<forall>(k, b, u, s, d, c) \<in> set js. u = owner \<and> js_is_integer d \<and> 2 \<le> d \<and> d \<le> 5 \<and> js_is_integer c \<and> 0 \<le> c) \<and>
     sum_list (map (\<lambda>(k, b, u, s, d, c). c) js) = cost \<and> cost \<le> cap)"

definition shape_ok :: "static_batch list \<Rightarrow> static_job list \<Rightarrow> bool" where
  "shape_ok rows jobs \<longleftrightarrow> distinct (map fst rows) \<and> distinct (map (\<lambda>(i, owner, key, cost, cap). (owner, key)) rows) \<and>
     distinct (map fst jobs) \<and> (\<forall>(k, b, u, s, d, c) \<in> set jobs. b \<in> fst ` set rows) \<and> list_all (shape_row jobs) rows"

definition status_ok :: "render_db \<Rightarrow> batch_row \<Rightarrow> bool" where
  "status_ok db r \<longleftrightarrow> br_status r = Batch_awaiting_approval \<or> br_status r = jobs_summary (jobs_in db (br_id r)) \<or>
     br_status r = Batch_draft \<and> br_estimated_cost r = 0 \<and> (\<forall>j \<in> set (jobs_in db (br_id r)). jr_status j = Job_draft)"

definition render_ok :: "render_db \<Rightarrow> bool" where
  "render_ok db \<longleftrightarrow> shape_ok (map static_batch (rt_batches db)) (map static_job (rt_jobs db)) \<and> list_all (status_ok db) (rt_batches db)"

inductive render_step :: "render_db \<Rightarrow> render_db \<Rightarrow> bool" where
  created: "create_check digest drama input newId earlier = Inr (Insert b) \<Longrightarrow>
    create_commit (bq_idempotencyKey input) now b db = Inr (b', db') \<Longrightarrow> render_step db db'"
| marked: "markJob batchId ownerId jobId st taskId errorCode db = Inr db' \<Longrightarrow> render_step db db'"
| task: "markTask taskId outcome errorCode db = Some (Inr db') \<Longrightarrow> render_step db db'"
| approved: "attachApproval batchId ownerId actionId db = Inr db' \<Longrightarrow> render_step db db'"
| rerun: "rerun_job batchId ownerId jobId db = Inr db' \<Longrightarrow> render_step db db'"

abbreviation render_reaches :: "render_db \<Rightarrow> render_db \<Rightarrow> bool" where
  "render_reaches \<equiv> render_step\<^sup>*\<^sup>*"

definition empty_render_db :: render_db where
  "empty_render_db = \<lparr>rt_batches = [], rt_jobs = []\<rparr>"

lemma jobs_in_map:
  "(\<And>j. jr_batch_id (f j) = jr_batch_id j) \<Longrightarrow> filter (\<lambda>j. jr_batch_id j = i) (map f js) = map f (filter (\<lambda>j. jr_batch_id j = i) js)"
  by (induction js) auto

lemma jobs_in_map_other:
  "(\<And>j. jr_batch_id (f j) = jr_batch_id j) \<Longrightarrow> (\<And>j. jr_batch_id j = i \<Longrightarrow> f j = j) \<Longrightarrow>
     filter (\<lambda>j. jr_batch_id j = i) (map f js) = filter (\<lambda>j. jr_batch_id j = i) js"
  by (induction js) auto

lemma shape_row_iff:
  "shape_row (map static_job jobs) (static_batch r) \<longleftrightarrow> (let js = filter (\<lambda>j. jr_batch_id j = br_id r) jobs in
    js \<noteq> [] \<and> length js \<le> 90 \<and> distinct (map jr_shot_id js) \<and>
    (\<forall>j \<in> set js. jr_owner_id j = br_owner_id r \<and> js_is_integer (jr_duration_seconds j) \<and>
      2 \<le> jr_duration_seconds j \<and> jr_duration_seconds j \<le> 5 \<and> js_is_integer (jr_estimated_cost j) \<and> 0 \<le> jr_estimated_cost j) \<and>
    sum_list (map jr_estimated_cost js) = br_estimated_cost r \<and> br_estimated_cost r \<le> br_cost_cap r)"
proof -
  have js: "filter (\<lambda>(k, b, u, s, d, c). b = br_id r) (map static_job jobs) = map static_job (filter (\<lambda>j. jr_batch_id j = br_id r) jobs)"
    by (simp add: filter_map o_def static_job_def)
  show ?thesis unfolding shape_row_def static_batch_def Let_def prod.case js by (simp add: static_job_def o_def)
qed

lemma shape_row_of:
  assumes "shape_ok (map static_batch (rt_batches db)) (map static_job (rt_jobs db))" "r \<in> set (rt_batches db)"
  shows "jobs_in db (br_id r) \<noteq> [] \<and> length (jobs_in db (br_id r)) \<le> 90 \<and> distinct (map jr_shot_id (jobs_in db (br_id r))) \<and>
    (\<forall>j \<in> set (jobs_in db (br_id r)). jr_owner_id j = br_owner_id r \<and> js_is_integer (jr_duration_seconds j) \<and>
      2 \<le> jr_duration_seconds j \<and> jr_duration_seconds j \<le> 5 \<and> js_is_integer (jr_estimated_cost j) \<and> 0 \<le> jr_estimated_cost j) \<and>
    sum_list (map jr_estimated_cost (jobs_in db (br_id r))) = br_estimated_cost r \<and> br_estimated_cost r \<le> br_cost_cap r"
proof -
  from assms have "shape_row (map static_job (rt_jobs db)) (static_batch r)" by (simp add: shape_ok_def list_all_iff)
  then show ?thesis unfolding shape_row_iff Let_def jobs_in_def .
qed

lemma one_row:
  assumes "shape_ok (map static_batch (rt_batches db)) jobs" "r \<in> set (rt_batches db)" "q \<in> set (rt_batches db)" "br_id q = br_id r"
  shows "q = r"
proof -
  from assms(1) have "distinct (map br_id (rt_batches db))" by (simp add: shape_ok_def static_batch_def o_def)
  with assms(2-) show ?thesis by (auto simp: distinct_map inj_on_def)
qed

lemma markJob_cases:
  assumes "markJob batchId ownerId jobId st taskId errorCode db = Inr db'"
  obtains r f where "r \<in> set (rt_batches db)" "br_id r = batchId" "br_owner_id r = ownerId"
    "rt_jobs db' = map f (rt_jobs db)" "\<forall>j. static_job (f j) = static_job j" "\<forall>j. jr_batch_id j \<noteq> batchId \<longrightarrow> f j = j"
    "rt_batches db' = set_batch_status batchId ownerId
      (jobs_summary (filter (\<lambda>j. jr_batch_id j = batchId \<and> jr_owner_id j = ownerId) (rt_jobs db'))) (rt_batches db)"
proof -
  let ?f = "\<lambda>j. if jr_id j = jobId \<and> jr_batch_id j = batchId \<and> jr_owner_id j = ownerId
    then j\<lparr>jr_status := st, jr_task_id := (case taskId of None \<Rightarrow> jr_task_id j | Some t \<Rightarrow> Some t), jr_error_code := errorCode\<rparr> else j"
  from assms obtain r where "r \<in> set (rt_batches db)" "br_id r = batchId" "br_owner_id r = ownerId"
    by (auto simp: markJob_def Let_def result_simps)
  moreover from assms have "rt_jobs db' = map ?f (rt_jobs db)" by (auto simp: markJob_def Let_def result_simps)
  moreover from assms have "rt_batches db' = set_batch_status batchId ownerId
      (jobs_summary (filter (\<lambda>j. jr_batch_id j = batchId \<and> jr_owner_id j = ownerId) (rt_jobs db'))) (rt_batches db)"
    by (auto simp: markJob_def Let_def result_simps)
  ultimately show thesis by (intro that [of r ?f]) (auto simp: static_job_def)
qed

lemma set_batch_status_static [simp]: "map static_batch (set_batch_status i owner st rs) = map static_batch rs"
  by (simp add: set_batch_status_def static_batch_def)

lemma set_batch_status_mem:
  assumes "q \<in> set (set_batch_status i owner st rs)"
  shows "(br_id q = i \<and> br_owner_id q = owner \<longrightarrow> br_status q = st) \<and> (br_id q \<noteq> i \<longrightarrow> q \<in> set rs) \<and>
    (\<exists>p \<in> set rs. br_id p = br_id q \<and> br_owner_id p = br_owner_id q)"
  using assms by (auto simp: set_batch_status_def)

lemma static_job_batch: "static_job j = static_job k \<Longrightarrow> jr_batch_id j = jr_batch_id k"
  by (simp add: static_job_def)

lemma markJob_static: "markJob batchId ownerId jobId st taskId errorCode db = Inr db' \<Longrightarrow>
    map static_batch (rt_batches db') = map static_batch (rt_batches db)"
  by (erule markJob_cases) simp

lemma markJob_ok:
  assumes "render_ok db" "markJob batchId ownerId jobId st taskId errorCode db = Inr db'"
  shows "render_ok db'"
proof -
  from assms(2) obtain r f where r: "r \<in> set (rt_batches db)" "br_id r = batchId" "br_owner_id r = ownerId"
    and jobs: "rt_jobs db' = map f (rt_jobs db)" and f: "\<forall>j. static_job (f j) = static_job j" "\<forall>j. jr_batch_id j \<noteq> batchId \<longrightarrow> f j = j"
    and rows: "rt_batches db' = set_batch_status batchId ownerId
      (jobs_summary (filter (\<lambda>j. jr_batch_id j = batchId \<and> jr_owner_id j = ownerId) (rt_jobs db'))) (rt_batches db)" by (rule markJob_cases)
  have same: "map static_batch (rt_batches db') = map static_batch (rt_batches db)" "map static_job (rt_jobs db') = map static_job (rt_jobs db)"
    by (simp_all add: rows jobs f(1))
  from assms(1) have shape: "shape_ok (map static_batch (rt_batches db)) (map static_job (rt_jobs db))" by (simp add: render_ok_def)
  then have shape': "shape_ok (map static_batch (rt_batches db')) (map static_job (rt_jobs db'))" by (simp add: same)
  have bf: "jr_batch_id (f j) = jr_batch_id j" for j using f(1) static_job_batch by blast
  have "status_ok db' q" if q: "q \<in> set (rt_batches db')" for q
  proof (cases "br_id q = batchId")
    case True
    note mem = set_batch_status_mem [OF q [unfolded rows]]
    from mem obtain p where p: "p \<in> set (rt_batches db)" "br_id p = br_id q" "br_owner_id p = br_owner_id q" by blast
    with one_row [OF shape r(1), of p] True r have "br_owner_id q = ownerId" by simp
    with True mem have "br_status q = jobs_summary (filter (\<lambda>j. jr_batch_id j = batchId \<and> jr_owner_id j = ownerId) (rt_jobs db'))"
      by blast
    moreover have "filter (\<lambda>j. jr_batch_id j = batchId \<and> jr_owner_id j = ownerId) (rt_jobs db') = jobs_in db' batchId"
      using shape_row_of [OF shape' q] True \<open>br_owner_id q = ownerId\<close> by (auto simp: jobs_in_def intro: filter_cong)
    ultimately show ?thesis using True by (simp add: status_ok_def)
  next
    case False
    with set_batch_status_mem [OF q [unfolded rows]] have "q \<in> set (rt_batches db)" by blast
    with assms(1) have "status_ok db q" by (simp add: render_ok_def list_all_iff)
    moreover have "jobs_in db' (br_id q) = jobs_in db (br_id q)" unfolding jobs_in_def jobs
      using False by (intro jobs_in_map_other) (auto simp: bf f(2))
    ultimately show ?thesis by (simp add: status_ok_def)
  qed
  with shape' show ?thesis by (simp add: render_ok_def list_all_iff)
qed

lemma render_okI:
  assumes "map static_batch (rt_batches db') = map static_batch (rt_batches db)" "map static_job (rt_jobs db') = map static_job (rt_jobs db)"
    "render_ok db" "\<And>q. q \<in> set (rt_batches db') \<Longrightarrow> status_ok db' q"
  shows "render_ok db'"
  using assms(3,4) unfolding render_ok_def assms(1,2) by (simp add: list_all_iff)

lemma rerun_job_cases:
  assumes "rerun_job batchId ownerId jobId db = Inr db'"
  shows "\<exists>f g. rt_jobs db' = map f (rt_jobs db) \<and> (\<forall>j. static_job (f j) = static_job j) \<and> (\<forall>j. jr_batch_id j \<noteq> batchId \<longrightarrow> f j = j) \<and>
    rt_batches db' = map g (rt_batches db) \<and> (\<forall>r. static_batch (g r) = static_batch r) \<and>
    (\<forall>r. g r = r \<and> (br_id r \<noteq> batchId \<or> br_owner_id r \<noteq> ownerId) \<or> br_status (g r) = Batch_awaiting_approval) \<and>
    (\<exists>j \<in> set (rt_jobs db). jr_batch_id j = batchId \<and> jr_owner_id j = ownerId)"
proof -
  let ?f = "\<lambda>j. if jr_id j = jobId \<and> jr_batch_id j = batchId \<and> jr_owner_id j = ownerId
    then j\<lparr>jr_status := Job_draft, jr_task_id := None, jr_error_code := None\<rparr> else j"
  let ?g = "\<lambda>r. if br_id r = batchId \<and> br_owner_id r = ownerId
    then r\<lparr>br_status := Batch_awaiting_approval, br_approval_action_id := None\<rparr> else r"
  from assms have "rt_jobs db' = map ?f (rt_jobs db)" "rt_batches db' = map ?g (rt_batches db)"
    by (auto simp: rerun_job_def Let_def result_simps split: option.splits)
  moreover from assms have "\<exists>j \<in> set (rt_jobs db). jr_batch_id j = batchId \<and> jr_owner_id j = ownerId"
    by (auto simp: rerun_job_def Let_def result_simps split: option.splits dest!: find_SomeD)
  ultimately show ?thesis by (intro exI [of _ ?f] exI [of _ ?g]) (auto simp: static_job_def static_batch_def)
qed

lemma rerun_job_ok:
  assumes "render_ok db" "rerun_job batchId ownerId jobId db = Inr db'"
  shows "render_ok db'"
proof -
  from rerun_job_cases [OF assms(2)] obtain f g where jobs: "rt_jobs db' = map f (rt_jobs db)" "\<forall>j. static_job (f j) = static_job j"
      "\<forall>j. jr_batch_id j \<noteq> batchId \<longrightarrow> f j = j"
    and rows: "rt_batches db' = map g (rt_batches db)" "\<forall>r. static_batch (g r) = static_batch r"
      "\<forall>r. g r = r \<and> (br_id r \<noteq> batchId \<or> br_owner_id r \<noteq> ownerId) \<or> br_status (g r) = Batch_awaiting_approval"
    and some: "\<exists>j \<in> set (rt_jobs db). jr_batch_id j = batchId \<and> jr_owner_id j = ownerId" by blast
  have same: "map static_batch (rt_batches db') = map static_batch (rt_batches db)" "map static_job (rt_jobs db') = map static_job (rt_jobs db)"
    using jobs(1,2) rows(1,2) by simp_all
  from assms(1) have shape: "shape_ok (map static_batch (rt_batches db)) (map static_job (rt_jobs db))" by (simp add: render_ok_def)
  have bf: "jr_batch_id (f j) = jr_batch_id j" for j using jobs(2) static_job_batch by blast
  have "status_ok db' (g r)" if r: "r \<in> set (rt_batches db)" for r
  proof (cases "br_status (g r) = Batch_awaiting_approval")
    case False
    with rows(3) have gr: "g r = r" "br_id r \<noteq> batchId \<or> br_owner_id r \<noteq> ownerId" by auto
    from some obtain j where j: "j \<in> set (rt_jobs db)" "jr_batch_id j = batchId" "jr_owner_id j = ownerId" by blast
    have "br_id r \<noteq> batchId"
    proof
      assume "br_id r = batchId"
      with shape_row_of [OF shape r] j have "br_owner_id r = ownerId" by (auto simp: jobs_in_def)
      with gr(2) \<open>br_id r = batchId\<close> show False by simp
    qed
    then have "jobs_in db' (br_id r) = jobs_in db (br_id r)" unfolding jobs_in_def jobs(1)
      using jobs(3) by (intro jobs_in_map_other) (auto simp: bf)
    with assms(1) r gr(1) show ?thesis by (auto simp: render_ok_def list_all_iff status_ok_def)
  qed (simp add: status_ok_def)
  then have "status_ok db' q" if "q \<in> set (rt_batches db')" for q using that rows(1) by auto
  then show ?thesis by (rule render_okI [OF same assms(1)])
qed

lemma attachApproval_ok:
  assumes "render_ok db" "attachApproval batchId ownerId actionId db = Inr db'"
  shows "render_ok db'"
proof -
  let ?g = "\<lambda>r. if br_id r = batchId \<and> br_owner_id r = ownerId then r\<lparr>br_approval_action_id := Some actionId\<rparr> else r"
  from assms(2) have rows: "rt_batches db' = map ?g (rt_batches db)" and jobs: "rt_jobs db' = rt_jobs db"
    by (auto simp: attachApproval_def result_simps)
  have same: "map static_batch (rt_batches db') = map static_batch (rt_batches db)" "map static_job (rt_jobs db') = map static_job (rt_jobs db)"
    by (simp_all add: rows jobs static_batch_def)
  have st: "status_ok db' (?g r) = status_ok db r" for r by (simp add: status_ok_def jobs_in_def jobs)
  have "status_ok db' q" if q: "q \<in> set (rt_batches db')" for q
  proof -
    from q obtain r where r: "r \<in> set (rt_batches db)" "q = ?g r" unfolding rows by auto
    with assms(1) have "status_ok db r" by (simp add: render_ok_def list_all_iff)
    then show ?thesis unfolding r(2) st .
  qed
  then show ?thesis by (rule render_okI [OF same assms(1)])
qed

text \<open>What \<open>create\<close> has checked of a batch it inserts.\<close>

definition batch_checked :: "create_batch_input \<Rightarrow> render_batch \<Rightarrow> bool" where
  "batch_checked input b \<longleftrightarrow> rb_ownerId b = bq_ownerId input \<and> rb_jobs b \<noteq> [] \<and> length (rb_jobs b) \<le> 90 \<and>
     distinct (map rj_shotId (rb_jobs b)) \<and> sum_list (map rj_estimatedCost (rb_jobs b)) = rb_estimatedCost b \<and>
     rb_estimatedCost b \<le> rb_costCap b \<and> rb_status b = (if 0 < rb_estimatedCost b then Batch_awaiting_approval else Batch_draft) \<and>
     (\<forall>j \<in> set (rb_jobs b). js_is_integer (rj_durationSeconds j) \<and> 2 \<le> rj_durationSeconds j \<and> rj_durationSeconds j \<le> 5 \<and>
       js_is_integer (rj_estimatedCost j) \<and> 0 \<le> rj_estimatedCost j \<and> rj_status j = Job_draft)"

lemma job_cost_total_sum: "job_cost_total jobs = sum_list (map ji_estimatedCost jobs)"
proof -
  have "foldl (\<lambda>sum job. sum + ji_estimatedCost job) x jobs = x + sum_list (map ji_estimatedCost jobs)" for x
    by (induction jobs arbitrary: x) simp_all
  then show ?thesis by (simp add: job_cost_total_def)
qed

lemma create_job_Inr:
  "create_job digest drama input newId n job = Inr j \<Longrightarrow> rj_estimatedCost j = ji_estimatedCost job \<and> rj_status j = Job_draft \<and>
     js_is_integer (rj_durationSeconds j) \<and> 2 \<le> rj_durationSeconds j \<and> rj_durationSeconds j \<le> 5 \<and>
     js_is_integer (rj_estimatedCost j) \<and> 0 \<le> rj_estimatedCost j \<and> rj_id j = newId n"
  by (auto simp: create_job_def result_simps)

lemma create_jobs_Inr:
  assumes "rmap (\<lambda>(n, job). create_job digest drama input newId n job) (enumerate k inputs) = Inr jobs"
  shows "map rj_estimatedCost jobs = map ji_estimatedCost inputs \<and> length jobs = length inputs \<and>
    (\<forall>j \<in> set jobs. js_is_integer (rj_durationSeconds j) \<and> 2 \<le> rj_durationSeconds j \<and> rj_durationSeconds j \<le> 5 \<and>
       js_is_integer (rj_estimatedCost j) \<and> 0 \<le> rj_estimatedCost j \<and> rj_status j = Job_draft)"
  using assms
proof (induction inputs arbitrary: jobs k)
  case (Cons i inputs)
  then obtain j js where "jobs = j # js" "create_job digest drama input newId k i = Inr j"
    "rmap (\<lambda>(n, job). create_job digest drama input newId n job) (enumerate (Suc k) inputs) = Inr js"
    by (auto simp: rbind_Inr)
  with Cons.IH create_job_Inr show ?case by fastforce
qed simp

lemma distinct_uniq_length: "length (uniq xs) = length xs \<Longrightarrow> distinct xs"
  by (simp add: uniq_length card_distinct)

lemma create_check_Insert:
  assumes "create_check digest drama input newId db = Inr (Insert b)"
  shows "batch_checked input b \<and> findByKey (bq_ownerId input) (bq_idempotencyKey input) db = None"
proof -
  from assms obtain jobs where none: "findByKey (bq_ownerId input) (bq_idempotencyKey input) db = None"
    and count: "bq_jobs input \<noteq> []" "length (bq_jobs input) \<le> 90" and cap: "job_cost_total (bq_jobs input) \<le> bq_costCap input"
    and jobs: "rmap (\<lambda>(n, job). create_job digest drama input newId n job) (enumerate 0 (bq_jobs input)) = Inr jobs"
    and dist: "length (uniq (map rj_shotId jobs)) = length jobs"
    and b: "rb_ownerId b = bq_ownerId input" "rb_jobs b = jobs" "rb_estimatedCost b = job_cost_total (bq_jobs input)" "rb_costCap b = bq_costCap input"
      "rb_status b = (if 0 < job_cost_total (bq_jobs input) then Batch_awaiting_approval else Batch_draft)"
    by (auto simp: create_check_def result_simps(1,3,4,5) throw_if_Inr rbind_Inr Let_def not_le not_less split: option.splits)
  have "distinct (map rj_shotId jobs)" using dist by (intro distinct_uniq_length) simp
  with create_jobs_Inr [OF jobs] count cap b none show ?thesis by (auto simp: batch_checked_def job_cost_total_sum)
qed

lemma shape_okD:
  assumes "shape_ok (map static_batch rows) (map static_job jobs)"
  shows "distinct (map br_id rows)" "distinct (map (\<lambda>r. (br_owner_id r, br_idempotency_key r)) rows)" "distinct (map jr_id jobs)"
    "\<forall>j \<in> set jobs. jr_batch_id j \<in> br_id ` set rows" "\<forall>r \<in> set rows. shape_row (map static_job jobs) (static_batch r)"
  using assms by (auto simp: shape_ok_def static_batch_def static_job_def o_def list_all_iff image_image)

lemma shape_okI:
  assumes "distinct (map br_id rows)" "distinct (map (\<lambda>r. (br_owner_id r, br_idempotency_key r)) rows)" "distinct (map jr_id jobs)"
    "\<forall>j \<in> set jobs. jr_batch_id j \<in> br_id ` set rows" "\<forall>r \<in> set rows. shape_row (map static_job jobs) (static_batch r)"
  shows "shape_ok (map static_batch rows) (map static_job jobs)"
  using assms by (auto simp: shape_ok_def static_batch_def static_job_def o_def list_all_iff image_image)

lemma create_commit_cases:
  assumes "create_commit key now b db = Inr (b', db')"
  shows "db' = db \<and> findByKey (rb_ownerId b) key db = Some b' \<or>
    b' = b \<and> (\<forall>r \<in> set (rt_batches db). br_id r \<noteq> rb_id b \<and> \<not> (br_owner_id r = rb_ownerId b \<and> br_idempotency_key r = key)) \<and>
    (\<forall>j \<in> set (rt_jobs db). jr_id j \<notin> rj_id ` set (rb_jobs b)) \<and> distinct (map rj_id (rb_jobs b)) \<and>
    rt_batches db' = rt_batches db @ [row_of_batch key now b] \<and>
    rt_jobs db' = rt_jobs db @ map (row_of_job (rb_id b) (rb_ownerId b) now) (rb_jobs b)"
  using assms by (auto simp: create_commit_def split: if_splits option.splits)

lemma create_commit_ok:
  assumes "render_ok db" "batch_checked input b" "create_commit key now b db = Inr (b', db')"
  shows "render_ok db'"
  using create_commit_cases [OF assms(3)]
proof (elim disjE conjE)
  assume "db' = db"
  with assms(1) show ?thesis by simp
next
  let ?new = "map (row_of_job (rb_id b) (rb_ownerId b) now) (rb_jobs b)"
  assume fresh: "\<forall>r \<in> set (rt_batches db). br_id r \<noteq> rb_id b \<and> \<not> (br_owner_id r = rb_ownerId b \<and> br_idempotency_key r = key)"
    "\<forall>j \<in> set (rt_jobs db). jr_id j \<notin> rj_id ` set (rb_jobs b)" "distinct (map rj_id (rb_jobs b))"
    and rows: "rt_batches db' = rt_batches db @ [row_of_batch key now b]" and jobs: "rt_jobs db' = rt_jobs db @ ?new"
  have shape: "shape_ok (map static_batch (rt_batches db)) (map static_job (rt_jobs db))" using assms(1) by (simp add: render_ok_def)
  note D = shape_okD [OF shape]
  have ids: "jr_id \<circ> row_of_job i u n = rj_id" "jr_shot_id \<circ> row_of_job i u n = rj_shotId"
    "jr_estimated_cost \<circ> row_of_job i u n = rj_estimatedCost" for i u n by (simp_all add: row_of_job_def fun_eq_iff)
  have old: "filter (\<lambda>j. jr_batch_id j = i) (rt_jobs db') = filter (\<lambda>j. jr_batch_id j = i) (rt_jobs db)" if "i \<noteq> rb_id b" for i
    using that by (simp add: jobs filter_map o_def row_of_job_def)
  have "\<not> (\<exists>j \<in> set (rt_jobs db). jr_batch_id j = rb_id b)" using D(4) fresh(1) by fastforce
  then have mine: "filter (\<lambda>j. jr_batch_id j = rb_id b) (rt_jobs db') = ?new"
    by (auto simp: jobs filter_map o_def row_of_job_def filter_empty_conv)
  have newrow: "shape_row (map static_job (rt_jobs db')) (static_batch (row_of_batch key now b))"
    unfolding shape_row_iff Let_def
    using assms(2) by (simp add: mine row_of_batch_def ids batch_checked_def) (auto simp: row_of_job_def)
  have "shape_ok (map static_batch (rt_batches db')) (map static_job (rt_jobs db'))"
  proof (rule shape_okI)
    show "distinct (map br_id (rt_batches db'))" using D(1) fresh(1) by (auto simp: rows row_of_batch_def)
    show "distinct (map (\<lambda>r. (br_owner_id r, br_idempotency_key r)) (rt_batches db'))"
      using D(2) fresh(1) by (auto simp: rows row_of_batch_def)
    show "distinct (map jr_id (rt_jobs db'))" using D(3) fresh(2,3) by (simp add: jobs ids) (auto simp: row_of_job_def)
    show "\<forall>j \<in> set (rt_jobs db'). jr_batch_id j \<in> br_id ` set (rt_batches db')"
      using D(4) by (auto simp: jobs rows row_of_job_def row_of_batch_def)
    show "\<forall>r \<in> set (rt_batches db'). shape_row (map static_job (rt_jobs db')) (static_batch r)"
    proof
      fix r assume "r \<in> set (rt_batches db')"
      then consider "r \<in> set (rt_batches db)" "br_id r \<noteq> rb_id b" | "r = row_of_batch key now b" using fresh(1) by (auto simp: rows)
      then show "shape_row (map static_job (rt_jobs db')) (static_batch r)"
      proof cases
        case 1 with D(5) show ?thesis unfolding shape_row_iff old [OF 1(2)] by blast
      qed (use newrow in simp)
    qed
  qed
  moreover have "status_ok db' r" if "r \<in> set (rt_batches db)" for r
    using assms(1) that fresh(1) by (auto simp: render_ok_def list_all_iff status_ok_def jobs_in_def old)
  moreover have "status_ok db' (row_of_batch key now b)"
  proof -
    have "0 \<le> sum_list (map rj_estimatedCost (rb_jobs b))" using assms(2) by (intro sum_list_nonneg) (auto simp: batch_checked_def)
    then have "0 \<le> rb_estimatedCost b" using assms(2) by (simp add: batch_checked_def)
    then show ?thesis using assms(2)
      by (auto simp: status_ok_def jobs_in_def row_of_batch_def mine batch_checked_def row_of_job_def)
  qed
  ultimately show ?thesis by (simp add: render_ok_def list_all_iff rows)
qed

lemma render_step_ok: "render_step db db' \<Longrightarrow> render_ok db \<Longrightarrow> render_ok db'"
proof (induction rule: render_step.induct)
  case created then show ?case using create_check_Insert create_commit_ok by metis
next
  case task then show ?case by (auto simp: markTask_def split: option.splits intro: markJob_ok)
qed (auto intro: markJob_ok attachApproval_ok rerun_job_ok)

lemma empty_render_ok: "render_ok empty_render_db"
  by (simp add: render_ok_def shape_ok_def empty_render_db_def)

lemma render_reaches_ok: "render_reaches db db' \<Longrightarrow> render_ok db \<Longrightarrow> render_ok db'"
  by (induction rule: rtranclp_induct) (auto intro: render_step_ok)

section \<open>A key keeps its batch\<close>

definition key_row :: "render_db \<Rightarrow> string \<Rightarrow> string \<Rightarrow> nat \<Rightarrow> bool" where
  "key_row db owner key i \<longleftrightarrow> (i, owner, key) \<in> (\<lambda>r. (br_id r, br_owner_id r, br_idempotency_key r)) ` set (rt_batches db)"

lemma key_row_static:
  "key_row db owner key i \<longleftrightarrow> (i, owner, key) \<in> (\<lambda>(i, u, k, c, m). (i, u, k)) ` set (map static_batch (rt_batches db))"
  by (auto simp: key_row_def static_batch_def image_iff)

lemma key_row_step: "render_step db db' \<Longrightarrow> key_row db owner key i \<Longrightarrow> key_row db' owner key i"
proof (induction rule: render_step.induct)
  case (created digest drama input newId earlier b now db b' db')
  from create_commit_cases [OF created.hyps(2)] created.prems show ?case by (auto simp: key_row_def)
next
  case (marked batchId ownerId jobId st taskId errorCode db db')
  from markJob_static [OF marked.hyps] marked.prems show ?case by (simp only: key_row_static)
next
  case (task taskId outcome errorCode db db')
  then obtain i u j st t e where "markJob i u j st t e db = Inr db'" by (auto simp: markTask_def split: option.splits)
  from markJob_static [OF this] task.prems show ?case by (simp only: key_row_static)
next
  case (approved batchId ownerId actionId db db')
  from approved.hyps have "map static_batch (rt_batches db') = map static_batch (rt_batches db)"
    by (auto simp: attachApproval_def result_simps static_batch_def)
  with approved.prems show ?case by (simp only: key_row_static)
next
  case (rerun batchId ownerId jobId db db')
  from rerun_job_cases [OF rerun.hyps] obtain g where "rt_batches db' = map g (rt_batches db)" "\<forall>r. static_batch (g r) = static_batch r" by blast
  then have "map static_batch (rt_batches db') = map static_batch (rt_batches db)" by simp
  with rerun.prems show ?case by (simp only: key_row_static)
qed

lemma key_row_reaches: "render_reaches db db' \<Longrightarrow> key_row db owner key i \<Longrightarrow> key_row db' owner key i"
  by (induction rule: rtranclp_induct) (auto intro: key_row_step)

lemma key_row_found:
  assumes "render_ok db" "key_row db owner key i"
  shows "\<exists>b. findByKey owner key db = Some b \<and> rb_id b = i"
proof -
  from assms(2) obtain r where r: "r \<in> set (rt_batches db)" "br_id r = i" "br_owner_id r = owner" "br_idempotency_key r = key"
    by (auto simp: key_row_def)
  then obtain q where q: "find (\<lambda>r. br_owner_id r = owner \<and> br_idempotency_key r = key) (rt_batches db) = Some q"
    by (metis (mono_tags, lifting) find_None_iff_ball not_None_eq)
  from find_SomeD [OF this] r shape_okD(2) assms(1) have "q = r"
    by (auto simp: render_ok_def distinct_map inj_on_def dest: shape_okD(2))
  with q r show ?thesis by (simp add: findByKey_def withJobs_def)
qed

lemma create_check_replay:
  assumes "findByKey (bq_ownerId input) (bq_idempotencyKey input) db = Some b"
    "create_check digest drama input' newId db' = Inr d" "bq_idempotencyKey input' = bq_idempotencyKey input"
  shows "create_check digest' drama' input newId' db = Inr (Replayed b)"
  using assms by (auto simp: create_check_def throw_if_def split: if_splits)

section \<open>Properties\<close>

text \<open>
  C26. Whatever the operations and callbacks do, a stored batch has 1 to 90 jobs on different shots, each whole seconds from 2
  to 5 long with a whole cost; its estimate is the sum of its jobs' costs and within its cap; and its status is the one its jobs
  imply, unless it awaits approval or is a free draft none of whose jobs has started.
\<close>

theorem batches_within_limits:
  assumes "render_reaches empty_render_db db" "get_batch i owner db = Inr b"
  shows "rb_jobs b \<noteq> [] \<and> length (rb_jobs b) \<le> 90 \<and> distinct (map rj_shotId (rb_jobs b)) \<and>
    (\<forall>j \<in> set (rb_jobs b). js_is_integer (rj_durationSeconds j) \<and> 2 \<le> rj_durationSeconds j \<and> rj_durationSeconds j \<le> 5 \<and>
      js_is_integer (rj_estimatedCost j) \<and> 0 \<le> rj_estimatedCost j) \<and>
    sum_list (map rj_estimatedCost (rb_jobs b)) = rb_estimatedCost b \<and> rb_estimatedCost b \<le> rb_costCap b \<and>
    (rb_status b = Batch_awaiting_approval \<or>
     rb_status b = Batch_draft \<and> rb_estimatedCost b = 0 \<and> (\<forall>j \<in> set (rb_jobs b). rj_status j = Job_draft) \<or>
     rb_status b = batch_summary (length (rb_jobs b)) (length (filter (\<lambda>j. rj_status j = Job_completed) (rb_jobs b)))
       (length (filter (\<lambda>j. rj_status j = Job_failed) (rb_jobs b))))"
proof -
  from render_reaches_ok [OF assms(1) empty_render_ok] have ok: "render_ok db" .
  from assms(2) obtain r where r: "r \<in> set (rt_batches db)" and b: "b = withJobs db r"
    by (auto simp: get_batch_def split: option.splits dest: find_SomeD)
  define js where "js = sort_key jr_created_at (sort_key jr_id (jobs_in db (br_id r)))"
  have ms: "mset js = mset (jobs_in db (br_id r))" by (simp add: js_def)
  have bj: "rb_jobs b = map job_of_row js" by (simp add: b withJobs_def js_def jobs_in_def)
  have sel: "rj_shotId \<circ> job_of_row = jr_shot_id" "rj_estimatedCost \<circ> job_of_row = jr_estimated_cost" "rj_status \<circ> job_of_row = jr_status"
    by (simp_all add: job_of_row_def fun_eq_iff)
  have maps: "mset (map f js) = mset (map f (jobs_in db (br_id r)))" for f :: "job_row \<Rightarrow> 'x" by (simp add: ms)
  from maps have "distinct (map jr_shot_id js) = distinct (map jr_shot_id (jobs_in db (br_id r)))"
    by (rule mset_eq_imp_distinct_iff)
  moreover from maps have "sum_list (map jr_estimated_cost js) = sum_list (map jr_estimated_cost (jobs_in db (br_id r)))"
    by (metis sum_mset_sum_list)
  moreover have "set js = set (jobs_in db (br_id r))" "length js = length (jobs_in db (br_id r))"
    using ms by (auto dest: mset_eq_setD mset_eq_length)
  moreover have "length (filter P js) = length (filter P (jobs_in db (br_id r)))" for P
    using ms by (metis mset_filter size_mset)
  moreover have "js = [] \<longleftrightarrow> jobs_in db (br_id r) = []" using ms by (metis mset_zero_iff)
  moreover from ok r have "status_ok db r" by (simp add: render_ok_def list_all_iff)
  moreover from ok have "shape_ok (map static_batch (rt_batches db)) (map static_job (rt_jobs db))" by (simp add: render_ok_def)
  note shape_row_of [OF this r]
  moreover have "rb_estimatedCost b = br_estimated_cost r" "rb_costCap b = br_cost_cap r" "rb_status b = br_status r"
    by (simp_all add: b withJobs_def)
  ultimately show ?thesis
    by (auto simp: bj sel filter_map o_def job_of_row_def status_ok_def jobs_summary_def count_status_def)
qed

text \<open>
  An idempotency key of a user names one batch for ever: a request that repeats the key after the batch was created gets
  that batch, as it is then, and changes nothing, and so does one that had found no batch before and commits too late.
\<close>

theorem batch_created_once:
  assumes "render_reaches empty_render_db db0" "create_batch digest drama input newId now db0 = Inr (b, db1)" "render_reaches db1 db2"
  shows "\<exists>c. rb_id c = rb_id b \<and> findByKey (bq_ownerId input) (bq_idempotencyKey input) db2 = Some c \<and>
    create_batch digest drama input newId' now' db2 = Inr (c, db2) \<and>
    (\<forall>input' earlier late. bq_ownerId input' = bq_ownerId input \<and> bq_idempotencyKey input' = bq_idempotencyKey input \<and>
      create_check digest drama input' newId' earlier = Inr (Insert late) \<longrightarrow>
      create_commit (bq_idempotencyKey input') now' late db2 = Inr (c, db2))"
proof -
  let ?o = "bq_ownerId input" and ?k = "bq_idempotencyKey input"
  from render_reaches_ok [OF assms(1) empty_render_ok] have ok0: "render_ok db0" .
  from assms(2) obtain d where d: "create_check digest drama input newId db0 = Inr d"
    and dd: "(case d of Replayed b \<Rightarrow> Inr (b, db0) | Insert b \<Rightarrow> create_commit ?k now b db0) = Inr (b, db1)"
    by (auto simp: create_batch_def rbind_Inr)
  have "key_row db1 ?o ?k (rb_id b) \<and> render_ok db1"
  proof (cases d)
    case (Replayed x)
    with d have "findByKey ?o ?k db0 = Some x" by (auto simp: create_check_def throw_if_def rbind_Inr Let_def split: if_splits option.splits)
    then have "key_row db0 ?o ?k (rb_id x)"
      by (auto simp: findByKey_def key_row_def withJobs_def dest!: find_SomeD intro!: image_eqI)
    with Replayed dd ok0 show ?thesis by simp
  next
    case (Insert x)
    from create_check_Insert [OF d [unfolded Insert]] have x: "batch_checked input x" "findByKey ?o ?k db0 = None" by simp_all
    from Insert dd have commit: "create_commit ?k now x db0 = Inr (b, db1)" by simp
    from create_commit_cases [OF commit] x have "key_row db1 ?o ?k (rb_id b)"
      by (auto simp: key_row_def row_of_batch_def batch_checked_def)
    with create_commit_ok [OF ok0 x(1) commit] show ?thesis by simp
  qed
  with key_row_reaches [OF assms(3)] render_reaches_ok [OF assms(3)] have row: "key_row db2 ?o ?k (rb_id b)" and ok: "render_ok db2" by auto
  from key_row_found [OF ok row] obtain c where c: "findByKey ?o ?k db2 = Some c" "rb_id c = rb_id b" by blast
  have again: "create_batch digest drama input newId' now' db2 = Inr (c, db2)"
    using create_check_replay [OF c(1) d] by (simp add: create_batch_def)
  have "create_commit ?k now' late db2 = Inr (c, db2)" if "bq_ownerId input' = ?o" "create_check digest drama input' newId' earlier = Inr (Insert late)"
    for input' earlier late
  proof -
    from create_check_Insert [OF that(2)] that(1) have "rb_ownerId late = ?o" by (simp add: batch_checked_def)
    with row c(1) show ?thesis by (auto simp: create_commit_def key_row_def)
  qed
  with c again show ?thesis by auto
qed

section \<open>Witnesses\<close>

definition sample_batch_input :: create_batch_input where
  "sample_batch_input = \<lparr>bq_ownerId = ''7'', bq_canvasId = ''c'', bq_seriesId = ''s'', bq_episodeNo = 1, bq_costCap = 10,
     bq_idempotencyKey = ''key'', bq_sessionId = Some ''9'', bq_canvasVersion = Some 1,
     bq_jobs = [\<lparr>ji_shotId = ''t'', ji_keyframeRenderId = ''k'', ji_canvasNodeId = Some ''n'', ji_durationSeconds = 3,
       ji_modelType = ''m'', ji_modelParams = [], ji_estimatedCost = 4\<rparr>]\<rparr>"

definition sample_created :: "render_batch \<times> render_db" where
  "sample_created = projr (create_batch (\<lambda>_. ''h'') (projr demo_db) sample_batch_input id 5 empty_render_db)"

lemma sample_batch_created:
  "create_batch (\<lambda>_. ''h'') (projr demo_db) sample_batch_input id 5 empty_render_db = Inr (fst sample_created, snd sample_created)"
  "get_batch 1 ''7'' (snd sample_created) = Inr (fst sample_created)"
  "rb_estimatedCost (fst sample_created) = 4" "rb_id (fst sample_created) = 1"
  by code_simp+

lemma create_batch_reaches: "create_batch digest drama input newId now db = Inr (b, db') \<Longrightarrow> render_reaches db db'"
proof -
  assume "create_batch digest drama input newId now db = Inr (b, db')"
  then obtain d where d: "create_check digest drama input newId db = Inr d"
    "(case d of Replayed b \<Rightarrow> Inr (b, db) | Insert b \<Rightarrow> create_commit (bq_idempotencyKey input) now b db) = Inr (b, db')"
    by (auto simp: create_batch_def rbind_Inr)
  show ?thesis
  proof (cases d)
    case (Insert x)
    with d(2) have "create_commit (bq_idempotencyKey input) now x db = Inr (b, db')" by simp
    from render_step.created [OF d(1) [unfolded Insert] this] show ?thesis by (rule r_into_rtranclp)
  qed (use d(2) in simp)
qed

lemma sample_reached: "render_reaches empty_render_db (snd sample_created)"
  by (rule create_batch_reaches [OF sample_batch_created(1)])

theorem batches_within_limits_witness:
  "rb_jobs (fst sample_created) \<noteq> [] \<and> sum_list (map rj_estimatedCost (rb_jobs (fst sample_created))) = 4"
  using batches_within_limits [OF sample_reached sample_batch_created(2)] sample_batch_created(3) by simp

theorem batch_created_once_witness:
  "\<exists>c. rb_id c = 1 \<and> create_batch (\<lambda>_. ''h'') (projr demo_db) sample_batch_input Suc 8 (snd sample_created) = Inr (c, snd sample_created)"
proof -
  from batch_created_once [OF rtranclp.rtrancl_refl sample_batch_created(1) rtranclp.rtrancl_refl, of Suc 8]
  show ?thesis unfolding sample_batch_created(4) by blast
qed

text \<open>The two implementations agree on the status of a batch; the in-memory one keeps the error of a job that completes later.\<close>

lemma summaries_agree:
  assumes "map sj_status jobs = map jr_status rows" "jobs \<noteq> []"
  shows "service_summary jobs = jobs_summary rows"
proof -
  have count: "length (filter (\<lambda>j. sj_status j = st) jobs) = length (filter (\<lambda>j. jr_status j = st) rows)" for st
    using arg_cong [OF assms(1), of "\<lambda>xs. length (filter (\<lambda>s. s = st) xs)"] by (simp add: filter_map o_def)
  have len: "length jobs = length rows" using arg_cong [OF assms(1), of length] by simp
  have "length (filter (\<lambda>j. jr_status j = Job_completed) rows) + length (filter (\<lambda>j. jr_status j = Job_failed) rows) \<le> length rows"
    by (induction rows) auto
  with assms(2) len show ?thesis
    by (auto simp: service_summary_def jobs_summary_def batch_summary_def count_status_def Let_def count)
qed

end
