(* ===== verification/RenderRoutes.thy ===== *)
theory RenderRoutes
  imports RenderBatches
begin

text \<open>
  The routes of render batches (\<^verbatim>\<open>registerRenderBatchRoutes\<close> of \<^verbatim>\<open>api/app.ts\<close>) over the repository, the approvals and the
  executor of generation actions, and the part of \<^verbatim>\<open>POST /internal/agent/resume\<close> that a render task takes.  The price of
  a job and the answers of the gateways are parameters; a request body has been parsed.  A route is one step.
\<close>

record 's render_server =
  rs_render :: render_db
  rs_approvals :: 's
  rs_results :: "(string, generation_result) jmap"

record approval_env =
  en_crypto :: crypto
  en_secret :: string
  en_ttlSeconds :: int
  en_actionId :: string
  en_nonce :: string
  en_now :: int

definition render_plan_input :: "render_batch \<Rightarrow> string \<Rightarrow> int \<Rightarrow> plan_action_input" where
  "render_plan_input b sessionId canvasVersion = \<lparr>pi_userId = rb_ownerId b, pi_runId = None, pi_sessionId = sessionId,
     pi_canvasId = rb_canvasId b, pi_canvasVersion = canvasVersion, pi_toolName = ''drama.render_batch.submit'',
     pi_params = [(''batchId'', JStr (nat_text (rb_id b))), (''estimatedCost'', JNum (rb_estimatedCost b))],
     pi_estimatedCost = rb_estimatedCost b, pi_risk = Some Risk_high, pi_requiresApproval = Some True\<rparr>"

text \<open>A route returns or throws, and keeps what it wrote before in either case.\<close>

type_synonym ('s, 'a) route = "'s render_server \<Rightarrow> (render_error + 'a) \<times> 's render_server"

definition then_do :: "('s, 'a) route \<Rightarrow> ('a \<Rightarrow> ('s, 'b) route) \<Rightarrow> ('s, 'b) route" where
  "then_do m k s = (case m s of (Inl e, s') \<Rightarrow> (Inl e, s') | (Inr x, s') \<Rightarrow> k x s')"

definition give :: "'a \<Rightarrow> ('s, 'a) route" where
  "give x s = (Inr x, s)"

definition refuse :: "render_error \<Rightarrow> ('s, 'a) route" where
  "refuse e s = (Inl e, s)"

definition in_render :: "(render_db \<Rightarrow> render_error + render_db) \<Rightarrow> ('s, unit) route" where
  "in_render f s = (case f (rs_render s) of Inl e \<Rightarrow> (Inl e, s) | Inr db \<Rightarrow> (Inr (), s\<lparr>rs_render := db\<rparr>))"

definition read_batch :: "nat \<Rightarrow> string \<Rightarrow> ('s, render_batch) route" where
  "read_batch i owner s = (get_batch i owner (rs_render s), s)"

text \<open>Planning the submission of a batch and attaching the action to it.\<close>

definition plan_submission :: "'s approval_repository \<Rightarrow> approval_env \<Rightarrow> render_batch \<Rightarrow> string \<Rightarrow> int \<Rightarrow> ('s, planned_action) route" where
  "plan_submission repo env b sessionId canvasVersion s =
     (case planAction repo (en_crypto env) (en_secret env) (en_ttlSeconds env) (en_actionId env) (en_nonce env)
        (render_plan_input b sessionId canvasVersion) (en_now env) (rs_approvals s) of
        Inl e \<Rightarrow> (Inl (RB_APPROVAL e), s)
      | Inr (action, approvals) \<Rightarrow> (Inr action, s\<lparr>rs_approvals := approvals\<rparr>))"

definition request_approval :: "'s approval_repository \<Rightarrow> approval_env \<Rightarrow> render_batch \<Rightarrow> string \<Rightarrow> int \<Rightarrow>
    ('s, render_batch \<times> planned_action option) route" where
  "request_approval repo env b sessionId canvasVersion =
     then_do (plan_submission repo env b sessionId canvasVersion) (\<lambda>action.
       then_do (in_render (attachApproval (rb_id b) (rb_ownerId b) (ac_actionId action))) (\<lambda>_.
         then_do (read_batch (rb_id b) (rb_ownerId b)) (\<lambda>stored. give (stored, Some action))))"

definition store_batch :: "(json \<Rightarrow> string) \<Rightarrow> drama_db \<Rightarrow> create_batch_input \<Rightarrow> (nat \<Rightarrow> nat) \<Rightarrow> int \<Rightarrow> ('s, render_batch) route" where
  "store_batch digest drama input newId now s = (case create_batch digest drama input newId now (rs_render s) of
     Inl e \<Rightarrow> (Inl e, s) | Inr (b, db) \<Rightarrow> (Inr b, s\<lparr>rs_render := db\<rparr>))"

definition post_batch :: "'s approval_repository \<Rightarrow> approval_env \<Rightarrow> (json \<Rightarrow> string) \<Rightarrow> (render_job_input \<Rightarrow> num) \<Rightarrow> drama_db \<Rightarrow>
    create_batch_input \<Rightarrow> string \<Rightarrow> int \<Rightarrow> (nat \<Rightarrow> nat) \<Rightarrow> ('s, render_batch \<times> planned_action option) route" where
  "post_batch repo env digest price drama input sessionId canvasVersion newId s =
     (case findByKey (bq_ownerId input) (bq_idempotencyKey input) (rs_render s) of
        Some b \<Rightarrow> (Inr (b, None), s)
      | None \<Rightarrow> then_do (store_batch digest drama
            (input\<lparr>bq_sessionId := Some sessionId, bq_canvasVersion := Some canvasVersion,
               bq_jobs := map (\<lambda>j. j\<lparr>ji_estimatedCost := price j\<rparr>) (bq_jobs input)\<rparr>) newId (en_now env)) (\<lambda>b.
          if rb_estimatedCost b < 1 then give (b, None)
          else (case (rb_sessionId b, rb_canvasVersion b) of
             (Some i, Some v) \<Rightarrow> request_approval repo env b i v
           | _ \<Rightarrow> refuse RB_CONSTRAINT)) s)"

section \<open>Submitting\<close>

definition submittable :: "batch_status \<Rightarrow> bool" where
  "submittable st \<longleftrightarrow> st = Batch_draft \<or> st = Batch_awaiting_approval \<or> st = Batch_running"

definition render_action_id :: "nat \<Rightarrow> nat \<Rightarrow> string" where
  "render_action_id batchId jobId = ''render-batch:'' @ nat_text batchId @ '':job:'' @ nat_text jobId"

definition generation_of :: "render_batch \<Rightarrow> string \<Rightarrow> string option \<Rightarrow> render_job \<Rightarrow> generation_input" where
  "generation_of b userId requestId j = \<lparr>gi_actionId = render_action_id (rb_id b) (rj_id j), gi_userId = userId,
     gi_canvasId = rb_canvasId b, gi_nodeId = (case rj_canvasNodeId j of None \<Rightarrow> [] | Some n \<Rightarrow> n), gi_modelType = rj_modelType j,
     gi_modelParams = rj_modelParams j, gi_requestId = requestId, gi_requestedCost = rj_estimatedCost j, gi_costCap = rj_estimatedCost j\<rparr>"

text \<open>
  The body of the loop: the job is generated and marked.  An error of either is caught and marks the job as failed;
  \<open>code_of\<close> gives the code of a gateway error, or GENERATION_UNAVAILABLE.
\<close>

definition generate_job :: "(gateway_request \<Rightarrow> gateway_answer) \<Rightarrow> render_batch \<Rightarrow> string \<Rightarrow> string option \<Rightarrow> render_job \<Rightarrow> 's render_server \<Rightarrow>
    (string + generation_result) \<times> 's render_server" where
  "generate_job ans b userId requestId j s =
     (case execute ans (generation_of b userId requestId j) (rs_results s) of (out, results) \<Rightarrow> (out, s\<lparr>rs_results := results\<rparr>))"

definition submit_job :: "(gateway_request \<Rightarrow> gateway_answer) \<Rightarrow> (string \<Rightarrow> string) \<Rightarrow> render_batch \<Rightarrow> string \<Rightarrow> string option \<Rightarrow>
    render_job \<Rightarrow> ('s, unit) route" where
  "submit_job ans code_of b userId requestId j s =
     (case generate_job ans b userId requestId j s of
        (Inr r, s') \<Rightarrow>
          (case in_render (markJob (rb_id b) userId (rj_id j) (if gr_compensationRequired r then Job_failed else Job_running)
               (Some (gr_taskId r)) (if gr_compensationRequired r then Some ''CANVAS_UNAVAILABLE'' else None)) s' of
             (Inr u, s'') \<Rightarrow> (Inr u, s'')
           | (Inl e, s'') \<Rightarrow> in_render (markJob (rb_id b) userId (rj_id j) Job_failed None (Some ''GENERATION_UNAVAILABLE'')) s'')
      | (Inl e, s') \<Rightarrow> in_render (markJob (rb_id b) userId (rj_id j) Job_failed None (Some (code_of e))) s')"

fun submit_jobs :: "(gateway_request \<Rightarrow> gateway_answer) \<Rightarrow> (string \<Rightarrow> string) \<Rightarrow> render_batch \<Rightarrow> string \<Rightarrow> string option \<Rightarrow>
    render_job list \<Rightarrow> ('s, unit) route" where
  "submit_jobs ans code_of b userId requestId [] = give ()"
| "submit_jobs ans code_of b userId requestId (j # js) =
     (if rj_status j \<noteq> Job_draft then submit_jobs ans code_of b userId requestId js
      else then_do (submit_job ans code_of b userId requestId j) (\<lambda>_. submit_jobs ans code_of b userId requestId js))"

record submit_body =
  sb_approvalActionId :: string
  sb_approvalToken :: string
  sb_canvasVersion :: int

definition consume_body :: "'s approval_repository \<Rightarrow> approval_env \<Rightarrow> submit_body \<Rightarrow> ('s, planned_action) route" where
  "consume_body repo env body s =
     (case consumeApproval repo (en_crypto env) (en_secret env) (sb_approvalActionId body) (sb_approvalToken body)
         (sb_canvasVersion body) (en_now env) (rs_approvals s) of
        Inl e \<Rightarrow> (Inl (RB_APPROVAL e), s)
      | Inr (consumed, approvals) \<Rightarrow> (Inr consumed, s\<lparr>rs_approvals := approvals\<rparr>))"

definition confirm_submission :: "'s approval_repository \<Rightarrow> approval_env \<Rightarrow> render_batch \<Rightarrow> string \<Rightarrow> submit_body \<Rightarrow> ('s, unit) route" where
  "confirm_submission repo env b userId body =
     (if \<not> truthy (rb_approvalActionId b) \<or> \<not> truthy (rb_sessionId b) \<or> rb_canvasVersion b = None then refuse RB_CONFIRMATION_REQUIRED
      else then_do (consume_body repo env body) (\<lambda>consumed.
        if Some (ac_actionId consumed) \<noteq> rb_approvalActionId b \<or> ac_userId consumed \<noteq> userId \<or>
           Some (ac_sessionId consumed) \<noteq> rb_sessionId b \<or> ac_canvasId consumed \<noteq> rb_canvasId b \<or>
           json_field (ac_params consumed) ''batchId'' \<noteq> Some (JStr (nat_text (rb_id b)))
        then refuse RB_PERMISSION_DENIED else give ()))"

definition submit_batch :: "'s approval_repository \<Rightarrow> approval_env \<Rightarrow> (gateway_request \<Rightarrow> gateway_answer) \<Rightarrow> (string \<Rightarrow> string) \<Rightarrow> nat \<Rightarrow>
    string \<Rightarrow> string option \<Rightarrow> submit_body \<Rightarrow> ('s, render_batch) route" where
  "submit_batch repo env ans code_of batchId userId requestId body =
     then_do (read_batch batchId userId) (\<lambda>b.
       let drafts = filter (\<lambda>j. rj_status j = Job_draft) (rb_jobs b)
       in if \<not> submittable (rb_status b) then refuse RB_BATCH_NOT_SUBMITTABLE
          else if \<exists>j \<in> set drafts. \<not> truthy (rj_canvasNodeId j) then refuse RB_CANVAS_NODE_REQUIRED
          else then_do (if drafts \<noteq> [] \<and> 1 \<le> rb_estimatedCost b then confirm_submission repo env b userId body else give ()) (\<lambda>_.
            then_do (submit_jobs ans code_of b userId requestId (rb_jobs b)) (\<lambda>_. read_batch (rb_id b) userId)))"

section \<open>Rerunning, and the callback of a task\<close>

definition rerun_route :: "'s approval_repository \<Rightarrow> approval_env \<Rightarrow> nat \<Rightarrow> string \<Rightarrow> nat \<Rightarrow>
    ('s, render_batch \<times> planned_action option) route" where
  "rerun_route repo env batchId userId jobId =
     then_do (in_render (rerun_job batchId userId jobId)) (\<lambda>_. then_do (read_batch batchId userId) (\<lambda>b.
       if rb_estimatedCost b < 1 then give (b, None)
       else (case (rb_sessionId b, rb_canvasVersion b) of
          (Some i, Some v) \<Rightarrow> if i = [] then refuse RB_CONFIRMATION_REQUIRED else request_approval repo env b i v
        | _ \<Rightarrow> refuse RB_CONFIRMATION_REQUIRED)))"

text \<open>None: no render job has the task, and the route goes on with the task's own association.\<close>

definition resume_render :: "string \<Rightarrow> task_outcome \<Rightarrow> string option \<Rightarrow> 's render_server \<Rightarrow> ((render_error + unit) \<times> 's render_server) option" where
  "resume_render taskId outcome errorCode s =
     map_option (\<lambda>r. in_render (\<lambda>_. r) s) (markTask taskId outcome errorCode (rs_render s))"

section \<open>What a submission does to the server\<close>

lemma in_render_keeps: "in_render f s = (out, s') \<Longrightarrow> rs_approvals s' = rs_approvals s \<and> rs_results s' = rs_results s"
  by (auto simp: in_render_def split: sum.splits)

lemma submit_job_approvals: "submit_job ans code_of b u rid j s = (out, s') \<Longrightarrow> rs_approvals s' = rs_approvals s"
  by (auto simp: submit_job_def generate_job_def split: prod.splits sum.splits dest!: in_render_keeps)

lemma submit_jobs_approvals: "submit_jobs ans code_of b u rid js s = (out, s') \<Longrightarrow> rs_approvals s' = rs_approvals s"
proof (induction js arbitrary: s)
  case (Cons j js)
  show ?case
  proof (cases "rj_status j = Job_draft")
    case True
    obtain out1 s1 where one: "submit_job ans code_of b u rid j s = (out1, s1)" by force
    with Cons.prems True have "out1 = Inl (projl out1) \<and> s' = s1 \<or> submit_jobs ans code_of b u rid js s1 = (out, s')"
      by (auto simp: then_do_def split: sum.splits)
    with Cons.IH submit_job_approvals [OF one] show ?thesis by auto
  qed (use Cons in simp)
qed (simp add: give_def)

lemma read_batch_Inr: "read_batch i u s = (Inr b, s') \<longleftrightarrow> get_batch i u (rs_render s) = Inr b \<and> s' = s"
  by (auto simp: read_batch_def)

definition has_draft :: "render_batch \<Rightarrow> bool" where
  "has_draft b \<longleftrightarrow> (\<exists>j \<in> set (rb_jobs b). rj_status j = Job_draft)"

text \<open>A costed submission with draft jobs: refused at once, or its approval has been consumed.\<close>

lemma submit_batch_confirmed:
  assumes "get_batch i u (rs_render s) = Inr b" "has_draft b" "1 \<le> rb_estimatedCost b"
    "submit_batch repo env ans code_of i u rid body s = (out, s')"
  shows "(\<exists>e. out = Inl e) \<and> rs_render s' = rs_render s \<and> rs_results s' = rs_results s \<or>
    (\<exists>a. consumeApproval repo (en_crypto env) (en_secret env) (sb_approvalActionId body) (sb_approvalToken body)
        (sb_canvasVersion body) (en_now env) (rs_approvals s) = Inr (a, rs_approvals s') \<and>
      Some (ac_actionId a) = rb_approvalActionId b \<and> ac_userId a = u \<and> Some (ac_sessionId a) = rb_sessionId b \<and>
      ac_canvasId a = rb_canvasId b \<and> json_field (ac_params a) ''batchId'' = Some (JStr (nat_text (rb_id b))))"
proof -
  have drafts: "filter (\<lambda>j. rj_status j = Job_draft) (rb_jobs b) \<noteq> []" using assms(2) by (auto simp: has_draft_def filter_empty_conv)
  obtain out1 s1 where confirm: "confirm_submission repo env b u body s = (out1, s1)" by force
  have kept: "rs_render s1 = rs_render s \<and> rs_results s1 = rs_results s"
    using confirm by (auto simp: confirm_submission_def then_do_def consume_body_def refuse_def give_def split: if_splits sum.splits prod.splits)
  consider (refused) e where "out = Inl e" "s' = s" | (unconfirmed) e where "out1 = Inl e" "out = Inl e" "s' = s1"
    | (confirmed) "out1 = Inr ()" "rs_approvals s' = rs_approvals s1"
  proof (cases "submittable (rb_status b) \<and> \<not> (\<exists>j \<in> set (filter (\<lambda>j. rj_status j = Job_draft) (rb_jobs b)). \<not> truthy (rj_canvasNodeId j))")
    case False
    with assms(4) assms(1) have "\<exists>e. out = Inl e \<and> s' = s"
      by (auto simp: submit_batch_def then_do_def read_batch_def Let_def refuse_def split: if_splits)
    then show thesis using that(1) by blast
  next
    case True
    with assms(4) drafts assms(1,3) have rest: "then_do (confirm_submission repo env b u body) (\<lambda>_.
        then_do (submit_jobs ans code_of b u rid (rb_jobs b)) (\<lambda>_. read_batch (rb_id b) u)) s = (out, s')"
      by (simp add: submit_batch_def then_do_def [of "read_batch i u"] read_batch_def [of i u] Let_def del: filter_empty_conv)
        (auto split: if_splits)
    show thesis
    proof (cases out1)
      case (Inl e)
      with rest confirm that(2) show thesis by (simp add: then_do_def)
    next
      case (Inr x)
      obtain out2 s2 where jobs: "submit_jobs ans code_of b u rid (rb_jobs b) s1 = (out2, s2)" by force
      from rest confirm Inr jobs have "s' = s2" by (auto simp: then_do_def read_batch_def split: sum.splits)
      with submit_jobs_approvals [OF jobs] Inr that(3) show thesis by simp
    qed
  qed
  then show ?thesis
  proof cases
    case confirmed
    with confirm show ?thesis
      by (auto simp: confirm_submission_def then_do_def consume_body_def refuse_def give_def split: if_splits sum.splits prod.splits)
  qed (use kept in auto)
qed

section \<open>Properties\<close>

text \<open>
  C27. The jobs of a batch that costs points are generated only under an approval of that very batch, user, session and canvas,
  and only once: a submission either is refused and changes neither a job nor the executor, or has consumed the approval
  attached to the batch; and after that, whatever else is planned or consumed, no submission with that approval generates
  anything.
\<close>

theorem submission_needs_approval:
  assumes "approvals_ok (rs_approvals s)" "get_batch i u (rs_render s) = Inr b" "has_draft b" "1 \<le> rb_estimatedCost b"
    "submit_batch pg_approvals env ans code_of i u rid body s = (out, s')"
    "rs_render s' \<noteq> rs_render s \<or> rs_results s' \<noteq> rs_results s"
  shows "(\<exists>a. consumeApproval pg_approvals (en_crypto env) (en_secret env) (sb_approvalActionId body) (sb_approvalToken body)
        (sb_canvasVersion body) (en_now env) (rs_approvals s) = Inr (a, rs_approvals s') \<and>
      Some (ac_actionId a) = rb_approvalActionId b \<and> ac_userId a = u \<and> Some (ac_sessionId a) = rb_sessionId b \<and>
      ac_canvasId a = rb_canvasId b \<and> json_field (ac_params a) ''batchId'' = Some (JStr (nat_text (rb_id b)))) \<and>
    (\<forall>t k c env' body' out' t'. approvals_run pg_approvals (rs_approvals s') (rs_approvals t) \<and>
      sb_approvalActionId body' = sb_approvalActionId body \<and> get_batch k u (rs_render t) = Inr c \<and> has_draft c \<and> 1 \<le> rb_estimatedCost c \<and>
      submit_batch pg_approvals env' ans' code_of' k u rid' body' t = (out', t') \<longrightarrow>
      (\<exists>e. out' = Inl e) \<and> rs_render t' = rs_render t \<and> rs_results t' = rs_results t)"
proof -
  from submit_batch_confirmed [OF assms(2-5)] assms(6) obtain a where
    a: "consumeApproval pg_approvals (en_crypto env) (en_secret env) (sb_approvalActionId body) (sb_approvalToken body)
        (sb_canvasVersion body) (en_now env) (rs_approvals s) = Inr (a, rs_approvals s')"
      "Some (ac_actionId a) = rb_approvalActionId b" "ac_userId a = u" "Some (ac_sessionId a) = rb_sessionId b"
      "ac_canvasId a = rb_canvasId b" "json_field (ac_params a) ''batchId'' = Some (JStr (nat_text (rb_id b)))" by blast
  from a(1) have "consume_checked pg_approvals (sb_approvalActionId body) (en_now env) (rs_approvals s) = Inr (a, rs_approvals s')"
    by (auto simp: consumeApproval_def rbind_Inr)
  note once = pg_approval.once [OF assms(1) this]
  have "(\<exists>e. out' = Inl e) \<and> rs_render t' = rs_render t \<and> rs_results t' = rs_results t"
    if "approvals_run pg_approvals (rs_approvals s') (rs_approvals t)" "sb_approvalActionId body' = sb_approvalActionId body"
      "get_batch k u (rs_render t) = Inr c" "has_draft c" "1 \<le> rb_estimatedCost c"
      "submit_batch pg_approvals env' ans' code_of' k u rid' body' t = (out', t')" for t k c env' body' out' t'
    using submit_batch_confirmed [OF that(3-6)] once [OF that(1)] that(2) by auto
  with a show ?thesis by blast
qed

lemma markJob_found:
  assumes "\<exists>r \<in> set (rt_batches db). br_id r = i \<and> br_owner_id r = u"
    "\<exists>j \<in> set (rt_jobs db). jr_id j = k \<and> jr_batch_id j = i \<and> jr_owner_id j = u"
  shows "\<exists>db'. markJob i u k st (Some t) e db = Inr db' \<and>
    rt_jobs db' = map (\<lambda>j. if jr_id j = k \<and> jr_batch_id j = i \<and> jr_owner_id j = u
      then j\<lparr>jr_status := st, jr_task_id := Some t, jr_error_code := e\<rparr> else j) (rt_jobs db)"
  unfolding markJob_def Let_def throw_if_def using assms by simp

text \<open>
  Running a failed job again never generates it anew while the process lives: the executor knows the action of the job, so
  submitting the rerun job asks no gateway and gives it the task that failed before, and it stays running with that task.
\<close>

theorem rerun_job_gets_old_task:
  assumes "render_reaches empty_render_db (rs_render s)" "jget (rs_results s) (render_action_id i k) = Some r"
    "in_render (rerun_job i u k) s = (Inr (), s1)" "rb_id b = i" "rj_id j = k"
  shows "\<exists>s2. submit_job ans code_of b u rid j s1 = (Inr (), s2) \<and> rs_results s2 = rs_results s \<and>
    (\<exists>row \<in> set (rt_jobs (rs_render s2)). jr_id row = k \<and> jr_batch_id row = i \<and> jr_task_id row = Some (gr_taskId r) \<and>
      jr_status row = (if gr_compensationRequired r then Job_failed else Job_running))"
proof -
  from assms(3) obtain db where run: "rerun_job i u k (rs_render s) = Inr db" and s1: "s1 = s\<lparr>rs_render := db\<rparr>"
    by (auto simp: in_render_def split: sum.splits)
  from render_reaches_ok [OF assms(1) empty_render_ok] rerun_job_ok [OF _ run] have ok: "render_ok db" by blast
  from run obtain q where q: "q \<in> set (rt_jobs db)" "jr_id q = k" "jr_batch_id q = i" "jr_owner_id q = u"
    by (fastforce simp: rerun_job_def Let_def result_simps split: option.splits dest!: find_SomeD)
  from ok have shape: "shape_ok (map static_batch (rt_batches db)) (map static_job (rt_jobs db))" by (simp add: render_ok_def)
  from shape_okD(4) [OF shape] q obtain row where row: "row \<in> set (rt_batches db)" "br_id row = i" by auto
  from shape_row_of [OF shape row(1)] q row(2) have "br_owner_id row = u" by (auto simp: jobs_in_def)
  with row have batch: "\<exists>r \<in> set (rt_batches db). br_id r = i \<and> br_owner_id r = u" by blast
  have gen: "generate_job ans b u rid j s1 = (Inr r, s1)"
    using assms(2,4,5) by (simp add: generate_job_def execute_def generation_of_def s1)
  let ?st = "if gr_compensationRequired r then Job_failed else Job_running"
  have job: "\<exists>j \<in> set (rt_jobs db). jr_id j = k \<and> jr_batch_id j = i \<and> jr_owner_id j = u" using q by blast
  from markJob_found [OF batch job, of ?st "gr_taskId r" "if gr_compensationRequired r then Some ''CANVAS_UNAVAILABLE'' else None"]
  obtain db' e where mark: "markJob i u k ?st (Some (gr_taskId r))
      (if gr_compensationRequired r then Some ''CANVAS_UNAVAILABLE'' else None) db = Inr db'"
    and jobs: "rt_jobs db' = map (\<lambda>j. if jr_id j = k \<and> jr_batch_id j = i \<and> jr_owner_id j = u
      then j\<lparr>jr_status := ?st, jr_task_id := Some (gr_taskId r), jr_error_code := e\<rparr> else j) (rt_jobs db)" by blast
  have "submit_job ans code_of b u rid j s1 = (Inr (), s1\<lparr>rs_render := db'\<rparr>)"
    using mark assms(4,5) by (cases "gr_compensationRequired r") (simp_all add: submit_job_def gen in_render_def, simp_all add: s1)
  moreover have "\<exists>row \<in> set (rt_jobs db'). jr_id row = k \<and> jr_batch_id row = i \<and> jr_task_id row = Some (gr_taskId r) \<and>
      jr_status row = (if gr_compensationRequired r then Job_failed else Job_running)"
    unfolding jobs set_map bex_simps using q by (intro bexI [of _ q]) auto
  ultimately show ?thesis by (simp add: s1)
qed

section \<open>What goes wrong besides\<close>

text \<open>The last terminal callback of a render task wins: nothing records that the task had one.\<close>

lemma render_callback_overrides:
  assumes "rt_jobs db = [j]" "jr_task_id j = Some t" "rt_batches db = [r]" "br_id r = jr_batch_id j" "br_owner_id r = jr_owner_id j"
  shows "\<exists>db1 db2. markTask t Task_succeeded None db = Some (Inr db1) \<and> map jr_status (rt_jobs db1) = [Job_completed] \<and>
    markTask t Task_failed None db1 = Some (Inr db2) \<and> map jr_status (rt_jobs db2) = [Job_failed]"
  using assms by (simp add: markTask_def markJob_def set_batch_status_def)

text \<open>A rerun clears the task of its job, so a late callback of the old task finds no job.\<close>

lemma callback_after_rerun_ignored:
  assumes "rerun_job i u k db = Inr db'" "\<forall>j \<in> set (rt_jobs db). jr_task_id j = Some t \<longrightarrow> jr_id j = k \<and> jr_batch_id j = i \<and> jr_owner_id j = u"
  shows "markTask t outcome e db' = None"
proof -
  have "\<forall>j \<in> set (rt_jobs db'). jr_task_id j \<noteq> Some t"
    using assms by (auto simp: rerun_job_def Let_def result_simps split: option.splits)
  then have "find (\<lambda>j. jr_task_id j = Some t) (rt_jobs db') = None" by (simp add: find_None_iff_ball)
  then show ?thesis by (simp add: markTask_def)
qed

text \<open>One job completed, one failed and one draft make a partial batch, which the submit route refuses.\<close>

lemma partial_batch_with_draft:
  "map jr_status js = [Job_completed, Job_failed, Job_draft] \<Longrightarrow> jobs_summary js = Batch_partial \<and> \<not> submittable Batch_partial"
  by (auto simp: jobs_summary_def batch_summary_def count_status_def submittable_def map_eq_Cons_conv)

text \<open>A repeated request returns the batch and no approval, whether or not the first request got as far as attaching one.\<close>

lemma replayed_batch_gets_no_approval:
  "findByKey (bq_ownerId input) (bq_idempotencyKey input) (rs_render s) = Some b \<Longrightarrow>
     post_batch repo env digest price drama input sessionId canvasVersion newId s = (Inr (b, None), s)"
  by (simp add: post_batch_def)

lemma unapproved_batch_not_submittable:
  "rb_approvalActionId b = None \<Longrightarrow> confirm_submission repo env b u body s = (Inl RB_CONFIRMATION_REQUIRED, s)"
  by (simp add: confirm_submission_def refuse_def)

section \<open>Witnesses\<close>

definition sample_render_env :: approval_env where
  "sample_render_env = \<lparr>en_crypto = sample_crypto\<lparr>cr_parse := \<lambda>_. Some (binding_json (binding_for 60 (render_plan_input (fst sample_created) ''9'' 1) ''h'' 0) ''n'')\<rparr>,
     en_secret = ''k'', en_ttlSeconds = 60, en_actionId = ''1'', en_nonce = ''n'', en_now = 0\<rparr>"

definition sample_server :: "approval_db render_server" where
  "sample_server = snd (post_batch pg_approvals sample_render_env (\<lambda>_. ''h'') (\<lambda>_. 4) (projr demo_db) sample_batch_input ''9'' 1 id
     \<lparr>rs_render = empty_render_db, rs_approvals = empty_approvals, rs_results = []\<rparr>)"

definition sample_planned :: "planned_action \<times> approval_db" where
  "sample_planned = projr (planAction pg_approvals (en_crypto sample_render_env) ''k'' 60 ''1'' ''n''
     (render_plan_input (fst sample_created) ''9'' 1) 0 empty_approvals)"

definition sample_submitted :: "(render_error + render_batch) \<times> approval_db render_server" where
  "sample_submitted = submit_batch pg_approvals sample_render_env sample_answers (\<lambda>e. e) 1 ''7'' None
     \<lparr>sb_approvalActionId = ''1'', sb_approvalToken = ''p.m'', sb_canvasVersion = 1\<rparr> sample_server"

lemma sample_planned:
  "planAction pg_approvals (en_crypto sample_render_env) ''k'' 60 ''1'' ''n'' (render_plan_input (fst sample_created) ''9'' 1) 0 empty_approvals =
     Inr (fst sample_planned, snd sample_planned)"
  "ac_approvalToken (fst sample_planned) = Some ''p.m''"
  "rs_approvals sample_server = snd sample_planned"
  by code_simp+

lemma sample_submission:
  "get_batch 1 ''7'' (rs_render sample_server) = Inr (projr (get_batch 1 ''7'' (rs_render sample_server)))"
  "has_draft (projr (get_batch 1 ''7'' (rs_render sample_server)))"
  "1 \<le> rb_estimatedCost (projr (get_batch 1 ''7'' (rs_render sample_server)))"
  "rb_approvalActionId (projr (get_batch 1 ''7'' (rs_render sample_server))) = Some ''1''"
  "rs_render (snd sample_submitted) \<noteq> rs_render sample_server"
  by code_simp+


theorem submission_needs_approval_witness:
  "\<exists>(a :: planned_action). ac_actionId a = ''1'' \<and> ac_userId a = ''7'' \<and> json_field (ac_params a) ''batchId'' = Some (JStr (nat_text 1))"
proof -
  from planAction_approval [OF empty_approvals_ok(1) sample_planned(1,2) empty_approvals_ok(2)]
  have ok: "approvals_ok (rs_approvals sample_server)" unfolding sample_planned(3) by blast
  have "submit_batch pg_approvals sample_render_env sample_answers (\<lambda>e. e) 1 ''7'' None
     \<lparr>sb_approvalActionId = ''1'', sb_approvalToken = ''p.m'', sb_canvasVersion = 1\<rparr> sample_server = (fst sample_submitted, snd sample_submitted)"
    by (simp add: sample_submitted_def)
  from submission_needs_approval [OF ok sample_submission(1-3) this disjI1 [OF sample_submission(5)], THEN conjunct1] sample_submission(1,4)
  show ?thesis by (auto simp: get_batch_def withJobs_def split: option.splits dest!: find_SomeD)
qed

text \<open>The job of the sample batch fails and is run again; the executor still holds the result of its first task.\<close>

definition sample_failed :: "unit render_server" where
  "sample_failed = \<lparr>rs_render = projr (markJob 1 ''7'' 0 Job_failed (Some ''t'') None (snd sample_created)), rs_approvals = (),
     rs_results = [(render_action_id 1 0, sample_result)]\<rparr>"

lemma sample_failed_run:
  "markJob 1 ''7'' 0 Job_failed (Some ''t'') None (snd sample_created) = Inr (rs_render sample_failed)"
  "in_render (rerun_job 1 ''7'' 0) sample_failed = (Inr (), snd (in_render (rerun_job 1 ''7'' 0) sample_failed))"
  "jget (rs_results sample_failed) (render_action_id 1 0) = Some sample_result"
  "rj_id (hd (rb_jobs (fst sample_created))) = 0"
  by code_simp+

theorem rerun_job_gets_old_task_witness:
  "\<exists>s2. submit_job (\<lambda>_. Failed ''down'') (\<lambda>e. e) (fst sample_created) ''7'' None (hd (rb_jobs (fst sample_created)))
     (snd (in_render (rerun_job 1 ''7'' 0) sample_failed)) = (Inr (), s2) \<and> rs_results s2 = [(render_action_id 1 0, sample_result)]"
proof -
  from sample_reached sample_failed_run(1) have "render_reaches empty_render_db (rs_render sample_failed)"
    by (blast intro: rtranclp.rtrancl_into_rtrancl render_step.marked)
  from rerun_job_gets_old_task [OF this sample_failed_run(3,2) sample_batch_created(4) sample_failed_run(4)]
  show ?thesis by (fastforce simp: sample_failed_def)
qed

end
