(* ===== verification/SnowflakeIds.thy ===== *)
theory SnowflakeIds
  imports Prelude
begin

unbundle bit_operations_syntax

text \<open>
  The generator of ids, \<^verbatim>\<open>infrastructure/ids.ts\<close>.  A \<open>bigint\<close> is an \<open>int\<close>; an id is its number, whose decimal text the code
  returns.  \<open>Date.now()\<close> is a sequence of readings: the busy loop consumes them until one is late enough, and is a partial
  function, as it need not end.
\<close>

record generator =
  ge_lastTimestamp :: int
  ge_sequence :: int
  ge_nodeId :: int

datatype id_error = WORKER_ID_INVALID | DATACENTER_ID_INVALID | CLOCK_ROLLBACK

definition snowflake_epoch :: int where
  "snowflake_epoch = 1704067200000"

definition sequenceMask :: int where
  "sequenceMask = 4095"

definition new_generator :: "num \<Rightarrow> num \<Rightarrow> id_error + generator" where
  "new_generator workerId datacenterId =
     throw_if (\<not> js_is_integer workerId \<or> workerId < 0 \<or> 31 < workerId) WORKER_ID_INVALID
    (throw_if (\<not> js_is_integer datacenterId \<or> datacenterId < 0 \<or> 31 < datacenterId) DATACENTER_ID_INVALID
      (Inr \<lparr>ge_lastTimestamp = -1, ge_sequence = 0, ge_nodeId = push_bit 5 \<lfloor>datacenterId\<rfloor> OR \<lfloor>workerId\<rfloor>\<rparr>))"

text \<open>\<open>waitForNextMillisecond\<close> from the \<open>k\<close>-th reading of the clock on, with the number of readings used.\<close>

partial_function (option) wait_millisecond :: "int \<Rightarrow> (nat \<Rightarrow> int) \<Rightarrow> nat \<Rightarrow> (int \<times> nat) option" where
  "wait_millisecond lastTimestamp clock k =
     (if clock k \<le> lastTimestamp then wait_millisecond lastTimestamp clock (Suc k) else Some (clock k, Suc k))"

definition snowflake :: "int \<Rightarrow> int \<Rightarrow> int \<Rightarrow> int" where
  "snowflake timestamp nodeId sequence = (push_bit 22 (timestamp - snowflake_epoch) OR push_bit 12 nodeId) OR sequence"

definition emit :: "int \<Rightarrow> int \<Rightarrow> generator \<Rightarrow> int \<times> generator" where
  "emit now sequence g = (snowflake now (ge_nodeId g) sequence, g\<lparr>ge_lastTimestamp := now, ge_sequence := sequence\<rparr>)"

text \<open>\<open>next\<close>: None when the loop does not end; an error leaves the generator as it was.\<close>

definition next_id :: "int \<Rightarrow> (nat \<Rightarrow> int) \<Rightarrow> generator \<Rightarrow> (id_error + int \<times> generator) option" where
  "next_id now clock g =
     (if now < ge_lastTimestamp g then Some (Inl CLOCK_ROLLBACK)
      else if now = ge_lastTimestamp g
      then (if sequenceMask < ge_sequence g + 1
            then map_option (\<lambda>(later, k). Inr (emit later 0 g)) (wait_millisecond (ge_lastTimestamp g) clock 0)
            else Some (Inr (emit now (ge_sequence g + 1) g)))
      else Some (Inr (emit now 0 g)))"

section \<open>The loop\<close>

text \<open>It ends with the first reading after the last timestamp, and ends exactly when there is one.\<close>

lemma wait_ends:
  assumes "since < clock (k + n)" "\<forall>m < n. clock (k + m) \<le> since"
  shows "wait_millisecond since clock k = Some (clock (k + n), Suc (k + n))"
  using assms
proof (induction n arbitrary: k)
  case 0
  then show ?case by (subst wait_millisecond.simps) simp
next
  case (Suc n)
  have "wait_millisecond since clock (Suc k) = Some (clock (Suc k + n), Suc (Suc k + n))"
    using Suc.prems by (intro Suc.IH) (simp, metis Suc_less_eq add_Suc_right add_Suc)
  moreover have "clock k \<le> since" using Suc.prems(2) by (metis add.right_neutral zero_less_Suc)
  ultimately show ?case by (subst wait_millisecond.simps) simp
qed

lemma wait_stopped:
  assumes "wait_millisecond since clock k = Some r"
  shows "since < fst r \<and> (\<exists>j \<ge> k. fst r = clock j)"
proof (rule wait_millisecond.raw_induct [where P = "\<lambda>since clock k r. since < fst r \<and> (\<exists>j \<ge> k. fst r = clock j)", OF _ assms])
  fix wait :: "int \<Rightarrow> (nat \<Rightarrow> int) \<Rightarrow> nat \<Rightarrow> (int \<times> nat) option" and since clock k r
  assume rec: "\<And>since clock k r. wait since clock k = Some r \<Longrightarrow> since < fst r \<and> (\<exists>j \<ge> k. fst r = clock j)"
    and step: "(if clock k \<le> since then wait since clock (Suc k) else Some (clock k, Suc k)) = Some r"
  show "since < fst r \<and> (\<exists>j \<ge> k. fst r = clock j)"
  proof (cases "clock k \<le> since")
    case True
    with step have "wait since clock (Suc k) = Some r" by simp
    from rec [OF this] obtain j where "since < fst r" "Suc k \<le> j" "fst r = clock j" by blast
    then have "k \<le> j" by simp
    with \<open>since < fst r\<close> \<open>fst r = clock j\<close> show ?thesis by blast
  next
    case False
    with step have "r = (clock k, Suc k)" by simp
    with False show ?thesis by auto
  qed
qed

lemma wait_defined: "wait_millisecond since clock 0 \<noteq> None \<longleftrightarrow> (\<exists>n. since < clock n)"
proof
  assume "\<exists>n. since < clock n"
  then have "since < clock (LEAST n. since < clock n)" by (rule LeastI_ex)
  moreover have "\<forall>m < (LEAST n. since < clock n). clock m \<le> since" by (meson not_less_Least leI)
  ultimately show "wait_millisecond since clock 0 \<noteq> None" using wait_ends [of since clock 0] by fastforce
next
  assume "wait_millisecond since clock 0 \<noteq> None"
  then obtain r where "wait_millisecond since clock 0 = Some r" by blast
  with wait_stopped show "\<exists>n. since < clock n" by metis
qed

section \<open>The bits of an id\<close>

lemma or_low_bits:
  assumes "0 \<le> b" "b < 2 ^ n"
  shows "push_bit n a OR b = a * 2 ^ n + (b :: int)"
proof -
  have "take_bit n b = b" using assms by (simp add: take_bit_int_eq_self)
  then have "push_bit n a AND b = 0" by (intro bit_eqI) (metis (no_types, lifting) bit_and_iff bit_push_bit_iff bit_take_bit_iff bit_0_eq bot_apply bot_bool_def not_less)
  then show ?thesis by (metis disjunctive_add_eq_or push_bit_eq_mult)
qed

definition node_ok :: "int \<Rightarrow> bool" where
  "node_ok n \<longleftrightarrow> 0 \<le> n \<and> n < 1024"

lemma snowflake_sum:
  assumes "node_ok n" "0 \<le> q" "q \<le> sequenceMask"
  shows "snowflake t n q = (t - snowflake_epoch) * 2 ^ 22 + n * 2 ^ 12 + q"
proof -
  let ?t = "t - snowflake_epoch"
  have "push_bit 22 ?t OR push_bit 12 n = push_bit 12 (push_bit 10 ?t OR n)" by (simp add: push_bit_or)
  also have "push_bit 10 ?t OR n = ?t * 2 ^ 10 + n" using assms(1) by (intro or_low_bits) (simp_all add: node_ok_def)
  finally have "snowflake t n q = push_bit 12 (?t * 2 ^ 10 + n) OR q" by (simp add: snowflake_def)
  also have "\<dots> = (?t * 2 ^ 10 + n) * 2 ^ 12 + q" using assms(2,3) by (intro or_low_bits) (simp_all add: sequenceMask_def)
  finally show ?thesis by simp
qed

section \<open>Sequences of ids\<close>

definition generator_ok :: "generator \<Rightarrow> bool" where
  "generator_ok g \<longleftrightarrow> node_ok (ge_nodeId g) \<and> 0 \<le> ge_sequence g \<and> ge_sequence g \<le> sequenceMask"

definition current_id :: "generator \<Rightarrow> int" where
  "current_id g = snowflake (ge_lastTimestamp g) (ge_nodeId g) (ge_sequence g)"

text \<open>The ids that calls of \<open>next\<close> return, whatever the clock shows; a call that throws returns none.\<close>

inductive id_run :: "generator \<Rightarrow> generator \<Rightarrow> int list \<Rightarrow> bool" where
  none: "id_run g g []"
| more: "id_run g h ids \<Longrightarrow> next_id now clock h = Some (Inr (i, h')) \<Longrightarrow> id_run g h' (ids @ [i])"

lemma new_generator_ok:
  assumes "new_generator w d = Inr g"
  shows "generator_ok g \<and> ge_nodeId g = \<lfloor>d\<rfloor> * 32 + \<lfloor>w\<rfloor> \<and> 0 \<le> \<lfloor>w\<rfloor> \<and> \<lfloor>w\<rfloor> \<le> 31 \<and> 0 \<le> \<lfloor>d\<rfloor> \<and> \<lfloor>d\<rfloor> \<le> 31"
proof -
  from assms have w: "0 \<le> w" "w \<le> 31" and d: "0 \<le> d" "d \<le> 31"
    and g: "g = \<lparr>ge_lastTimestamp = -1, ge_sequence = 0, ge_nodeId = push_bit 5 \<lfloor>d\<rfloor> OR \<lfloor>w\<rfloor>\<rparr>"
    by (auto simp: new_generator_def result_simps)
  have b: "0 \<le> \<lfloor>w\<rfloor>" "\<lfloor>w\<rfloor> \<le> 31" "0 \<le> \<lfloor>d\<rfloor>" "\<lfloor>d\<rfloor> \<le> 31" using w d by linarith+
  have "push_bit 5 \<lfloor>d\<rfloor> OR \<lfloor>w\<rfloor> = \<lfloor>d\<rfloor> * 2 ^ 5 + \<lfloor>w\<rfloor>" using b by (intro or_low_bits) simp_all
  moreover have "node_ok (\<lfloor>d\<rfloor> * 32 + \<lfloor>w\<rfloor>)" using b unfolding node_ok_def by linarith
  ultimately have "generator_ok g" "ge_nodeId g = \<lfloor>d\<rfloor> * 32 + \<lfloor>w\<rfloor>" using g by (simp_all add: generator_ok_def sequenceMask_def)
  with b show ?thesis by blast
qed

text \<open>A call that returns moves to a later time, or to the next number of the same millisecond.\<close>

lemma next_id_later:
  assumes "next_id now clock g = Some (Inr (i, h))" "generator_ok g"
  shows "generator_ok h \<and> ge_nodeId h = ge_nodeId g \<and> i = current_id h \<and>
    (ge_lastTimestamp g < ge_lastTimestamp h \<or> ge_lastTimestamp h = ge_lastTimestamp g \<and> ge_sequence g < ge_sequence h)"
  using assms wait_stopped [of "ge_lastTimestamp g" clock 0]
  by (fastforce simp: next_id_def emit_def generator_ok_def current_id_def sequenceMask_def split: if_splits)

lemma current_id_sum:
  "generator_ok g \<Longrightarrow> current_id g = (ge_lastTimestamp g - snowflake_epoch) * 2 ^ 22 + ge_nodeId g * 2 ^ 12 + ge_sequence g"
  by (simp add: current_id_def generator_ok_def snowflake_sum)

lemma current_id_fields:
  assumes "generator_ok g"
  shows "current_id g div 2 ^ 22 = ge_lastTimestamp g - snowflake_epoch \<and> current_id g div 2 ^ 12 mod 2 ^ 10 = ge_nodeId g \<and>
    current_id g mod 2 ^ 12 = ge_sequence g"
proof -
  let ?t = "ge_lastTimestamp g - snowflake_epoch"
  have q: "0 \<le> ge_sequence g" "ge_sequence g < 4096" and n: "0 \<le> ge_nodeId g" "ge_nodeId g < 1024"
    using assms by (auto simp: generator_ok_def sequenceMask_def node_ok_def)
  have split: "(a * m + b) div m = a" "(a * m + b) mod m = b" if "0 \<le> b" "b < m" for a b m :: int
    using that by (simp_all add: div_pos_pos_trivial mod_pos_pos_trivial)
  have sum: "current_id g = (?t * 1024 + ge_nodeId g) * 4096 + ge_sequence g" using current_id_sum [OF assms] by simp
  have "current_id g div 4096 = ?t * 1024 + ge_nodeId g" "current_id g mod 4096 = ge_sequence g"
    unfolding sum using split q by blast+
  moreover have "current_id g div 4194304 = current_id g div 4096 div 1024" by (simp add: div_mult2_eq [symmetric] zdiv_zmult2_eq [symmetric])
  moreover have "(?t * 1024 + ge_nodeId g) div 1024 = ?t" "(?t * 1024 + ge_nodeId g) mod 1024 = ge_nodeId g" using split n by blast+
  ultimately show ?thesis by simp
qed

lemma current_id_mono:
  assumes "generator_ok g" "generator_ok h" "ge_nodeId h = ge_nodeId g"
    "ge_lastTimestamp g < ge_lastTimestamp h \<or> ge_lastTimestamp h = ge_lastTimestamp g \<and> ge_sequence g < ge_sequence h"
  shows "current_id g < current_id h"
proof -
  have q: "0 \<le> ge_sequence h" "ge_sequence g < 4096" using assms(1,2) by (auto simp: generator_ok_def sequenceMask_def)
  have "current_id g = (ge_lastTimestamp g - snowflake_epoch) * 4194304 + ge_nodeId g * 4096 + ge_sequence g"
    "current_id h = (ge_lastTimestamp h - snowflake_epoch) * 4194304 + ge_nodeId g * 4096 + ge_sequence h"
    using current_id_sum assms(1-3) by simp_all
  with q assms(4) show ?thesis by auto
qed

lemma id_run_ok:
  assumes "id_run g h ids" "generator_ok g"
  shows "generator_ok h \<and> ge_nodeId h = ge_nodeId g \<and> sorted_wrt (<) ids \<and> (\<forall>i \<in> set ids. i \<le> current_id h \<and> i div 2 ^ 12 mod 2 ^ 10 = ge_nodeId g)"
  using assms
proof (induction rule: id_run.induct)
  case (more g h ids now clock i h')
  then have IH: "generator_ok h" "ge_nodeId h = ge_nodeId g" "sorted_wrt (<) ids"
    "\<forall>i \<in> set ids. i \<le> current_id h \<and> i div 2 ^ 12 mod 2 ^ 10 = ge_nodeId g" by auto
  note L = next_id_later [OF more.hyps(2) IH(1)]
  from current_id_mono [OF IH(1)] L have "current_id h < i" by simp
  with IH L current_id_fields [of h'] show ?case by (fastforce simp: sorted_wrt_append)
qed simp

section \<open>Properties\<close>

text \<open>
  C29. The ids of a generator are strictly increasing, whatever the clock does between the calls, and carry the node in their
  bits, so generators of different nodes never return the same id; and an id drawn less than 2^41 milliseconds after the epoch
  is a non-negative signed 64-bit integer, from which the time and the sequence number can be read back.
\<close>

theorem ids_unique_and_bounded:
  assumes "new_generator w d = Inr g" "id_run g h ids" "new_generator w' d' = Inr g'" "id_run g' h' ids'"
    and "(\<lfloor>w\<rfloor>, \<lfloor>d\<rfloor>) \<noteq> (\<lfloor>w'\<rfloor>, \<lfloor>d'\<rfloor>)" "next_id now clock h = Some (Inr (i, h2))"
  shows "sorted_wrt (<) (ids @ [i]) \<and> set ids \<inter> set ids' = {} \<and> i div 2 ^ 22 + snowflake_epoch = ge_lastTimestamp h2 \<and>
    now \<le> ge_lastTimestamp h2 \<and> i mod 2 ^ 12 = ge_sequence h2 \<and>
    (snowflake_epoch \<le> ge_lastTimestamp h2 \<and> ge_lastTimestamp h2 < snowflake_epoch + 2 ^ 41 \<longrightarrow> 0 \<le> i \<and> i < 2 ^ 63)"
proof -
  note N = new_generator_ok [OF assms(1)] new_generator_ok [OF assms(3)]
  from N have ok: "generator_ok g" "generator_ok g'" by simp_all
  note R = id_run_ok [OF assms(2) ok(1)] id_run_ok [OF assms(4) ok(2)]
  note L = next_id_later [OF assms(6) conjunct1 [OF R(1)]]
  from id_run_ok [OF id_run.more [OF assms(2,6)] ok(1)] have "sorted_wrt (<) (ids @ [i])" by blast
  moreover have "x = x' \<and> y = y'" if "y * 32 + x = y' * 32 + x'" "0 \<le> x" "x \<le> 31" "0 \<le> x'" "x' \<le> 31" for x y x' y' :: int
    using that by presburger
  then have "ge_nodeId g \<noteq> ge_nodeId g'" using N assms(5) by metis
  with R have "set ids \<inter> set ids' = {}" by fastforce
  moreover note F = current_id_fields [of h2]
  have i: "i = current_id h2" "generator_ok h2" using L by simp_all
  moreover have "now \<le> ge_lastTimestamp h2"
    using assms(6) wait_stopped [of "ge_lastTimestamp h" clock 0] by (fastforce simp: next_id_def emit_def split: if_splits)
  moreover have "0 \<le> i \<and> i < 2 ^ 63" if "snowflake_epoch \<le> ge_lastTimestamp h2" "ge_lastTimestamp h2 < snowflake_epoch + 2 ^ 41"
  proof -
    have "i = (ge_lastTimestamp h2 - snowflake_epoch) * 4194304 + ge_nodeId h2 * 4096 + ge_sequence h2"
      using current_id_sum [OF i(2)] i(1) by simp
    moreover have "0 \<le> ge_nodeId h2" "ge_nodeId h2 < 1024" "0 \<le> ge_sequence h2" "ge_sequence h2 < 4096"
      using i(2) by (auto simp: generator_ok_def node_ok_def sequenceMask_def)
    ultimately show ?thesis using that by auto
  qed
  ultimately show ?thesis using F i by simp
qed

text \<open>
  C30. Drawing an id ends unless 4096 ids were drawn in the current millisecond and the clock never moves past it again: it throws
  exactly when the clock is behind the last id, and otherwise returns.
\<close>

theorem next_id_returns:
  "(next_id now clock g = None \<longleftrightarrow> now = ge_lastTimestamp g \<and> sequenceMask \<le> ge_sequence g \<and> (\<forall>n. clock n \<le> ge_lastTimestamp g)) \<and>
   ((\<exists>e. next_id now clock g = Some (Inl e)) \<longleftrightarrow> now < ge_lastTimestamp g)"
proof -
  have "wait_millisecond (ge_lastTimestamp g) clock 0 = None \<longleftrightarrow> (\<forall>n. clock n \<le> ge_lastTimestamp g)"
    using wait_defined [of "ge_lastTimestamp g" clock] by (metis not_less)
  then show ?thesis by (cases "\<forall>n. clock n \<le> ge_lastTimestamp g") (auto simp: next_id_def simp del: not_le)
qed

lemma sample_generators:
  "new_generator 1 2 = Inr \<lparr>ge_lastTimestamp = -1, ge_sequence = 0, ge_nodeId = 65\<rparr>"
  "new_generator 0 0 = Inr \<lparr>ge_lastTimestamp = -1, ge_sequence = 0, ge_nodeId = 0\<rparr>"
  "next_id 1704067200005 id \<lparr>ge_lastTimestamp = -1, ge_sequence = 0, ge_nodeId = 65\<rparr> =
     Some (Inr (21237760, \<lparr>ge_lastTimestamp = 1704067200005, ge_sequence = 0, ge_nodeId = 65\<rparr>))"
  by code_simp+

theorem ids_unique_and_bounded_witness:
  "(21237760 :: int) div 2 ^ 22 + snowflake_epoch = 1704067200005 \<and> (21237760 :: int) < 2 ^ 63"
proof -
  have "(\<lfloor>1 :: num\<rfloor>, \<lfloor>2 :: num\<rfloor>) \<noteq> (\<lfloor>0 :: num\<rfloor>, \<lfloor>0 :: num\<rfloor>)" by simp
  from ids_unique_and_bounded [OF sample_generators(1) id_run.none sample_generators(2) id_run.none this sample_generators(3)]
  show ?thesis by (simp add: snowflake_epoch_def)
qed

end
