(* ===== verification/DramaStory.thy ===== *)
theory DramaStory
  imports Prelude
begin

text \<open>
  Story bibles, episodes, scenes, continuity facts and foreshadows (\<^verbatim>\<open>domain/drama-story.ts\<close>): the in-memory service
  \<^verbatim>\<open>application/drama-story-service.ts\<close> and the PostgreSQL one, \<^verbatim>\<open>infrastructure/pg-drama-story-repository.ts\<close>, over
  its five tables with their keys and the widths of their columns (\<^verbatim>\<open>migrations/007_drama_story_domain.sql\<close>).  A \<open>BIGINT\<close>,
  an id or an owner, is a natural number, which the code carries as its decimal text: other texts of a request are outside
  the model.  The id that an operation draws is an argument.
\<close>

section \<open>Data\<close>

datatype story_status = Story_draft | Story_approved | Story_archived
datatype foreshadow_status = Planted | Resolved
datatype story_error = STORY_NOT_FOUND | STORY_CONFLICT | STORY_CONSTRAINT | STORY_REFUSED

record story_bible =
  bb_id :: nat
  bb_ownerId :: nat
  bb_title :: string
  bb_canon :: string
  bb_revision :: nat
  bb_status :: story_status

record episode =
  ep_id :: nat
  ep_ownerId :: nat
  ep_bibleId :: nat
  ep_number :: int
  ep_title :: string
  ep_status :: story_status

record scene =
  sce_id :: nat
  sce_ownerId :: nat
  sce_episodeId :: nat
  sce_number :: int
  sce_summary :: string
  sce_status :: story_status

record continuity_fact =
  fa_id :: nat
  fa_ownerId :: nat
  fa_sceneId :: nat
  fa_statement :: string

record foreshadow =
  fo_id :: nat
  fo_ownerId :: nat
  fo_sceneId :: nat
  fo_clue :: string
  fo_payoff :: string
  fo_status :: foreshadow_status

record create_bible = cb_ownerId :: nat  cb_title :: string  cb_canon :: string
record create_episode = ce_ownerId :: nat  ce_bibleId :: nat  ce_number :: int  ce_title :: string
record create_scene = cs_ownerId :: nat  cs_episodeId :: nat  cs_number :: int  cs_summary :: string
record create_fact = cf_ownerId :: nat  cf_sceneId :: nat  cf_statement :: string
record create_foreshadow = cw_ownerId :: nat  cw_sceneId :: nat  cw_clue :: string  cw_payoff :: string

definition bible_of :: "nat \<Rightarrow> create_bible \<Rightarrow> story_bible" where
  "bible_of i c = \<lparr>bb_id = i, bb_ownerId = cb_ownerId c, bb_title = cb_title c, bb_canon = cb_canon c, bb_revision = 1, bb_status = Story_draft\<rparr>"

definition episode_of :: "nat \<Rightarrow> create_episode \<Rightarrow> episode" where
  "episode_of i c = \<lparr>ep_id = i, ep_ownerId = ce_ownerId c, ep_bibleId = ce_bibleId c, ep_number = ce_number c, ep_title = ce_title c,
     ep_status = Story_draft\<rparr>"

definition scene_of :: "nat \<Rightarrow> create_scene \<Rightarrow> scene" where
  "scene_of i c = \<lparr>sce_id = i, sce_ownerId = cs_ownerId c, sce_episodeId = cs_episodeId c, sce_number = cs_number c, sce_summary = cs_summary c,
     sce_status = Story_draft\<rparr>"

definition fact_of :: "nat \<Rightarrow> create_fact \<Rightarrow> continuity_fact" where
  "fact_of i c = \<lparr>fa_id = i, fa_ownerId = cf_ownerId c, fa_sceneId = cf_sceneId c, fa_statement = cf_statement c\<rparr>"

definition foreshadow_of :: "nat \<Rightarrow> create_foreshadow \<Rightarrow> foreshadow" where
  "foreshadow_of i c = \<lparr>fo_id = i, fo_ownerId = cw_ownerId c, fo_sceneId = cw_sceneId c, fo_clue = cw_clue c, fo_payoff = cw_payoff c,
     fo_status = Planted\<rparr>"

section \<open>The in-memory service\<close>

record story_state =
  sm_bibles :: "(nat, story_bible) jmap"
  sm_episodes :: "(nat, episode) jmap"
  sm_scenes :: "(nat, scene) jmap"
  sm_facts :: "(nat, continuity_fact) jmap"
  sm_foreshadows :: "(nat, foreshadow) jmap"

definition require_owned :: "('a \<Rightarrow> nat) \<Rightarrow> 'a option \<Rightarrow> nat \<Rightarrow> story_error + 'a" where
  "require_owned owner_of v owner = (case v of
     None \<Rightarrow> Inl STORY_NOT_FOUND | Some x \<Rightarrow> throw_if (owner_of x \<noteq> owner) STORY_NOT_FOUND (Inr x))"

definition createBible :: "nat \<Rightarrow> create_bible \<Rightarrow> story_state \<Rightarrow> story_error + (story_bible \<times> story_state)" where
  "createBible i c s = Inr (bible_of i c, s\<lparr>sm_bibles := jset i (bible_of i c) (sm_bibles s)\<rparr>)"

definition getBible :: "nat \<Rightarrow> nat \<Rightarrow> story_state \<Rightarrow> story_error + story_bible" where
  "getBible i owner s = require_owned bb_ownerId (jget (sm_bibles s) i) owner"

definition reviseCanon :: "nat \<Rightarrow> nat \<Rightarrow> string \<Rightarrow> story_state \<Rightarrow> story_error + (story_bible \<times> story_state)" where
  "reviseCanon i owner canon s = rbind (getBible i owner s) (\<lambda>b.
     let revised = b\<lparr>bb_canon := js_trim canon, bb_revision := bb_revision b + 1\<rparr>
     in Inr (revised, s\<lparr>sm_bibles := jset i revised (sm_bibles s)\<rparr>))"

definition createEpisode :: "nat \<Rightarrow> create_episode \<Rightarrow> story_state \<Rightarrow> story_error + (episode \<times> story_state)" where
  "createEpisode i c s = rbind (require_owned bb_ownerId (jget (sm_bibles s) (ce_bibleId c)) (ce_ownerId c)) (\<lambda>_.
     throw_if (\<exists>e \<in> set (jvalues (sm_episodes s)). ep_bibleId e = ce_bibleId c \<and> ep_number e = ce_number c \<and> ep_ownerId e = ce_ownerId c)
       STORY_CONFLICT (Inr (episode_of i c, s\<lparr>sm_episodes := jset i (episode_of i c) (sm_episodes s)\<rparr>)))"

definition createScene :: "nat \<Rightarrow> create_scene \<Rightarrow> story_state \<Rightarrow> story_error + (scene \<times> story_state)" where
  "createScene i c s = rbind (require_owned ep_ownerId (jget (sm_episodes s) (cs_episodeId c)) (cs_ownerId c)) (\<lambda>e.
     throw_if (\<exists>x \<in> set (jvalues (sm_scenes s)). sce_episodeId x = ep_id e \<and> sce_number x = cs_number c \<and> sce_ownerId x = cs_ownerId c)
       STORY_CONFLICT (Inr (scene_of i c, s\<lparr>sm_scenes := jset i (scene_of i c) (sm_scenes s)\<rparr>)))"

definition addContinuityFact :: "nat \<Rightarrow> create_fact \<Rightarrow> story_state \<Rightarrow> story_error + (continuity_fact \<times> story_state)" where
  "addContinuityFact i c s = rbind (require_owned sce_ownerId (jget (sm_scenes s) (cf_sceneId c)) (cf_ownerId c)) (\<lambda>_.
     Inr (fact_of i c, s\<lparr>sm_facts := jset i (fact_of i c) (sm_facts s)\<rparr>))"

definition listContinuityFacts :: "nat \<Rightarrow> nat \<Rightarrow> story_state \<Rightarrow> story_error + continuity_fact list" where
  "listContinuityFacts i owner s = rbind (require_owned sce_ownerId (jget (sm_scenes s) i) owner) (\<lambda>_.
     Inr (filter (\<lambda>f. fa_sceneId f = i \<and> fa_ownerId f = owner) (jvalues (sm_facts s))))"

definition plantForeshadow :: "nat \<Rightarrow> create_foreshadow \<Rightarrow> story_state \<Rightarrow> story_error + (foreshadow \<times> story_state)" where
  "plantForeshadow i c s = rbind (require_owned sce_ownerId (jget (sm_scenes s) (cw_sceneId c)) (cw_ownerId c)) (\<lambda>_.
     Inr (foreshadow_of i c, s\<lparr>sm_foreshadows := jset i (foreshadow_of i c) (sm_foreshadows s)\<rparr>))"

definition resolveForeshadow :: "nat \<Rightarrow> nat \<Rightarrow> story_state \<Rightarrow> story_error + (foreshadow \<times> story_state)" where
  "resolveForeshadow i owner s = rbind (require_owned fo_ownerId (jget (sm_foreshadows s) i) owner) (\<lambda>f.
     let r = f\<lparr>fo_status := Resolved\<rparr> in Inr (r, s\<lparr>sm_foreshadows := jset i r (sm_foreshadows s)\<rparr>))"

section \<open>The PostgreSQL service\<close>

record story_bible_row =
  bw_id :: nat
  bw_owner_id :: nat
  bw_title :: string
  bw_canon :: string
  bw_revision :: nat
  bw_status :: story_status

record episode_row =
  ew_id :: nat
  ew_owner_id :: nat
  ew_bible_id :: nat
  ew_episode_no :: int
  ew_title :: string
  ew_status :: story_status

record scene_row =
  sw_id :: nat
  sw_owner_id :: nat
  sw_episode_id :: nat
  sw_scene_no :: int
  sw_summary :: string
  sw_status :: story_status

record fact_row =
  fw_id :: nat
  fw_owner_id :: nat
  fw_scene_id :: nat
  fw_statement :: string

record foreshadow_row =
  hw_id :: nat
  hw_owner_id :: nat
  hw_scene_id :: nat
  hw_clue :: string
  hw_payoff :: string
  hw_status :: foreshadow_status

record story_db =
  sd_bibles :: "story_bible_row list"
  sd_episodes :: "episode_row list"
  sd_scenes :: "scene_row list"
  sd_facts :: "fact_row list"
  sd_foreshadows :: "foreshadow_row list"

definition toBible :: "story_bible_row \<Rightarrow> story_bible" where
  "toBible r = \<lparr>bb_id = bw_id r, bb_ownerId = bw_owner_id r, bb_title = bw_title r, bb_canon = bw_canon r, bb_revision = bw_revision r,
     bb_status = bw_status r\<rparr>"

definition toEpisode :: "episode_row \<Rightarrow> episode" where
  "toEpisode r = \<lparr>ep_id = ew_id r, ep_ownerId = ew_owner_id r, ep_bibleId = ew_bible_id r, ep_number = ew_episode_no r, ep_title = ew_title r,
     ep_status = ew_status r\<rparr>"

definition toScene :: "scene_row \<Rightarrow> scene" where
  "toScene r = \<lparr>sce_id = sw_id r, sce_ownerId = sw_owner_id r, sce_episodeId = sw_episode_id r, sce_number = sw_scene_no r,
     sce_summary = sw_summary r, sce_status = sw_status r\<rparr>"

definition toFact :: "fact_row \<Rightarrow> continuity_fact" where
  "toFact r = \<lparr>fa_id = fw_id r, fa_ownerId = fw_owner_id r, fa_sceneId = fw_scene_id r, fa_statement = fw_statement r\<rparr>"

definition toForeshadow :: "foreshadow_row \<Rightarrow> foreshadow" where
  "toForeshadow r = \<lparr>fo_id = hw_id r, fo_ownerId = hw_owner_id r, fo_sceneId = hw_scene_id r, fo_clue = hw_clue r, fo_payoff = hw_payoff r,
     fo_status = hw_status r\<rparr>"

text \<open>
  What the columns of \<^verbatim>\<open>migrations/007_drama_story_domain.sql\<close> hold: a statement with another value is refused by the
  database with an error that the service passes on.
\<close>

definition bigint_ok :: "nat \<Rightarrow> bool" where
  "bigint_ok n \<longleftrightarrow> int n \<le> 9223372036854775807"

definition integer_ok :: "int \<Rightarrow> bool" where
  "integer_ok n \<longleftrightarrow> - 2147483648 \<le> n \<and> n \<le> 2147483647"

definition text_ok :: "string \<Rightarrow> bool" where
  "text_ok s \<longleftrightarrow> CHR 0x00 \<notin> set s"

definition title_ok :: "string \<Rightarrow> bool" where
  "title_ok s \<longleftrightarrow> length s \<le> 255 \<and> text_ok s"

definition refuse_unless :: "bool \<Rightarrow> story_error + 'a \<Rightarrow> story_error + 'a" where
  "refuse_unless fits m = throw_if (\<not> fits) STORY_REFUSED m"

definition select_owned :: "('r \<Rightarrow> nat) \<Rightarrow> ('r \<Rightarrow> nat) \<Rightarrow> nat \<Rightarrow> nat \<Rightarrow> 'r list \<Rightarrow> story_error + 'r" where
  "select_owned id_of owner_of i owner rows = refuse_unless (bigint_ok i \<and> bigint_ok owner)
     (require_some STORY_NOT_FOUND (find (\<lambda>r. id_of r = i \<and> owner_of r = owner) rows))"

definition pg_createBible :: "nat \<Rightarrow> create_bible \<Rightarrow> story_db \<Rightarrow> story_error + (story_bible \<times> story_db)" where
  "pg_createBible i c db =
     (let row = \<lparr>bw_id = i, bw_owner_id = cb_ownerId c, bw_title = js_trim (cb_title c), bw_canon = js_trim (cb_canon c),
        bw_revision = 1, bw_status = Story_draft\<rparr>
      in refuse_unless (bigint_ok i \<and> bigint_ok (cb_ownerId c) \<and> title_ok (bw_title row) \<and> text_ok (bw_canon row))
        (throw_if (\<exists>r \<in> set (sd_bibles db). bw_id r = i) STORY_CONFLICT (Inr (toBible row, db\<lparr>sd_bibles := sd_bibles db @ [row]\<rparr>))))"

definition pg_getBible :: "nat \<Rightarrow> nat \<Rightarrow> story_db \<Rightarrow> story_error + story_bible" where
  "pg_getBible i owner db = rbind (select_owned bw_id bw_owner_id i owner (sd_bibles db)) (\<lambda>r. Inr (toBible r))"

definition pg_reviseCanon :: "nat \<Rightarrow> nat \<Rightarrow> string \<Rightarrow> story_db \<Rightarrow> story_error + (story_bible \<times> story_db)" where
  "pg_reviseCanon i owner canon db = rbind (pg_getBible i owner db) (\<lambda>_.
     let rows = map (\<lambda>r. if bw_id r = i \<and> bw_owner_id r = owner then r\<lparr>bw_canon := js_trim canon, bw_revision := bw_revision r + 1\<rparr> else r)
           (sd_bibles db)
     in rbind (select_owned bw_id bw_owner_id i owner rows) (\<lambda>r.
       refuse_unless (text_ok (bw_canon r) \<and> integer_ok (int (bw_revision r))) (Inr (toBible r, db\<lparr>sd_bibles := rows\<rparr>))))"

definition pg_createEpisode :: "nat \<Rightarrow> create_episode \<Rightarrow> story_db \<Rightarrow> story_error + (episode \<times> story_db)" where
  "pg_createEpisode i c db = rbind (pg_getBible (ce_bibleId c) (ce_ownerId c) db) (\<lambda>_.
     let row = \<lparr>ew_id = i, ew_owner_id = ce_ownerId c, ew_bible_id = ce_bibleId c, ew_episode_no = ce_number c,
       ew_title = js_trim (ce_title c), ew_status = Story_draft\<rparr>
     in refuse_unless (bigint_ok i \<and> integer_ok (ce_number c) \<and> title_ok (ew_title row))
       (throw_if (\<exists>r \<in> set (sd_episodes db). ew_id r = i \<or> ew_bible_id r = ce_bibleId c \<and> ew_episode_no r = ce_number c) STORY_CONFLICT
         (Inr (toEpisode row, db\<lparr>sd_episodes := sd_episodes db @ [row]\<rparr>))))"

definition pg_requireEpisode :: "nat \<Rightarrow> nat \<Rightarrow> story_db \<Rightarrow> story_error + episode" where
  "pg_requireEpisode i owner db = rbind (select_owned ew_id ew_owner_id i owner (sd_episodes db)) (\<lambda>r. Inr (toEpisode r))"

definition pg_requireScene :: "nat \<Rightarrow> nat \<Rightarrow> story_db \<Rightarrow> story_error + scene" where
  "pg_requireScene i owner db = rbind (select_owned sw_id sw_owner_id i owner (sd_scenes db)) (\<lambda>r. Inr (toScene r))"

definition pg_createScene :: "nat \<Rightarrow> create_scene \<Rightarrow> story_db \<Rightarrow> story_error + (scene \<times> story_db)" where
  "pg_createScene i c db = rbind (pg_requireEpisode (cs_episodeId c) (cs_ownerId c) db) (\<lambda>_.
     let row = \<lparr>sw_id = i, sw_owner_id = cs_ownerId c, sw_episode_id = cs_episodeId c, sw_scene_no = cs_number c,
       sw_summary = js_trim (cs_summary c), sw_status = Story_draft\<rparr>
     in refuse_unless (bigint_ok i \<and> integer_ok (cs_number c) \<and> text_ok (sw_summary row))
       (throw_if (\<exists>r \<in> set (sd_scenes db). sw_id r = i \<or> sw_episode_id r = cs_episodeId c \<and> sw_scene_no r = cs_number c) STORY_CONFLICT
         (Inr (toScene row, db\<lparr>sd_scenes := sd_scenes db @ [row]\<rparr>))))"

definition pg_addContinuityFact :: "nat \<Rightarrow> create_fact \<Rightarrow> story_db \<Rightarrow> story_error + (continuity_fact \<times> story_db)" where
  "pg_addContinuityFact i c db = rbind (pg_requireScene (cf_sceneId c) (cf_ownerId c) db) (\<lambda>_.
     let row = \<lparr>fw_id = i, fw_owner_id = cf_ownerId c, fw_scene_id = cf_sceneId c, fw_statement = js_trim (cf_statement c)\<rparr>
     in refuse_unless (bigint_ok i \<and> text_ok (fw_statement row))
       (throw_if (\<exists>r \<in> set (sd_facts db). fw_id r = i) STORY_CONSTRAINT (Inr (toFact row, db\<lparr>sd_facts := sd_facts db @ [row]\<rparr>))))"

definition pg_listContinuityFacts :: "nat \<Rightarrow> nat \<Rightarrow> story_db \<Rightarrow> story_error + continuity_fact list" where
  "pg_listContinuityFacts i owner db = rbind (pg_requireScene i owner db) (\<lambda>_.
     Inr (map toFact (sort_key fw_id (filter (\<lambda>r. fw_scene_id r = i \<and> fw_owner_id r = owner) (sd_facts db)))))"

definition pg_plantForeshadow :: "nat \<Rightarrow> create_foreshadow \<Rightarrow> story_db \<Rightarrow> story_error + (foreshadow \<times> story_db)" where
  "pg_plantForeshadow i c db = rbind (pg_requireScene (cw_sceneId c) (cw_ownerId c) db) (\<lambda>_.
     let row = \<lparr>hw_id = i, hw_owner_id = cw_ownerId c, hw_scene_id = cw_sceneId c, hw_clue = js_trim (cw_clue c),
       hw_payoff = js_trim (cw_payoff c), hw_status = Planted\<rparr>
     in refuse_unless (bigint_ok i \<and> text_ok (hw_clue row) \<and> text_ok (hw_payoff row))
       (throw_if (\<exists>r \<in> set (sd_foreshadows db). hw_id r = i) STORY_CONSTRAINT
         (Inr (toForeshadow row, db\<lparr>sd_foreshadows := sd_foreshadows db @ [row]\<rparr>))))"

definition pg_resolveForeshadow :: "nat \<Rightarrow> nat \<Rightarrow> story_db \<Rightarrow> story_error + (foreshadow \<times> story_db)" where
  "pg_resolveForeshadow i owner db =
     (let rows = map (\<lambda>r. if hw_id r = i \<and> hw_owner_id r = owner then r\<lparr>hw_status := Resolved\<rparr> else r) (sd_foreshadows db)
      in rbind (select_owned hw_id hw_owner_id i owner rows) (\<lambda>r. Inr (toForeshadow r, db\<lparr>sd_foreshadows := rows\<rparr>)))"

section \<open>Both services as one interface\<close>

datatype story_op =
    Op_createBible create_bible | Op_getBible nat nat | Op_reviseCanon nat nat string | Op_createEpisode create_episode
  | Op_createScene create_scene | Op_addFact create_fact | Op_listFacts nat nat | Op_plant create_foreshadow | Op_resolve nat nat

datatype story_reply =
    R_bible story_bible | R_episode episode | R_scene scene | R_fact continuity_fact | R_facts "continuity_fact list" | R_foreshadow foreshadow

definition wrote :: "('a \<Rightarrow> story_reply) \<Rightarrow> 's \<Rightarrow> story_error + ('a \<times> 's) \<Rightarrow> (story_error + story_reply) \<times> 's" where
  "wrote reply s m = (case m of Inl e \<Rightarrow> (Inl e, s) | Inr (x, s') \<Rightarrow> (Inr (reply x), s'))"

definition read_only :: "('a \<Rightarrow> story_reply) \<Rightarrow> 's \<Rightarrow> story_error + 'a \<Rightarrow> (story_error + story_reply) \<times> 's" where
  "read_only reply s m = (case m of Inl e \<Rightarrow> (Inl e, s) | Inr x \<Rightarrow> (Inr (reply x), s))"

fun memory_story :: "nat \<Rightarrow> story_op \<Rightarrow> story_state \<Rightarrow> (story_error + story_reply) \<times> story_state" where
  "memory_story i (Op_createBible c) s = wrote R_bible s (createBible i c s)"
| "memory_story i (Op_getBible k owner) s = read_only R_bible s (getBible k owner s)"
| "memory_story i (Op_reviseCanon k owner canon) s = wrote R_bible s (reviseCanon k owner canon s)"
| "memory_story i (Op_createEpisode c) s = wrote R_episode s (createEpisode i c s)"
| "memory_story i (Op_createScene c) s = wrote R_scene s (createScene i c s)"
| "memory_story i (Op_addFact c) s = wrote R_fact s (addContinuityFact i c s)"
| "memory_story i (Op_listFacts k owner) s = read_only R_facts s (listContinuityFacts k owner s)"
| "memory_story i (Op_plant c) s = wrote R_foreshadow s (plantForeshadow i c s)"
| "memory_story i (Op_resolve k owner) s = wrote R_foreshadow s (resolveForeshadow k owner s)"

fun pg_story :: "nat \<Rightarrow> story_op \<Rightarrow> story_db \<Rightarrow> (story_error + story_reply) \<times> story_db" where
  "pg_story i (Op_createBible c) s = wrote R_bible s (pg_createBible i c s)"
| "pg_story i (Op_getBible k owner) s = read_only R_bible s (pg_getBible k owner s)"
| "pg_story i (Op_reviseCanon k owner canon) s = wrote R_bible s (pg_reviseCanon k owner canon s)"
| "pg_story i (Op_createEpisode c) s = wrote R_episode s (pg_createEpisode i c s)"
| "pg_story i (Op_createScene c) s = wrote R_scene s (pg_createScene i c s)"
| "pg_story i (Op_addFact c) s = wrote R_fact s (pg_addContinuityFact i c s)"
| "pg_story i (Op_listFacts k owner) s = read_only R_facts s (pg_listContinuityFacts k owner s)"
| "pg_story i (Op_plant c) s = wrote R_foreshadow s (pg_plantForeshadow i c s)"
| "pg_story i (Op_resolve k owner) s = wrote R_foreshadow s (pg_resolveForeshadow k owner s)"

text \<open>The PostgreSQL service trims the texts it stores; the in-memory one only a revised canon.\<close>

fun trim_op :: "story_op \<Rightarrow> story_op" where
  "trim_op (Op_createBible c) = Op_createBible (c\<lparr>cb_title := js_trim (cb_title c), cb_canon := js_trim (cb_canon c)\<rparr>)"
| "trim_op (Op_createEpisode c) = Op_createEpisode (c\<lparr>ce_title := js_trim (ce_title c)\<rparr>)"
| "trim_op (Op_createScene c) = Op_createScene (c\<lparr>cs_summary := js_trim (cs_summary c)\<rparr>)"
| "trim_op (Op_addFact c) = Op_addFact (c\<lparr>cf_statement := js_trim (cf_statement c)\<rparr>)"
| "trim_op (Op_plant c) = Op_plant (c\<lparr>cw_clue := js_trim (cw_clue c), cw_payoff := js_trim (cw_payoff c)\<rparr>)"
| "trim_op op = op"

text \<open>An operation all of whose values fit the columns they are compared with or stored in.\<close>

fun storable :: "story_op \<Rightarrow> bool" where
  "storable (Op_createBible c) \<longleftrightarrow> bigint_ok (cb_ownerId c) \<and> title_ok (js_trim (cb_title c)) \<and> text_ok (js_trim (cb_canon c))"
| "storable (Op_getBible k owner) \<longleftrightarrow> bigint_ok k \<and> bigint_ok owner"
| "storable (Op_reviseCanon k owner canon) \<longleftrightarrow> bigint_ok k \<and> bigint_ok owner \<and> text_ok (js_trim canon)"
| "storable (Op_createEpisode c) \<longleftrightarrow> bigint_ok (ce_bibleId c) \<and> bigint_ok (ce_ownerId c) \<and> integer_ok (ce_number c) \<and> title_ok (js_trim (ce_title c))"
| "storable (Op_createScene c) \<longleftrightarrow> bigint_ok (cs_episodeId c) \<and> bigint_ok (cs_ownerId c) \<and> integer_ok (cs_number c) \<and> text_ok (js_trim (cs_summary c))"
| "storable (Op_addFact c) \<longleftrightarrow> bigint_ok (cf_sceneId c) \<and> bigint_ok (cf_ownerId c) \<and> text_ok (js_trim (cf_statement c))"
| "storable (Op_listFacts k owner) \<longleftrightarrow> bigint_ok k \<and> bigint_ok owner"
| "storable (Op_plant c) \<longleftrightarrow> bigint_ok (cw_sceneId c) \<and> bigint_ok (cw_ownerId c) \<and> text_ok (js_trim (cw_clue c)) \<and> text_ok (js_trim (cw_payoff c))"
| "storable (Op_resolve k owner) \<longleftrightarrow> bigint_ok k \<and> bigint_ok owner"

fun run_story :: "(nat \<Rightarrow> story_op \<Rightarrow> 's \<Rightarrow> (story_error + story_reply) \<times> 's) \<Rightarrow> (nat \<times> story_op) list \<Rightarrow> 's \<Rightarrow> (story_error + story_reply) list \<times> 's" where
  "run_story step [] s = ([], s)"
| "run_story step ((i, op) # ops) s = (case step i op s of (r, s') \<Rightarrow> (case run_story step ops s' of (rs, s'') \<Rightarrow> (r # rs, s'')))"

definition empty_story :: story_state where
  "empty_story = \<lparr>sm_bibles = [], sm_episodes = [], sm_scenes = [], sm_facts = [], sm_foreshadows = []\<rparr>"

definition empty_story_db :: story_db where
  "empty_story_db = \<lparr>sd_bibles = [], sd_episodes = [], sd_scenes = [], sd_facts = [], sd_foreshadows = []\<rparr>"

section \<open>The tables as maps\<close>

definition keyed :: "('r \<Rightarrow> nat) \<Rightarrow> ('r \<Rightarrow> 'v) \<Rightarrow> 'r list \<Rightarrow> (nat, 'v) jmap" where
  "keyed k f rows = map (\<lambda>r. (k r, f r)) rows"

definition story_of :: "story_db \<Rightarrow> story_state" where
  "story_of db = \<lparr>sm_bibles = keyed bw_id toBible (sd_bibles db), sm_episodes = keyed ew_id toEpisode (sd_episodes db),
     sm_scenes = keyed sw_id toScene (sd_scenes db), sm_facts = keyed fw_id toFact (sd_facts db),
     sm_foreshadows = keyed hw_id toForeshadow (sd_foreshadows db)\<rparr>"

definition ascending :: "nat \<Rightarrow> nat list \<Rightarrow> bool" where
  "ascending n ids \<longleftrightarrow> sorted_wrt (<) ids \<and> (\<forall>i \<in> set ids. i < n)"

definition story_db_ok :: "nat \<Rightarrow> story_db \<Rightarrow> bool" where
  "story_db_ok n db \<longleftrightarrow> ascending n (map bw_id (sd_bibles db)) \<and> ascending n (map ew_id (sd_episodes db)) \<and>
     ascending n (map sw_id (sd_scenes db)) \<and> ascending n (map fw_id (sd_facts db)) \<and> ascending n (map hw_id (sd_foreshadows db)) \<and>
     (\<forall>e \<in> set (sd_episodes db). \<exists>b \<in> set (sd_bibles db). bw_id b = ew_bible_id e \<and> bw_owner_id b = ew_owner_id e) \<and>
     (\<forall>x \<in> set (sd_scenes db). \<exists>e \<in> set (sd_episodes db). ew_id e = sw_episode_id x \<and> ew_owner_id e = sw_owner_id x)"

lemma ascendingD: "ascending n ids \<Longrightarrow> distinct ids \<and> sorted ids"
  unfolding ascending_def by (auto simp: strict_sorted_iff)

lemma ascending_append: "ascending n ids \<Longrightarrow> n \<le> i \<Longrightarrow> ascending (Suc i) (ids @ [i])"
  by (fastforce simp: ascending_def sorted_wrt_append)

lemma ascending_mono: "ascending n ids \<Longrightarrow> n \<le> i \<Longrightarrow> ascending (Suc i) ids"
  by (fastforce simp: ascending_def)

lemma ascending_new: "ascending n (map k rows) \<Longrightarrow> n \<le> i \<Longrightarrow> r \<in> set rows \<Longrightarrow> k r \<noteq> i"
  by (fastforce simp: ascending_def)

lemma jget_keyed [simp]: "jget (keyed k f rows) i = map_option f (find (\<lambda>r. k r = i) rows)"
  by (induction rows) (auto simp: keyed_def)

lemma jset_keyed_new: "(\<And>r. r \<in> set rows \<Longrightarrow> k r \<noteq> k x) \<Longrightarrow> jset (k x) (f x) (keyed k f rows) = keyed k f (rows @ [x])"
  by (induction rows) (auto simp: keyed_def)

lemma keyed_add: "ascending n (map k rows) \<Longrightarrow> n \<le> i \<Longrightarrow> k x = i \<Longrightarrow> jset i (f x) (keyed k f rows) = keyed k f (rows @ [x])"
  using jset_keyed_new [of rows k x f] ascending_new [of n k rows i] by metis

lemma jvalues_keyed [simp]: "jvalues (keyed k f rows) = map f rows"
  by (simp add: keyed_def o_def)

lemma find_id_unique: "distinct (map k rows) \<Longrightarrow> r \<in> set rows \<Longrightarrow> find (\<lambda>x. k x = k r) rows = Some r"
  by (induction rows) (auto simp: image_iff)

lemma jset_keyed_update:
  assumes "distinct (map k rows)" "r \<in> set rows" "\<And>x. k (u x) = k x"
  shows "jset (k r) (f (u r)) (keyed k f rows) = keyed k f (map (\<lambda>x. if k x = k r then u x else x) rows)"
  using assms
proof (induction rows)
  case (Cons y rows)
  show ?case
  proof (cases "y = r")
    case True
    with Cons.prems have "map (\<lambda>x. if k x = k r then u x else x) rows = rows" by (intro map_idI) (force simp: image_iff)
    with True Cons.prems show ?thesis by (simp add: keyed_def)
  next
    case False
    with Cons show ?thesis by (auto simp: keyed_def image_iff)
  qed
qed simp

lemma refuse_unless_fits [simp]: "fits \<Longrightarrow> refuse_unless fits m = m"
  by (simp add: refuse_unless_def)

lemma refuse_unless_refused [simp]: "\<not> fits \<Longrightarrow> refuse_unless fits m = Inl STORY_REFUSED"
  by (simp add: refuse_unless_def)

lemma select_owned_Inr:
  "distinct (map k rows) \<Longrightarrow> bigint_ok i \<Longrightarrow> bigint_ok owner \<Longrightarrow>
     select_owned k owner_of i owner rows = Inr r \<longleftrightarrow> r \<in> set rows \<and> k r = i \<and> owner_of r = owner"
  by (induction rows) (auto simp: select_owned_def require_some_def image_iff split: option.splits)

lemma select_owned_Inl:
  "bigint_ok i \<Longrightarrow> bigint_ok owner \<Longrightarrow> select_owned k owner_of i owner rows = Inl e \<longleftrightarrow> e = STORY_NOT_FOUND \<and> (\<forall>r \<in> set rows. k r = i \<longrightarrow> owner_of r \<noteq> owner)"
  by (auto simp: select_owned_def require_some_def find_None_iff_ball split: option.splits dest: find_SomeD)

lemma require_keyed:
  assumes "distinct (map k rows)" "bigint_ok i" "bigint_ok owner" "\<And>r. own (f r) = owner_of r"
  shows "require_owned own (map_option f (find (\<lambda>r. k r = i) rows)) owner = rbind (select_owned k owner_of i owner rows) (\<lambda>r. Inr (f r))"
proof (cases "select_owned k owner_of i owner rows")
  case (Inl e)
  then have "e = STORY_NOT_FOUND" "\<forall>r \<in> set rows. k r = i \<longrightarrow> owner_of r \<noteq> owner" by (simp_all add: select_owned_Inl assms(2,3))
  with Inl show ?thesis
    by (cases "find (\<lambda>r. k r = i) rows") (auto simp: require_owned_def assms(4) throw_if_def dest: find_SomeD)
next
  case (Inr r)
  then have "r \<in> set rows" "k r = i" "owner_of r = owner" by (simp_all add: select_owned_Inr assms(1-3))
  with find_id_unique [OF assms(1)] Inr show ?thesis by (auto simp: require_owned_def assms(4))
qed

lemma sort_key_sorted: "sorted (map k xs) \<Longrightarrow> sort_key k xs = xs"
  by (induction xs) (auto simp: insort_is_Cons)

lemma to_selectors [simp]:
  "bb_ownerId (toBible r) = bw_owner_id r" "ep_ownerId (toEpisode e) = ew_owner_id e" "sce_ownerId (toScene x) = sw_owner_id x"
  "fo_ownerId (toForeshadow h) = hw_owner_id h" "ep_id (toEpisode e) = ew_id e" "ep_bibleId (toEpisode e) = ew_bible_id e"
  "ep_number (toEpisode e) = ew_episode_no e" "sce_episodeId (toScene x) = sw_episode_id x" "sce_number (toScene x) = sw_scene_no x"
  "fa_sceneId (toFact f) = fw_scene_id f" "fa_ownerId (toFact f) = fw_owner_id f"
  by (simp_all add: toBible_def toEpisode_def toScene_def toForeshadow_def toFact_def)

section \<open>The PostgreSQL service does what the in-memory one does\<close>

lemma story_db_okD:
  assumes "story_db_ok n db"
  shows "distinct (map bw_id (sd_bibles db))" "distinct (map ew_id (sd_episodes db))" "distinct (map sw_id (sd_scenes db))"
    "distinct (map hw_id (sd_foreshadows db))" "sorted (map fw_id (sd_facts db))"
  using assms ascendingD by (auto simp: story_db_ok_def)

lemma story_db_ok_later: "story_db_ok n db \<Longrightarrow> n \<le> i \<Longrightarrow> story_db_ok (Suc i) db"
  by (auto simp: story_db_ok_def intro: ascending_mono)

lemmas require_rows = require_keyed [where k = bw_id and f = toBible and own = bb_ownerId and owner_of = bw_owner_id]
  require_keyed [where k = ew_id and f = toEpisode and own = ep_ownerId and owner_of = ew_owner_id]
  require_keyed [where k = sw_id and f = toScene and own = sce_ownerId and owner_of = sw_owner_id]
  require_keyed [where k = hw_id and f = toForeshadow and own = fo_ownerId and owner_of = hw_owner_id]

lemma story_of_sel [simp]:
  "sm_bibles (story_of db) = keyed bw_id toBible (sd_bibles db)" "sm_episodes (story_of db) = keyed ew_id toEpisode (sd_episodes db)"
  "sm_scenes (story_of db) = keyed sw_id toScene (sd_scenes db)" "sm_facts (story_of db) = keyed fw_id toFact (sd_facts db)"
  "sm_foreshadows (story_of db) = keyed hw_id toForeshadow (sd_foreshadows db)"
  by (simp_all add: story_of_def)

definition simulates :: "nat \<Rightarrow> story_op \<Rightarrow> story_db \<Rightarrow> bool" where
  "simulates i op db \<longleftrightarrow> memory_story i (trim_op op) (story_of db) = (fst (pg_story i op db), story_of (snd (pg_story i op db))) \<and>
     story_db_ok (Suc i) (snd (pg_story i op db))"

text \<open>The revisions of the bibles are counted, because their column ends at the largest integer.\<close>

definition revisions_upto :: "nat \<Rightarrow> story_db \<Rightarrow> bool" where
  "revisions_upto m db \<longleftrightarrow> (\<forall>b \<in> set (sd_bibles db). bw_revision b \<le> m)"

lemma revisions_upto_step:
  assumes "revisions_upto m db"
  shows "revisions_upto (Suc m) (snd (pg_story i op db))"
proof -
  have later: "revisions_upto (Suc m) db" using assms by (auto simp: revisions_upto_def)
  have one: "snd (wrote reply db r) = db" if "\<And>x db'. r \<noteq> Inr (x, db')" for reply and r :: "story_error + ('x \<times> story_db)"
    using that by (cases r) (auto simp: wrote_def)
  show ?thesis using assms later
    by (cases op) (auto simp: revisions_upto_def wrote_def read_only_def pg_createBible_def pg_reviseCanon_def pg_createEpisode_def
      pg_createScene_def pg_addContinuityFact_def pg_plantForeshadow_def pg_resolveForeshadow_def refuse_unless_def Let_def result_simps
      split: sum.splits)
qed

lemma simulates_createBible:
  assumes "story_db_ok n db" "n \<le> i" "bigint_ok i" "storable (Op_createBible c)"
  shows "simulates i (Op_createBible c) db"
proof -
  note fit [simp] = assms(3,4) [unfolded storable.simps]
  let ?row = "\<lparr>bw_id = i, bw_owner_id = cb_ownerId c, bw_title = js_trim (cb_title c), bw_canon = js_trim (cb_canon c),
        bw_revision = 1, bw_status = Story_draft\<rparr>"
  have asc: "ascending n (map bw_id (sd_bibles db))" using assms(1) by (simp add: story_db_ok_def)
  have new: "\<And>r. r \<in> set (sd_bibles db) \<Longrightarrow> bw_id r \<noteq> i" using ascending_new [OF asc assms(2)] .
  have "jset i (toBible ?row) (keyed bw_id toBible (sd_bibles db)) = keyed bw_id toBible (sd_bibles db @ [?row])"
    by (rule keyed_add [OF asc assms(2)]) simp
  moreover have "story_db_ok (Suc i) (db\<lparr>sd_bibles := sd_bibles db @ [?row]\<rparr>)"
    using story_db_ok_later [OF assms(1,2)] ascending_append [OF asc assms(2)] by (auto simp: story_db_ok_def)
  moreover have "bible_of i (c\<lparr>cb_title := js_trim (cb_title c), cb_canon := js_trim (cb_canon c)\<rparr>) = toBible ?row"
    by (simp add: bible_of_def toBible_def)
  ultimately show ?thesis using new
    by (auto simp: simulates_def createBible_def pg_createBible_def wrote_def Let_def throw_if_def story_of_def)
qed

lemma simulates_getBible:
  assumes "story_db_ok n db" "n \<le> i" "bigint_ok i" "storable (Op_getBible k owner)"
  shows "simulates i (Op_getBible k owner) db"
  using assms(4) story_db_ok_later [OF assms(1,2)] require_rows(1) [OF story_db_okD(1) [OF assms(1)]]
  by (simp add: simulates_def getBible_def pg_getBible_def read_only_def split: sum.splits)

lemma simulates_reviseCanon:
  assumes "story_db_ok n db" "n \<le> i" "bigint_ok i" "storable (Op_reviseCanon k owner canon)" "revisions_upto m db" "m < 2147483647"
  shows "simulates i (Op_reviseCanon k owner canon) db"
proof -
  note fit [simp] = assms(3,4) [unfolded storable.simps]
  note D = story_db_okD(1) [OF assms(1)] and R = require_rows(1) [OF story_db_okD(1) [OF assms(1)]]
  let ?u = "\<lambda>r. r\<lparr>bw_canon := js_trim canon, bw_revision := bw_revision r + 1\<rparr>"
  let ?rows = "map (\<lambda>r. if bw_id r = k \<and> bw_owner_id r = owner then ?u r else r) (sd_bibles db)"
  show ?thesis
  proof (cases "select_owned bw_id bw_owner_id k owner (sd_bibles db)")
    case (Inl e)
    then show ?thesis using story_db_ok_later [OF assms(1,2)] R
      by (simp add: simulates_def reviseCanon_def pg_reviseCanon_def getBible_def pg_getBible_def wrote_def)
  next
    case (Inr r)
    with D have r: "r \<in> set (sd_bibles db)" "bw_id r = k" "bw_owner_id r = owner" by (simp_all add: select_owned_Inr)
    have same: "?rows = map (\<lambda>x. if bw_id x = bw_id r then ?u x else x) (sd_bibles db)"
      using D r by (intro map_cong refl) (auto simp: distinct_map inj_on_def)
    have ids: "map bw_id ?rows = map bw_id (sd_bibles db)" by (simp add: map_eq_conv)
    have "distinct (map bw_id ?rows)" unfolding ids by (rule D)
    moreover have "?u r \<in> set ?rows" using r by (auto intro!: image_eqI [of _ _ r])
    ultimately have sel: "select_owned bw_id bw_owner_id k owner ?rows = Inr (?u r)" using r by (subst select_owned_Inr) simp_all
    have "jset k (toBible (?u r)) (keyed bw_id toBible (sd_bibles db)) = keyed bw_id toBible ?rows"
      unfolding same using jset_keyed_update [OF D r(1), of ?u toBible] r(2) by simp
    moreover have "(toBible r)\<lparr>bb_canon := js_trim canon, bb_revision := Suc (bw_revision r)\<rparr> = toBible (?u r)" "bb_revision (toBible r) = bw_revision r"
      by (simp_all add: toBible_def)
    moreover have "story_db_ok (Suc i) (db\<lparr>sd_bibles := ?rows\<rparr>)"
    proof -
      have "\<exists>b \<in> set ?rows. bw_id b = ew_bible_id e \<and> bw_owner_id b = ew_owner_id e" if "e \<in> set (sd_episodes db)" for e
      proof -
        from assms(1) that obtain b where "b \<in> set (sd_bibles db)" "bw_id b = ew_bible_id e" "bw_owner_id b = ew_owner_id e"
          by (auto simp: story_db_ok_def)
        then show ?thesis by (intro bexI [of _ "if bw_id b = k \<and> bw_owner_id b = owner then ?u b else b"]) auto
      qed
      then show ?thesis using story_db_ok_later [OF assms(1,2)] by (simp add: story_db_ok_def ids del: map_map)
    qed
    moreover have "integer_ok (1 + int (bw_revision r))" using assms(5,6) r(1) by (fastforce simp: revisions_upto_def integer_ok_def)
    ultimately show ?thesis using Inr R sel
      by (simp add: simulates_def reviseCanon_def pg_reviseCanon_def getBible_def pg_getBible_def wrote_def Let_def story_of_def)
  qed
qed

lemma simulates_createEpisode:
  assumes "story_db_ok n db" "n \<le> i" "bigint_ok i" "storable (Op_createEpisode c)"
  shows "simulates i (Op_createEpisode c) db"
proof -
  note fit [simp] = assms(3,4) [unfolded storable.simps]
  note D = story_db_okD(1) [OF assms(1)] and R = require_rows(1) [OF story_db_okD(1) [OF assms(1)]]
  let ?row = "\<lparr>ew_id = i, ew_owner_id = ce_ownerId c, ew_bible_id = ce_bibleId c, ew_episode_no = ce_number c,
       ew_title = js_trim (ce_title c), ew_status = Story_draft\<rparr>"
  have asc: "ascending n (map ew_id (sd_episodes db))" using assms(1) by (simp add: story_db_ok_def)
  have new: "\<And>r. r \<in> set (sd_episodes db) \<Longrightarrow> ew_id r \<noteq> i" using ascending_new [OF asc assms(2)] .
  show ?thesis
  proof (cases "select_owned bw_id bw_owner_id (ce_bibleId c) (ce_ownerId c) (sd_bibles db)")
    case (Inl e)
    then show ?thesis using story_db_ok_later [OF assms(1,2)] R
      by (simp add: simulates_def createEpisode_def pg_createEpisode_def pg_getBible_def wrote_def)
  next
    case (Inr b)
    with D have b: "b \<in> set (sd_bibles db)" "bw_id b = ce_bibleId c" "bw_owner_id b = ce_ownerId c" by (simp_all add: select_owned_Inr)
    have owned: "ew_owner_id e = ce_ownerId c" if e: "e \<in> set (sd_episodes db)" "ew_bible_id e = ce_bibleId c" for e
    proof -
      from assms(1) e(1) obtain b' where b': "b' \<in> set (sd_bibles db)" "bw_id b' = ew_bible_id e" "bw_owner_id b' = ew_owner_id e"
        by (auto simp: story_db_ok_def)
      with D b e(2) have "b' = b" by (auto simp: distinct_map inj_on_def)
      with b b' show ?thesis by simp
    qed
    have clash: "(\<exists>r \<in> set (sd_episodes db). ew_id r = i \<or> ew_bible_id r = ce_bibleId c \<and> ew_episode_no r = ce_number c) \<longleftrightarrow>
      (\<exists>e \<in> set (sd_episodes db). ew_bible_id e = ce_bibleId c \<and> ew_episode_no e = ce_number c \<and> ew_owner_id e = ce_ownerId c)"
      using new owned by blast
    have "jset i (toEpisode ?row) (keyed ew_id toEpisode (sd_episodes db)) = keyed ew_id toEpisode (sd_episodes db @ [?row])"
      by (rule keyed_add [OF asc assms(2)]) simp
    moreover have "episode_of i (c\<lparr>ce_title := js_trim (ce_title c)\<rparr>) = toEpisode ?row" by (simp add: episode_of_def toEpisode_def)
    moreover have "story_db_ok (Suc i) (db\<lparr>sd_episodes := sd_episodes db @ [?row]\<rparr>)"
      using story_db_ok_later [OF assms(1,2)] ascending_append [OF asc assms(2)] b unfolding story_db_ok_def by auto
    ultimately show ?thesis using Inr R clash story_db_ok_later [OF assms(1,2)]
      by (simp add: simulates_def createEpisode_def pg_createEpisode_def pg_getBible_def wrote_def Let_def throw_if_def story_of_def) blast
  qed
qed

lemma simulates_createScene:
  assumes "story_db_ok n db" "n \<le> i" "bigint_ok i" "storable (Op_createScene c)"
  shows "simulates i (Op_createScene c) db"
proof -
  note fit [simp] = assms(3,4) [unfolded storable.simps]
  note D = story_db_okD(2) [OF assms(1)] and R = require_rows(2) [OF story_db_okD(2) [OF assms(1)]]
  let ?row = "\<lparr>sw_id = i, sw_owner_id = cs_ownerId c, sw_episode_id = cs_episodeId c, sw_scene_no = cs_number c,
       sw_summary = js_trim (cs_summary c), sw_status = Story_draft\<rparr>"
  have asc: "ascending n (map sw_id (sd_scenes db))" using assms(1) by (simp add: story_db_ok_def)
  have new: "\<And>r. r \<in> set (sd_scenes db) \<Longrightarrow> sw_id r \<noteq> i" using ascending_new [OF asc assms(2)] .
  show ?thesis
  proof (cases "select_owned ew_id ew_owner_id (cs_episodeId c) (cs_ownerId c) (sd_episodes db)")
    case (Inl e)
    then show ?thesis using story_db_ok_later [OF assms(1,2)] R
      by (simp add: simulates_def createScene_def pg_createScene_def pg_requireEpisode_def wrote_def)
  next
    case (Inr b)
    with D have b: "b \<in> set (sd_episodes db)" "ew_id b = cs_episodeId c" "ew_owner_id b = cs_ownerId c" by (simp_all add: select_owned_Inr)
    have owned: "sw_owner_id e = cs_ownerId c" if e: "e \<in> set (sd_scenes db)" "sw_episode_id e = cs_episodeId c" for e
    proof -
      from assms(1) e(1) obtain b' where b': "b' \<in> set (sd_episodes db)" "ew_id b' = sw_episode_id e" "ew_owner_id b' = sw_owner_id e"
        by (auto simp: story_db_ok_def)
      with D b e(2) have "b' = b" by (auto simp: distinct_map inj_on_def)
      with b b' show ?thesis by simp
    qed
    have clash: "(\<exists>r \<in> set (sd_scenes db). sw_id r = i \<or> sw_episode_id r = cs_episodeId c \<and> sw_scene_no r = cs_number c) \<longleftrightarrow>
      (\<exists>e \<in> set (sd_scenes db). sw_episode_id e = cs_episodeId c \<and> sw_scene_no e = cs_number c \<and> sw_owner_id e = cs_ownerId c)"
      using new owned by blast
    have "jset i (toScene ?row) (keyed sw_id toScene (sd_scenes db)) = keyed sw_id toScene (sd_scenes db @ [?row])"
      by (rule keyed_add [OF asc assms(2)]) simp
    moreover have "scene_of i (c\<lparr>cs_summary := js_trim (cs_summary c)\<rparr>) = toScene ?row" by (simp add: scene_of_def toScene_def)
    moreover have "story_db_ok (Suc i) (db\<lparr>sd_scenes := sd_scenes db @ [?row]\<rparr>)"
      using story_db_ok_later [OF assms(1,2)] ascending_append [OF asc assms(2)] b unfolding story_db_ok_def by auto
    ultimately show ?thesis using Inr R clash story_db_ok_later [OF assms(1,2)] b(2)
      by (simp add: simulates_def createScene_def pg_createScene_def pg_requireEpisode_def wrote_def Let_def throw_if_def story_of_def) blast
  qed
qed

lemma simulates_addFact:
  assumes "story_db_ok n db" "n \<le> i" "bigint_ok i" "storable (Op_addFact c)"
  shows "simulates i (Op_addFact c) db"
proof -
  note fit [simp] = assms(3,4) [unfolded storable.simps]
  note R = require_rows(3) [OF story_db_okD(3) [OF assms(1)]]
  let ?row = "\<lparr>fw_id = i, fw_owner_id = cf_ownerId c, fw_scene_id = cf_sceneId c, fw_statement = js_trim (cf_statement c)\<rparr>"
  have asc: "ascending n (map fw_id (sd_facts db))" using assms(1) by (simp add: story_db_ok_def)
  have new: "\<not> (\<exists>r \<in> set (sd_facts db). fw_id r = i)" using ascending_new [OF asc assms(2)] by blast
  have "jset i (toFact ?row) (keyed fw_id toFact (sd_facts db)) = keyed fw_id toFact (sd_facts db @ [?row])"
    by (rule keyed_add [OF asc assms(2)]) simp
  moreover have "fact_of i (c\<lparr>cf_statement := js_trim (cf_statement c)\<rparr>) = toFact ?row" by (simp add: fact_of_def toFact_def)
  moreover have "story_db_ok (Suc i) (db\<lparr>sd_facts := sd_facts db @ [?row]\<rparr>)"
    using story_db_ok_later [OF assms(1,2)] ascending_append [OF asc assms(2)] unfolding story_db_ok_def by auto
  ultimately show ?thesis using R new story_db_ok_later [OF assms(1,2)]
    by (cases "select_owned sw_id sw_owner_id (cf_sceneId c) (cf_ownerId c) (sd_scenes db)")
      (simp_all add: simulates_def addContinuityFact_def pg_addContinuityFact_def pg_requireScene_def wrote_def Let_def throw_if_def story_of_def)
qed

lemma simulates_plant:
  assumes "story_db_ok n db" "n \<le> i" "bigint_ok i" "storable (Op_plant c)"
  shows "simulates i (Op_plant c) db"
proof -
  note fit [simp] = assms(3,4) [unfolded storable.simps]
  note R = require_rows(3) [OF story_db_okD(3) [OF assms(1)]]
  let ?row = "\<lparr>hw_id = i, hw_owner_id = cw_ownerId c, hw_scene_id = cw_sceneId c, hw_clue = js_trim (cw_clue c),
       hw_payoff = js_trim (cw_payoff c), hw_status = Planted\<rparr>"
  have asc: "ascending n (map hw_id (sd_foreshadows db))" using assms(1) by (simp add: story_db_ok_def)
  have new: "\<not> (\<exists>r \<in> set (sd_foreshadows db). hw_id r = i)" using ascending_new [OF asc assms(2)] by blast
  have "jset i (toForeshadow ?row) (keyed hw_id toForeshadow (sd_foreshadows db)) = keyed hw_id toForeshadow (sd_foreshadows db @ [?row])"
    by (rule keyed_add [OF asc assms(2)]) simp
  moreover have "foreshadow_of i (c\<lparr>cw_clue := js_trim (cw_clue c), cw_payoff := js_trim (cw_payoff c)\<rparr>) = toForeshadow ?row"
    by (simp add: foreshadow_of_def toForeshadow_def)
  moreover have "story_db_ok (Suc i) (db\<lparr>sd_foreshadows := sd_foreshadows db @ [?row]\<rparr>)"
    using story_db_ok_later [OF assms(1,2)] ascending_append [OF asc assms(2)] unfolding story_db_ok_def by auto
  ultimately show ?thesis using R new story_db_ok_later [OF assms(1,2)]
    by (cases "select_owned sw_id sw_owner_id (cw_sceneId c) (cw_ownerId c) (sd_scenes db)")
      (simp_all add: simulates_def plantForeshadow_def pg_plantForeshadow_def pg_requireScene_def wrote_def Let_def throw_if_def story_of_def)
qed

lemma simulates_listFacts:
  assumes "story_db_ok n db" "n \<le> i" "bigint_ok i" "storable (Op_listFacts k owner)"
  shows "simulates i (Op_listFacts k owner) db"
proof -
  note fit [simp] = assms(3,4) [unfolded storable.simps]
  note R = require_rows(3) [OF story_db_okD(3) [OF assms(1)]]
  have "sorted (map fw_id (filter (\<lambda>r. fw_scene_id r = k \<and> fw_owner_id r = owner) (sd_facts db)))"
    using story_db_okD(5) [OF assms(1)] by (rule sorted_filter)
  note sort_key_sorted [OF this]
  moreover have "filter (\<lambda>f. fa_sceneId f = k \<and> fa_ownerId f = owner) (map toFact (sd_facts db)) =
    map toFact (filter (\<lambda>r. fw_scene_id r = k \<and> fw_owner_id r = owner) (sd_facts db))" by (simp add: filter_map o_def)
  ultimately show ?thesis using R story_db_ok_later [OF assms(1,2)]
    by (cases "select_owned sw_id sw_owner_id k owner (sd_scenes db)")
      (simp_all add: simulates_def listContinuityFacts_def pg_listContinuityFacts_def pg_requireScene_def read_only_def)
qed

lemma simulates_resolve:
  assumes "story_db_ok n db" "n \<le> i" "bigint_ok i" "storable (Op_resolve k owner)"
  shows "simulates i (Op_resolve k owner) db"
proof -
  note fit [simp] = assms(3,4) [unfolded storable.simps]
  note D = story_db_okD(4) [OF assms(1)] and R = require_rows(4) [OF story_db_okD(4) [OF assms(1)]]
  let ?u = "\<lambda>r. r\<lparr>hw_status := Resolved\<rparr>"
  let ?rows = "map (\<lambda>r. if hw_id r = k \<and> hw_owner_id r = owner then ?u r else r) (sd_foreshadows db)"
  have ids: "map hw_id ?rows = map hw_id (sd_foreshadows db)" by (simp add: map_eq_conv)
  have D': "distinct (map hw_id ?rows)" unfolding ids by (rule D)
  show ?thesis
  proof (cases "select_owned hw_id hw_owner_id k owner (sd_foreshadows db)")
    case (Inl e)
    then have "e = STORY_NOT_FOUND" "\<forall>r \<in> set (sd_foreshadows db). hw_id r = k \<longrightarrow> hw_owner_id r \<noteq> owner" by (simp_all add: select_owned_Inl)
    moreover from this have "select_owned hw_id hw_owner_id k owner ?rows = Inl STORY_NOT_FOUND" by (auto simp: select_owned_Inl)
    ultimately show ?thesis using story_db_ok_later [OF assms(1,2)] R Inl
      by (simp add: simulates_def resolveForeshadow_def pg_resolveForeshadow_def wrote_def Let_def)
  next
    case (Inr r)
    with D have r: "r \<in> set (sd_foreshadows db)" "hw_id r = k" "hw_owner_id r = owner" by (simp_all add: select_owned_Inr)
    have same: "?rows = map (\<lambda>x. if hw_id x = hw_id r then ?u x else x) (sd_foreshadows db)"
      using D r by (intro map_cong refl) (auto simp: distinct_map inj_on_def)
    have "?u r \<in> set ?rows" using r by (auto intro!: image_eqI [of _ _ r])
    with D' have sel: "select_owned hw_id hw_owner_id k owner ?rows = Inr (?u r)" using r by (subst select_owned_Inr) simp_all
    have "jset k (toForeshadow (?u r)) (keyed hw_id toForeshadow (sd_foreshadows db)) = keyed hw_id toForeshadow ?rows"
      unfolding same using jset_keyed_update [OF D r(1), of ?u toForeshadow] r(2) by simp
    moreover have "(toForeshadow r)\<lparr>fo_status := Resolved\<rparr> = toForeshadow (?u r)" by (simp add: toForeshadow_def)
    moreover have "story_db_ok (Suc i) (db\<lparr>sd_foreshadows := ?rows\<rparr>)"
      using story_db_ok_later [OF assms(1,2)] by (simp add: story_db_ok_def ids del: map_map)
    ultimately show ?thesis using Inr R sel
      by (simp add: simulates_def resolveForeshadow_def pg_resolveForeshadow_def wrote_def Let_def story_of_def)
  qed
qed

lemma story_simulation:
  "story_db_ok n db \<Longrightarrow> n \<le> i \<Longrightarrow> bigint_ok i \<Longrightarrow> storable op \<Longrightarrow> revisions_upto m db \<Longrightarrow> m < 2147483647 \<Longrightarrow> simulates i op db"
  by (cases op) (simp_all only: simulates_createBible simulates_getBible simulates_reviseCanon simulates_createEpisode simulates_createScene
    simulates_addFact simulates_listFacts simulates_plant simulates_resolve)

section \<open>Properties\<close>

lemma run_story_simulation:
  assumes "story_db_ok n db" "sorted_wrt (<) (map fst ops)" "\<forall>(i, op) \<in> set ops. n \<le> i"
    "\<forall>(i, op) \<in> set ops. bigint_ok i \<and> storable op" "revisions_upto m db" "m + length ops \<le> 2147483647"
  shows "run_story memory_story (map (\<lambda>(i, op). (i, trim_op op)) ops) (story_of db) =
    (fst (run_story pg_story ops db), story_of (snd (run_story pg_story ops db)))"
  using assms
proof (induction ops arbitrary: n m db)
  case (Cons x ops)
  obtain i op where x: "x = (i, op)" by force
  with Cons.prems have "n \<le> i" "bigint_ok i" "storable op" "m < 2147483647" by simp_all
  from story_simulation [OF Cons.prems(1) this(1-3) Cons.prems(5) this(4)] have sim: "memory_story i (trim_op op) (story_of db) = (fst (pg_story i op db), story_of (snd (pg_story i op db)))"
    "story_db_ok (Suc i) (snd (pg_story i op db))" by (simp_all add: simulates_def)
  have "\<forall>(j, op) \<in> set ops. Suc i \<le> j" using Cons.prems(2) x by (auto simp: Suc_le_eq)
  from Cons.IH [OF sim(2) _ this _ revisions_upto_step [OF Cons.prems(5)]] Cons.prems(2,4,6) x sim(1) show ?case
    by (simp add: split_beta)
qed simp

text \<open>
  The in-memory service takes a title of any length; the tables refuse one of more than 255 characters, which the routes let
  through, and stay as they were.
\<close>

theorem long_title_refused:
  assumes "255 < length (js_trim (cb_title c))"
  shows "(\<exists>s'. memory_story i (Op_createBible c) s = (Inr (R_bible (bible_of i c)), s')) \<and>
    pg_story i (Op_createBible c) db = (Inl STORY_REFUSED, db)"
  using assms by (simp add: createBible_def pg_createBible_def title_ok_def wrote_def Let_def)

text \<open>
  C28. The PostgreSQL story service does what the in-memory one does: any sequence of operations, each with a newer id than the
  ones before, gets the same replies and errors from both, and leaves in the tables what the in-memory maps hold, when the
  in-memory service is given the texts without surrounding space.  The values of the operations have to fit the columns (a
  trimmed title in \<open>VARCHAR(255)\<close>, a number in \<open>INTEGER\<close>, ids and owners in \<open>BIGINT\<close>, no NUL in a text), which only the tables
  check, and there are at most 2,147,483,646 operations, so that no revision overflows.
\<close>

theorem story_services_agree:
  assumes "sorted_wrt (<) (map fst ops)" "\<forall>(i, op) \<in> set ops. bigint_ok i \<and> storable op" "length ops < 2147483647"
  shows "run_story memory_story (map (\<lambda>(i, op). (i, trim_op op)) ops) empty_story =
    (fst (run_story pg_story ops empty_story_db), story_of (snd (run_story pg_story ops empty_story_db)))"
proof -
  have "story_db_ok 0 empty_story_db" by (simp add: story_db_ok_def empty_story_db_def ascending_def)
  moreover have "story_of empty_story_db = empty_story" by (simp add: story_of_def empty_story_db_def empty_story_def keyed_def)
  moreover have "revisions_upto 1 empty_story_db" by (simp add: revisions_upto_def empty_story_db_def)
  ultimately show ?thesis using run_story_simulation [of 0 empty_story_db ops 1] assms by auto
qed

definition sample_story :: "(nat \<times> story_op) list" where
  "sample_story = [(1, Op_createBible \<lparr>cb_ownerId = 7, cb_title = '' Rain '', cb_canon = ''night''\<rparr>),
     (2, Op_createEpisode \<lparr>ce_ownerId = 7, ce_bibleId = 1, ce_number = 1, ce_title = ''one''\<rparr>),
     (3, Op_createEpisode \<lparr>ce_ownerId = 7, ce_bibleId = 1, ce_number = 1, ce_title = ''two''\<rparr>),
     (4, Op_reviseCanon 1 8 ''day'')]"

theorem story_services_agree_witness:
  "fst (run_story memory_story (map (\<lambda>(i, op). (i, trim_op op)) sample_story) empty_story) =
     [Inr (R_bible \<lparr>bb_id = 1, bb_ownerId = 7, bb_title = ''Rain'', bb_canon = ''night'', bb_revision = 1, bb_status = Story_draft\<rparr>),
      Inr (R_episode \<lparr>ep_id = 2, ep_ownerId = 7, ep_bibleId = 1, ep_number = 1, ep_title = ''one'', ep_status = Story_draft\<rparr>),
      Inl STORY_CONFLICT, Inl STORY_NOT_FOUND]"
proof -
  have "fst (run_story pg_story sample_story empty_story_db) =
     [Inr (R_bible \<lparr>bb_id = 1, bb_ownerId = 7, bb_title = ''Rain'', bb_canon = ''night'', bb_revision = 1, bb_status = Story_draft\<rparr>),
      Inr (R_episode \<lparr>ep_id = 2, ep_ownerId = 7, ep_bibleId = 1, ep_number = 1, ep_title = ''one'', ep_status = Story_draft\<rparr>),
      Inl STORY_CONFLICT, Inl STORY_NOT_FOUND]" by code_simp
  moreover have "sorted_wrt (<) (map fst sample_story)" by (simp add: sample_story_def)
  moreover have "\<forall>(i, op) \<in> set sample_story. bigint_ok i \<and> storable op" by code_simp
  moreover have "length sample_story < 2147483647" by (simp add: sample_story_def)
  ultimately show ?thesis using story_services_agree [of sample_story] by simp
qed

end
