(* ===== verification/RequestParsing.thy ===== *)
theory RequestParsing
  imports PlanRepository RenderBatches
begin

text \<open>
  How the API reads its requests (\<^verbatim>\<open>api/app.ts\<close>): the readers of fields, the parsers of a plan, of the jobs of a
  render batch and of the segments of a subtitle, and the routes of plans built from them.

  An \<open>unknown\<close> value is a \<open>json option\<close>, None for \<open>undefined\<close>; a header or a parameter of a route is an optional
  string.  An \<open>ApiError\<close> is its status and its code.  The text of a number that is no natural number or has more
  than 21 digits (\<open>String\<close> is exponential from 1e21 on) contains a character that is no digit, which is all the readers look at.
\<close>

datatype api_error = ApiError nat string

definition api_fail :: "api_error + 'a" where
  "api_fail = Inl (ApiError 400 ''INVALID_INPUT'')"

section \<open>Readers of fields\<close>

definition all_digits :: "string \<Rightarrow> bool" where
  "all_digits s \<longleftrightarrow> s \<noteq> [] \<and> list_all (\<lambda>c. 48 \<le> (of_char c :: nat) \<and> (of_char c :: nat) \<le> 57) s"

definition requireUserId :: "string option \<Rightarrow> api_error + string" where
  "requireUserId header = (case header of
     None \<Rightarrow> Inl (ApiError 401 ''PERMISSION_DENIED'')
   | Some v \<Rightarrow> throw_if (\<not> all_digits v \<or> v = ''0'') (ApiError 401 ''PERMISSION_DENIED'') (Inr v))"

fun recordBody :: "json option \<Rightarrow> api_error + (string \<times> json) list" where
  "recordBody (Some (JObj fs)) = Inr fs"
| "recordBody _ = api_fail"

definition number_text :: "num \<Rightarrow> string" where
  "number_text n = (if js_is_integer n \<and> 0 \<le> n \<and> n < 10 ^ 21 then nat_text (nat \<lfloor>n\<rfloor>) else ''-'')"

definition normalized_id :: "string \<Rightarrow> string option" where
  "normalized_id s = (let t = js_trim s in if all_digits t \<and> t \<noteq> ''0'' then Some t else None)"

fun optionalId :: "json option \<Rightarrow> string option" where
  "optionalId (Some (JStr s)) = normalized_id s"
| "optionalId (Some (JNum n)) = normalized_id (number_text n)"
| "optionalId _ = None"

definition orFail :: "'a option \<Rightarrow> api_error + 'a" where
  "orFail v = (case v of None \<Rightarrow> api_fail | Some x \<Rightarrow> Inr x)"

definition requiredId :: "json option \<Rightarrow> api_error + string" where
  "requiredId v = orFail (optionalId v)"

definition routeId :: "string option \<Rightarrow> api_error + string" where
  "routeId p = requiredId (map_option JStr p)"

fun optionalString :: "json option \<Rightarrow> string option" where
  "optionalString (Some (JStr s)) = (if blank s then None else Some (js_trim s))"
| "optionalString _ = None"

definition requiredString :: "json option \<Rightarrow> api_error + string" where
  "requiredString v = orFail (optionalString v)"

definition routeStringId :: "string option \<Rightarrow> api_error + string" where
  "routeStringId p = requiredString (map_option JStr p)"

fun optionalInteger :: "json option \<Rightarrow> num option" where
  "optionalInteger (Some (JNum n)) = (if js_is_integer n \<and> 0 \<le> n then Some n else None)"
| "optionalInteger _ = None"

definition requiredInteger :: "json option \<Rightarrow> api_error + num" where
  "requiredInteger v = orFail (optionalInteger v)"

fun optionalNumber :: "json option \<Rightarrow> num option" where
  "optionalNumber (Some (JNum n)) = Some n"
| "optionalNumber _ = None"

fun optionalBoolean :: "json option \<Rightarrow> bool option" where
  "optionalBoolean (Some (JBool b)) = Some b"
| "optionalBoolean _ = None"

fun stringArray :: "json option \<Rightarrow> api_error + string list" where
  "stringArray (Some (JArr vs)) = rmap (\<lambda>v. requiredString (Some v)) vs"
| "stringArray _ = api_fail"

definition uniqueStrings :: "string list \<Rightarrow> string list" where
  "uniqueStrings values = uniq values"

fun objectOrEmpty :: "json option \<Rightarrow> (string \<times> json) list" where
  "objectOrEmpty (Some (JObj fs)) = fs"
| "objectOrEmpty _ = []"

definition planProfile :: "json option \<Rightarrow> api_error + agent_profile" where
  "planProfile v =
     (if v = Some (JStr ''canvas-general'') then Inr Canvas_general
      else if v = Some (JStr ''vertical-short-drama'') then Inr Vertical_short_drama
      else if v = Some (JStr ''asset-assistant'') then Inr Asset_assistant
      else if v = Some (JStr ''audit-readonly'') then Inr Audit_readonly
      else api_fail)"

definition requiredPlanStepEffect :: "json option \<Rightarrow> api_error + step_effect" where
  "requiredPlanStepEffect v =
     (if v = Some (JStr ''read'') then Inr Effect_read
      else if v = Some (JStr ''write_canvas'') then Inr Effect_write_canvas
      else if v = Some (JStr ''create_task'') then Inr Effect_create_task
      else api_fail)"

section \<open>Plans\<close>

definition planStepStatus :: "json option \<Rightarrow> api_error + step_status" where
  "planStepStatus v = (let status = coalesce v (Some (JStr ''pending'')) in
      if status = Some (JStr ''pending'') then Inr Pending
      else if status = Some (JStr ''running'') then Inr Running
      else if status = Some (JStr ''completed'') then Inr Completed
      else if status = Some (JStr ''failed'') then Inr step_status.Failed
      else if status = Some (JStr ''stale'') then Inr Stale
      else api_fail)"

text \<open>\<open>value === undefined ? {} : {field: read(value)}\<close>.\<close>

definition when_defined :: "('v option \<Rightarrow> 'e + 'a) \<Rightarrow> 'v option \<Rightarrow> 'e + 'a option" where
  "when_defined reader v = (case v of None \<Rightarrow> Inr None | Some _ \<Rightarrow> map_sum id Some (reader v))"

definition parse_step :: "json \<Rightarrow> api_error + plan_step" where
  "parse_step item =
     rbind (recordBody (Some item)) (\<lambda>step.
     rbind (planStepStatus (json_field step ''status'')) (\<lambda>status.
     rbind (requiredString (json_field step ''id'')) (\<lambda>i.
     rbind (requiredString (json_field step ''tool'')) (\<lambda>tool.
     rbind (stringArray (coalesce (json_field step ''dependsOn'') (Some (JArr [])))) (\<lambda>deps.
     rbind (requiredString (json_field step ''inputHash'')) (\<lambda>hash.
     rbind (requiredInteger (coalesce (json_field step ''estimatedCost'') (Some (JNum 0)))) (\<lambda>cost.
     rbind (when_defined requiredInteger (json_field step ''batchSize'')) (\<lambda>batch.
     rbind (when_defined requiredPlanStepEffect (json_field step ''effect'')) (\<lambda>effect.
     rbind (when_defined requiredString (json_field step ''concurrencyKey'')) (\<lambda>key.
       Inr \<lparr>st_id = i, st_tool = tool, st_dependsOn = deps, st_status = status, st_inputHash = hash,
         st_input = (if json_field step ''input'' = None \<and> json_field step ''params'' = None then None
           else Some (objectOrEmpty (coalesce (json_field step ''input'') (json_field step ''params'')))),
         st_estimatedCost = cost, st_batchSize = map_option floor batch, st_effect = effect, st_concurrencyKey = key,
         st_idempotencyKey = None, st_taskId = None, st_leaseUntil = None, st_attemptCount = None, st_outputRef = None,
         st_lastError = None\<rparr>))))))))))"

definition parseAgentPlan :: "json option \<Rightarrow> string \<Rightarrow> api_error + agent_plan" where
  "parseAgentPlan value sessionId =
     rbind (recordBody value) (\<lambda>body.
     rbind (case json_field body ''steps'' of Some (JArr items) \<Rightarrow> rmap parse_step items | _ \<Rightarrow> api_fail) (\<lambda>steps.
     rbind (requiredId (json_field body ''id'')) (\<lambda>i.
     rbind (requiredInteger (json_field body ''version'')) (\<lambda>version.
     rbind (requiredInteger (json_field body ''canvasVersion'')) (\<lambda>canvasVersion.
       Inr \<lparr>pl_id = i, pl_sessionId = sessionId, pl_version = \<lfloor>version\<rfloor>, pl_canvasVersion = \<lfloor>canvasVersion\<rfloor>, pl_steps = steps\<rparr>)))))"

section \<open>Jobs of a batch and segments of a subtitle\<close>

definition parse_job :: "json \<Rightarrow> api_error + render_job_input" where
  "parse_job item =
     rbind (recordBody (Some item)) (\<lambda>job.
     rbind (requiredString (json_field job ''shotId'')) (\<lambda>shot.
     rbind (requiredString (json_field job ''keyframeRenderId'')) (\<lambda>keyframe.
     rbind (requiredInteger (json_field job ''durationSeconds'')) (\<lambda>seconds.
     rbind (requiredString (json_field job ''modelType'')) (\<lambda>model.
       Inr \<lparr>ji_shotId = shot, ji_keyframeRenderId = keyframe, ji_canvasNodeId = optionalId (json_field job ''canvasNodeId''),
         ji_durationSeconds = seconds, ji_modelType = model, ji_modelParams = objectOrEmpty (json_field job ''modelParams''),
         ji_estimatedCost = 0\<rparr>)))))"

definition renderBatchJobs :: "json option \<Rightarrow> api_error + render_job_input list" where
  "renderBatchJobs v = (case v of
     Some (JArr items) \<Rightarrow> throw_if (items = [] \<or> 90 < length items) (ApiError 400 ''INVALID_SHOT_COUNT'') (rmap parse_job items)
   | _ \<Rightarrow> api_fail)"

record timeline_segment =
  ts_startMs :: num
  ts_endMs :: num
  ts_text :: string

definition parse_segment :: "json \<Rightarrow> api_error + timeline_segment" where
  "parse_segment item =
     rbind (recordBody (Some item)) (\<lambda>segment.
     rbind (requiredInteger (json_field segment ''startMs'')) (\<lambda>start.
     rbind (case json_field segment ''endMs'' of
         Some (JNum stop) \<Rightarrow> throw_if (\<not> js_is_integer stop \<or> stop \<le> start) (ApiError 400 ''INVALID_INPUT'') (Inr stop)
       | _ \<Rightarrow> api_fail) (\<lambda>stop.
     rbind (requiredString (json_field segment ''text'')) (\<lambda>words.
       Inr \<lparr>ts_startMs = start, ts_endMs = stop, ts_text = words\<rparr>))))"

definition timelineSegments :: "json option \<Rightarrow> api_error + timeline_segment list" where
  "timelineSegments v = (case v of Some (JArr items) \<Rightarrow> rmap parse_segment items | _ \<Rightarrow> api_fail)"

section \<open>The routes of plans\<close>

text \<open>The repository is absent when the service runs without a database.\<close>

datatype route_error = Api api_error | Repository repo_error

definition needs_database :: "'db option \<Rightarrow> ('db \<Rightarrow> route_error + 'a) \<Rightarrow> route_error + 'a" where
  "needs_database repository k = (case repository of
     None \<Rightarrow> Inl (Api (ApiError 503 ''DATABASE_UNAVAILABLE'')) | Some db \<Rightarrow> k db)"

abbreviation api :: "api_error + 'a \<Rightarrow> route_error + 'a" where
  "api m \<equiv> map_sum Api id m"

abbreviation repo :: "repo_error + 'a \<Rightarrow> route_error + 'a" where
  "repo m \<equiv> map_sum Repository id m"

definition post_plan :: "string option \<Rightarrow> string option \<Rightarrow> json option \<Rightarrow> plan_db option \<Rightarrow> route_error + (plan_db \<times> compiled_plan)" where
  "post_plan user session request repository = needs_database repository (\<lambda>db.
     rbind (api (recordBody request)) (\<lambda>body.
     rbind (api (routeId session)) (\<lambda>sessionId.
     rbind (api (parseAgentPlan (coalesce (json_field body ''plan'') request) sessionId)) (\<lambda>plan.
     rbind (api (planProfile (json_field body ''profile''))) (\<lambda>profile.
     rbind (api (requireUserId user)) (\<lambda>ownerId.
     rbind (api (requiredInteger (coalesce (json_field body ''expectedVersion'') (Some (JNum (of_int (pl_version plan))))))) (\<lambda>expected.
       repo (create_plan ownerId sessionId plan \<lfloor>expected\<rfloor> profile db))))))))"

definition get_plan_route :: "string option \<Rightarrow> string option \<Rightarrow> plan_db option \<Rightarrow> route_error + agent_plan" where
  "get_plan_route user planId repository = needs_database repository (\<lambda>db.
     rbind (api (routeId planId)) (\<lambda>i. rbind (api (requireUserId user)) (\<lambda>ownerId. repo (get_plan db i ownerId))))"

definition ready_set_route :: "string option \<Rightarrow> string option \<Rightarrow> json option \<Rightarrow> plan_db option \<Rightarrow> route_error + compiled_plan" where
  "ready_set_route user planId profile repository = needs_database repository (\<lambda>db.
     rbind (api (routeId planId)) (\<lambda>i. rbind (api (requireUserId user)) (\<lambda>ownerId.
     rbind (api (planProfile profile)) (\<lambda>p. repo (plan_readySet db i ownerId p)))))"

definition rerun_plan_route :: "string \<Rightarrow> string option \<Rightarrow> string option \<Rightarrow> json option \<Rightarrow> plan_db option \<Rightarrow>
    route_error + (plan_db \<times> agent_plan \<times> num)" where
  "rerun_plan_route newId user planId request repository = needs_database repository (\<lambda>db.
     rbind (api (recordBody request)) (\<lambda>body.
     rbind (api (routeId planId)) (\<lambda>i. rbind (api (requireUserId user)) (\<lambda>ownerId.
     rbind (api (requiredString (json_field body ''stepId''))) (\<lambda>stepId. repo (rerun_plan newId i ownerId stepId db))))))"

section \<open>What the readers return\<close>

definition trimmed :: "string \<Rightarrow> bool" where
  "trimmed s \<longleftrightarrow> js_trim s = s \<and> s \<noteq> []"

definition natural :: "num \<Rightarrow> bool" where
  "natural n \<longleftrightarrow> js_is_integer n \<and> 0 \<le> n"

definition id_text :: "string \<Rightarrow> bool" where
  "id_text s \<longleftrightarrow> all_digits s \<and> s \<noteq> ''0''"

lemma orFail_Inr [result_simps]: "orFail v = Inr x \<longleftrightarrow> v = Some x"
  by (simp add: orFail_def api_fail_def split: option.split)

lemma api_fail_not_Inr [result_simps]: "api_fail \<noteq> Inr x" "Inr x \<noteq> api_fail"
  by (simp_all add: api_fail_def)

lemma recordBody_Inr [result_simps]: "recordBody v = Inr fs \<longleftrightarrow> v = Some (JObj fs)"
  by (cases v rule: recordBody.cases) (auto simp: result_simps)

lemma requiredString_Inr: "requiredString v = Inr x \<longleftrightarrow> (\<exists>s. v = Some (JStr s) \<and> js_trim s = x \<and> x \<noteq> [])"
  by (cases v rule: optionalString.cases) (auto simp: requiredString_def result_simps)

lemma requiredString_trimmed: "requiredString v = Inr x \<Longrightarrow> trimmed x"
  by (auto simp: requiredString_Inr trimmed_def)

lemma requiredString_text [simp]: "trimmed x \<Longrightarrow> requiredString (Some (JStr x)) = Inr x"
  by (simp add: requiredString_Inr trimmed_def)

lemma requiredInteger_Inr [result_simps]: "requiredInteger v = Inr n \<longleftrightarrow> v = Some (JNum n) \<and> natural n"
  by (cases v rule: optionalInteger.cases) (auto simp: requiredInteger_def result_simps natural_def)

lemma all_digits_trim: "all_digits s \<Longrightarrow> js_trim s = s"
proof -
  assume s: "all_digits s"
  have keep: "dropWhile js_space xs = xs" if "\<forall>c \<in> set xs. 48 \<le> (of_char c :: nat) \<and> (of_char c :: nat) \<le> 57" for xs
    using that by (cases xs) (auto simp: js_space_def)
  from s show ?thesis by (simp add: js_trim_def keep all_digits_def list_all_iff)
qed

lemma nat_text_all_digits: "all_digits (nat_text n)"
proof (induction n rule: nat_text.induct)
  case (1 n)
  have digit: "48 \<le> (of_char (char_of (48 + d :: nat)) :: nat) \<and> (of_char (char_of (48 + d)) :: nat) \<le> 57" if "d < 10" for d
    using that by simp
  show ?case
  proof (cases "n < 10")
    case True
    then show ?thesis using digit [of n] by (subst nat_text.simps) (simp add: all_digits_def)
  next
    case False
    with 1 show ?thesis using digit [of "n mod 10"] by (subst nat_text.simps) (simp add: all_digits_def)
  qed
qed

lemma normalized_id_ok: "normalized_id s = Some i \<Longrightarrow> id_text i"
  by (auto simp: normalized_id_def id_text_def Let_def split: if_splits)

lemma requiredId_ok: "requiredId v = Inr i \<Longrightarrow> id_text i"
  by (cases v rule: optionalId.cases) (auto simp: requiredId_def result_simps dest: normalized_id_ok)

lemma requiredId_text: "id_text i \<Longrightarrow> requiredId (Some (JStr i)) = Inr i"
  by (simp add: requiredId_def result_simps normalized_id_def id_text_def all_digits_trim)

lemma stringArray_Inr: "stringArray v = Inr xs \<longleftrightarrow> (\<exists>vs. v = Some (JArr vs) \<and> list_all2 (\<lambda>v x. requiredString (Some v) = Inr x) vs xs)"
  by (cases v rule: stringArray.cases) (auto simp: result_simps)

lemma stringArray_trimmed: "stringArray v = Inr xs \<Longrightarrow> list_all trimmed xs"
  by (auto simp: stringArray_Inr list_all_iff dest!: list_all2_in_right dest: requiredString_trimmed)

lemma rmap_inverse: "(\<And>x. x \<in> set xs \<Longrightarrow> f (g x) = Inr x) \<Longrightarrow> rmap f (map g xs) = Inr xs"
  by (induction xs) auto

lemma stringArray_texts: "list_all trimmed xs \<Longrightarrow> stringArray (Some (JArr (map JStr xs))) = Inr xs"
  by (simp add: rmap_inverse list_all_iff)

lemma requiredInteger_natural [simp]: "natural n \<Longrightarrow> requiredInteger (Some (JNum n)) = Inr n"
  by (simp add: requiredInteger_Inr)

lemma natural_of_int [simp]: "natural (of_int b) \<longleftrightarrow> 0 \<le> b"
  by (simp add: natural_def)

declare stringArray.simps [simp del]

lemma when_defined_Inr:
  "when_defined f v = Inr y \<longleftrightarrow> (v = None \<and> y = None) \<or> (\<exists>x. v \<noteq> None \<and> f v = Inr x \<and> y = Some x)"
proof (cases v)
  case (Some u)
  then show ?thesis by (cases "f v") (auto simp: when_defined_def)
qed (auto simp: when_defined_def)

section \<open>Parsed plans\<close>

text \<open>
  The plans the API lets in: what every field satisfies, and a rendering of a plan as the body of a request.
\<close>

definition step_typed :: "plan_step \<Rightarrow> bool" where
  "step_typed s \<longleftrightarrow> trimmed (st_id s) \<and> trimmed (st_tool s) \<and> trimmed (st_inputHash s) \<and> list_all trimmed (st_dependsOn s) \<and>
     natural (st_estimatedCost s) \<and> (\<forall>b. st_batchSize s = Some b \<longrightarrow> 0 \<le> b) \<and> (\<forall>k. st_concurrencyKey s = Some k \<longrightarrow> trimmed k) \<and>
     st_idempotencyKey s = None \<and> st_taskId s = None \<and> st_leaseUntil s = None \<and> st_attemptCount s = None \<and>
     st_outputRef s = None \<and> st_lastError s = None"

definition plan_typed :: "agent_plan \<Rightarrow> bool" where
  "plan_typed p \<longleftrightarrow> id_text (pl_id p) \<and> 0 \<le> pl_version p \<and> 0 \<le> pl_canvasVersion p \<and> list_all step_typed (pl_steps p)"

fun status_text :: "step_status \<Rightarrow> string" where
  "status_text Pending = ''pending''"
| "status_text Running = ''running''"
| "status_text Completed = ''completed''"
| "status_text step_status.Failed = ''failed''"
| "status_text Stale = ''stale''"

fun effect_text :: "step_effect \<Rightarrow> string" where
  "effect_text Effect_read = ''read''"
| "effect_text Effect_write_canvas = ''write_canvas''"
| "effect_text Effect_create_task = ''create_task''"

definition field_of :: "string \<Rightarrow> json option \<Rightarrow> (string \<times> json) list" where
  "field_of k v = (case v of None \<Rightarrow> [] | Some x \<Rightarrow> [(k, x)])"

definition step_value :: "plan_step \<Rightarrow> json" where
  "step_value s = JObj ([(''id'', JStr (st_id s)), (''tool'', JStr (st_tool s)), (''dependsOn'', JArr (map JStr (st_dependsOn s))),
     (''status'', JStr (status_text (st_status s))), (''inputHash'', JStr (st_inputHash s)), (''estimatedCost'', JNum (st_estimatedCost s))] @
     field_of ''input'' (map_option JObj (st_input s)) @ field_of ''batchSize'' (map_option (\<lambda>b. JNum (of_int b)) (st_batchSize s)) @
     field_of ''effect'' (map_option (\<lambda>e. JStr (effect_text e)) (st_effect s)) @
     field_of ''concurrencyKey'' (map_option JStr (st_concurrencyKey s)))"

definition plan_value :: "agent_plan \<Rightarrow> json" where
  "plan_value p = JObj [(''id'', JStr (pl_id p)), (''version'', JNum (of_int (pl_version p))),
     (''canvasVersion'', JNum (of_int (pl_canvasVersion p))), (''steps'', JArr (map step_value (pl_steps p)))]"

lemma parse_step_typed:
  assumes "parse_step item = Inr s"
  shows "step_typed s"
proof -
  have key: "trimmed k" if "when_defined requiredString w = Inr (Some k)" for w k
    using that by (auto simp: when_defined_Inr dest: requiredString_trimmed)
  have nat: "0 \<le> n" if "when_defined requiredInteger w = Inr (Some n)" for w n
    using that by (auto simp: when_defined_Inr requiredInteger_Inr natural_def)
  from assms show ?thesis
    by (auto simp: parse_step_def rbind_Inr requiredInteger_Inr step_typed_def nat key
      dest!: requiredString_trimmed stringArray_trimmed)
qed

lemma parse_step_value:
  assumes "step_typed s"
  shows "parse_step (step_value s) = Inr s"
proof -
  have status: "planStepStatus (Some (JStr (status_text st))) = Inr st" for st
    by (cases st) (simp_all add: planStepStatus_def)
  have effect: "requiredPlanStepEffect (Some (JStr (effect_text e))) = Inr e" for e
    by (cases e) (simp_all add: requiredPlanStepEffect_def)
  show ?thesis
    using assms
    by (cases "st_input s"; cases "st_batchSize s"; cases "st_effect s"; cases "st_concurrencyKey s")
      (simp_all add: parse_step_def step_value_def json_field_def field_of_def status effect stringArray_texts
        step_typed_def when_defined_def plan_step.equality)
qed

lemma parsed_plan_typed:
  assumes "parseAgentPlan v sid = Inr plan"
  shows "plan_typed plan \<and> pl_sessionId plan = sid"
proof -
  from assms obtain body steps i n c where
    steps: "(case json_field body ''steps'' of Some (JArr items) \<Rightarrow> rmap parse_step items | _ \<Rightarrow> api_fail) = Inr steps"
    and i: "requiredId (json_field body ''id'') = Inr i" and n: "natural n" and c: "natural c"
    and p: "plan = \<lparr>pl_id = i, pl_sessionId = sid, pl_version = \<lfloor>n\<rfloor>, pl_canvasVersion = \<lfloor>c\<rfloor>, pl_steps = steps\<rparr>"
    unfolding parseAgentPlan_def rbind_Inr requiredInteger_Inr by blast
  from steps obtain items where "rmap parse_step items = Inr steps"
    by (cases "json_field body ''steps''" rule: stringArray.cases) (simp_all add: api_fail_not_Inr)
  then have items: "list_all2 (\<lambda>x y. parse_step x = Inr y) items (pl_steps plan)" by (simp add: rmap_Inr p)
  have "list_all step_typed (pl_steps plan)"
    using items by (auto simp: list_all_iff dest!: list_all2_in_right intro: parse_step_typed)
  with requiredId_ok [OF i] n c p show ?thesis by (simp add: plan_typed_def natural_def)
qed

text \<open>
  What the API reads a plan from, field by field: texts up to the space around them, an id also from a number, and the defaults
  of the fields that may be absent or null.
\<close>

definition is_absent :: "json option \<Rightarrow> bool" where
  "is_absent v \<longleftrightarrow> v = None \<or> v = Some JNull"

definition reads_text :: "json option \<Rightarrow> string \<Rightarrow> bool" where
  "reads_text v t \<longleftrightarrow> (\<exists>raw. v = Some (JStr raw) \<and> js_trim raw = t \<and> t \<noteq> [])"

definition reads_id :: "json option \<Rightarrow> string \<Rightarrow> bool" where
  "reads_id v i \<longleftrightarrow> id_text i \<and> ((\<exists>raw. v = Some (JStr raw) \<and> js_trim raw = i) \<or>
     (\<exists>n. v = Some (JNum (of_nat n)) \<and> n < 10 ^ 21 \<and> i = nat_text n))"

definition step_denotes :: "json \<Rightarrow> plan_step \<Rightarrow> bool" where
  "step_denotes item s \<longleftrightarrow> (\<exists>fs. item = JObj fs \<and>
     reads_text (json_field fs ''id'') (st_id s) \<and> reads_text (json_field fs ''tool'') (st_tool s) \<and>
     reads_text (json_field fs ''inputHash'') (st_inputHash s) \<and>
     (json_field fs ''status'' = Some (JStr (status_text (st_status s))) \<or> is_absent (json_field fs ''status'') \<and> st_status s = Pending) \<and>
     (is_absent (json_field fs ''dependsOn'') \<and> st_dependsOn s = [] \<or>
       (\<exists>vs. json_field fs ''dependsOn'' = Some (JArr vs) \<and> list_all2 (\<lambda>v. reads_text (Some v)) vs (st_dependsOn s))) \<and>
     (json_field fs ''estimatedCost'' = Some (JNum (st_estimatedCost s)) \<and> natural (st_estimatedCost s) \<or>
       is_absent (json_field fs ''estimatedCost'') \<and> st_estimatedCost s = 0) \<and>
     (case st_batchSize s of None \<Rightarrow> json_field fs ''batchSize'' = None
       | Some b \<Rightarrow> json_field fs ''batchSize'' = Some (JNum (of_int b)) \<and> 0 \<le> b) \<and>
     json_field fs ''effect'' = map_option (\<lambda>e. JStr (effect_text e)) (st_effect s) \<and>
     (case st_concurrencyKey s of None \<Rightarrow> json_field fs ''concurrencyKey'' = None
       | Some k \<Rightarrow> reads_text (json_field fs ''concurrencyKey'') k) \<and>
     st_input s = (if json_field fs ''input'' = None \<and> json_field fs ''params'' = None then None
       else Some (objectOrEmpty (coalesce (json_field fs ''input'') (json_field fs ''params'')))) \<and>
     st_idempotencyKey s = None \<and> st_taskId s = None \<and> st_leaseUntil s = None \<and> st_attemptCount s = None \<and>
     st_outputRef s = None \<and> st_lastError s = None)"

definition plan_denotes :: "json option \<Rightarrow> agent_plan \<Rightarrow> bool" where
  "plan_denotes v p \<longleftrightarrow> (\<exists>fs items. v = Some (JObj fs) \<and> json_field fs ''steps'' = Some (JArr items) \<and>
     list_all2 step_denotes items (pl_steps p) \<and> reads_id (json_field fs ''id'') (pl_id p) \<and>
     json_field fs ''version'' = Some (JNum (of_int (pl_version p))) \<and> 0 \<le> pl_version p \<and>
     json_field fs ''canvasVersion'' = Some (JNum (of_int (pl_canvasVersion p))) \<and> 0 \<le> pl_canvasVersion p)"

lemma coalesce_if: "coalesce v other = (if is_absent v then other else v)"
  by (cases "(v, other)" rule: coalesce.cases) (simp_all add: is_absent_def)

lemma requiredString_reads: "requiredString v = Inr t \<longleftrightarrow> reads_text v t"
  by (simp add: requiredString_Inr reads_text_def)

lemma planStepStatus_Inr:
  "planStepStatus v = Inr st \<longleftrightarrow> v = Some (JStr (status_text st)) \<or> is_absent v \<and> st = Pending"
  by (cases st) (auto simp: planStepStatus_def coalesce_if is_absent_def Let_def api_fail_not_Inr split: if_splits)

lemma requiredPlanStepEffect_Inr: "requiredPlanStepEffect v = Inr e \<longleftrightarrow> v = Some (JStr (effect_text e))"
  by (cases e) (auto simp: requiredPlanStepEffect_def api_fail_not_Inr)

lemma natural_floor: "natural n \<Longrightarrow> n = of_int \<lfloor>n\<rfloor> \<and> 0 \<le> \<lfloor>n\<rfloor>"
  by (auto simp: natural_def js_is_integer_def)

lemma requiredId_reads: "requiredId v = Inr i \<longleftrightarrow> reads_id v i"
proof (cases v rule: optionalId.cases)
  case (2 n)
  show ?thesis
  proof (cases "natural n \<and> n < 10 ^ 21")
    case True
    then obtain m where m: "n = of_nat m" using natural_floor [of n] nonneg_int_cases [of "\<lfloor>n\<rfloor>"] by (metis of_int_of_nat_eq)
    with True have "number_text n = nat_text m" "m < 10 ^ 21" by (simp_all add: number_text_def natural_def)
    with m 2 show ?thesis
      by (auto simp: requiredId_def orFail_Inr normalized_id_def reads_id_def id_text_def Let_def all_digits_trim [OF nat_text_all_digits])
  next
    case False
    then have "number_text n = ''-''" by (auto simp: number_text_def natural_def)
    then have "normalized_id (number_text n) = None" by (simp add: normalized_id_def js_trim_def js_space_def all_digits_def)
    moreover have "\<not> (\<exists>m. n = of_nat m \<and> m < 10 ^ 21)"
    proof
      assume "\<exists>m. n = of_nat m \<and> m < 10 ^ 21"
      then obtain m :: nat where m: "n = of_nat m" "m < 10 ^ 21" by blast
      then have "natural n" by (simp add: natural_def js_is_integer_def)
      moreover have "n < of_nat (10 ^ 21)" unfolding m(1) using m(2) by (simp only: of_nat_less_iff)
      ultimately show False using False by simp
    qed
    ultimately show ?thesis using 2 by (auto simp: requiredId_def orFail_Inr reads_id_def)
  qed
qed (auto simp: requiredId_def orFail_Inr reads_id_def id_text_def normalized_id_def Let_def)

lemma parse_step_iff:
  "parse_step item = Inr s \<longleftrightarrow> (\<exists>fs. item = JObj fs \<and> planStepStatus (json_field fs ''status'') = Inr (st_status s) \<and>
     requiredString (json_field fs ''id'') = Inr (st_id s) \<and> requiredString (json_field fs ''tool'') = Inr (st_tool s) \<and>
     stringArray (coalesce (json_field fs ''dependsOn'') (Some (JArr []))) = Inr (st_dependsOn s) \<and>
     requiredString (json_field fs ''inputHash'') = Inr (st_inputHash s) \<and>
     requiredInteger (coalesce (json_field fs ''estimatedCost'') (Some (JNum 0))) = Inr (st_estimatedCost s) \<and>
     (\<exists>batch. when_defined requiredInteger (json_field fs ''batchSize'') = Inr batch \<and> st_batchSize s = map_option floor batch) \<and>
     when_defined requiredPlanStepEffect (json_field fs ''effect'') = Inr (st_effect s) \<and>
     when_defined requiredString (json_field fs ''concurrencyKey'') = Inr (st_concurrencyKey s) \<and>
     st_input s = (if json_field fs ''input'' = None \<and> json_field fs ''params'' = None then None
       else Some (objectOrEmpty (coalesce (json_field fs ''input'') (json_field fs ''params'')))) \<and>
     st_idempotencyKey s = None \<and> st_taskId s = None \<and> st_leaseUntil s = None \<and> st_attemptCount s = None \<and>
     st_outputRef s = None \<and> st_lastError s = None)"
  by (cases s) (auto simp: parse_step_def rbind_Inr recordBody_Inr)

lemma batch_reads:
  "(\<exists>batch. when_defined requiredInteger v = Inr batch \<and> b = map_option floor batch) \<longleftrightarrow>
     (case b of None \<Rightarrow> v = None | Some n \<Rightarrow> v = Some (JNum (of_int n)) \<and> 0 \<le> n)"
  by (cases b) (auto simp: when_defined_Inr requiredInteger_Inr dest: natural_floor)

lemma effect_reads: "when_defined requiredPlanStepEffect v = Inr e \<longleftrightarrow> v = map_option (\<lambda>e. JStr (effect_text e)) e"
  by (cases e) (auto simp: when_defined_Inr requiredPlanStepEffect_Inr)

lemma key_reads: "when_defined requiredString v = Inr k \<longleftrightarrow> (case k of None \<Rightarrow> v = None | Some t \<Rightarrow> reads_text v t)"
  by (cases k) (auto simp: when_defined_Inr requiredString_reads reads_text_def)

lemma depends_reads:
  "stringArray (coalesce v (Some (JArr []))) = Inr ts \<longleftrightarrow>
     is_absent v \<and> ts = [] \<or> (\<exists>vs. v = Some (JArr vs) \<and> list_all2 (\<lambda>v. reads_text (Some v)) vs ts)"
  by (auto simp: stringArray_Inr requiredString_reads coalesce_if is_absent_def)

lemma cost_reads:
  "requiredInteger (coalesce v (Some (JNum 0))) = Inr n \<longleftrightarrow> v = Some (JNum n) \<and> natural n \<or> is_absent v \<and> n = 0"
  by (auto simp: requiredInteger_Inr coalesce_if is_absent_def natural_def)

lemma parse_step_denotes: "parse_step item = Inr s \<longleftrightarrow> step_denotes item s"
  unfolding parse_step_iff step_denotes_def planStepStatus_Inr requiredString_reads batch_reads effect_reads key_reads depends_reads cost_reads
  by blast

lemma parseAgentPlan_denotes: "parseAgentPlan v sid = Inr plan \<longleftrightarrow> plan_denotes v plan \<and> pl_sessionId plan = sid"
proof -
  have items: "(case w of Some (JArr items) \<Rightarrow> rmap parse_step items | _ \<Rightarrow> api_fail) = Inr steps \<longleftrightarrow>
    (\<exists>items. w = Some (JArr items) \<and> list_all2 step_denotes items steps)" for w steps
    by (cases w rule: stringArray.cases) (simp_all add: api_fail_not_Inr rmap_Inr parse_step_denotes)
  have version: "(\<exists>n. requiredInteger w = Inr n \<and> k = \<lfloor>n\<rfloor>) \<longleftrightarrow> w = Some (JNum (of_int k)) \<and> 0 \<le> k" for w k
    using natural_floor by (auto simp: requiredInteger_Inr)
  have "parseAgentPlan v sid = Inr plan \<longleftrightarrow> (\<exists>fs. v = Some (JObj fs) \<and>
      (case json_field fs ''steps'' of Some (JArr items) \<Rightarrow> rmap parse_step items | _ \<Rightarrow> api_fail) = Inr (pl_steps plan) \<and>
      requiredId (json_field fs ''id'') = Inr (pl_id plan) \<and>
      (\<exists>n. requiredInteger (json_field fs ''version'') = Inr n \<and> pl_version plan = \<lfloor>n\<rfloor>) \<and>
      (\<exists>n. requiredInteger (json_field fs ''canvasVersion'') = Inr n \<and> pl_canvasVersion plan = \<lfloor>n\<rfloor>)) \<and> pl_sessionId plan = sid"
    unfolding parseAgentPlan_def rbind_Inr recordBody_Inr by (cases plan) auto
  then show ?thesis unfolding items version requiredId_reads plan_denotes_def by blast
qed

text \<open>
  C31. The parser of a request accepts exactly the values that denote a plan, and returns that plan: every text trimmed and not
  empty, an id of digits, one of the five statuses and of the three effects or the default of an absent one, natural numbers
  for versions, costs and batch sizes.  What it can return are exactly the plans typed in this way, in which no step carries
  a lease, an idempotency key, a task or an outcome, and each of them is read back from its rendering.
\<close>

theorem parsed_plans_are_typed:
  "(parseAgentPlan v sid = Inr plan \<longleftrightarrow> plan_denotes v plan \<and> pl_sessionId plan = sid) \<and>
   ((\<exists>v. parseAgentPlan v sid = Inr plan) \<longleftrightarrow> plan_typed plan \<and> pl_sessionId plan = sid) \<and>
   (parseAgentPlan (Some (plan_value plan)) sid = Inr plan \<longleftrightarrow> plan_typed plan \<and> pl_sessionId plan = sid)"
proof -
  have "parseAgentPlan (Some (plan_value plan)) sid = Inr plan" if r: "plan_typed plan \<and> pl_sessionId plan = sid"
  proof -
    from r have steps: "rmap parse_step (map step_value (pl_steps plan)) = Inr (pl_steps plan)"
      by (intro rmap_inverse parse_step_value) (simp add: plan_typed_def list_all_iff)
    from r show ?thesis by (simp add: parseAgentPlan_def plan_value_def json_field_def steps requiredId_text plan_typed_def)
  qed
  with parsed_plan_typed parseAgentPlan_denotes show ?thesis by blast
qed

section \<open>Posted plans in the database\<close>

lemma map_sum_Inr_iff: "map_sum f id m = Inr x \<longleftrightarrow> m = Inr x"
  by (cases m) auto

text \<open>
  The parser takes the status of a step from the body and nothing else of its execution: a step posted as running has neither a
  lease that can expire nor an idempotency key with which it can be completed or failed.
\<close>

definition keyless :: "plan_step \<Rightarrow> bool" where
  "keyless s \<longleftrightarrow> st_status s = Running \<and> st_leaseUntil s = None \<and> st_idempotencyKey s = None"

lemma updateStep_other: "s \<in> set (pl_steps plan) \<Longrightarrow> st_id s \<noteq> i \<Longrightarrow> s \<in> set (pl_steps (updateStep plan i f))"
  by (auto simp: updateStep_steps)

lemma other_step: "find_step steps i = Some step \<Longrightarrow> ids_ok steps \<Longrightarrow> s \<in> set steps \<Longrightarrow> s \<noteq> step \<Longrightarrow> st_id s \<noteq> i"
  by (metis find_step_mem option.inject)

lemma keyless_kept_step:
  assumes "plan_step_to p q" "ids_ok (pl_steps p)" "s \<in> set (pl_steps p)" "keyless s"
  shows "s \<in> set (pl_steps q)"
  using assms
proof (induction rule: plan_step_to.induct)
  case (release plan now)
  then have "\<not> lease_expired now s" by (simp add: keyless_def lease_expired_def)
  with release show ?case by (auto simp: releaseExpiredLeases_def Let_def intro!: image_eqI [of _ _ s])
next
  case (claim plan i now ms plan')
  then obtain step where c: "find_step (pl_steps plan) i = Some step" "st_status step = Pending"
    "plan' = updateStep plan i (claim_overrides plan step (now + ms))" by (auto elim!: claim_ok simp: isReady_def)
  with claim.prems have "s \<noteq> step" by (auto simp: keyless_def)
  from other_step [OF c(1) claim.prems(1,2) this] show ?case unfolding c(3) by (rule updateStep_other [OF claim.prems(2)])
next
  case (complete plan i k out plan')
  then obtain step f where c: "find_step (pl_steps plan) i = Some step" "st_idempotencyKey step = Some k"
    "plan' = updateStep plan i f" by (auto simp: finish_ok)
  with complete.prems have "s \<noteq> step" by (auto simp: keyless_def)
  from other_step [OF c(1) complete.prems(1,2) this] show ?case unfolding c(3) by (rule updateStep_other [OF complete.prems(2)])
next
  case (fail plan i k err plan')
  then obtain step f where c: "find_step (pl_steps plan) i = Some step" "st_idempotencyKey step = Some k"
    "plan' = updateStep plan i f" by (auto simp: finish_ok)
  with fail.prems have "s \<noteq> step" by (auto simp: keyless_def)
  from other_step [OF c(1) fail.prems(1,2) this] show ?case unfolding c(3) by (rule updateStep_other [OF fail.prems(2)])
qed

lemma keyless_kept:
  assumes "plan_reaches p q" "ids_ok (pl_steps p)" "s \<in> set (pl_steps p)" "keyless s"
  shows "s \<in> set (pl_steps q)"
  using assms
proof (induction rule: plan_reaches.induct)
  case (next_step plan q r)
  then have "ids_ok (pl_steps q)" using plan_reaches_static static_ids by (fastforce simp: plan_static_def)
  with next_step keyless_kept_step show ?case by blast
qed

lemma keyless_kept_attach:
  assumes "attach_to i k t plan = Inr plan'" "ids_ok (pl_steps plan)" "s \<in> set (pl_steps plan)" "keyless s"
  shows "s \<in> set (pl_steps plan')"
proof -
  from attach_ok [OF assms(1)] obtain step where c: "find_step (pl_steps plan) i = Some step" "st_idempotencyKey step = Some k"
    "plan' = plan\<lparr>pl_version := pl_version plan + 1,
      pl_steps := map (\<lambda>c. if st_id c = i then c\<lparr>st_taskId := Some t\<rparr> else c) (pl_steps plan)\<rparr>" by blast
  with assms have "s \<noteq> step" by (auto simp: keyless_def)
  from other_step [OF c(1) assms(2,3) this] assms(3) show ?thesis by (auto simp: c(3) intro!: image_eqI [of _ _ s])
qed

definition holds_step :: "plan_db \<Rightarrow> string \<Rightarrow> plan_step \<Rightarrow> bool" where
  "holds_step db i s \<longleftrightarrow> (\<exists>plan. stored db i = Some plan \<and> s \<in> set (pl_steps plan))"

lemma held_ids_ok:
  assumes "repo_ok db" "stored db i = Some plan"
  shows "ids_ok (pl_steps plan)"
proof -
  from assms(2) obtain r where r: "find (\<lambda>r. pr_id r = i) (db_plans db) = Some r" "toPlan r = Inr plan"
    by (auto simp: stored_def split: option.splits sum.splits)
  then have "r \<in> set (db_plans db)" by (auto dest: find_SomeD)
  from stored_row [OF assms(1) this] r(2) show ?thesis by auto
qed

lemma holds_step_upd:
  assumes "repo_ok db" "stored db' = (stored db)(pid \<mapsto> next)" "stored db pid = Some current" "holds_step db i s"
    and "ids_ok (pl_steps current) \<Longrightarrow> s \<in> set (pl_steps current) \<Longrightarrow> s \<in> set (pl_steps next)"
  shows "holds_step db' i s"
  using assms held_ids_ok [OF assms(1,3)] by (auto simp: holds_step_def)

lemma holds_step_new:
  assumes "stored db pid = None" "stored db' = (stored db)(pid \<mapsto> next)" "holds_step db i s"
  shows "holds_step db' i s"
  using assms by (auto simp: holds_step_def)

lemma holds_step_kept:
  assumes "repo_step adm db db'" "repo_ok db" "holds_step db i s" "keyless s"
  shows "holds_step db' i s"
  using assms
proof (cases rule: repo_step.cases)
  case (sessions ss)
  with assms show ?thesis by (simp add: holds_step_def sessions_ok)
next
  case (create owner sid plan v profile c)
  from create_plan_ok [OF assms(2) create(1)] assms show ?thesis by (auto intro: holds_step_new)
next
  case (again newId pid owner j nxt cost)
  from rerun_plan_ok [OF assms(2) again] assms show ?thesis by (auto intro: holds_step_new)
next
  case (claim pid owner j now ms nxt)
  from claimStep_ok [OF assms(2) claim] assms keyless_kept show ?thesis by (blast intro: holds_step_upd)
next
  case (complete pid owner j k out nxt)
  from completeStep_ok [OF assms(2) complete] assms keyless_kept show ?thesis by (blast intro: holds_step_upd)
next
  case (fail pid owner j k err nxt)
  from failStep_ok [OF assms(2) fail] assms keyless_kept show ?thesis by (blast intro: holds_step_upd)
next
  case (attach pid owner j k t nxt)
  from attachTask_ok [OF assms(2) attach] assms keyless_kept_attach show ?thesis by (blast intro: holds_step_upd)
next
  case (task t st ec ref r)
  from completeTaskStep_ok [OF assms(2) task] assms keyless_kept show ?thesis by (blast intro: holds_step_upd)
qed

lemma holds_step_forever:
  assumes "(repo_step adm)\<^sup>*\<^sup>* db db'" "repo_ok db" "holds_step db i s" "keyless s"
  shows "repo_ok db' \<and> holds_step db' i s"
  using assms
proof (induction rule: rtranclp_induct)
  case (step y z)
  then show ?case using holds_step_kept repo_step_ok by blast
qed simp

lemma post_plan_Inr:
  assumes "post_plan user session request (Some db) = Inr (db', c)"
  shows "\<exists>v owner sid profile expected. parseAgentPlan v sid = Inr (cp_plan c) \<and>
    create_plan owner sid (cp_plan c) expected profile db = Inr (db', c)"
proof -
  from assms obtain v sid plan profile owner expected where p: "parseAgentPlan v sid = Inr plan"
    and c: "create_plan owner sid plan expected profile db = Inr (db', c)"
    by (auto simp: post_plan_def needs_database_def rbind_Inr map_sum_Inr_iff)
  from c have "cp_plan c = plan" by (auto simp: create_plan_def rbind_Inr map_sum_Inr compile_def throw_if_Inr)
  with p c show ?thesis by blast
qed

text \<open>
  A plan that is posted with a running step can never be finished: whatever is done in the database afterwards (claims that
  release expired leases, completions, failures, callbacks of tasks), the step stays in the plan as it was posted.
\<close>

theorem posted_running_step_stuck:
  assumes "post_plan user session request (Some db) = Inr (db', c)" "repo_ok db"
    and "s \<in> set (pl_steps (cp_plan c))" "st_status s = Running" "(repo_step adm)\<^sup>*\<^sup>* db' db''"
  shows "\<exists>plan. stored db'' (pl_id (cp_plan c)) = Some plan \<and> s \<in> set (pl_steps plan)"
proof -
  from post_plan_Inr [OF assms(1)] obtain v owner sid profile expected where
    p: "parseAgentPlan v sid = Inr (cp_plan c)" and c: "create_plan owner sid (cp_plan c) expected profile db = Inr (db', c)" by blast
  from p have "plan_typed (cp_plan c)" using parsed_plan_typed by blast
  with assms(3,4) have "keyless s" by (auto simp: plan_typed_def list_all_iff step_typed_def keyless_def)
  moreover from create_plan_ok [OF assms(2) c] assms(3) have "repo_ok db'" "holds_step db' (pl_id (cp_plan c)) s"
    by (auto simp: holds_step_def)
  ultimately show ?thesis using holds_step_forever [OF assms(5)] by (auto simp: holds_step_def)
qed

definition posted_body :: json where
  "posted_body = JObj [(''profile'', JStr ''canvas-general''), (''plan'', JObj [(''id'', JStr ''5''), (''version'', JNum 0),
     (''canvasVersion'', JNum 1), (''steps'', JArr [JObj [(''id'', JStr ''a''), (''tool'', JStr ''get_canvas_summary''),
       (''inputHash'', JStr ''h''), (''status'', JStr ''running'')]])])]"

definition posted_db :: plan_db where
  "posted_db = \<lparr>db_sessions = [\<lparr>se_id = ''9'', se_user_id = ''7'', se_status = None\<rparr>], db_plans = [], db_steps = []\<rparr>"

definition posted :: "plan_db \<times> compiled_plan" where
  "posted = projr (post_plan (Some ''7'') (Some ''9'') (Some posted_body) (Some posted_db))"

lemma posted_plan:
  "post_plan (Some ''7'') (Some ''9'') (Some posted_body) (Some posted_db) = Inr (fst posted, snd posted)"
  "map st_status (pl_steps (cp_plan (snd posted))) = [Running]" "pl_id (cp_plan (snd posted)) = ''5''"
  by code_simp+

theorem posted_running_step_stuck_witness:
  "\<exists>plan s. stored (fst posted) ''5'' = Some plan \<and> s \<in> set (pl_steps plan) \<and> st_status s = Running"
proof -
  have ok: "repo_ok posted_db" by (simp add: posted_db_def repo_ok_def plans_ok_def steps_ok_def)
  from posted_plan(2) obtain s where s: "s \<in> set (pl_steps (cp_plan (snd posted)))" "st_status s = Running" by auto
  from posted_running_step_stuck [OF posted_plan(1) ok s rtranclp.rtrancl_refl] s(2) posted_plan(3) show ?thesis by auto
qed

end
