(* ===== verification/PostProduction.thy ===== *)
theory PostProduction
  imports RequestParsing
begin

text \<open>
  Videos, narrations, subtitles and composites: \<^verbatim>\<open>domain/audio-subtitle-composite.ts\<close>,
  \<^verbatim>\<open>application/post-production-service.ts\<close> (in memory) and \<^verbatim>\<open>infrastructure/pg-post-production-repository.ts\<close>
  over its table (\<^verbatim>\<open>migrations/009\<close>).

  An id is a number, written in decimal where the code puts it in a text.  A call of the PostgreSQL service awaits several
  statements: what it reads is the check, its \<open>INSERT\<close> the commit, and the state may change between the two.
\<close>

datatype media_kind = Media_video | Media_tts | Media_subtitle | Media_composite
datatype media_status = Media_draft | Media_accepted | Media_failed

record media_artifact =
  ma_id :: nat
  ma_ownerId :: string
  ma_kind :: media_kind
  ma_status :: media_status
  ma_durationMs :: num
  ma_language :: "string option"
  ma_voiceId :: "string option"
  ma_taskId :: string
  ma_lineageIds :: "string list"
  ma_segments :: "timeline_segment list option"

datatype media_error =
    MP_INVALID_INPUT | MP_NOT_FOUND | MP_DURATION_MISMATCH | MP_SUBTITLE_OUT_OF_BOUNDS | MP_UPSTREAM_NOT_ACCEPTED
  | MP_INVALID_STATE | MP_CONSTRAINT

record video_input = vd_ownerId :: string  vd_durationMs :: num  vd_taskId :: string  vd_lineageIds :: "string list"

record tts_input =
  tt_ownerId :: string
  tt_videoId :: nat
  tt_durationMs :: num
  tt_language :: string
  tt_voiceId :: string
  tt_taskId :: string

record subtitle_input =
  su_ownerId :: string
  su_videoId :: nat
  su_durationMs :: num
  su_language :: string
  su_segments :: "timeline_segment list"
  su_taskId :: string

record composite_input = co_ownerId :: string  co_videoId :: nat  co_ttsId :: nat  co_subtitleId :: nat  co_taskId :: string

text \<open>
  The key of a narration.  The duration is that of the video, so its text adds nothing to the id; \<open>number_text\<close> writes the
  natural numbers below 1e21, more than an \<open>INTEGER\<close> column of durations holds.
\<close>

definition tts_key :: "nat \<Rightarrow> tts_input \<Rightarrow> string" where
  "tts_key videoId input = js_join '':'' [''tts'', nat_text videoId, tt_language input, tt_voiceId input, number_text (tt_durationMs input)]"

definition segment_bad :: "num \<Rightarrow> timeline_segment \<Rightarrow> bool" where
  "segment_bad durationMs s \<longleftrightarrow>
     ts_startMs s < 0 \<or> ts_endMs s \<le> ts_startMs s \<or> durationMs < ts_endMs s \<or> blank (ts_text s)"

section \<open>The in-memory service\<close>

record media_memory =
  mm_artifacts :: "(nat, media_artifact) jmap"
  mm_byLineage :: "(string, nat) jmap"

definition require_media :: "nat \<Rightarrow> string \<Rightarrow> media_kind \<Rightarrow> media_memory \<Rightarrow> media_error + media_artifact" where
  "require_media i ownerId kind m = (case jget (mm_artifacts m) i of
     None \<Rightarrow> Inl MP_NOT_FOUND
   | Some a \<Rightarrow> throw_if (ma_ownerId a \<noteq> ownerId \<or> ma_kind a \<noteq> kind) MP_NOT_FOUND (Inr a))"

definition store_media :: "media_artifact \<Rightarrow> media_memory \<Rightarrow> media_memory" where
  "store_media a m = m\<lparr>mm_artifacts := jset (ma_id a) a (mm_artifacts m)\<rparr>"

definition registerVideo :: "nat \<Rightarrow> video_input \<Rightarrow> media_memory \<Rightarrow> media_artifact \<times> media_memory" where
  "registerVideo newId input m =
     (let video = \<lparr>ma_id = newId, ma_ownerId = vd_ownerId input, ma_kind = Media_video, ma_status = Media_accepted,
        ma_durationMs = vd_durationMs input, ma_language = None, ma_voiceId = None, ma_taskId = vd_taskId input,
        ma_lineageIds = vd_lineageIds input, ma_segments = None\<rparr>
      in (video, store_media video m))"

definition tts_artifact :: "nat \<Rightarrow> tts_input \<Rightarrow> media_artifact \<Rightarrow> media_artifact" where
  "tts_artifact newId input video = \<lparr>ma_id = newId, ma_ownerId = tt_ownerId input, ma_kind = Media_tts, ma_status = Media_accepted,
     ma_durationMs = tt_durationMs input, ma_language = Some (tt_language input), ma_voiceId = Some (tt_voiceId input),
     ma_taskId = tt_taskId input, ma_lineageIds = [nat_text (ma_id video)], ma_segments = None\<rparr>"

definition createTts :: "nat \<Rightarrow> tts_input \<Rightarrow> media_memory \<Rightarrow> media_error + (media_artifact \<times> media_memory)" where
  "createTts newId input m =
     rbind (require_media (tt_videoId input) (tt_ownerId input) Media_video m) (\<lambda>video.
     throw_if (ma_durationMs video \<noteq> tt_durationMs input) MP_DURATION_MISMATCH
      (case jget (mm_byLineage m) (tts_key (ma_id video) input) of
         Some existing \<Rightarrow> rbind (require_media existing (tt_ownerId input) Media_tts m) (\<lambda>a. Inr (a, m))
       | None \<Rightarrow> (let a = tts_artifact newId input video
           in Inr (a, (store_media a m)\<lparr>mm_byLineage := jset (tts_key (ma_id video) input) newId (mm_byLineage m)\<rparr>))))"

definition createSubtitle :: "nat \<Rightarrow> subtitle_input \<Rightarrow> media_memory \<Rightarrow> media_error + (media_artifact \<times> media_memory)" where
  "createSubtitle newId input m =
     rbind (require_media (su_videoId input) (su_ownerId input) Media_video m) (\<lambda>video.
     throw_if (ma_durationMs video \<noteq> su_durationMs input) MP_DURATION_MISMATCH
    (throw_if (\<exists>s \<in> set (su_segments input). segment_bad (su_durationMs input) s) MP_SUBTITLE_OUT_OF_BOUNDS
      (let a = \<lparr>ma_id = newId, ma_ownerId = su_ownerId input, ma_kind = Media_subtitle, ma_status = Media_accepted,
           ma_durationMs = su_durationMs input, ma_language = Some (su_language input), ma_voiceId = None,
           ma_taskId = su_taskId input, ma_lineageIds = [nat_text (ma_id video)], ma_segments = Some (su_segments input)\<rparr>
       in Inr (a, store_media a m))))"

definition createComposite :: "nat \<Rightarrow> composite_input \<Rightarrow> media_memory \<Rightarrow> media_error + (media_artifact \<times> media_memory)" where
  "createComposite newId input m =
     rbind (require_media (co_videoId input) (co_ownerId input) Media_video m) (\<lambda>video.
     rbind (require_media (co_ttsId input) (co_ownerId input) Media_tts m) (\<lambda>tts.
     rbind (require_media (co_subtitleId input) (co_ownerId input) Media_subtitle m) (\<lambda>subtitle.
     throw_if (ma_status tts \<noteq> Media_accepted \<or> ma_status subtitle \<noteq> Media_accepted) MP_UPSTREAM_NOT_ACCEPTED
    (throw_if (ma_durationMs video \<noteq> ma_durationMs tts \<or> ma_durationMs video \<noteq> ma_durationMs subtitle) MP_DURATION_MISMATCH
      (let a = \<lparr>ma_id = newId, ma_ownerId = co_ownerId input, ma_kind = Media_composite, ma_status = Media_accepted,
           ma_durationMs = ma_durationMs video, ma_language = None, ma_voiceId = None, ma_taskId = co_taskId input,
           ma_lineageIds = [nat_text (ma_id video), nat_text (ma_id tts), nat_text (ma_id subtitle)], ma_segments = None\<rparr>
       in Inr (a, store_media a m))))))"

section \<open>Rows\<close>

record media_row =
  mr_id :: nat
  mr_owner_id :: string
  mr_kind :: media_kind
  mr_status :: media_status
  mr_duration_ms :: num
  mr_language :: "string option"
  mr_voice_id :: "string option"
  mr_task_id :: string
  mr_idempotency_key :: string
  mr_lineage_ids :: json
  mr_segments :: json
  mr_dedupe_key :: "string option"
  mr_created_at :: int

fun string_elements :: "json list \<Rightarrow> string list option" where
  "string_elements [] = Some []"
| "string_elements (JStr s # vs) = map_option ((#) s) (string_elements vs)"
| "string_elements (v # vs) = None"

definition media_stringArray :: "json \<Rightarrow> media_error + string list" where
  "media_stringArray v = (case v of
     JArr vs \<Rightarrow> require_some MP_INVALID_STATE (string_elements vs) | _ \<Rightarrow> Inl MP_INVALID_STATE)"

definition segment_of :: "json \<Rightarrow> timeline_segment option" where
  "segment_of v = (case v of
     JObj fs \<Rightarrow> (case (json_field fs ''startMs'', json_field fs ''endMs'', json_field fs ''text'') of
         (Some (JNum a), Some (JNum b), Some (JStr t)) \<Rightarrow> Some \<lparr>ts_startMs = a, ts_endMs = b, ts_text = t\<rparr>
       | _ \<Rightarrow> None)
   | _ \<Rightarrow> None)"

definition timelineArray :: "json \<Rightarrow> media_error + timeline_segment list" where
  "timelineArray v = (case v of JArr vs \<Rightarrow> Inr (List.map_filter segment_of vs) | _ \<Rightarrow> Inl MP_INVALID_STATE)"

definition segment_value :: "timeline_segment \<Rightarrow> json" where
  "segment_value s = JObj [(''startMs'', JNum (ts_startMs s)), (''endMs'', JNum (ts_endMs s)), (''text'', JStr (ts_text s))]"

definition toArtifact :: "media_row \<Rightarrow> media_error + media_artifact" where
  "toArtifact r =
     rbind (media_stringArray (mr_lineage_ids r)) (\<lambda>lineage.
     rbind (if mr_kind r = Media_subtitle then map_sum id Some (timelineArray (mr_segments r)) else Inr None) (\<lambda>segments.
       Inr \<lparr>ma_id = mr_id r, ma_ownerId = mr_owner_id r, ma_kind = mr_kind r, ma_status = mr_status r,
         ma_durationMs = mr_duration_ms r, ma_language = mr_language r, ma_voiceId = mr_voice_id r, ma_taskId = mr_task_id r,
         ma_lineageIds = lineage, ma_segments = segments\<rparr>))"

definition first_artifact :: "(media_row \<Rightarrow> bool) \<Rightarrow> media_row list \<Rightarrow> media_error + media_artifact option" where
  "first_artifact P db = (case find P db of None \<Rightarrow> Inr None | Some r \<Rightarrow> map_sum id Some (toArtifact r))"

definition findByIdempotency :: "string \<Rightarrow> string \<Rightarrow> media_row list \<Rightarrow> media_error + media_artifact option" where
  "findByIdempotency ownerId key db =
     throw_if (blank key \<or> 128 < length key) MP_INVALID_INPUT
       (first_artifact (\<lambda>r. mr_owner_id r = ownerId \<and> mr_idempotency_key r = key) db)"

definition findByDedupe :: "string \<Rightarrow> string \<Rightarrow> media_row list \<Rightarrow> media_error + media_artifact option" where
  "findByDedupe ownerId key db = first_artifact (\<lambda>r. mr_owner_id r = ownerId \<and> mr_dedupe_key r = Some key) db"

definition pg_require_media :: "nat \<Rightarrow> string \<Rightarrow> media_kind \<Rightarrow> media_row list \<Rightarrow> media_error + media_artifact" where
  "pg_require_media i ownerId kind db =
     rbind (require_some MP_NOT_FOUND (find (\<lambda>r. mr_id r = i \<and> mr_owner_id r = ownerId \<and> mr_kind r = kind) db)) toArtifact"

definition assertDuration :: "media_artifact \<Rightarrow> num \<Rightarrow> media_error + unit" where
  "assertDuration video durationMs = throw_if (ma_durationMs video \<noteq> durationMs) MP_DURATION_MISMATCH (Inr ())"

text \<open>\<open>ORDER BY created_at DESC, id DESC\<close>.\<close>

definition list_media :: "string \<Rightarrow> media_row list \<Rightarrow> media_error + media_artifact list" where
  "list_media ownerId db = rmap toArtifact (sort_key (\<lambda>r. - mr_created_at r) (sort_key (\<lambda>r. - int (mr_id r))
     (filter (\<lambda>r. mr_owner_id r = ownerId) db)))"

section \<open>Inserting\<close>

record media_insert =
  mi_ownerId :: string
  mi_kind :: media_kind
  mi_status :: media_status
  mi_durationMs :: num
  mi_language :: "string option"
  mi_voiceId :: "string option"
  mi_taskId :: string
  mi_lineageIds :: "string list"
  mi_idempotencyKey :: string
  mi_segments :: "timeline_segment list option"
  mi_dedupeKey :: "string option"

definition media_row_of :: "nat \<Rightarrow> int \<Rightarrow> media_insert \<Rightarrow> media_row" where
  "media_row_of newId now i = \<lparr>mr_id = newId, mr_owner_id = mi_ownerId i, mr_kind = mi_kind i, mr_status = mi_status i,
     mr_duration_ms = mi_durationMs i, mr_language = mi_language i, mr_voice_id = mi_voiceId i, mr_task_id = mi_taskId i,
     mr_idempotency_key = mi_idempotencyKey i, mr_lineage_ids = JArr (map JStr (mi_lineageIds i)),
     mr_segments = JArr (map segment_value (case mi_segments i of None \<Rightarrow> [] | Some ss \<Rightarrow> ss)),
     mr_dedupe_key = mi_dedupeKey i, mr_created_at = now\<rparr>"

text \<open>A row that breaks a unique index: the artifact of the idempotency key is returned when there is one now.\<close>

definition insert_media :: "nat \<Rightarrow> int \<Rightarrow> media_insert \<Rightarrow> media_row list \<Rightarrow> media_error + (media_artifact \<times> media_row list)" where
  "insert_media newId now i db =
     throw_if (\<not> js_is_integer (mi_durationMs i) \<or> mi_durationMs i < 0) MP_CONSTRAINT
      (if \<exists>r \<in> set db. mr_id r = newId \<or> mr_owner_id r = mi_ownerId i \<and>
           (mr_idempotency_key r = mi_idempotencyKey i \<or> mr_dedupe_key r \<noteq> None \<and> mr_dedupe_key r = mi_dedupeKey i)
       then rbind (findByIdempotency (mi_ownerId i) (mi_idempotencyKey i) db) (\<lambda>found.
         case found of Some a \<Rightarrow> Inr (a, db) | None \<Rightarrow> Inl MP_CONSTRAINT)
       else rbind (toArtifact (media_row_of newId now i)) (\<lambda>a. Inr (a, db @ [media_row_of newId now i])))"

section \<open>The calls of the PostgreSQL service\<close>

datatype media_decision = Media_replay media_artifact | Media_insert media_insert

definition replay_or :: "string \<Rightarrow> string \<Rightarrow> media_row list \<Rightarrow> (media_error + media_decision) \<Rightarrow> media_error + media_decision" where
  "replay_or ownerId key db k = rbind (findByIdempotency ownerId key db) (\<lambda>replay.
     case replay of Some a \<Rightarrow> Inr (Media_replay a) | None \<Rightarrow> k)"

definition check_video :: "video_input \<Rightarrow> string \<Rightarrow> media_row list \<Rightarrow> media_error + media_decision" where
  "check_video input key db = replay_or (vd_ownerId input) key db
     (throw_if (\<not> js_is_integer (vd_durationMs input) \<or> vd_durationMs input \<le> 0) MP_INVALID_INPUT
       (Inr (Media_insert \<lparr>mi_ownerId = vd_ownerId input, mi_kind = Media_video, mi_status = Media_accepted,
          mi_durationMs = vd_durationMs input, mi_language = None, mi_voiceId = None, mi_taskId = vd_taskId input,
          mi_lineageIds = vd_lineageIds input, mi_idempotencyKey = key, mi_segments = None, mi_dedupeKey = None\<rparr>)))"

definition check_tts :: "tts_input \<Rightarrow> string \<Rightarrow> media_row list \<Rightarrow> media_error + media_decision" where
  "check_tts input key db = replay_or (tt_ownerId input) key db
     (rbind (pg_require_media (tt_videoId input) (tt_ownerId input) Media_video db) (\<lambda>video.
      rbind (assertDuration video (tt_durationMs input)) (\<lambda>_.
      rbind (findByDedupe (tt_ownerId input) (tts_key (ma_id video) input) db) (\<lambda>existing.
        case existing of Some a \<Rightarrow> Inr (Media_replay a)
        | None \<Rightarrow> Inr (Media_insert \<lparr>mi_ownerId = tt_ownerId input, mi_kind = Media_tts, mi_status = Media_accepted,
            mi_durationMs = tt_durationMs input, mi_language = Some (tt_language input), mi_voiceId = Some (tt_voiceId input),
            mi_taskId = tt_taskId input, mi_lineageIds = [nat_text (ma_id video)], mi_idempotencyKey = key, mi_segments = None,
            mi_dedupeKey = Some (tts_key (ma_id video) input)\<rparr>)))))"

definition check_subtitle :: "subtitle_input \<Rightarrow> string \<Rightarrow> media_row list \<Rightarrow> media_error + media_decision" where
  "check_subtitle input key db = replay_or (su_ownerId input) key db
     (rbind (pg_require_media (su_videoId input) (su_ownerId input) Media_video db) (\<lambda>video.
      rbind (assertDuration video (su_durationMs input)) (\<lambda>_.
      throw_if (\<exists>s \<in> set (su_segments input). segment_bad (su_durationMs input) s) MP_SUBTITLE_OUT_OF_BOUNDS
        (Inr (Media_insert \<lparr>mi_ownerId = su_ownerId input, mi_kind = Media_subtitle, mi_status = Media_accepted,
           mi_durationMs = su_durationMs input, mi_language = Some (su_language input), mi_voiceId = None,
           mi_taskId = su_taskId input, mi_lineageIds = [nat_text (ma_id video)], mi_idempotencyKey = key,
           mi_segments = Some (su_segments input), mi_dedupeKey = None\<rparr>)))))"

definition check_composite :: "composite_input \<Rightarrow> string \<Rightarrow> media_row list \<Rightarrow> media_error + media_decision" where
  "check_composite input key db = replay_or (co_ownerId input) key db
     (rbind (pg_require_media (co_videoId input) (co_ownerId input) Media_video db) (\<lambda>video.
      rbind (pg_require_media (co_ttsId input) (co_ownerId input) Media_tts db) (\<lambda>tts.
      rbind (pg_require_media (co_subtitleId input) (co_ownerId input) Media_subtitle db) (\<lambda>subtitle.
      throw_if (ma_status tts \<noteq> Media_accepted \<or> ma_status subtitle \<noteq> Media_accepted) MP_UPSTREAM_NOT_ACCEPTED
     (throw_if (ma_durationMs video \<noteq> ma_durationMs tts \<or> ma_durationMs video \<noteq> ma_durationMs subtitle) MP_DURATION_MISMATCH
        (Inr (Media_insert \<lparr>mi_ownerId = co_ownerId input, mi_kind = Media_composite, mi_status = Media_accepted,
           mi_durationMs = ma_durationMs video, mi_language = None, mi_voiceId = None, mi_taskId = co_taskId input,
           mi_lineageIds = [nat_text (ma_id video), nat_text (ma_id tts), nat_text (ma_id subtitle)],
           mi_idempotencyKey = key, mi_segments = None, mi_dedupeKey = None\<rparr>)))))))"

datatype media_call =
    Video_call video_input | Tts_call tts_input | Subtitle_call subtitle_input | Composite_call composite_input

fun media_check :: "media_call \<Rightarrow> string \<Rightarrow> media_row list \<Rightarrow> media_error + media_decision" where
  "media_check (Video_call i) = check_video i"
| "media_check (Tts_call i) = check_tts i"
| "media_check (Subtitle_call i) = check_subtitle i"
| "media_check (Composite_call i) = check_composite i"

fun call_owner :: "media_call \<Rightarrow> string" where
  "call_owner (Video_call i) = vd_ownerId i"
| "call_owner (Tts_call i) = tt_ownerId i"
| "call_owner (Subtitle_call i) = su_ownerId i"
| "call_owner (Composite_call i) = co_ownerId i"

definition perform_media :: "nat \<Rightarrow> int \<Rightarrow> media_call \<Rightarrow> string \<Rightarrow> media_row list \<Rightarrow> media_error + (media_artifact \<times> media_row list)" where
  "perform_media newId now call key db = rbind (media_check call key db) (\<lambda>d.
     case d of Media_replay a \<Rightarrow> Inr (a, db) | Media_insert i \<Rightarrow> insert_media newId now i db)"

text \<open>
  What concurrent calls reach: a check leaves the row it wants to insert, and a commit inserts it later, in whatever the table is
  by then.
\<close>

inductive media_reaches :: "media_row list \<Rightarrow> media_insert set \<Rightarrow> bool" where
  start: "media_reaches [] {}"
| check: "media_reaches db P \<Longrightarrow> media_check call key db = Inr (Media_insert i) \<Longrightarrow> media_reaches db (insert i P)"
| commit: "media_reaches db P \<Longrightarrow> i \<in> P \<Longrightarrow> insert_media newId now i db = Inr (a, db') \<Longrightarrow> media_reaches db' P"

section \<open>The table\<close>

definition sibling :: "media_row list \<Rightarrow> media_kind \<Rightarrow> media_row \<Rightarrow> media_row \<Rightarrow> bool" where
  "sibling db k r v \<longleftrightarrow> v \<in> set db \<and> mr_kind v = k \<and> mr_owner_id v = mr_owner_id r \<and> mr_duration_ms v = mr_duration_ms r"

definition lineage_is :: "media_row \<Rightarrow> media_row list \<Rightarrow> bool" where
  "lineage_is r vs \<longleftrightarrow> mr_lineage_ids r = JArr (map (\<lambda>v. JStr (nat_text (mr_id v))) vs)"

definition narration_key :: "nat \<Rightarrow> media_row \<Rightarrow> string option" where
  "narration_key videoId r = (case (mr_language r, mr_voice_id r) of
     (Some language, Some voice) \<Rightarrow> Some (js_join '':'' [''tts'', nat_text videoId, language, voice, number_text (mr_duration_ms r)])
   | _ \<Rightarrow> None)"

definition media_sound :: "media_row list \<Rightarrow> media_row \<Rightarrow> bool" where
  "media_sound db r \<longleftrightarrow> mr_status r = Media_accepted \<and> js_is_integer (mr_duration_ms r) \<and> 0 < mr_duration_ms r \<and>
     (\<exists>a. toArtifact r = Inr a) \<and>
     (mr_kind r = Media_tts \<or> mr_kind r = Media_subtitle \<longrightarrow> (\<exists>v. sibling db Media_video r v \<and> lineage_is r [v])) \<and>
     (mr_kind r = Media_tts \<longrightarrow> (\<exists>v. sibling db Media_video r v \<and> lineage_is r [v] \<and>
        mr_dedupe_key r = narration_key (mr_id v) r \<and> mr_dedupe_key r \<noteq> None)) \<and>
     (mr_kind r = Media_subtitle \<longrightarrow> (\<exists>ss. timelineArray (mr_segments r) = Inr ss \<and>
        (\<forall>s \<in> set ss. 0 \<le> ts_startMs s \<and> ts_startMs s < ts_endMs s \<and> ts_endMs s \<le> mr_duration_ms r \<and> \<not> blank (ts_text s)))) \<and>
     (mr_kind r = Media_composite \<longrightarrow> (\<exists>v t u. sibling db Media_video r v \<and> sibling db Media_tts r t \<and>
        sibling db Media_subtitle r u \<and> lineage_is r [v, t, u]))"

definition media_ok :: "media_row list \<Rightarrow> bool" where
  "media_ok db \<longleftrightarrow> distinct (map mr_id db) \<and> distinct (map (\<lambda>r. (mr_owner_id r, mr_idempotency_key r)) db) \<and>
     distinct (List.map_filter (\<lambda>r. map_option (Pair (mr_owner_id r)) (mr_dedupe_key r)) db) \<and> (\<forall>r \<in> set db. media_sound db r)"

text \<open>What is written is read back.\<close>

lemma string_elements_texts [simp]: "string_elements (map JStr xs) = Some xs"
  by (induction xs) auto

lemma segment_of_value [simp]: "segment_of (segment_value s) = Some s"
  by (simp add: segment_of_def segment_value_def json_field_def)

lemma segments_back [simp]: "List.map_filter segment_of (map segment_value ss) = ss"
  by (induction ss) (auto simp: List.map_filter_def)

lemma timelineArray_values [simp]: "timelineArray (JArr (map segment_value ss)) = Inr ss"
  by (simp add: timelineArray_def)

lemma toArtifact_row_of:
  "toArtifact (media_row_of n t i) = Inr \<lparr>ma_id = n, ma_ownerId = mi_ownerId i, ma_kind = mi_kind i, ma_status = mi_status i,
     ma_durationMs = mi_durationMs i, ma_language = mi_language i, ma_voiceId = mi_voiceId i, ma_taskId = mi_taskId i,
     ma_lineageIds = mi_lineageIds i,
     ma_segments = (if mi_kind i = Media_subtitle then Some (case mi_segments i of None \<Rightarrow> [] | Some ss \<Rightarrow> ss) else None)\<rparr>"
  by (auto simp: toArtifact_def media_row_of_def media_stringArray_def)

lemma toArtifact_fields:
  "toArtifact r = Inr a \<Longrightarrow> ma_id a = mr_id r \<and> ma_ownerId a = mr_owner_id r \<and> ma_kind a = mr_kind r \<and> ma_status a = mr_status r \<and>
     ma_durationMs a = mr_duration_ms r"
  by (auto simp: toArtifact_def rbind_Inr)

lemma media_row_fields:
  "mr_owner_id (media_row_of n t i) = mi_ownerId i" "mr_kind (media_row_of n t i) = mi_kind i" "mr_status (media_row_of n t i) = mi_status i"
  "mr_duration_ms (media_row_of n t i) = mi_durationMs i" "mr_language (media_row_of n t i) = mi_language i"
  "mr_voice_id (media_row_of n t i) = mi_voiceId i" "mr_lineage_ids (media_row_of n t i) = JArr (map JStr (mi_lineageIds i))"
  "mr_segments (media_row_of n t i) = JArr (map segment_value (case mi_segments i of None \<Rightarrow> [] | Some ss \<Rightarrow> ss))"
  "mr_dedupe_key (media_row_of n t i) = mi_dedupeKey i"
  by (simp_all add: media_row_of_def)

lemma narration_key_row:
  "narration_key k (media_row_of n t i) = (case (mi_language i, mi_voiceId i) of
     (Some language, Some voice) \<Rightarrow> Some (js_join '':'' [''tts'', nat_text k, language, voice, number_text (mi_durationMs i)])
   | _ \<Rightarrow> None)"
  by (cases "mi_language i"; cases "mi_voiceId i") (simp_all add: narration_key_def media_row_fields)

text \<open>A row stays sound when the table grows, whatever its id and time.\<close>

lemma media_sound_mono: "media_sound db r \<Longrightarrow> set db \<subseteq> set db' \<Longrightarrow> media_sound db' r"
  unfolding media_sound_def sibling_def by blast

lemma media_sound_row: "media_sound db (media_row_of n t i) = media_sound db (media_row_of 0 0 i)"
  by (simp add: media_sound_def toArtifact_row_of sibling_def lineage_is_def narration_key_row media_row_fields)

section \<open>Checks and commits\<close>

lemma replay_or_Insert: "replay_or owner key db k = Inr (Media_insert i) \<longleftrightarrow> findByIdempotency owner key db = Inr None \<and> k = Inr (Media_insert i)"
  by (auto simp: replay_or_def rbind_Inr split: option.splits)

lemma pg_require_media_Inr:
  assumes "pg_require_media n owner k db = Inr a"
  shows "\<exists>r \<in> set db. toArtifact r = Inr a \<and> mr_id r = n \<and> mr_owner_id r = owner \<and> mr_kind r = k"
  using assms by (auto simp: pg_require_media_def rbind_Inr require_some_Inr dest!: find_SomeD)

lemma check_sound:
  assumes "media_check call key db = Inr (Media_insert i)" "\<forall>r \<in> set db. media_sound db r"
  shows "media_sound db (media_row_of 0 0 i) \<and> mi_ownerId i = call_owner call \<and> mi_idempotencyKey i = key \<and> \<not> blank key \<and> length key \<le> 128"
proof -
  have key: "findByIdempotency (call_owner call) key db = Inr None" and own: "mi_ownerId i = call_owner call" "mi_idempotencyKey i = key"
    using assms(1) by (cases call; auto simp: check_video_def check_tts_def check_subtitle_def check_composite_def
      replay_or_Insert rbind_Inr throw_if_Inr split: option.splits)+
  from key have "\<not> blank key \<and> length key \<le> 128" by (simp add: findByIdempotency_def throw_if_Inr)
  moreover have "media_sound db (media_row_of 0 0 i)"
  proof (cases call)
    case (Video_call input)
    with assms(1) show ?thesis
      by (auto simp: check_video_def replay_or_Insert throw_if_Inr media_sound_def toArtifact_row_of) (auto simp: media_row_of_def)
  next
    case (Tts_call input)
    with assms(1) obtain video where v: "pg_require_media (tt_videoId input) (tt_ownerId input) Media_video db = Inr video"
      "ma_durationMs video = tt_durationMs input"
      and i: "mi_ownerId i = tt_ownerId input" "mi_kind i = Media_tts" "mi_status i = Media_accepted"
        "mi_durationMs i = tt_durationMs input" "mi_lineageIds i = [nat_text (ma_id video)]" "mi_language i = Some (tt_language input)"
        "mi_voiceId i = Some (tt_voiceId input)" "mi_dedupeKey i = Some (tts_key (ma_id video) input)"
      by (auto simp: check_tts_def replay_or_Insert rbind_Inr throw_if_Inr assertDuration_def split: option.splits)
    from pg_require_media_Inr [OF v(1)] obtain r where r: "r \<in> set db" "toArtifact r = Inr video" "mr_owner_id r = tt_ownerId input"
      "mr_kind r = Media_video" by blast
    note f = toArtifact_fields [OF r(2)]
    have "sibling db Media_video (media_row_of 0 0 i) r" "lineage_is (media_row_of 0 0 i) [r]"
      using r f v(2) i by (simp_all add: sibling_def lineage_is_def media_row_of_def)
    moreover have "mr_dedupe_key (media_row_of 0 0 i) = narration_key (mr_id r) (media_row_of 0 0 i)" "mr_dedupe_key (media_row_of 0 0 i) \<noteq> None"
      using f i by (simp_all add: narration_key_def media_row_of_def tts_key_def)
    moreover have "js_is_integer (tt_durationMs input)" "0 < tt_durationMs input"
      using assms(2) r(1) f v(2) by (auto simp: media_sound_def)
    ultimately show ?thesis using i unfolding media_sound_def toArtifact_row_of by (auto simp: media_row_of_def)
  next
    case (Subtitle_call input)
    with assms(1) obtain video where v: "pg_require_media (su_videoId input) (su_ownerId input) Media_video db = Inr video"
      "ma_durationMs video = su_durationMs input"
      and i: "mi_ownerId i = su_ownerId input" "mi_kind i = Media_subtitle" "mi_status i = Media_accepted"
        "mi_durationMs i = su_durationMs input" "mi_lineageIds i = [nat_text (ma_id video)]" "mi_segments i = Some (su_segments input)"
        "\<forall>s \<in> set (su_segments input). \<not> segment_bad (su_durationMs input) s"
      by (auto simp: check_subtitle_def replay_or_Insert rbind_Inr throw_if_Inr assertDuration_def)
    from pg_require_media_Inr [OF v(1)] obtain r where r: "r \<in> set db" "toArtifact r = Inr video" "mr_owner_id r = su_ownerId input"
      "mr_kind r = Media_video" by blast
    note f = toArtifact_fields [OF r(2)]
    have "sibling db Media_video (media_row_of 0 0 i) r" "lineage_is (media_row_of 0 0 i) [r]"
      using r f v(2) i by (simp_all add: sibling_def lineage_is_def media_row_of_def)
    moreover have "js_is_integer (su_durationMs input)" "0 < su_durationMs input"
      using assms(2) r(1) f v(2) by (auto simp: media_sound_def)
    moreover have "timelineArray (mr_segments (media_row_of 0 0 i)) = Inr (su_segments input)" using i by (simp add: media_row_of_def)
    ultimately show ?thesis using i
      by (auto simp: media_sound_def toArtifact_row_of) (auto simp: media_row_of_def segment_bad_def not_less not_le)
  next
    case (Composite_call input)
    with assms(1) obtain video tts subtitle where v: "pg_require_media (co_videoId input) (co_ownerId input) Media_video db = Inr video"
      "pg_require_media (co_ttsId input) (co_ownerId input) Media_tts db = Inr tts"
      "pg_require_media (co_subtitleId input) (co_ownerId input) Media_subtitle db = Inr subtitle"
      "ma_durationMs video = ma_durationMs tts" "ma_durationMs video = ma_durationMs subtitle"
      and i: "mi_ownerId i = co_ownerId input" "mi_kind i = Media_composite" "mi_status i = Media_accepted"
        "mi_durationMs i = ma_durationMs video" "mi_lineageIds i = [nat_text (ma_id video), nat_text (ma_id tts), nat_text (ma_id subtitle)]"
      by (auto simp: check_composite_def replay_or_Insert rbind_Inr throw_if_Inr)
    from pg_require_media_Inr [OF v(1)] obtain r where r: "r \<in> set db" "toArtifact r = Inr video" "mr_owner_id r = co_ownerId input"
      "mr_kind r = Media_video" by blast
    from pg_require_media_Inr [OF v(2)] obtain t where t: "t \<in> set db" "toArtifact t = Inr tts" "mr_owner_id t = co_ownerId input"
      "mr_kind t = Media_tts" by blast
    from pg_require_media_Inr [OF v(3)] obtain u where u: "u \<in> set db" "toArtifact u = Inr subtitle" "mr_owner_id u = co_ownerId input"
      "mr_kind u = Media_subtitle" by blast
    note f = toArtifact_fields [OF r(2)] toArtifact_fields [OF t(2)] toArtifact_fields [OF u(2)]
    have "sibling db Media_video (media_row_of 0 0 i) r" "sibling db Media_tts (media_row_of 0 0 i) t"
      "sibling db Media_subtitle (media_row_of 0 0 i) u" "lineage_is (media_row_of 0 0 i) [r, t, u]"
      using r t u f v(4,5) i by (simp_all add: sibling_def lineage_is_def media_row_of_def)
    moreover have "js_is_integer (ma_durationMs video)" "0 < ma_durationMs video"
      using assms(2) r(1) f by (auto simp: media_sound_def)
    ultimately show ?thesis using i by (auto simp: media_sound_def toArtifact_row_of) (auto simp: media_row_of_def)
  qed
  ultimately show ?thesis using own by blast
qed

lemma insert_media_cases:
  assumes "insert_media n t i db = Inr (a, db')"
  shows "(db' = db \<and> findByIdempotency (mi_ownerId i) (mi_idempotencyKey i) db = Inr (Some a)) \<or>
    (db' = db @ [media_row_of n t i] \<and> toArtifact (media_row_of n t i) = Inr a \<and>
     (\<forall>r \<in> set db. mr_id r \<noteq> n \<and> (mr_owner_id r = mi_ownerId i \<longrightarrow> mr_idempotency_key r \<noteq> mi_idempotencyKey i \<and>
       (mr_dedupe_key r = None \<or> mr_dedupe_key r \<noteq> mi_dedupeKey i))))"
  using assms by (auto simp: insert_media_def throw_if_Inr rbind_Inr split: if_splits option.splits)

lemma insert_media_ok:
  assumes "insert_media n t i db = Inr (a, db')" "media_ok db" "media_sound db (media_row_of 0 0 i)"
  shows "media_ok db' \<and> set db \<subseteq> set db'"
proof (cases "db' = db")
  case False
  with insert_media_cases [OF assms(1)] have db': "db' = db @ [media_row_of n t i]"
    and new: "\<forall>r \<in> set db. mr_id r \<noteq> n \<and> (mr_owner_id r = mi_ownerId i \<longrightarrow> mr_idempotency_key r \<noteq> mi_idempotencyKey i \<and>
       (mr_dedupe_key r = None \<or> mr_dedupe_key r \<noteq> mi_dedupeKey i))" by auto
  have "media_sound db' r" if "r \<in> set db'" for r
    using that assms(2,3) media_sound_mono [of db _ db'] media_sound_row [of db n t i] by (auto simp: db' media_ok_def)
  moreover have "mr_id (media_row_of n t i) = n" "mr_owner_id (media_row_of n t i) = mi_ownerId i"
    "mr_idempotency_key (media_row_of n t i) = mi_idempotencyKey i" "mr_dedupe_key (media_row_of n t i) = mi_dedupeKey i"
    by (simp_all add: media_row_of_def)
  ultimately show ?thesis using assms(2) new by (fastforce simp: media_ok_def db' List.map_filter_def image_iff)
qed (use assms(2) in simp)

lemma media_reaches_ok: "media_reaches db P \<Longrightarrow> media_ok db \<and> (\<forall>i \<in> P. media_sound db (media_row_of 0 0 i))"
proof (induction rule: media_reaches.induct)
  case start
  then show ?case by (simp add: media_ok_def)
next
  case (check db P call key i)
  then show ?case using check_sound by (auto simp: media_ok_def)
next
  case (commit db P i newId now a db')
  then show ?case using insert_media_ok [OF commit(3)] media_sound_mono by blast
qed

section \<open>Properties\<close>

lemma nat_text_inject [simp]: "nat_text m = nat_text n \<longleftrightarrow> m = n"
proof (induction m arbitrary: n rule: nat_text.induct)
  case (1 m)
  have digit: "(char_of (48 + a :: nat) = (char_of (48 + b) :: char)) \<longleftrightarrow> a = b" if "a < 10" "b < 10" for a b
    using that by (simp add: char_of_eq_iff take_bit_nat_eq_self)
  show ?case
  proof (cases "m < 10")
    case True
    then show ?thesis using digit [of m n] by (cases "n < 10") (simp_all add: nat_text_nonempty [THEN not_sym] nat_text.simps [of m] nat_text.simps [of n])
  next
    case False
    then have "m = n" if "m div 10 = n div 10" "m mod 10 = n mod 10" for n using that by (metis div_mult_mod_eq)
    with 1 False digit [of "m mod 10" "n mod 10"] show ?thesis
      by (cases "n < 10") (auto simp: nat_text.simps [of m] nat_text.simps [of n])
  qed
qed

text \<open>Two narrations of one video in one language and voice have one key.\<close>

lemma narration_keys_equal:
  assumes "media_ok db" "q \<in> set db" "r \<in> set db" "mr_kind q = Media_tts" "mr_kind r = Media_tts"
    and "mr_lineage_ids q = mr_lineage_ids r" "mr_language q = mr_language r" "mr_voice_id q = mr_voice_id r"
  shows "mr_dedupe_key q = mr_dedupe_key r \<and> mr_dedupe_key r \<noteq> None"
proof -
  have keyed: "\<exists>v. sibling db Media_video x v \<and> lineage_is x [v] \<and> mr_dedupe_key x = narration_key (mr_id v) x \<and> mr_dedupe_key x \<noteq> None"
    if "x \<in> set db" "mr_kind x = Media_tts" for x
    using assms(1) that by (simp add: media_ok_def media_sound_def)
  from keyed [OF assms(2,4)] obtain v where v: "sibling db Media_video q v" "lineage_is q [v]" "mr_dedupe_key q = narration_key (mr_id v) q" by blast
  from keyed [OF assms(3,5)] obtain w where w: "sibling db Media_video r w" "lineage_is r [w]" "mr_dedupe_key r = narration_key (mr_id w) r"
    "mr_dedupe_key r \<noteq> None" by blast
  from v(2) w(2) assms(6) have "mr_id v = mr_id w" by (simp add: lineage_is_def)
  moreover from this v(1) w(1) assms(1) have "v = w" by (auto simp: sibling_def media_ok_def distinct_map dest: inj_onD)
  ultimately have "mr_duration_ms q = mr_duration_ms r" using v(1) w(1) by (simp add: sibling_def)
  with \<open>mr_id v = mr_id w\<close> assms(7,8) have "narration_key (mr_id v) q = narration_key (mr_id w) r" by (simp only: narration_key_def)
  with v(3) w(3,4) show ?thesis by simp
qed

text \<open>
  C32. Whatever calls run at the same time, every artifact of the table is accepted and readable, lasts a positive whole number of
  milliseconds, and has a sound lineage: a narration or subtitle names a video of its owner of the same duration, a composite a
  video, a narration and a subtitle that all last as long as it does; the segments of a subtitle lie within its duration and are
  not blank; and no owner has two artifacts under one idempotency key, or two narrations of one video in one language and voice.
\<close>

theorem media_lineage_sound:
  assumes "media_reaches db P" "r \<in> set db"
  shows "\<exists>a. toArtifact r = Inr a \<and> ma_status a = Media_accepted \<and> js_is_integer (ma_durationMs a) \<and> 0 < ma_durationMs a \<and>
    (ma_kind a = Media_tts \<or> ma_kind a = Media_subtitle \<longrightarrow> (\<exists>v. sibling db Media_video r v \<and> ma_lineageIds a = [nat_text (mr_id v)])) \<and>
    (ma_kind a = Media_subtitle \<longrightarrow> (\<exists>ss. ma_segments a = Some ss \<and> (\<forall>s \<in> set ss. 0 \<le> ts_startMs s \<and>
       ts_startMs s < ts_endMs s \<and> ts_endMs s \<le> ma_durationMs a \<and> \<not> blank (ts_text s)))) \<and>
    (ma_kind a = Media_composite \<longrightarrow> (\<exists>v t u. sibling db Media_video r v \<and> sibling db Media_tts r t \<and> sibling db Media_subtitle r u \<and>
       ma_lineageIds a = [nat_text (mr_id v), nat_text (mr_id t), nat_text (mr_id u)])) \<and>
    (\<forall>q \<in> set db. mr_owner_id q = mr_owner_id r \<and> (mr_idempotency_key q = mr_idempotency_key r \<or>
       mr_dedupe_key q = mr_dedupe_key r \<and> mr_dedupe_key r \<noteq> None) \<longrightarrow> q = r) \<and>
    (\<forall>q \<in> set db. mr_owner_id q = mr_owner_id r \<and> mr_kind q = Media_tts \<and> ma_kind a = Media_tts \<and>
       mr_lineage_ids q = mr_lineage_ids r \<and> mr_language q = mr_language r \<and> mr_voice_id q = mr_voice_id r \<longrightarrow> q = r)"
proof -
  from media_reaches_ok [OF assms(1)] have ok: "media_ok db" by blast
  then have sound: "media_sound db r" using assms(2) by (simp add: media_ok_def)
  then obtain a where a: "toArtifact r = Inr a" by (auto simp: media_sound_def)
  have lin: "ma_lineageIds a = map (\<lambda>v. nat_text (mr_id v)) vs" if "lineage_is r vs" for vs
  proof -
    have "string_elements (map (\<lambda>v. JStr (nat_text (mr_id v))) vs) = Some (map (\<lambda>v. nat_text (mr_id v)) vs)"
      by (induction vs) auto
    with that a show ?thesis by (auto simp: toArtifact_def rbind_Inr lineage_is_def media_stringArray_def require_some_Inr)
  qed
  have segs: "ma_segments a = Some ss" if "mr_kind r = Media_subtitle" "timelineArray (mr_segments r) = Inr ss" for ss
    using that a by (auto simp: toArtifact_def rbind_Inr)
  have same: "q = r" if "q \<in> set db" "mr_owner_id q = mr_owner_id r"
    "mr_idempotency_key q = mr_idempotency_key r \<or> mr_dedupe_key q = mr_dedupe_key r \<and> mr_dedupe_key r \<noteq> None" for q
  proof -
    have idem: "inj_on (\<lambda>r. (mr_owner_id r, mr_idempotency_key r)) (set db)" using ok by (simp add: media_ok_def distinct_map)
    from that(3) show ?thesis
    proof
      assume "mr_idempotency_key q = mr_idempotency_key r"
      with inj_onD [OF idem _ that(1) assms(2)] that(2) show ?thesis by simp
    next
      assume "mr_dedupe_key q = mr_dedupe_key r \<and> mr_dedupe_key r \<noteq> None"
      then obtain z where "mr_dedupe_key r = Some z" "mr_dedupe_key q = Some z" by auto
      with distinct_map_filterD [of "\<lambda>r. map_option (Pair (mr_owner_id r)) (mr_dedupe_key r)" db q r "(mr_owner_id r, z)"] ok that assms(2)
      show ?thesis by (simp add: media_ok_def)
    qed
  qed
  note f = toArtifact_fields [OF a]
  have narrated: "q = r" if "q \<in> set db" "mr_owner_id q = mr_owner_id r" "mr_kind q = Media_tts" "ma_kind a = Media_tts"
    "mr_lineage_ids q = mr_lineage_ids r" "mr_language q = mr_language r" "mr_voice_id q = mr_voice_id r" for q
  proof (rule same [OF that(1,2)])
    from that(4) f have "mr_kind r = Media_tts" by simp
    from narration_keys_equal [OF ok that(1) assms(2) that(3) this that(5-7)]
    show "mr_idempotency_key q = mr_idempotency_key r \<or> mr_dedupe_key q = mr_dedupe_key r \<and> mr_dedupe_key r \<noteq> None" by blast
  qed
  have pair: "\<exists>v. sibling db Media_video r v \<and> ma_lineageIds a = [nat_text (mr_id v)]"
    if "ma_kind a = Media_tts \<or> ma_kind a = Media_subtitle"
  proof -
    from that f sound obtain v where "sibling db Media_video r v" "lineage_is r [v]" unfolding media_sound_def by metis
    with lin [of "[v]"] show ?thesis by auto
  qed
  have joined: "\<exists>v t u. sibling db Media_video r v \<and> sibling db Media_tts r t \<and> sibling db Media_subtitle r u \<and>
       ma_lineageIds a = [nat_text (mr_id v), nat_text (mr_id t), nat_text (mr_id u)]" if "ma_kind a = Media_composite"
  proof -
    from that f sound obtain v t u where "sibling db Media_video r v" "sibling db Media_tts r t" "sibling db Media_subtitle r u"
      "lineage_is r [v, t, u]" unfolding media_sound_def by metis
    with lin [of "[v, t, u]"] show ?thesis by auto
  qed
  have timed: "\<exists>ss. ma_segments a = Some ss \<and> (\<forall>s \<in> set ss. 0 \<le> ts_startMs s \<and>
       ts_startMs s < ts_endMs s \<and> ts_endMs s \<le> ma_durationMs a \<and> \<not> blank (ts_text s))" if "ma_kind a = Media_subtitle"
    using that f sound segs by (auto simp: media_sound_def)
  have "ma_status a = Media_accepted" "js_is_integer (ma_durationMs a)" "0 < ma_durationMs a"
    using f sound by (simp_all add: media_sound_def)
  with a pair joined timed same narrated show ?thesis by blast
qed

text \<open>A stored idempotency key is found for good, and answers every call of its owner.\<close>

lemma find_unique_key:
  assumes "distinct (map f xs)" "x \<in> set xs" "\<And>y. P y \<longleftrightarrow> f y = f x"
  shows "find P xs = Some x"
  using assms(1,2) by (induction xs) (auto simp: assms(3) image_iff)

lemma key_answers:
  assumes "media_ok db" "r \<in> set db" "toArtifact r = Inr a" "\<not> blank (mr_idempotency_key r)" "length (mr_idempotency_key r) \<le> 128"
  shows "findByIdempotency (mr_owner_id r) (mr_idempotency_key r) db = Inr (Some a)"
    and "call_owner call = mr_owner_id r \<Longrightarrow> media_check call (mr_idempotency_key r) db = Inr (Media_replay a)"
proof -
  have "find (\<lambda>q. mr_owner_id q = mr_owner_id r \<and> mr_idempotency_key q = mr_idempotency_key r) db = Some r"
    using assms(1) by (intro find_unique_key [where f = "\<lambda>r. (mr_owner_id r, mr_idempotency_key r)", OF _ assms(2)]) (auto simp: media_ok_def)
  then show found: "findByIdempotency (mr_owner_id r) (mr_idempotency_key r) db = Inr (Some a)"
    using assms(3-5) by (simp add: findByIdempotency_def first_artifact_def)
  assume "call_owner call = mr_owner_id r"
  with found show "media_check call (mr_idempotency_key r) db = Inr (Media_replay a)"
    by (cases call) (simp_all add: check_video_def check_tts_def check_subtitle_def check_composite_def replay_or_def)
qed

text \<open>
  A call that created an artifact created it once: however the table grows afterwards, every call of the owner under the same
  idempotency key gets that artifact and leaves the table as it is, also one that had checked the key before it was stored.
\<close>

theorem media_created_once:
  assumes "media_reaches db P" "i \<in> P" "insert_media n t i db = Inr (a, db1)" "db1 \<noteq> db"
    and "media_reaches db2 P2" "set db1 \<subseteq> set db2" "call_owner call = mi_ownerId i"
    and "late \<in> P2" "mi_ownerId late = mi_ownerId i" "mi_idempotencyKey late = mi_idempotencyKey i"
    and "\<not> blank (mi_idempotencyKey i)" "length (mi_idempotencyKey i) \<le> 128"
  shows "perform_media n' t' call (mi_idempotencyKey i) db2 = Inr (a, db2) \<and> insert_media n' t' late db2 = Inr (a, db2)"
proof -
  let ?r = "media_row_of n t i"
  from insert_media_cases [OF assms(3)] assms(4) have r: "?r \<in> set db1" "toArtifact ?r = Inr a" by auto
  have fields: "mr_owner_id ?r = mi_ownerId i" "mr_idempotency_key ?r = mi_idempotencyKey i" by (simp_all add: media_row_of_def)
  from media_reaches_ok [OF assms(5)] have ok: "media_ok db2" by blast
  have mem: "?r \<in> set db2" using r assms(6) by blast
  note K = key_answers [OF ok mem r(2), unfolded fields, OF assms(11,12)]
  have "js_is_integer (mi_durationMs late)" "0 < mi_durationMs late"
    using media_reaches_ok [OF assms(5)] assms(8) by (auto simp: media_sound_def media_row_of_def)
  then have "insert_media n' t' late db2 = Inr (a, db2)"
    using K(1) mem fields assms(9,10) by (auto simp: insert_media_def)
  moreover have "perform_media n' t' call (mi_idempotencyKey i) db2 = Inr (a, db2)"
    using K(2) [OF assms(7)] by (simp add: perform_media_def)
  ultimately show ?thesis by blast
qed

section \<open>Instances\<close>

definition sample_video_call :: media_call where
  "sample_video_call = Video_call \<lparr>vd_ownerId = ''7'', vd_durationMs = 4000, vd_taskId = ''t'', vd_lineageIds = []\<rparr>"

definition sample_tts :: "nat \<Rightarrow> string \<Rightarrow> string \<Rightarrow> tts_input" where
  "sample_tts video language voice = \<lparr>tt_ownerId = ''7'', tt_videoId = video, tt_durationMs = 4000, tt_language = language,
     tt_voiceId = voice, tt_taskId = ''t''\<rparr>"

definition sample_subtitle :: "nat \<Rightarrow> subtitle_input" where
  "sample_subtitle video = \<lparr>su_ownerId = ''7'', su_videoId = video, su_durationMs = 4000, su_language = ''en'',
     su_segments = [\<lparr>ts_startMs = 0, ts_endMs = 1000, ts_text = ''hi''\<rparr>], su_taskId = ''t''\<rparr>"

fun perform_all :: "nat \<Rightarrow> (media_call \<times> string) list \<Rightarrow> media_row list \<Rightarrow> media_row list" where
  "perform_all n [] db = db"
| "perform_all n ((call, key) # rest) db = perform_all (Suc n) rest
     (case perform_media n (int n) call key db of Inl e \<Rightarrow> db | Inr (a, db') \<Rightarrow> db')"

definition two_videos :: "media_row list" where
  "two_videos = perform_all 1 [(sample_video_call, ''k1''), (sample_video_call, ''k2'')] []"

definition video_insert :: "string \<Rightarrow> media_insert" where
  "video_insert key = \<lparr>mi_ownerId = ''7'', mi_kind = Media_video, mi_status = Media_accepted, mi_durationMs = 4000, mi_language = None,
     mi_voiceId = None, mi_taskId = ''t'', mi_lineageIds = [], mi_idempotencyKey = key, mi_segments = None, mi_dedupeKey = None\<rparr>"

lemma two_videos_rows: "two_videos = [media_row_of 1 1 (video_insert ''k1''), media_row_of 2 2 (video_insert ''k2'')]"
  by code_simp

lemma sample_texts: "nat_text (Suc 0) = ''1''" "nat_text 2 = ''2''" "nat_text 3 = ''3''" "nat_text 4 = ''4''" "number_text 4000 = ''4000''"
  "js_trim ''k3'' = ''k3''" "js_trim ''k4'' = ''k4''" "js_trim ''k5'' = ''k5''" "js_trim ''hi'' = ''hi''"
  by code_simp+

lemmas media_eval = two_videos_rows sample_texts media_row_of_def video_insert_def check_tts_def check_subtitle_def check_composite_def
  replay_or_def findByIdempotency_def first_artifact_def findByDedupe_def pg_require_media_def assertDuration_def toArtifact_def
  media_stringArray_def timelineArray_values [of "[s]" for s, simplified] tts_key_def sample_tts_def sample_subtitle_def insert_media_def perform_media_def segment_bad_def

text \<open>
  What the checks leave open.  A composite may join a narration and a subtitle of another video that lasts as long; two languages
  and voices can share a key, and the narration of the one is returned for the other; and of two calls at the same time for one
  narration under two idempotency keys, the second fails, though it would have got the first one's artifact a moment later.
\<close>

lemma composite_of_other_video:
  "(case perform_media 5 9 (Composite_call \<lparr>co_ownerId = ''7'', co_videoId = 1, co_ttsId = 3, co_subtitleId = 4, co_taskId = ''t''\<rparr>) ''k5''
      (perform_all 3 [(Tts_call (sample_tts 2 ''en'' ''v''), ''k3''), (Subtitle_call (sample_subtitle 2), ''k4'')] two_videos) of
      Inr (a, db) \<Rightarrow> ma_lineageIds a = [''1'', ''3'', ''4''] | Inl e \<Rightarrow> False)"
  by (simp add: media_eval)

lemma narrations_share_key:
  "tts_key v (sample_tts v ''a:b'' ''c'') = tts_key v (sample_tts v ''a'' ''b:c'')"
  by (simp add: tts_key_def sample_tts_def)

lemma racing_narration_fails:
  "(case (media_check (Tts_call (sample_tts 1 ''en'' ''v'')) ''k3'' two_videos, media_check (Tts_call (sample_tts 1 ''en'' ''v'')) ''k4'' two_videos) of
      (Inr (Media_insert i), Inr (Media_insert j)) \<Rightarrow>
        (case insert_media 3 3 i two_videos of
           Inr (a, db) \<Rightarrow> insert_media 4 4 j db = Inl MP_CONSTRAINT \<and> perform_media 4 4 (Tts_call (sample_tts 1 ''en'' ''v'')) ''k4'' db = Inr (a, db)
         | Inl e \<Rightarrow> False)
    | _ \<Rightarrow> False)"
  by (simp add: media_eval)

definition narration_insert :: media_insert where
  "narration_insert = \<lparr>mi_ownerId = ''7'', mi_kind = Media_tts, mi_status = Media_accepted, mi_durationMs = 4000,
     mi_language = Some ''en'', mi_voiceId = Some ''v'', mi_taskId = ''t'', mi_lineageIds = [''1''], mi_idempotencyKey = ''k3'',
     mi_segments = None, mi_dedupeKey = Some ''tts:1:en:v:4000''\<rparr>"

abbreviation one_video :: "media_row list" where
  "one_video \<equiv> [media_row_of 1 1 (video_insert ''k1'')]"

lemma sample_media_steps:
  "media_check sample_video_call ''k1'' [] = Inr (Media_insert (video_insert ''k1''))"
  "\<exists>a. insert_media 1 1 (video_insert ''k1'') [] = Inr (a, one_video) \<and> ma_id a = 1"
  "media_check (Tts_call (sample_tts 1 ''en'' ''v'')) ''k3'' one_video = Inr (Media_insert narration_insert)"
  "\<exists>a. insert_media 3 3 narration_insert one_video = Inr (a, one_video @ [media_row_of 3 3 narration_insert])"
  "js_trim ''k1'' = ''k1''"
proof -
  show key: "js_trim ''k1'' = ''k1''" by code_simp
  show "media_check sample_video_call ''k1'' [] = Inr (Media_insert (video_insert ''k1''))"
    by (simp add: media_eval key sample_video_call_def check_video_def)
qed (simp_all add: media_eval narration_insert_def)

lemma one_video_reached: "media_reaches one_video {video_insert ''k1''}"
proof -
  from media_reaches.check [OF media_reaches.start sample_media_steps(1)] have "media_reaches [] {video_insert ''k1''}" .
  with sample_media_steps(2) show ?thesis by (blast intro: media_reaches.commit)
qed

theorem media_lineage_sound_witness:
  "\<exists>db v. media_row_of 3 3 narration_insert \<in> set db \<and> sibling db Media_video (media_row_of 3 3 narration_insert) v"
proof -
  let ?db = "one_video @ [media_row_of 3 3 narration_insert]"
  from media_reaches.check [OF one_video_reached sample_media_steps(3)] sample_media_steps(4)
  have "media_reaches ?db {narration_insert, video_insert ''k1''}" by (blast intro: media_reaches.commit)
  from media_lineage_sound [OF this, of "media_row_of 3 3 narration_insert"]
  have "\<exists>v. sibling ?db Media_video (media_row_of 3 3 narration_insert) v"
    by (auto simp: toArtifact_row_of narration_insert_def)
  moreover have "media_row_of 3 3 narration_insert \<in> set ?db" by simp
  ultimately show ?thesis by blast
qed

theorem media_created_once_witness:
  "\<exists>a. perform_media 2 2 sample_video_call ''k1'' one_video = Inr (a, one_video)"
proof -
  from sample_media_steps(2) obtain a where a: "insert_media 1 1 (video_insert ''k1'') [] = Inr (a, one_video)" by blast
  have start: "media_reaches [] {video_insert ''k1''}" using media_reaches.check [OF media_reaches.start sample_media_steps(1)] .
  have "perform_media 2 2 sample_video_call (mi_idempotencyKey (video_insert ''k1'')) one_video = Inr (a, one_video)"
    by (rule conjunct1 [OF media_created_once [OF start _ a _ one_video_reached, of _ "video_insert ''k1''"]])
      (simp_all add: sample_video_call_def video_insert_def sample_media_steps(5))
  then show ?thesis by (auto simp: video_insert_def)
qed

end
