(* ===== verification/CanvasCommands.thy ===== *)
theory CanvasCommands
  imports Prelude
begin

text \<open>
  The service of canvas commands (\<^verbatim>\<open>application/canvas-command-service.ts\<close>, \<^verbatim>\<open>tools/canvas-command-tools.ts\<close>).

  The gateway to the canvas service is a parameter: a function of its own state that answers a command with the fields of the
  result or an error.  The tools of a run are executed one after the other, so a call is one transition.
\<close>

datatype canvas_operation = Create_nodes | Connect_nodes | Layout_nodes | Update_node_config | Delete_nodes

type_synonym json_fields = "(string \<times> json) list"

record canvas_command =
  cm_userId :: string
  cm_canvasId :: string
  cm_requestId :: "string option"
  cm_expectedVersion :: num
  cm_idempotencyKey :: string
  cm_operation :: canvas_operation
  cm_payload :: json_fields

record gateway_error =
  gt_code :: "string option"
  gt_message :: string

type_synonym 'g canvas_gateway = "'g \<Rightarrow> canvas_command \<Rightarrow> (gateway_error + json_fields) \<times> 'g"

record command_service =
  sv_results :: "(string, json_fields) jmap"
  sv_failures :: "(string, string) jmap"

definition new_service :: command_service where
  "new_service = \<lparr>sv_results = [], sv_failures = []\<rparr>"

definition known_codes :: "string list" where
  "known_codes = [''PERMISSION_DENIED'', ''NOT_FOUND'', ''INVALID_INPUT'', ''BATCH_LIMIT_EXCEEDED'', ''VERSION_CONFLICT'']"

definition command_code :: "gateway_error \<Rightarrow> string" where
  "command_code err =
     (case find (\<lambda>candidate. gt_code err = Some candidate \<or> js_includes (gt_message err) candidate) known_codes of
        Some code \<Rightarrow> code
      | None \<Rightarrow> if js_includes (gt_message err) ''409'' then ''VERSION_CONFLICT'' else ''CANVAS_UNAVAILABLE'')"

definition execute_command :: "'g canvas_gateway \<Rightarrow> canvas_command \<Rightarrow> command_service \<times> 'g \<Rightarrow>
    (string + json_fields) \<times> command_service \<times> 'g" where
  "execute_command gw command st = (case st of (sv, g) \<Rightarrow>
     (case jget (sv_results sv) (cm_idempotencyKey command) of
        Some cached \<Rightarrow> (Inr cached, sv, g)
      | None \<Rightarrow>
         (case jget (sv_failures sv) (cm_idempotencyKey command) of
            Some failure \<Rightarrow> (Inl failure, sv, g)
          | None \<Rightarrow>
             (case gw g command of
                (Inr result, g') \<Rightarrow> (Inr result, sv\<lparr>sv_results := jset (cm_idempotencyKey command) result (sv_results sv)\<rparr>, g')
              | (Inl err, g') \<Rightarrow>
                  (Inl (command_code err), sv\<lparr>sv_failures := jset (cm_idempotencyKey command) (command_code err) (sv_failures sv)\<rparr>, g')))))"

text \<open>What a command needs besides its operation and payload.\<close>

record command_base =
  cb2_userId :: string
  cb2_canvasId :: string
  cb2_requestId :: "string option"
  cb2_expectedVersion :: num
  cb2_idempotencyKey :: string

definition command_of :: "command_base \<Rightarrow> canvas_operation \<Rightarrow> json_fields \<Rightarrow> canvas_command" where
  "command_of b operation payload = \<lparr>cm_userId = cb2_userId b, cm_canvasId = cb2_canvasId b, cm_requestId = cb2_requestId b,
     cm_expectedVersion = cb2_expectedVersion b, cm_idempotencyKey = cb2_idempotencyKey b, cm_operation = operation,
     cm_payload = payload\<rparr>"

definition limited :: "'a list \<Rightarrow> ('s \<Rightarrow> (string + 'r) \<times> 's) \<Rightarrow> 's \<Rightarrow> (string + 'r) \<times> 's" where
  "limited items k st = (if 20 < length items then (Inl ''BATCH_LIMIT_EXCEEDED'', st) else k st)"

definition json_texts :: "string list \<Rightarrow> json" where
  "json_texts xs = JArr (map JStr xs)"

definition createNodes :: "'g canvas_gateway \<Rightarrow> command_base \<Rightarrow> json list \<Rightarrow> command_service \<times> 'g \<Rightarrow>
    (string + json_fields) \<times> command_service \<times> 'g" where
  "createNodes gw b nodes = limited nodes (execute_command gw (command_of b Create_nodes [(''nodes'', JArr nodes)]))"

definition connectNodes :: "'g canvas_gateway \<Rightarrow> command_base \<Rightarrow> string list \<Rightarrow> command_service \<times> 'g \<Rightarrow>
    (string + json_fields) \<times> command_service \<times> 'g" where
  "connectNodes gw b nodeIds = limited nodeIds (execute_command gw (command_of b Connect_nodes [(''nodeIds'', json_texts nodeIds)]))"

definition layoutNodes :: "'g canvas_gateway \<Rightarrow> command_base \<Rightarrow> string list \<Rightarrow> json_fields \<Rightarrow> command_service \<times> 'g \<Rightarrow>
    (string + json_fields) \<times> command_service \<times> 'g" where
  "layoutNodes gw b nodeIds layout = limited nodeIds
     (execute_command gw (command_of b Layout_nodes [(''nodeIds'', json_texts nodeIds), (''layout'', JObj layout)]))"

definition updateNodeConfig :: "'g canvas_gateway \<Rightarrow> command_base \<Rightarrow> string \<Rightarrow> json_fields \<Rightarrow> command_service \<times> 'g \<Rightarrow>
    (string + json_fields) \<times> command_service \<times> 'g" where
  "updateNodeConfig gw b nodeId config =
     execute_command gw (command_of b Update_node_config [(''nodeId'', JStr nodeId), (''config'', JObj config)])"

definition deleteNodes :: "'g canvas_gateway \<Rightarrow> command_base \<Rightarrow> string list \<Rightarrow> command_service \<times> 'g \<Rightarrow>
    (string + json_fields) \<times> command_service \<times> 'g" where
  "deleteNodes gw b nodeIds = limited nodeIds (execute_command gw (command_of b Delete_nodes [(''nodeIds'', json_texts nodeIds)]))"

section \<open>Sequences of commands\<close>

fun execute_all :: "'g canvas_gateway \<Rightarrow> canvas_command list \<Rightarrow> command_service \<times> 'g \<Rightarrow> (string + json_fields) list \<times> command_service \<times> 'g" where
  "execute_all gw [] st = ([], st)"
| "execute_all gw (c # cs) st = (let (r, st') = execute_command gw c st; (rs, st'') = execute_all gw cs st' in (r # rs, st''))"

text \<open>A gateway that also keeps the commands it is asked to execute.\<close>

definition logged :: "'g canvas_gateway \<Rightarrow> (canvas_command list \<times> 'g) canvas_gateway" where
  "logged gw st c = (case gw (snd st) c of (r, g') \<Rightarrow> (r, fst st @ [c], g'))"

text \<open>The answer the service keeps for a key.\<close>

definition kept :: "command_service \<Rightarrow> string \<Rightarrow> (string + json_fields) option" where
  "kept sv k = (case jget (sv_results sv) k of Some r \<Rightarrow> Some (Inr r) | None \<Rightarrow> map_option Inl (jget (sv_failures sv) k))"

lemma execute_kept:
  "kept sv (cm_idempotencyKey c) = Some r \<Longrightarrow> execute_command gw c (sv, g) = (r, sv, g)"
  by (auto simp: kept_def execute_command_def split: option.splits)

lemma execute_new:
  assumes "kept sv (cm_idempotencyKey c) = None"
  shows "\<exists>sv'. execute_command gw c (sv, g) = (map_sum command_code id (fst (gw g c)), sv', snd (gw g c)) \<and>
    kept sv' = (kept sv)(cm_idempotencyKey c \<mapsto> map_sum command_code id (fst (gw g c)))"
  using assms by (cases "gw g c") (auto simp: kept_def execute_command_def fun_eq_iff split: option.splits sum.splits)

definition code_or_unavailable :: "string \<Rightarrow> bool" where
  "code_or_unavailable e \<longleftrightarrow> e \<in> set known_codes \<or> e = ''CANVAS_UNAVAILABLE''"

lemma command_code_known: "code_or_unavailable (command_code err)"
  by (auto simp: command_code_def code_or_unavailable_def known_codes_def split: option.splits dest: find_SomeD)

definition log_ok :: "command_service \<times> canvas_command list \<times> 'g \<Rightarrow> bool" where
  "log_ok st = (case st of (sv, asked, g) \<Rightarrow> distinct (map cm_idempotencyKey asked) \<and>
     (\<forall>k. kept sv k \<noteq> None \<longleftrightarrow> k \<in> cm_idempotencyKey ` set asked) \<and> (\<forall>k e. kept sv k = Some (Inl e) \<longrightarrow> code_or_unavailable e))"

lemma execute_logged:
  assumes "log_ok (sv, asked, g)" "execute_command (logged gw) c (sv, asked, g) = (r, sv', asked', g')"
  shows "log_ok (sv', asked', g') \<and> kept sv' (cm_idempotencyKey c) = Some r \<and> (\<forall>k. kept sv k \<noteq> None \<longrightarrow> kept sv' k = kept sv k)"
proof (cases "kept sv (cm_idempotencyKey c)")
  case (Some v)
  from execute_kept [OF this, of "logged gw"] assms Some show ?thesis by auto
next
  case None
  from execute_new [OF None, of "logged gw" "(asked, g)"] assms(2)
  have r: "r = map_sum command_code id (fst (gw g c))" "asked' = asked @ [c]"
    and k: "kept sv' = (kept sv)(cm_idempotencyKey c \<mapsto> r)" by (auto simp: logged_def split: prod.splits)
  have "code_or_unavailable e" if "r = Inl e" for e
    using that r(1) command_code_known by (cases "fst (gw g c)") auto
  moreover from assms(1) have "kept sv k \<noteq> None \<longleftrightarrow> k \<in> cm_idempotencyKey ` set asked" for k by (simp add: log_ok_def)
  with None have "cm_idempotencyKey c \<notin> cm_idempotencyKey ` set asked" by blast
  ultimately show ?thesis using assms(1) None r(2) k by (auto simp: log_ok_def)
qed

text \<open>
  C33. Within a run the canvas is asked at most once per idempotency key: the commands that reach the gateway have distinct keys,
  every later command under a key gets the answer of the first one, success or failure, and a failure is one of six codes.
\<close>

theorem canvas_asked_once_per_key:
  assumes "execute_all (logged gw) cs (new_service, [], g) = (rs, sv, asked, g')" "i < j" "j < length cs"
    and "cm_idempotencyKey (cs ! i) = cm_idempotencyKey (cs ! j)"
  shows "distinct (map cm_idempotencyKey asked) \<and> rs ! j = rs ! i \<and> (\<forall>e. rs ! i = Inl e \<longrightarrow> code_or_unavailable e)"
proof -
  have gen: "log_ok (sv, asked, g') \<and> length rs = length cs \<and> (\<forall>k. kept sv0 k \<noteq> None \<longrightarrow> kept sv k = kept sv0 k) \<and>
      (\<forall>i < length cs. kept sv (cm_idempotencyKey (cs ! i)) = Some (rs ! i))"
    if "log_ok (sv0, asked0, g0)" "execute_all (logged gw) cs (sv0, asked0, g0) = (rs, sv, asked, g')" for sv0 asked0 g0 rs cs
    using that
  proof (induction cs arbitrary: sv0 asked0 g0 rs)
    case (Cons c cs)
    obtain r sv1 log1 g1 where e: "execute_command (logged gw) c (sv0, asked0, g0) = (r, sv1, log1, g1)" by (metis prod_cases3)
    with Cons.prems(2) obtain rs' where rest: "execute_all (logged gw) cs (sv1, log1, g1) = (rs', sv, asked, g')" and rs: "rs = r # rs'"
      by (auto simp: Let_def split: prod.splits)
    note E = execute_logged [OF Cons.prems(1) e]
    from Cons.IH [OF conjunct1 [OF E] rest] have IH: "log_ok (sv, asked, g')" "length rs' = length cs"
      "\<forall>k. kept sv1 k \<noteq> None \<longrightarrow> kept sv k = kept sv1 k" "\<forall>i < length cs. kept sv (cm_idempotencyKey (cs ! i)) = Some (rs' ! i)" by auto
    have "kept sv (cm_idempotencyKey c) = Some r" using E IH(3) by simp
    moreover have "\<forall>k. kept sv0 k \<noteq> None \<longrightarrow> kept sv k = kept sv0 k" using E IH(3) by simp
    ultimately show ?case using IH rs by (auto simp: nth_Cons split: nat.split)
  qed simp
  have "log_ok (new_service, [], g)" by (simp add: log_ok_def kept_def new_service_def)
  from gen [OF this assms(1)] have ok: "log_ok (sv, asked, g')" and "\<forall>i < length cs. kept sv (cm_idempotencyKey (cs ! i)) = Some (rs ! i)" by simp_all
  then have "kept sv (cm_idempotencyKey (cs ! j)) = Some (rs ! j)" "kept sv (cm_idempotencyKey (cs ! j)) = Some (rs ! i)"
    using assms(2-4) by (metis less_trans)+
  with ok show ?thesis by (auto simp: log_ok_def)
qed

definition sample_command :: "canvas_operation \<Rightarrow> canvas_command" where
  "sample_command operation = \<lparr>cm_userId = ''7'', cm_canvasId = ''3'', cm_requestId = None, cm_expectedVersion = 1,
     cm_idempotencyKey = ''k'', cm_operation = operation, cm_payload = []\<rparr>"

theorem canvas_asked_once_per_key_witness:
  "\<exists>rs st. execute_all (logged (\<lambda>g c. (Inl \<lparr>gt_code = None, gt_message = ''HTTP_409''\<rparr>, g)))
      [sample_command Create_nodes, sample_command Delete_nodes] (new_service, [], ()) = (rs, st) \<and> rs ! 1 = rs ! 0"
proof -
  let ?gw = "\<lambda>g c. (Inl \<lparr>gt_code = None, gt_message = ''HTTP_409''\<rparr>, g)" and ?cs = "[sample_command Create_nodes, sample_command Delete_nodes]"
  obtain rs sv asked g' where e: "execute_all (logged ?gw) ?cs (new_service, [], ()) = (rs, sv, asked, g')" by (metis prod_cases4)
  from canvas_asked_once_per_key [OF e, of 0 1] have "rs ! 1 = rs ! 0" by (simp add: sample_command_def)
  with e show ?thesis by blast
qed

text \<open>An answer is kept for a key whatever the command was: a deletion under the key of a creation is answered with its nodes.\<close>

lemma key_shared_by_operations:
  "fst (execute_all (\<lambda>n c. (Inr [(''asked'', JNum (of_nat n))], Suc n)) [sample_command Create_nodes, sample_command Delete_nodes] (new_service, 1)) =
     [Inr [(''asked'', JNum 1)], Inr [(''asked'', JNum 1)]]"
  by (simp add: execute_command_def sample_command_def new_service_def)

end
