(* ===== verification/RuntimeTools.thy ===== *)
theory RuntimeTools
  imports CanvasCommands ReadTools Approval
begin

text \<open>
  The tools a run gives to the model (\<^verbatim>\<open>tools/runtime-tools.ts\<close>, \<^verbatim>\<open>tools/generation-tools.ts\<close>) over the service of
  canvas commands, the read tools and the approvals.

  The gateway is a parameter: \<open>rn_canvas\<close> executes commands, the other functions read its state.  \<open>JSON.stringify\<close>,
  \<open>JSON.parse\<close> and the text of a number are parameters too.  The tools of a run are executed one after the other, so a call of
  a tool is a transition of the world: the context, the services of the run and the gateway.  The pieces of text outside the
  first 256 characters that the classification of image operations looks for cannot occur in a model string.
\<close>

datatype tool_error = Gateway_error string | Plain_error string

record runtime_context =
  cx_userId :: string
  cx_sessionId :: string
  cx_runId :: "string option"
  cx_canvasId :: string
  cx_canvasVersion :: int
  cx_canvasVersionPinned :: bool
  cx_referenceNodeIds :: "string list"
  cx_requestId :: "string option"
  cx_confirmationPending :: bool
  cx_continueAfterTask :: "bool option"

record ('g, 's) world =
  wd_context :: runtime_context
  wd_commands :: command_service
  wd_gateway :: 'g
  wd_proposals :: "(string, planned_action) jmap"
  wd_approvals :: 's
  wd_announced :: "planned_action list"

record ('g, 's) runtime_env =
  rn_canvas :: "'g canvas_gateway"
  rn_read :: "'g \<Rightarrow> read_gateway"
  rn_summary :: "('g \<Rightarrow> string \<Rightarrow> string \<Rightarrow> string option \<Rightarrow> tool_error + json) option"
  rn_resolve :: "('g \<Rightarrow> string \<Rightarrow> string \<Rightarrow> string option \<Rightarrow> tool_error + string) option"
  rn_estimate :: "'g \<Rightarrow> string \<Rightarrow> string \<Rightarrow> json_fields \<Rightarrow> string option \<Rightarrow> tool_error + num"
  rn_audit :: "(json_fields \<Rightarrow> tool_error + json) option"
  rn_stringify :: "json \<Rightarrow> string"
  rn_parse :: "string \<Rightarrow> json option"
  rn_number :: "num \<Rightarrow> string"
  rn_approvals :: "'s approval_repository"
  rn_crypto :: crypto
  rn_secret :: string
  rn_ttl :: int

text \<open>What a call brings along: the id the model gave it, and the id, the nonce and the time for an approval.\<close>

record tool_call_ids =
  ti_callId :: string
  ti_actionId :: string
  ti_nonce :: string
  ti_now :: int

section \<open>Calls that change the world and may throw\<close>

type_synonym ('w, 'a) tool_run = "'w \<Rightarrow> (tool_error + 'a) \<times> 'w"

definition run_return :: "'a \<Rightarrow> ('w, 'a) tool_run" where
  "run_return x w = (Inr x, w)"

definition run_lift :: "tool_error + 'a \<Rightarrow> ('w, 'a) tool_run" where
  "run_lift r w = (r, w)"

definition run_bind :: "('w, 'a) tool_run \<Rightarrow> ('a \<Rightarrow> ('w, 'b) tool_run) \<Rightarrow> ('w, 'b) tool_run" where
  "run_bind m k w = (case m w of (Inl e, w') \<Rightarrow> (Inl e, w') | (Inr x, w') \<Rightarrow> k x w')"

definition run_guard :: "bool \<Rightarrow> tool_error \<Rightarrow> ('w, 'a) tool_run \<Rightarrow> ('w, 'a) tool_run" where
  "run_guard bad e m w = (if bad then (Inl e, w) else m w)"

definition plain :: "string + 'a \<Rightarrow> tool_error + 'a" where
  "plain r = map_sum Plain_error id r"

section \<open>Small readers\<close>

fun nonEmptyString :: "json option \<Rightarrow> string option" where
  "nonEmptyString (Some (JStr s)) = (if blank s then None else Some (js_trim s))"
| "nonEmptyString _ = None"

definition first_some :: "'a option list \<Rightarrow> 'a option" where
  "first_some xs = (case List.map_filter id xs of [] \<Rightarrow> None | x # _ \<Rightarrow> Some x)"

text \<open>A property of a value that is an object (arrays have none of those asked for), and the record a value is taken for.\<close>

definition jprop :: "json option \<Rightarrow> string \<Rightarrow> json option" where
  "jprop v k = (case v of Some (JObj fs) \<Rightarrow> json_field fs k | _ \<Rightarrow> None)"

definition record_of :: "json option \<Rightarrow> json_fields" where
  "record_of v = (case v of Some (JObj fs) \<Rightarrow> fs | _ \<Rightarrow> [])"

text \<open>\<open>{...fs, [k]: v}\<close>.\<close>

definition with_field :: "json_fields \<Rightarrow> string \<Rightarrow> json \<Rightarrow> json_fields" where
  "with_field fs k v = AList.update k v fs"

definition stringId :: "(num \<Rightarrow> string) \<Rightarrow> json option \<Rightarrow> string option" where
  "stringId numText v = (case v of
     Some (JStr s) \<Rightarrow> if blank s then None else Some (js_trim s)
   | Some (JObj fs) \<Rightarrow> (case coalesce (json_field fs ''id'') (json_field fs ''nodeId'') of
         Some (JStr s) \<Rightarrow> Some s | Some (JNum n) \<Rightarrow> Some (numText n) | _ \<Rightarrow> None)
   | _ \<Rightarrow> None)"

section \<open>The schemas the runtime checks itself\<close>

definition node_types :: "string list" where
  "node_types = [''text'', ''image'', ''video'', ''audio'', ''compose'', ''director'']"

definition creative_types :: "string list" where
  "creative_types = [''script'', ''character'', ''shot'', ''keyframe'', ''clip'', ''audio'', ''composite'']"

fun id_texts :: "nat \<Rightarrow> json \<Rightarrow> bool" where
  "id_texts lowest (JArr vs) \<longleftrightarrow> lowest \<le> length vs \<and> length vs \<le> 20 \<and>
     list_all (\<lambda>v. case v of JStr s \<Rightarrow> s \<noteq> [] | _ \<Rightarrow> False) vs"
| "id_texts lowest v \<longleftrightarrow> False"

definition optional_ok :: "(json \<Rightarrow> bool) \<Rightarrow> json option \<Rightarrow> bool" where
  "optional_ok P v = (case v of None \<Rightarrow> True | Some x \<Rightarrow> P x)"

fun canvas_node_ok :: "json \<Rightarrow> bool" where
  "canvas_node_ok (JObj fs) \<longleftrightarrow>
     list_all (\<lambda>(k, v). k \<in> set [''type'', ''creativeType'', ''prompt'', ''params'', ''sourceNodeIds'']) fs \<and>
     (case json_field fs ''type'' of Some (JStr t) \<Rightarrow> t \<in> set node_types | _ \<Rightarrow> False) \<and>
     optional_ok (\<lambda>v. case v of JStr t \<Rightarrow> t \<in> set creative_types | _ \<Rightarrow> False) (json_field fs ''creativeType'') \<and>
     optional_ok (\<lambda>v. case v of JStr t \<Rightarrow> length t \<le> 10000 | _ \<Rightarrow> False) (json_field fs ''prompt'') \<and>
     optional_ok (\<lambda>v. case v of JObj _ \<Rightarrow> True | _ \<Rightarrow> False) (json_field fs ''params'') \<and>
     optional_ok (id_texts 0) (json_field fs ''sourceNodeIds'')"
| "canvas_node_ok v \<longleftrightarrow> False"

fun node_array_ok :: "json \<Rightarrow> bool" where
  "node_array_ok (JArr vs) \<longleftrightarrow> 1 \<le> length vs \<and> length vs \<le> 20 \<and> list_all canvas_node_ok vs"
| "node_array_ok v \<longleftrightarrow> False"

definition parse_text :: "(string \<Rightarrow> json option) \<Rightarrow> (json \<Rightarrow> bool) \<Rightarrow> string \<Rightarrow> tool_error + json list" where
  "parse_text parse ok text = (case parse text of
     Some (JArr vs) \<Rightarrow> if ok (JArr vs) then Inr vs else Inl (Gateway_error ''INVALID_INPUT'')
   | _ \<Rightarrow> Inl (Gateway_error ''INVALID_INPUT''))"

definition parseNodeArray :: "(string \<Rightarrow> json option) \<Rightarrow> json \<Rightarrow> tool_error + json list" where
  "parseNodeArray parse nodes = (case nodes of
     JArr vs \<Rightarrow> Inr vs | JStr text \<Rightarrow> parse_text parse node_array_ok text | _ \<Rightarrow> Inl (Gateway_error ''INVALID_INPUT''))"

definition texts_of :: "json list \<Rightarrow> string list" where
  "texts_of vs = concat (map (\<lambda>v. case v of JStr s \<Rightarrow> [s] | _ \<Rightarrow> []) vs)"

definition parseNodeIdArray :: "(string \<Rightarrow> json option) \<Rightarrow> json \<Rightarrow> tool_error + string list" where
  "parseNodeIdArray parse nodeIds = (case nodeIds of
     JArr vs \<Rightarrow> Inr (texts_of vs)
   | JStr text \<Rightarrow> map_sum id texts_of (parse_text parse (id_texts 1) text)
   | _ \<Rightarrow> Inl (Gateway_error ''INVALID_INPUT''))"

section \<open>The canvas version\<close>

definition seen_version :: "json \<Rightarrow> json option" where
  "seen_version v = coalesce (jprop (Some v) ''canvasVersion'')
     (coalesce (jprop (jprop (Some v) ''canvas'') ''version'') (jprop (jprop (Some v) ''details'') ''canvasVersion''))"

definition remembered :: "json \<Rightarrow> bool \<Rightarrow> runtime_context \<Rightarrow> runtime_context" where
  "remembered v force cx = (case (v, seen_version v) of
     (JObj _, Some (JNum n)) \<Rightarrow>
        if js_is_integer n \<and> of_int (cx_canvasVersion cx) \<le> n \<and> (force \<or> \<not> cx_canvasVersionPinned cx)
        then cx\<lparr>cx_canvasVersion := \<lfloor>n\<rfloor>\<rparr> else cx
   | _ \<Rightarrow> cx)"

definition rememberCanvasVersion :: "json \<Rightarrow> bool \<Rightarrow> (('g, 's) world, json) tool_run" where
  "rememberCanvasVersion v force w = (Inr v, w\<lparr>wd_context := remembered v force (wd_context w)\<rparr>)"

definition assertCanvasVersion :: "('g, 's) runtime_env \<Rightarrow> (('g, 's) world, unit) tool_run" where
  "assertCanvasVersion env w = (let cx = wd_context w in
     (case rn_summary env of
        None \<Rightarrow> (Inr (), w)
      | Some summary \<Rightarrow>
         (case summary (wd_gateway w) (cx_userId cx) (cx_canvasId cx) (cx_requestId cx) of
            Inl e \<Rightarrow> (Inl e, w)
          | Inr v \<Rightarrow> (case jprop (jprop (Some v) ''canvas'') ''version'' of
                Some (JNum n) \<Rightarrow> if js_is_integer n \<and> n \<noteq> of_int (cx_canvasVersion cx)
                  then (Inl (Gateway_error ''VERSION_CONFLICT''), w) else (Inr (), w)
              | _ \<Rightarrow> (Inr (), w)))))"

definition assertNoPendingConfirmation :: "(('g, 's) world, 'a) tool_run \<Rightarrow> (('g, 's) world, 'a) tool_run" where
  "assertNoPendingConfirmation m w =
     run_guard (cx_confirmationPending (wd_context w)) (Gateway_error ''CONFIRMATION_REQUIRED'') m w"

section \<open>Canvas commands\<close>

definition base_of :: "runtime_context \<Rightarrow> string \<Rightarrow> command_base" where
  "base_of cx key = \<lparr>cb2_userId = cx_userId cx, cb2_canvasId = cx_canvasId cx, cb2_requestId = cx_requestId cx,
     cb2_expectedVersion = of_int (cx_canvasVersion cx), cb2_idempotencyKey = key\<rparr>"

text \<open>A call of the command service with the version the context knows at that moment.\<close>

definition run_command :: "(command_base \<Rightarrow> command_service \<times> 'g \<Rightarrow> (string + json_fields) \<times> command_service \<times> 'g) \<Rightarrow> string \<Rightarrow>
    (('g, 's) world, json) tool_run" where
  "run_command command key w =
     (case command (base_of (wd_context w) key) (wd_commands w, wd_gateway w) of
        (r, sv, g) \<Rightarrow> (map_sum Plain_error JObj r, w\<lparr>wd_commands := sv, wd_gateway := g\<rparr>))"

definition remember_command :: "(command_base \<Rightarrow> command_service \<times> 'g \<Rightarrow> (string + json_fields) \<times> command_service \<times> 'g) \<Rightarrow> string \<Rightarrow>
    (('g, 's) world, json) tool_run" where
  "remember_command command key = run_bind (run_command command key) (\<lambda>v. rememberCanvasVersion v True)"

definition defaultIdempotencyKey :: "runtime_context \<Rightarrow> string \<Rightarrow> string" where
  "defaultIdempotencyKey cx callId =
     take 128 ((case cx_runId cx of Some r \<Rightarrow> r | None \<Rightarrow> cx_sessionId cx) @ '':canvas:'' @ callId)"

definition isReferenceTarget :: "json option \<Rightarrow> bool" where
  "isReferenceTarget t = (case t of
     Some (JStr s) \<Rightarrow> s \<in> set [''image'', ''video'', ''audio'', ''compose'', ''director''] | _ \<Rightarrow> False)"

text \<open>The key of the edge from a reference to a created node.\<close>

definition edge_key :: "string \<Rightarrow> string \<Rightarrow> string \<Rightarrow> string" where
  "edge_key key source target = take 128 (key @ '':reference:'' @ source @ '':'' @ target)"

text \<open>The created nodes with an id, with the node of the request at the same place.\<close>

record reference_target =
  rt_id :: string
  rt_type :: "json option"
  rt_sources :: "string list"

definition created_target :: "json \<Rightarrow> json option \<Rightarrow> tool_error + reference_target option" where
  "created_target node requested = (case node of
     JNull \<Rightarrow> Inl (Plain_error ''TypeError'')
   | _ \<Rightarrow> (case jprop (Some node) ''id'' of
        Some (JStr i) \<Rightarrow> Inr (if i = [] then None else Some \<lparr>rt_id = i, rt_type = jprop requested ''type'',
          rt_sources = (case jprop requested ''sourceNodeIds'' of Some (JArr vs) \<Rightarrow> texts_of vs | _ \<Rightarrow> [])\<rparr>)
      | _ \<Rightarrow> Inr None))"

fun created_targets :: "json list \<Rightarrow> json list \<Rightarrow> tool_error + reference_target list" where
  "created_targets [] requested = Inr []"
| "created_targets (node # nodes) requested =
     rbind (created_target node (case requested of [] \<Rightarrow> None | r # _ \<Rightarrow> Some r)) (\<lambda>t.
     rbind (created_targets nodes (drop 1 requested)) (\<lambda>ts. Inr (case t of None \<Rightarrow> ts | Some t \<Rightarrow> t # ts)))"

definition sources_of :: "runtime_context \<Rightarrow> reference_target \<Rightarrow> string list" where
  "sources_of cx t =
     (let selected = (if isReferenceTarget (rt_type t) then cx_referenceNodeIds cx else []);
          declared = filter (\<lambda>s. s \<noteq> []) (rt_sources t)
      in filter (\<lambda>s. s \<noteq> []) (uniq (if declared \<noteq> [] then declared else selected)))"

fun connect_sources :: "('g, 's) runtime_env \<Rightarrow> string \<Rightarrow> string \<Rightarrow> string list \<Rightarrow> (('g, 's) world, (string \<times> string) list) tool_run" where
  "connect_sources env key target [] = run_return []"
| "connect_sources env key target (source # rest) =
     (if source = target then connect_sources env key target rest
      else run_bind (remember_command (\<lambda>b. connectNodes (rn_canvas env) b [source, target]) (edge_key key source target)) (\<lambda>_.
           run_bind (connect_sources env key target rest) (\<lambda>edges. run_return ((source, target) # edges))))"

fun connect_targets :: "('g, 's) runtime_env \<Rightarrow> string \<Rightarrow> reference_target list \<Rightarrow> (('g, 's) world, (string \<times> string) list) tool_run" where
  "connect_targets env key [] w = run_return [] w"
| "connect_targets env key (t # ts) w =
     run_bind (connect_sources env key (rt_id t) (sources_of (wd_context w) t)) (\<lambda>edges.
     run_bind (connect_targets env key ts) (\<lambda>more. run_return (edges @ more))) w"

definition edge_value :: "string \<times> string \<Rightarrow> json" where
  "edge_value e = JObj [(''sourceNodeId'', JStr (fst e)), (''targetNodeId'', JStr (snd e))]"

definition created_nodes :: "json \<Rightarrow> json list" where
  "created_nodes created = (case jprop (Some created) ''createdNodes'' of Some (JArr vs) \<Rightarrow> vs | _ \<Rightarrow> [])"

definition with_edges :: "json \<Rightarrow> (string \<times> string) list \<Rightarrow> (('g, 's) world, json) tool_run" where
  "with_edges created edges w = (Inr (if edges = [] then created
     else JObj (with_field (with_field (record_of (Some created)) ''canvasVersion'' (JNum (of_int (cx_canvasVersion (wd_context w)))))
       ''referenceEdges'' (JArr (map edge_value edges)))), w)"

definition createNodesWithReferenceEdges :: "('g, 's) runtime_env \<Rightarrow> json list \<Rightarrow> string \<Rightarrow> (('g, 's) world, json) tool_run" where
  "createNodesWithReferenceEdges env nodes key =
     run_bind (remember_command (\<lambda>b. createNodes (rn_canvas env) b nodes) key) (\<lambda>created.
     run_bind (run_lift (created_targets (created_nodes created) nodes)) (\<lambda>targets.
     run_bind (connect_targets env key targets) (\<lambda>edges. with_edges created edges)))"

section \<open>The parameters of a generation\<close>

definition is_compose :: "string \<Rightarrow> bool" where
  "is_compose modelType \<longleftrightarrow> modelType = ''compose'' \<or> modelType = ''compose-1.0''"

definition read_now :: "('g, 's) runtime_env \<Rightarrow> (read_gateway \<Rightarrow> runtime_context \<Rightarrow> string + json) \<Rightarrow> (('g, 's) world, json) tool_run" where
  "read_now env f w = (plain (f (rn_read env (wd_gateway w)) (wd_context w)), w)"

definition selected_nodes :: "('g, 's) runtime_env \<Rightarrow> string list \<Rightarrow> (('g, 's) world, json list) tool_run" where
  "selected_nodes env ids = run_bind
     (read_now env (\<lambda>gw cx. arrayResult (gw_getSelectedNodes gw (cx_userId cx) (cx_canvasId cx) ids (cx_requestId cx))))
     (\<lambda>v. run_return (case v of JArr vs \<Rightarrow> vs | _ \<Rightarrow> []))"

definition output_url :: "json \<Rightarrow> json option" where
  "output_url node = (let v = Some node; params = jprop v ''params'' in
     find (\<lambda>u. nonEmptyString (Some u) \<noteq> None) (List.map_filter id
       [jprop (jprop v ''output'') ''url'', jprop params ''output_url'', jprop params ''lastOutputUrl'', jprop params ''url'']))"

definition is_array :: "json option \<Rightarrow> bool" where
  "is_array v = (case v of Some (JArr _) \<Rightarrow> True | _ \<Rightarrow> False)"

definition array_of :: "json option \<Rightarrow> json list" where
  "array_of v = (case v of Some (JArr vs) \<Rightarrow> vs | _ \<Rightarrow> [])"

definition filled_text :: "json \<Rightarrow> bool" where
  "filled_text v \<longleftrightarrow> nonEmptyString (Some v) \<noteq> None"

definition withResolvedComposeInputs :: "('g, 's) runtime_env \<Rightarrow> string \<Rightarrow> json_fields \<Rightarrow> (('g, 's) world, json_fields) tool_run" where
  "withResolvedComposeInputs env modelType params =
     (let nodeIds = filter filled_text (array_of (json_field params ''inputNodeIds'')) in
      if \<not> is_compose modelType \<or> is_array (json_field params ''inputUrls'') \<or> is_array (json_field params ''inputs'') \<or> length nodeIds < 2
      then run_return params
      else run_bind (selected_nodes env (texts_of nodeIds)) (\<lambda>nodes.
        let urls = List.map_filter output_url nodes
        in if length urls < 2 then run_lift (Inl (Gateway_error ''INVALID_INPUT''))
           else run_return (with_field params ''inputUrls'' (JArr urls))))"

definition assertComposeInputs :: "string \<Rightarrow> json_fields \<Rightarrow> tool_error + unit" where
  "assertComposeInputs modelType params =
     (let input = coalesce (json_field params ''inputUrls'') (coalesce (json_field params ''inputs'') (json_field params ''inputNodeIds''))
      in throw_if (is_compose modelType \<and> length (filter filled_text (array_of input)) < 2) (Gateway_error ''INVALID_INPUT'') (Inr ()))"

definition node_prompt :: "json \<Rightarrow> string option" where
  "node_prompt node = (let v = Some node; params = jprop v ''params'' in
     first_some (map nonEmptyString [jprop v ''prompt'', jprop params ''prompt'', jprop params ''content'', jprop params ''text'']))"

definition reference_prompt :: "json \<Rightarrow> string option" where
  "reference_prompt node = (let v = Some node; params = jprop v ''params'' in
     first_some (map nonEmptyString [jprop v ''prompt'', jprop params ''prompt'', jprop params ''content'', jprop params ''text'',
       jprop params ''description'', jprop params ''scene'']))"

text \<open>The sources of the edges that lead to a node, as a summary of the canvas lists them.\<close>

definition incoming_sources :: "(num \<Rightarrow> string) \<Rightarrow> string \<Rightarrow> json \<Rightarrow> string list" where
  "incoming_sources numText nodeId summary = List.map_filter (\<lambda>edge.
     let target = stringId numText (coalesce (jprop (Some edge) ''targetNodeId'') (jprop (Some edge) ''target''));
         source = stringId numText (coalesce (jprop (Some edge) ''sourceNodeId'') (jprop (Some edge) ''source''))
     in if target = Some nodeId \<and> truthy source then source else None) (array_of (jprop (Some summary) ''edges''))"

definition reference_ids :: "('g, 's) runtime_env \<Rightarrow> string \<Rightarrow> (('g, 's) world, string list) tool_run" where
  "reference_ids env nodeId w = (
     if cx_referenceNodeIds (wd_context w) = [] \<and> rn_summary env \<noteq> None
     then run_bind (read_now env (\<lambda>gw cx. objectResult (gw_getCanvasSummary gw (cx_userId cx) (cx_canvasId cx) (cx_requestId cx))))
       (\<lambda>summary. run_return (incoming_sources (rn_number env) nodeId summary)) w
     else run_return (cx_referenceNodeIds (wd_context w)) w)"

definition withAuthoritativePrompt :: "('g, 's) runtime_env \<Rightarrow> string \<Rightarrow> json_fields \<Rightarrow> (('g, 's) world, json_fields) tool_run" where
  "withAuthoritativePrompt env nodeId params =
     (if nonEmptyString (json_field params ''prompt'') \<noteq> None then run_return params
      else run_bind (read_now env (\<lambda>gw cx. objectResult (gw_getNodeDetail gw (cx_userId cx) (cx_canvasId cx) nodeId (cx_requestId cx)))) (\<lambda>node.
        case node_prompt node of
          Some prompt \<Rightarrow> run_return (with_field params ''prompt'' (JStr prompt))
        | None \<Rightarrow>
            run_bind (reference_ids env nodeId) (\<lambda>references.
            if references = [] then run_return params
            else run_bind (selected_nodes env references) (\<lambda>nodes.
              run_return (case first_some (map reference_prompt nodes) of
                  Some prompt \<Rightarrow> with_field params ''prompt'' (JStr prompt) | None \<Rightarrow> params)))))"

definition inferImageOperation :: "json_fields \<Rightarrow> json_fields" where
  "inferImageOperation params = (case nonEmptyString (json_field params ''operation'') of
     Some explicit \<Rightarrow>
       if explicit \<in> set [''extend_right'', ''extend_left'', ''outpaint'', ''outpainting''] then with_field params ''operation'' (JStr ''outpaint_image'')
       else if explicit \<in> set [''upscale'', ''enhance''] then with_field params ''operation'' (JStr ''upscale_image'')
       else params
   | None \<Rightarrow>
       (let intent = ascii_lower (js_join '' '' (List.map_filter (\<lambda>k. nonEmptyString (json_field params k))
           [''prompt'', ''action'', ''content'', ''text'']))
        in if js_includes intent ''outpaint'' then with_field params ''operation'' (JStr ''outpaint_image'')
           else if js_includes intent ''upscale'' then with_field params ''operation'' (JStr ''upscale_image'')
           else params))"

section \<open>Proposing generations\<close>

record generation_request =
  gr_nodeId :: string
  gr_modelType :: string
  gr_modelParams :: json_fields
  gr_overwrite :: bool

record prepared_generation =
  pg_nodeId :: string
  pg_modelType :: string
  pg_modelParams :: json_fields
  pg_estimatedCost :: num
  pg_overwrite :: bool

definition resolveGenerationModel :: "('g, 's) runtime_env \<Rightarrow> string \<Rightarrow> (('g, 's) world, string) tool_run" where
  "resolveGenerationModel env requested w = (case rn_resolve env of
     None \<Rightarrow> (Inr requested, w)
   | Some f \<Rightarrow> (f (wd_gateway w) (cx_userId (wd_context w)) requested (cx_requestId (wd_context w)), w))"

definition estimate :: "('g, 's) runtime_env \<Rightarrow> string \<Rightarrow> json_fields \<Rightarrow> (('g, 's) world, num) tool_run" where
  "estimate env modelType params w =
     (rn_estimate env (wd_gateway w) (cx_userId (wd_context w)) modelType params (cx_requestId (wd_context w)), w)"

definition resolved_params :: "('g, 's) runtime_env \<Rightarrow> string \<Rightarrow> generation_request \<Rightarrow> (('g, 's) world, json_fields) tool_run" where
  "resolved_params env modelType g =
     run_bind (withAuthoritativePrompt env (gr_nodeId g) (gr_modelParams g)) (\<lambda>p.
     run_bind (withResolvedComposeInputs env modelType p) (\<lambda>q. run_return (inferImageOperation q)))"

definition approval_text :: "approval_error \<Rightarrow> string" where
  "approval_text e = (case e of
     CONFIRMATION_REQUIRED \<Rightarrow> ''CONFIRMATION_REQUIRED'' | VERSION_CONFLICT \<Rightarrow> ''VERSION_CONFLICT''
   | INVALID_INPUT \<Rightarrow> ''INVALID_INPUT'' | DB_CONSTRAINT \<Rightarrow> ''DB_CONSTRAINT'')"

definition flag :: "string \<Rightarrow> bool option \<Rightarrow> json_fields" where
  "flag k b = (case b of None \<Rightarrow> [] | Some b \<Rightarrow> [(k, JBool b)])"

definition plan_input :: "runtime_context \<Rightarrow> string \<Rightarrow> json_fields \<Rightarrow> num \<Rightarrow> plan_action_input" where
  "plan_input cx toolName params cost = \<lparr>pi_userId = cx_userId cx, pi_runId = cx_runId cx, pi_sessionId = cx_sessionId cx,
     pi_canvasId = cx_canvasId cx, pi_canvasVersion = cx_canvasVersion cx, pi_toolName = toolName, pi_params = params,
     pi_estimatedCost = cost, pi_risk = Some Risk_high, pi_requiresApproval = Some True\<rparr>"

text \<open>\<open>GenerationTools\<close>: a proposal is made once per key.\<close>

definition propose :: "('g, 's) runtime_env \<Rightarrow> tool_call_ids \<Rightarrow> string \<Rightarrow> plan_action_input \<Rightarrow> (('g, 's) world, planned_action) tool_run" where
  "propose env ids key input w = (case jget (wd_proposals w) key of
     Some existing \<Rightarrow> (Inr existing, w)
   | None \<Rightarrow>
      (case planAction (rn_approvals env) (rn_crypto env) (rn_secret env) (rn_ttl env) (ti_actionId ids) (ti_nonce ids) input
          (ti_now ids) (wd_approvals w) of
         Inl e \<Rightarrow> (Inl (Plain_error (approval_text e)), w)
       | Inr (action, s) \<Rightarrow> (Inr action, w\<lparr>wd_approvals := s, wd_proposals := jset key action (wd_proposals w)\<rparr>)))"

definition generation_fields :: "prepared_generation \<Rightarrow> json_fields" where
  "generation_fields p = [(''nodeId'', JStr (pg_nodeId p)), (''modelType'', JStr (pg_modelType p)),
     (''modelParams'', JObj (pg_modelParams p)), (''estimatedCost'', JNum (pg_estimatedCost p)), (''overwrite'', JBool (pg_overwrite p))]"

definition submitGeneration :: "('g, 's) runtime_env \<Rightarrow> tool_call_ids \<Rightarrow> prepared_generation \<Rightarrow> (('g, 's) world, planned_action) tool_run" where
  "submitGeneration env ids p w = (let cx = wd_context w in
     propose env ids (js_join '':'' [cx_sessionId cx, pg_nodeId p, pg_modelType p, rn_stringify env (JObj (pg_modelParams p))])
       (plan_input cx ''submit_generation''
          ([(''nodeId'', JStr (pg_nodeId p)), (''modelType'', JStr (pg_modelType p)), (''modelParams'', JObj (pg_modelParams p)),
            (''overwrite'', JBool (pg_overwrite p))] @ flag ''continueAfterTask'' (cx_continueAfterTask cx))
          (pg_estimatedCost p)) w)"

definition submitGenerationBatch :: "('g, 's) runtime_env \<Rightarrow> tool_call_ids \<Rightarrow> prepared_generation list \<Rightarrow> (('g, 's) world, planned_action) tool_run" where
  "submitGenerationBatch env ids ps w = (let cx = wd_context w; items = JArr (map (\<lambda>p. JObj (generation_fields p)) ps) in
     run_guard (length ps < 2) (Plain_error ''BATCH_REQUIRES_MULTIPLE_GENERATIONS'')
       (propose env ids (js_join '':'' [cx_sessionId cx, ''batch'', rn_stringify env items])
         (plan_input cx ''submit_generation_batch'' ([(''generations'', items)] @ flag ''continueAfterTask'' (cx_continueAfterTask cx))
           (foldl (\<lambda>total p. total + pg_estimatedCost p) 0 ps))) w)"

text \<open>
  The end of both tools: nothing more is written until the user has confirmed.  The callback \<open>onApprovalRequired\<close> is taken to
  return; it is awaited after the flag is set, so an error of it leaves the flag as it is here.
\<close>

definition announce :: "planned_action \<Rightarrow> (('g, 's) world, planned_action) tool_run" where
  "announce action w = (Inr action, w\<lparr>wd_context := (wd_context w)\<lparr>cx_confirmationPending := True\<rparr>,
     wd_announced := wd_announced w @ [action]\<rparr>)"

definition prepare :: "('g, 's) runtime_env \<Rightarrow> bool \<Rightarrow> generation_request \<Rightarrow> (('g, 's) world, prepared_generation) tool_run" where
  "prepare env check g =
     run_bind (resolveGenerationModel env (gr_modelType g)) (\<lambda>modelType.
     run_bind (resolved_params env modelType g) (\<lambda>params.
     run_bind (run_lift (assertComposeInputs modelType params)) (\<lambda>_.
     run_bind (if check then assertCanvasVersion env else run_return ()) (\<lambda>_.
     run_bind (estimate env modelType params) (\<lambda>cost.
       run_return \<lparr>pg_nodeId = gr_nodeId g, pg_modelType = modelType, pg_modelParams = params, pg_estimatedCost = cost,
         pg_overwrite = gr_overwrite g\<rparr>)))))"

fun prepare_all :: "('g, 's) runtime_env \<Rightarrow> generation_request list \<Rightarrow> (('g, 's) world, prepared_generation list) tool_run" where
  "prepare_all env [] = run_return []"
| "prepare_all env (g # gs) = run_bind (prepare env False g) (\<lambda>p. run_bind (prepare_all env gs) (\<lambda>ps. run_return (p # ps)))"

section \<open>The tools\<close>

datatype tool_use =
    Use_canvas_summary | Use_selected_nodes "string list" | Use_node_detail string | Use_list_models | Use_search_assets string
  | Use_task_status string | Use_render_audit json_fields
  | Use_create_nodes json "string option" | Use_connect_nodes "string list" string | Use_update_node string json_fields string
  | Use_layout_nodes "string list" json_fields string | Use_delete_nodes json "string option"
  | Use_submit_generation generation_request | Use_submit_batch "generation_request list"

datatype tool_reply = Value json | Confirmation planned_action

definition tool_codes :: "string list" where
  "tool_codes = [''PERMISSION_DENIED'', ''NOT_FOUND'', ''INVALID_INPUT'', ''BATCH_LIMIT_EXCEEDED'', ''VERSION_CONFLICT'',
     ''INSUFFICIENT_POINTS'', ''MODEL_UNAVAILABLE'', ''MODEL_TIMEOUT'', ''CONTENT_BLOCKED'', ''COST_CAP_EXCEEDED'', ''CANVAS_UNAVAILABLE'']"

definition toolErrorCodeFromMessage :: "string \<Rightarrow> string option" where
  "toolErrorCodeFromMessage message =
     find (\<lambda>code. message = code \<or> js_includes message (''['' @ code @ '']'')) tool_codes"

text \<open>The wrapper every tool is put into.\<close>

definition wrap_error :: "tool_error \<Rightarrow> tool_error" where
  "wrap_error e = (case e of
     Gateway_error code \<Rightarrow> Gateway_error code
   | Plain_error message \<Rightarrow> (case toolErrorCodeFromMessage message of
        Some code \<Rightarrow> Plain_error (''['' @ code @ ''] '' @ message) | None \<Rightarrow> Plain_error message))"

definition wrapped :: "(('g, 's) world, tool_reply) tool_run \<Rightarrow> (('g, 's) world, tool_reply) tool_run" where
  "wrapped m w = (case m w of (r, w') \<Rightarrow> (map_sum wrap_error id r, w'))"

definition as_value :: "(('g, 's) world, json) tool_run \<Rightarrow> (('g, 's) world, tool_reply) tool_run" where
  "as_value m = run_bind m (\<lambda>v. run_return (Value v))"

definition key_or_default :: "tool_call_ids \<Rightarrow> string option \<Rightarrow> ('g, 's) world \<Rightarrow> string" where
  "key_or_default ids key w = (case key of Some k \<Rightarrow> k | None \<Rightarrow> defaultIdempotencyKey (wd_context w) (ti_callId ids))"

definition create_nodes_tool :: "('g, 's) runtime_env \<Rightarrow> tool_call_ids \<Rightarrow> json \<Rightarrow> string option \<Rightarrow> (('g, 's) world, json) tool_run" where
  "create_nodes_tool env ids nodes key = assertNoPendingConfirmation (\<lambda>w.
     run_bind (run_lift (parseNodeArray (rn_parse env) nodes)) (\<lambda>ns.
       createNodesWithReferenceEdges env ns (key_or_default ids key w)) w)"

definition connect_nodes_tool :: "('g, 's) runtime_env \<Rightarrow> string list \<Rightarrow> string \<Rightarrow> (('g, 's) world, json) tool_run" where
  "connect_nodes_tool env nodeIds key =
     assertNoPendingConfirmation (remember_command (\<lambda>b. connectNodes (rn_canvas env) b nodeIds) key)"

definition update_node_tool :: "('g, 's) runtime_env \<Rightarrow> string \<Rightarrow> json_fields \<Rightarrow> string \<Rightarrow> (('g, 's) world, json) tool_run" where
  "update_node_tool env nodeId config key =
     assertNoPendingConfirmation (remember_command (\<lambda>b. updateNodeConfig (rn_canvas env) b nodeId config) key)"

definition layout_nodes_tool :: "('g, 's) runtime_env \<Rightarrow> string list \<Rightarrow> json_fields \<Rightarrow> string \<Rightarrow> (('g, 's) world, json) tool_run" where
  "layout_nodes_tool env nodeIds layout key =
     assertNoPendingConfirmation (remember_command (\<lambda>b. layoutNodes (rn_canvas env) b nodeIds layout) key)"

definition delete_nodes_tool :: "('g, 's) runtime_env \<Rightarrow> tool_call_ids \<Rightarrow> json \<Rightarrow> string option \<Rightarrow> (('g, 's) world, json) tool_run" where
  "delete_nodes_tool env ids nodeIds key = assertNoPendingConfirmation (\<lambda>w.
     run_bind (run_lift (parseNodeIdArray (rn_parse env) nodeIds)) (\<lambda>is.
       remember_command (\<lambda>b. deleteNodes (rn_canvas env) b is) (key_or_default ids key w)) w)"

definition submit_generation_tool :: "('g, 's) runtime_env \<Rightarrow> tool_call_ids \<Rightarrow> generation_request \<Rightarrow> (('g, 's) world, tool_reply) tool_run" where
  "submit_generation_tool env ids g = assertNoPendingConfirmation (run_bind (prepare env True g) (\<lambda>p.
     run_bind (submitGeneration env ids p) (\<lambda>action. run_bind (announce action) (\<lambda>a. run_return (Confirmation a)))))"

definition submit_batch_tool :: "('g, 's) runtime_env \<Rightarrow> tool_call_ids \<Rightarrow> generation_request list \<Rightarrow> (('g, 's) world, tool_reply) tool_run" where
  "submit_batch_tool env ids gs = assertNoPendingConfirmation (run_bind (assertCanvasVersion env) (\<lambda>_.
     run_bind (prepare_all env gs) (\<lambda>ps.
     run_bind (submitGenerationBatch env ids ps) (\<lambda>action. run_bind (announce action) (\<lambda>a. run_return (Confirmation a))))))"

lemmas writing_tools = create_nodes_tool_def connect_nodes_tool_def update_node_tool_def layout_nodes_tool_def delete_nodes_tool_def
  submit_generation_tool_def submit_batch_tool_def

fun tool_body :: "('g, 's) runtime_env \<Rightarrow> tool_call_ids \<Rightarrow> tool_use \<Rightarrow> (('g, 's) world, tool_reply) tool_run" where
  "tool_body env ids Use_canvas_summary = as_value (run_bind
     (read_now env (\<lambda>gw cx. objectResult (gw_getCanvasSummary gw (cx_userId cx) (cx_canvasId cx) (cx_requestId cx))))
     (\<lambda>v. rememberCanvasVersion v False))"
| "tool_body env ids (Use_selected_nodes nodeIds) = as_value
     (read_now env (\<lambda>gw cx. arrayResult (gw_getSelectedNodes gw (cx_userId cx) (cx_canvasId cx) nodeIds (cx_requestId cx))))"
| "tool_body env ids (Use_node_detail nodeId) = as_value
     (read_now env (\<lambda>gw cx. objectResult (gw_getNodeDetail gw (cx_userId cx) (cx_canvasId cx) nodeId (cx_requestId cx))))"
| "tool_body env ids Use_list_models = as_value (read_now env (\<lambda>gw cx. arrayResult (gw_listModels gw (cx_userId cx) (cx_requestId cx))))"
| "tool_body env ids (Use_search_assets query) = as_value
     (read_now env (\<lambda>gw cx. arrayResult (gw_searchAssets gw (cx_userId cx) query (cx_requestId cx))))"
| "tool_body env ids (Use_task_status taskId) = as_value
     (read_now env (\<lambda>gw cx. objectResult (gw_checkTaskStatus gw (cx_userId cx) taskId (cx_requestId cx))))"
| "tool_body env ids (Use_render_audit input) = as_value
     (run_lift (case rn_audit env of None \<Rightarrow> Inl (Plain_error ''TOOL_NOT_FOUND'') | Some audit \<Rightarrow> audit input))"
| "tool_body env ids (Use_create_nodes nodes key) = as_value (create_nodes_tool env ids nodes key)"
| "tool_body env ids (Use_connect_nodes nodeIds key) = as_value (connect_nodes_tool env nodeIds key)"
| "tool_body env ids (Use_update_node nodeId config key) = as_value (update_node_tool env nodeId config key)"
| "tool_body env ids (Use_layout_nodes nodeIds layout key) = as_value (layout_nodes_tool env nodeIds layout key)"
| "tool_body env ids (Use_delete_nodes nodeIds key) = as_value (delete_nodes_tool env ids nodeIds key)"
| "tool_body env ids (Use_submit_generation g) = submit_generation_tool env ids g"
| "tool_body env ids (Use_submit_batch gs) = submit_batch_tool env ids gs"

definition use_tool :: "('g, 's) runtime_env \<Rightarrow> tool_call_ids \<Rightarrow> tool_use \<Rightarrow> (('g, 's) world, tool_reply) tool_run" where
  "use_tool env ids call = wrapped (tool_body env ids call)"

fun use_tools :: "('g, 's) runtime_env \<Rightarrow> (tool_call_ids \<times> tool_use) list \<Rightarrow> ('g, 's) world \<Rightarrow>
    (tool_error + tool_reply) list \<times> ('g, 's) world" where
  "use_tools env [] w = ([], w)"
| "use_tools env ((ids, call) # rest) w =
     (let (r, w') = use_tool env ids call w; (rs, w'') = use_tools env rest w' in (r # rs, w''))"

section \<open>What a call leaves alone\<close>

lemma run_bind_Inr: "run_bind m k w = (Inr y, w2) \<longleftrightarrow> (\<exists>x w1. m w = (Inr x, w1) \<and> k x w1 = (Inr y, w2))"
  by (auto simp: run_bind_def split: prod.splits sum.splits)

lemma run_simps [simp]: "run_return x w = (Inr x, w)" "run_lift r w = (r, w)"
  by (simp_all add: run_return_def run_lift_def)

text \<open>The parts of the world that only writing tools change.\<close>

definition quiet :: "('g, 's) world \<Rightarrow> ('g, 's) world \<Rightarrow> bool" where
  "quiet w w' \<longleftrightarrow> wd_commands w' = wd_commands w \<and> wd_gateway w' = wd_gateway w \<and> wd_proposals w' = wd_proposals w \<and>
     wd_approvals w' = wd_approvals w \<and> wd_announced w' = wd_announced w \<and>
     cx_confirmationPending (wd_context w') = cx_confirmationPending (wd_context w)"

definition quiet_run :: "(('g, 's) world, 'a) tool_run \<Rightarrow> bool" where
  "quiet_run m \<longleftrightarrow> (\<forall>w. quiet w (snd (m w)))"

lemma quiet_refl [simp]: "quiet w w"
  by (simp add: quiet_def)

lemma quiet_trans: "quiet u v \<Longrightarrow> quiet v w \<Longrightarrow> quiet u w"
  by (simp add: quiet_def)

lemma quiet_return [intro]: "quiet_run (run_return x)" "quiet_run (run_lift r)" "quiet_run (read_now env f)"
  "quiet_run (rememberCanvasVersion v b)" "quiet_run (resolveGenerationModel env t)" "quiet_run (estimate env t p)"
  "quiet_run (assertCanvasVersion env)"
  by (auto simp: quiet_run_def read_now_def rememberCanvasVersion_def quiet_def remembered_def resolveGenerationModel_def estimate_def
    assertCanvasVersion_def Let_def split: option.splits json.splits sum.splits prod.splits)

lemma quiet_bind [intro]:
  assumes "quiet_run m" "\<And>x. quiet_run (k x)"
  shows "quiet_run (run_bind m k)"
  unfolding quiet_run_def
proof
  fix w
  obtain r w1 where m: "m w = (r, w1)" by (metis surj_pair)
  with assms(1) have q: "quiet w w1" unfolding quiet_run_def by (metis snd_conv)
  show "quiet w (snd (run_bind m k w))"
  proof (cases r)
    case (Inr x)
    have "quiet w1 (snd (k x w1))" using assms(2) [of x] by (simp add: quiet_run_def)
    with q have "quiet w (snd (k x w1))" by (rule quiet_trans)
    with m Inr show ?thesis by (simp add: run_bind_def)
  qed (use m q in \<open>simp add: run_bind_def\<close>)
qed

lemma quiet_Pair [simp, intro]: "quiet_run (Pair r)"
  by (simp add: quiet_run_def)

lemma quiet_selected [intro]: "quiet_run (selected_nodes env ids)"
  unfolding selected_nodes_def by blast

lemma quiet_references [intro]: "quiet_run (reference_ids env i)"
  unfolding quiet_run_def
proof
  fix w
  let ?m = "run_bind (read_now env (\<lambda>gw cx. objectResult (gw_getCanvasSummary gw (cx_userId cx) (cx_canvasId cx) (cx_requestId cx))))
       (\<lambda>summary. run_return (incoming_sources (rn_number env) i summary))"
  have "quiet_run ?m" by blast
  then have "quiet w (snd (?m w))" by (simp only: quiet_run_def)
  then show "quiet w (snd (reference_ids env i w))" by (simp only: reference_ids_def split: if_split) simp
qed

lemma quiet_prompt [intro]: "quiet_run (withAuthoritativePrompt env i p)"
proof -
  have "quiet_run (run_bind (selected_nodes env rs) (\<lambda>nodes. run_return (f nodes)))" for rs f by blast
  then have "quiet_run (run_bind (reference_ids env i) (\<lambda>rs. if rs = [] then run_return p
      else run_bind (selected_nodes env rs) (\<lambda>nodes. run_return (f nodes))))" for f
    by (intro quiet_bind quiet_references) auto
  then show ?thesis unfolding withAuthoritativePrompt_def by (auto intro!: quiet_bind split: option.split)
qed

lemma quiet_compose [intro]: "quiet_run (withResolvedComposeInputs env t p)"
  unfolding withResolvedComposeInputs_def Let_def by (auto intro!: quiet_bind)

lemma quiet_prepare [intro]: "quiet_run (prepare env b g)"
  unfolding prepare_def resolved_params_def by (auto intro!: quiet_bind)

lemma quiet_prepare_all [intro]: "quiet_run (prepare_all env gs)"
  by (induction gs) (auto intro!: quiet_bind)

definition writing :: "tool_use \<Rightarrow> bool" where
  "writing call \<longleftrightarrow> (case call of
     Use_create_nodes _ _ \<Rightarrow> True | Use_connect_nodes _ _ \<Rightarrow> True | Use_update_node _ _ _ \<Rightarrow> True | Use_layout_nodes _ _ _ \<Rightarrow> True
   | Use_delete_nodes _ _ \<Rightarrow> True | Use_submit_generation _ \<Rightarrow> True | Use_submit_batch _ \<Rightarrow> True | _ \<Rightarrow> False)"

lemma use_tool_reading: "\<not> writing call \<Longrightarrow> quiet w (snd (use_tool env ids call w))"
proof -
  assume r: "\<not> writing call"
  have "quiet_run (tool_body env ids call)"
    using r by (cases call) (auto simp: writing_def as_value_def intro!: quiet_bind)
  then show ?thesis by (auto simp: quiet_run_def use_tool_def wrapped_def split: prod.splits) (metis snd_conv)
qed

lemma use_tool_pending:
  assumes "cx_confirmationPending (wd_context w)" "writing call"
  shows "use_tool env ids call w = (Inl (Gateway_error ''CONFIRMATION_REQUIRED''), w)"
  using assms by (cases call) (auto simp: writing_def use_tool_def wrapped_def as_value_def run_bind_def writing_tools
    assertNoPendingConfirmation_def run_guard_def wrap_error_def)

lemma use_tools_pending:
  assumes "use_tools env calls w = (rs, w')" "cx_confirmationPending (wd_context w)"
  shows "quiet w w' \<and> length rs = length calls \<and>
    (\<forall>i < length calls. writing (snd (calls ! i)) \<longrightarrow> rs ! i = Inl (Gateway_error ''CONFIRMATION_REQUIRED''))"
  using assms
proof (induction calls arbitrary: w rs)
  case (Cons c calls)
  obtain ids call where c: "c = (ids, call)" by (cases c)
  obtain r w1 where one: "use_tool env ids call w = (r, w1)" by (metis surj_pair)
  with Cons.prems(1) c obtain rs' where rest: "use_tools env calls w1 = (rs', w')" "rs = r # rs'"
    by (auto simp: Let_def split: prod.splits)
  have q: "quiet w w1" using use_tool_reading [of call w env ids] use_tool_pending [OF Cons.prems(2), of call env ids] one
    by (cases "writing call") auto
  then have "cx_confirmationPending (wd_context w1)" using Cons.prems(2) by (simp add: quiet_def)
  from Cons.IH [OF rest(1) this] q quiet_trans have "quiet w w'" "length rs' = length calls"
    "\<forall>i < length calls. writing (snd (calls ! i)) \<longrightarrow> rs' ! i = Inl (Gateway_error ''CONFIRMATION_REQUIRED'')" by blast+
  moreover have "writing call \<longrightarrow> r = Inl (Gateway_error ''CONFIRMATION_REQUIRED'')"
    using use_tool_pending [OF Cons.prems(2), of call env ids] one by auto
  ultimately show ?case using c rest(2) by (auto simp: nth_Cons split: nat.split)
qed simp

lemma confirmation_announced:
  assumes "use_tool env ids call w = (Inr (Confirmation a), w1)"
  shows "cx_confirmationPending (wd_context w1) \<and> wd_gateway w1 = wd_gateway w \<and> wd_commands w1 = wd_commands w \<and>
    wd_announced w1 = wd_announced w @ [a] \<and> \<not> cx_confirmationPending (wd_context w)"
proof -
  have pr: "wd_gateway w2 = wd_gateway w1' \<and> wd_commands w2 = wd_commands w1' \<and> wd_announced w2 = wd_announced w1'"
    if "propose env ids k i w1' = (r, w2)" for k i w1' r and w2 :: "('a, 'b) world"
    using that by (auto simp: propose_def split: option.splits sum.splits prod.splits)
  from assms obtain w' where body: "tool_body env ids call w = (Inr (Confirmation a), w1)"
    by (auto simp: use_tool_def wrapped_def split: prod.splits) (metis (no_types, opaque_lifting) map_sum.simps sum.exhaust sum.simps(4) id_apply sum.inject(2))
  have not_value: False if "as_value m w = (Inr (Confirmation a), w1)" for m
    using that by (auto simp: as_value_def run_bind_Inr)
  show ?thesis
  proof (cases "\<exists>g. call = Use_submit_generation g")
    case True
    then obtain g where "call = Use_submit_generation g" ..
    with body obtain p u v where np: "\<not> cx_confirmationPending (wd_context w)" and p: "prepare env True g w = (Inr p, u)"
      and s: "submitGeneration env ids p u = (Inr a, v)" and w1: "announce a v = (Inr a, w1)"
      by (auto simp: writing_tools assertNoPendingConfirmation_def run_guard_def run_bind_Inr announce_def split: if_splits)
    have "quiet w u" using quiet_prepare [of env True g] p unfolding quiet_run_def by (metis snd_conv)
    with pr [OF s [unfolded submitGeneration_def Let_def]] w1 np show ?thesis by (auto simp: quiet_def announce_def)
  next
    case False
    with body not_value obtain gs where call: "call = Use_submit_batch gs" by (cases call) auto
    with body obtain ps t u v where np: "\<not> cx_confirmationPending (wd_context w)" and t: "assertCanvasVersion env w = (Inr (), t)"
      and p: "prepare_all env gs t = (Inr ps, u)" and s: "submitGenerationBatch env ids ps u = (Inr a, v)" and w1: "announce a v = (Inr a, w1)"
      by (auto simp: writing_tools assertNoPendingConfirmation_def run_guard_def run_bind_Inr announce_def split: if_splits)
    have "quiet w t" using quiet_return(7) [of env] t unfolding quiet_run_def by (metis snd_conv)
    moreover have "quiet t u" using quiet_prepare_all [of env gs] p unfolding quiet_run_def by (metis snd_conv)
    ultimately have "quiet w u" by (rule quiet_trans)
    moreover from s have "\<exists>k i. propose env ids k i u = (Inr a, v)"
      by (auto simp: submitGenerationBatch_def Let_def run_guard_def split: if_splits)
    ultimately show ?thesis using pr w1 np by (fastforce simp: quiet_def announce_def)
  qed
qed

text \<open>
  C34. A proposed generation stops the run's writes: once a tool has asked for a confirmation, every later writing tool of the run is
  refused with CONFIRMATION_REQUIRED, and whatever tools are called, no command reaches the canvas and no further approval is
  made or announced; the proposal itself sent no command either.
\<close>

theorem confirmation_blocks_writes:
  assumes "use_tool env ids call w = (Inr (Confirmation a), w1)" "use_tools env calls w1 = (rs, w2)"
  shows "wd_gateway w2 = wd_gateway w \<and> wd_commands w2 = wd_commands w \<and> wd_approvals w2 = wd_approvals w1 \<and>
    wd_announced w2 = wd_announced w @ [a] \<and>
    (\<forall>i < length calls. writing (snd (calls ! i)) \<longrightarrow> rs ! i = Inl (Gateway_error ''CONFIRMATION_REQUIRED''))"
proof -
  note A = confirmation_announced [OF assms(1)]
  from use_tools_pending [OF assms(2)] A show ?thesis by (simp add: quiet_def)
qed

section \<open>The edges to the references\<close>

text \<open>The commands a run of commands adds to a gateway that keeps them, and the answers it adds to the service.\<close>

abbreviation asked :: "(canvas_command list \<times> 'g, 's) world \<Rightarrow> canvas_command list" where
  "asked w \<equiv> fst (wd_gateway w)"

definition has :: "(canvas_command list \<times> 'g, 's) world \<Rightarrow> string \<Rightarrow> bool" where
  "has w q \<longleftrightarrow> kept (wd_commands w) q \<noteq> None"

definition adds :: "canvas_command list \<Rightarrow> (canvas_command list \<times> 'g, 's) world \<Rightarrow> (canvas_command list \<times> 'g, 's) world \<Rightarrow> bool" where
  "adds cs w w' \<longleftrightarrow> asked w' = asked w @ cs \<and> (\<forall>q. has w' q \<longleftrightarrow> has w q \<or> q \<in> cm_idempotencyKey ` set cs)"

lemma adds_none [simp]: "adds [] w w"
  by (simp add: adds_def)

lemma adds_append: "adds cs u v \<Longrightarrow> adds ds v w \<Longrightarrow> adds (cs @ ds) u w"
  by (auto simp: adds_def)

lemma map_sum_Inr_value: "map_sum f g m = Inr y \<Longrightarrow> \<exists>x. m = Inr x \<and> y = g x"
  by (cases m) auto

lemma execute_adds:
  assumes "execute_command (logged gw) c (wd_commands w, wd_gateway w) = (r, sv, g)"
  shows "kept sv (cm_idempotencyKey c) = Some r \<and>
    ((sv = wd_commands w \<and> g = wd_gateway w \<and> kept (wd_commands w) (cm_idempotencyKey c) = Some r) \<or>
     (kept (wd_commands w) (cm_idempotencyKey c) = None \<and> fst g = asked w @ [c] \<and>
      kept sv = (kept (wd_commands w))(cm_idempotencyKey c \<mapsto> r) \<and> r = map_sum command_code id (fst (gw (snd (wd_gateway w)) c))))"
proof (cases "kept (wd_commands w) (cm_idempotencyKey c)")
  case None
  from execute_new [OF None, of "logged gw" "wd_gateway w"] assms None show ?thesis
    by (auto simp: logged_def split: prod.splits)
next
  case (Some v)
  from execute_kept [OF Some, of "logged gw" "wd_gateway w"] assms Some show ?thesis by auto
qed

lemma remember_adds:
  assumes "rn_canvas env = logged gw" "remember_command (\<lambda>b. limited xs (execute_command (rn_canvas env) (command_of b op p))) key w = (Inr v, w')"
  shows "\<exists>cs. adds cs w w' \<and> has w' key \<and> (has w key \<longrightarrow> cs = []) \<and>
    (\<forall>c \<in> set cs. cm_operation c = op \<and> cm_payload c = p) \<and> length cs \<le> 1 \<and>
    (\<not> has w key \<longrightarrow> (\<exists>g c r. fst (gw g c) = Inr r \<and> v = JObj r)) \<and> cx_referenceNodeIds (wd_context w') = cx_referenceNodeIds (wd_context w)"
proof -
  let ?c = "command_of (base_of (wd_context w) key) op p"
  have key: "cm_idempotencyKey ?c = key" by (simp add: command_of_def base_of_def)
  obtain r sv g where e: "limited xs (execute_command (logged gw) ?c) (wd_commands w, wd_gateway w) = (r, sv, g)" by (metis prod_cases3)
  from assms(2) e have "map_sum Plain_error JObj r = Inr v" and w': "w' = w\<lparr>wd_commands := sv, wd_gateway := g, wd_context := remembered v True (wd_context w)\<rparr>"
    by (auto simp: remember_command_def run_bind_Inr run_command_def rememberCanvasVersion_def assms(1))
  then obtain x where x: "r = Inr x" "v = JObj x" by (auto dest: map_sum_Inr_value)
  with e have ex: "execute_command (logged gw) ?c (wd_commands w, wd_gateway w) = (Inr x, sv, g)" by (simp add: limited_def split: if_splits)
  have refs: "cx_referenceNodeIds (wd_context w') = cx_referenceNodeIds (wd_context w)"
    by (auto simp: w' remembered_def split: option.splits json.splits)
  from execute_adds [OF ex, unfolded key] show ?thesis
  proof (elim conjE disjE)
    assume "sv = wd_commands w" "g = wd_gateway w" "kept (wd_commands w) key = Some (Inr x)"
    then show ?thesis using refs by (intro exI [of _ "[]"]) (simp add: adds_def w' has_def)
  next
    assume a: "kept (wd_commands w) key = None" "fst g = asked w @ [?c]" "kept sv = (kept (wd_commands w))(key \<mapsto> Inr x)"
      and r: "Inr x = map_sum command_code id (fst (gw (snd (wd_gateway w)) ?c))"
    from map_sum_Inr_value [OF r [symmetric]] have "\<exists>g c r. fst (gw g c) = Inr r \<and> v = JObj r" using x by auto
    moreover have "adds [?c] w w'" using a key by (auto simp: adds_def w' has_def)
    moreover have "has w' key" using a by (simp add: w' has_def)
    moreover have "cm_operation ?c = op" "cm_payload ?c = p" by (simp_all add: command_of_def)
    ultimately show ?thesis using a key refs by (intro exI [of _ "[?c]"]) (simp add: has_def)
  qed
qed

definition edge_command :: "string \<Rightarrow> canvas_command \<Rightarrow> bool" where
  "edge_command key c \<longleftrightarrow> (\<exists>source target. cm_operation c = Connect_nodes \<and> cm_payload c = [(''nodeIds'', json_texts [source, target])] \<and>
     cm_idempotencyKey c = edge_key key source target)"

definition edges_sent :: "string \<Rightarrow> (string \<times> string) list \<Rightarrow> (canvas_command list \<times> 'g, 's) world \<Rightarrow> (canvas_command list \<times> 'g, 's) world \<Rightarrow> bool" where
  "edges_sent key edges w w' \<longleftrightarrow> (\<exists>cs. adds cs w w' \<and> list_all (edge_command key) cs \<and>
     ((\<forall>source target. has w (edge_key key source target)) \<longrightarrow> cs = [])) \<and>
     (\<forall>(source, target) \<in> set edges. has w' (edge_key key source target)) \<and>
     cx_referenceNodeIds (wd_context w') = cx_referenceNodeIds (wd_context w)"

lemma edges_sent_none [simp]: "edges_sent key [] w w"
  by (auto simp: edges_sent_def intro: exI [of _ "[]"])

lemma edges_sent_append:
  assumes "edges_sent key es u v" "edges_sent key fs v w"
  shows "edges_sent key (es @ fs) u w"
proof -
  from assms obtain cs ds where cs: "adds cs u v" "list_all (edge_command key) cs" "(\<forall>source target. has u (edge_key key source target)) \<longrightarrow> cs = []"
    and ds: "adds ds v w" "list_all (edge_command key) ds" "(\<forall>source target. has v (edge_key key source target)) \<longrightarrow> ds = []"
    by (auto simp: edges_sent_def)
  have "adds (cs @ ds) u w" using adds_append cs(1) ds(1) by blast
  moreover have "(\<forall>source target. has u (edge_key key source target)) \<longrightarrow> cs @ ds = []" using cs ds(3) by (auto simp: adds_def)
  moreover have "has w q" if "has v q" for q using that ds(1) by (simp add: adds_def)
  ultimately show ?thesis using assms cs(2) ds(2) unfolding edges_sent_def by (auto intro!: exI [of _ "cs @ ds"])
qed

lemma connect_sources_sent:
  "rn_canvas env = logged gw \<Longrightarrow> connect_sources env key target sources w = (Inr edges, w') \<Longrightarrow> edges_sent key edges w w'"
proof (induction sources arbitrary: w edges)
  case (Cons source rest)
  show ?case
  proof (cases "source = target")
    case False
    with Cons.prems(2) obtain v w1 more where
      one: "remember_command (\<lambda>b. connectNodes (rn_canvas env) b [source, target]) (edge_key key source target) w = (Inr v, w1)"
      and rest: "connect_sources env key target rest w1 = (Inr more, w')" and edges: "edges = (source, target) # more"
      by (auto simp: run_bind_Inr)
    from remember_adds [OF Cons.prems(1) one [unfolded connectNodes_def]] obtain cs where cs: "adds cs w w1"
      "has w1 (edge_key key source target)" "has w (edge_key key source target) \<longrightarrow> cs = []" "length cs \<le> 1"
      "\<forall>c \<in> set cs. cm_operation c = Connect_nodes \<and> cm_payload c = [(''nodeIds'', json_texts [source, target])]"
      "cx_referenceNodeIds (wd_context w1) = cx_referenceNodeIds (wd_context w)" by blast
    have "cm_idempotencyKey c = edge_key key source target" if "c \<in> set cs" for c
    proof -
      have "\<not> has w (edge_key key source target)" using that cs(3) by auto
      moreover have "cs = [c]" using that cs(4) by (cases cs) auto
      ultimately show ?thesis using cs(1,2) by (simp add: adds_def)
    qed
    then have "list_all (edge_command key) cs" using cs(5) by (auto simp: list_all_iff edge_command_def)
    then have "edges_sent key [(source, target)] w w1" using cs by (auto simp: edges_sent_def)
    from edges_sent_append [OF this Cons.IH [OF Cons.prems(1) rest]] show ?thesis by (simp add: edges)
  qed (use Cons in simp)
qed simp

lemma connect_targets_sent:
  "rn_canvas env = logged gw \<Longrightarrow> connect_targets env key targets w = (Inr edges, w') \<Longrightarrow> edges_sent key edges w w'"
proof (induction targets arbitrary: w edges)
  case (Cons t ts)
  then obtain es w1 fs where "connect_sources env key (rt_id t) (sources_of (wd_context w) t) w = (Inr es, w1)"
    and "connect_targets env key ts w1 = (Inr fs, w')" "edges = es @ fs" by (auto simp: run_bind_Inr)
  with Cons connect_sources_sent edges_sent_append show ?case by metis
qed simp

text \<open>The edges a result reports.\<close>

definition edge_of :: "json \<Rightarrow> (string \<times> string) option" where
  "edge_of v = (case (jprop (Some v) ''sourceNodeId'', jprop (Some v) ''targetNodeId'') of
     (Some (JStr a), Some (JStr b)) \<Rightarrow> Some (a, b) | _ \<Rightarrow> None)"

definition reported_edges :: "json \<Rightarrow> (string \<times> string) list" where
  "reported_edges v = List.map_filter edge_of (array_of (jprop (Some v) ''referenceEdges''))"

lemma reported_edges_values [simp]: "List.map_filter edge_of (map edge_value es) = es"
  by (induction es) (auto simp: List.map_filter_def edge_of_def edge_value_def jprop_def json_field_def)

lemma created_with_edges:
  assumes "rn_canvas env = logged gw" "createNodesWithReferenceEdges env nodes key w = (Inr v, w')"
  shows "\<exists>created edges w1. edges_sent key edges w1 w' \<and> (edges = [] \<and> v = created \<or> edges \<noteq> [] \<and> reported_edges v = edges) \<and>
    (\<exists>cs. adds cs w w1 \<and> has w1 key \<and> (\<forall>c \<in> set cs. cm_operation c = Create_nodes) \<and> length cs \<le> 1) \<and>
    (\<not> has w key \<longrightarrow> (\<exists>g c r. fst (gw g c) = Inr r \<and> created = JObj r))"
proof -
  from assms(2) obtain created w1 targets edges where
    one: "remember_command (\<lambda>b. createNodes (rn_canvas env) b nodes) key w = (Inr created, w1)"
    and two: "connect_targets env key targets w1 = (Inr edges, w')"
    and v: "v = (if edges = [] then created else JObj (with_field (with_field (record_of (Some created)) ''canvasVersion''
      (JNum (of_int (cx_canvasVersion (wd_context w'))))) ''referenceEdges'' (JArr (map edge_value edges))))"
    by (auto simp: createNodesWithReferenceEdges_def run_bind_Inr with_edges_def)
  have "reported_edges v = edges" if "edges \<noteq> []"
    using that v by (simp add: reported_edges_def jprop_def json_field_def with_field_def update_conv' array_of_def)
  with connect_targets_sent [OF assms(1) two] remember_adds [OF assms(1) one [unfolded createNodes_def]] v show ?thesis
    by (intro exI [of _ created] exI [of _ edges] exI [of _ w1]) (auto split: if_splits)
qed

lemma edge_key_long: "length key = 128 \<Longrightarrow> edge_key key source target = key"
  by (simp add: edge_key_def)

lemma split_at_colon:
  assumes "x @ CHR '':'' # y = a @ CHR '':'' # b" "CHR '':'' \<notin> set a" "CHR '':'' \<notin> set b"
  shows "x = a \<and> y = b"
proof -
  have "us = [] \<and> y = b" if "us @ CHR '':'' # y = CHR '':'' # b" for us using that assms(3) by (cases us) auto
  then show ?thesis using assms by (auto simp: append_eq_append_conv2 Cons_eq_append_conv)
qed

lemma edge_key_short:
  assumes "edge_key key source' target' = edge_key key source target" "length key + length source + length target < 116"
    and "CHR '':'' \<notin> set source" "CHR '':'' \<notin> set target"
  shows "source' = source \<and> target' = target"
proof -
  let ?x = "key @ '':reference:'' @ source' @ '':'' @ target'" and ?y = "key @ '':reference:'' @ source @ '':'' @ target"
  have y: "length ?y < 128" using assms(2) by simp
  with assms(1) have t: "take 128 ?x = ?y" by (simp add: edge_key_def)
  have "length ?x < 128"
  proof (rule ccontr)
    assume "\<not> length ?x < 128"
    then have "length (take 128 ?x) = 128" by simp
    with t y show False by (metis less_irrefl)
  qed
  then have "take 128 ?x = ?x" by (intro take_all) simp
  with t have "?x = ?y" by metis
  then have "source' @ CHR '':'' # target' = source @ CHR '':'' # target" by simp
  from split_at_colon [OF this assms(3,4)] show ?thesis .
qed

lemma edge_key_new: "length key < 128 \<Longrightarrow> edge_key key source target \<noteq> key"
proof
  assume "length key < 128" "edge_key key source target = key"
  then have "length (edge_key key source target) = length key" by simp
  with \<open>length key < 128\<close> show False by (simp add: edge_key_def)
qed

text \<open>
  When the idempotency key of a creation is short enough, every reference edge that the tool reports was really asked of the
  canvas, with just the two nodes it names: the canvas received a command that connects them.
\<close>

theorem reported_edges_were_sent:
  assumes "rn_canvas env = logged gw" "\<forall>g c r. fst (gw g c) = Inr r \<longrightarrow> json_field r ''referenceEdges'' = None"
    and "createNodesWithReferenceEdges env nodes key w = (Inr v, w')" "wd_commands w = new_service"
    and "(source, target) \<in> set (reported_edges v)" "CHR '':'' \<notin> set source" "CHR '':'' \<notin> set target"
    and "length key + length source + length target < 116"
  shows "\<exists>c \<in> set (drop (length (asked w)) (asked w')).
    cm_operation c = Connect_nodes \<and> cm_payload c = [(''nodeIds'', json_texts [source, target])]"
proof -
  have none: "\<not> has w q" for q using assms(4) by (simp add: has_def kept_def new_service_def)
  from created_with_edges [OF assms(1,3)] obtain created edges w1 cs where sent: "edges_sent key edges w1 w'"
    and v: "edges = [] \<and> v = created \<or> edges \<noteq> [] \<and> reported_edges v = edges"
    and cs: "adds cs w w1" "has w1 key" "\<forall>c \<in> set cs. cm_operation c = Create_nodes" "length cs \<le> 1"
    and cr: "\<not> has w key \<longrightarrow> (\<exists>g c r. fst (gw g c) = Inr r \<and> created = JObj r)" by blast
  from cr none obtain g c r where "fst (gw g c) = Inr r" and created: "created = JObj r" by blast
  with assms(2) have "json_field r ''referenceEdges'' = None" by blast
  then have "reported_edges created = []" by (simp add: created reported_edges_def jprop_def array_of_def List.map_filter_def)
  with v assms(5) have edge: "(source, target) \<in> set edges" by auto
  from sent obtain ds where ds: "adds ds w1 w'" "list_all (edge_command key) ds" and all: "\<forall>(s, t) \<in> set edges. has w' (edge_key key s t)"
    by (auto simp: edges_sent_def)
  have "\<not> has w1 (edge_key key source target)"
  proof -
    have "cs = [] \<or> (\<exists>c. cs = [c])" using cs(4) by (cases cs) auto
    then have "has w1 q \<longleftrightarrow> q = key" for q using cs(1,2) none by (auto simp: adds_def)
    moreover have "edge_key key source target \<noteq> key" using assms(8) by (intro edge_key_new) simp
    ultimately show ?thesis by simp
  qed
  with all edge ds(1) obtain c where c: "c \<in> set ds" "cm_idempotencyKey c = edge_key key source target" by (auto simp: adds_def)
  from c(1) ds(2) obtain s t where st: "cm_operation c = Connect_nodes" "cm_payload c = [(''nodeIds'', json_texts [s, t])]"
    "cm_idempotencyKey c = edge_key key s t" by (auto simp: list_all_iff edge_command_def)
  have "edge_key key s t = edge_key key source target" using st(3) c(2) by simp
  note same = edge_key_short [OF this assms(8,6,7)]
  have "drop (length (asked w)) (asked w') = cs @ ds" using cs(1) ds(1) by (simp add: adds_def)
  then show ?thesis using st c(1) same by (intro bexI [of _ c]) auto
qed

text \<open>
  With an idempotency key of 128 characters, the longest the tool takes, no reference edge is made: the key of every edge is cut
  off to the key of the creation, so the service answers it with the created nodes, and only the creation reaches the canvas,
  although the tool reports the edges.
\<close>

theorem long_key_loses_edges:
  assumes "rn_canvas env = logged gw" "createNodesWithReferenceEdges env nodes key w = (Inr v, w')" "length key = 128"
  shows "\<exists>cs. asked w' = asked w @ cs \<and> length cs \<le> 1 \<and> (\<forall>c \<in> set cs. cm_operation c = Create_nodes)"
proof -
  from created_with_edges [OF assms(1,2)] obtain edges w1 cs where sent: "edges_sent key edges w1 w'"
    and cs: "adds cs w w1" "has w1 key" "\<forall>c \<in> set cs. cm_operation c = Create_nodes" "length cs \<le> 1" by blast
  from sent obtain ds where ds: "adds ds w1 w'" "(\<forall>s t. has w1 (edge_key key s t)) \<longrightarrow> ds = []" by (auto simp: edges_sent_def)
  have "ds = []" using ds(2) cs(2) by (simp add: edge_key_long [OF assms(3)])
  with cs ds(1) show ?thesis by (auto simp: adds_def)
qed

section \<open>Instances\<close>

definition sample_runtime :: "(canvas_command list \<times> unit, (string, approval_record) jmap) runtime_env" where
  "sample_runtime = \<lparr>rn_canvas = logged (\<lambda>g c. (Inr (if cm_operation c = Create_nodes
       then [(''createdNodes'', JArr [JObj [(''id'', JStr ''n'')]])] else []), g)),
     rn_read = (\<lambda>g. \<lparr>gw_getCanvasSummary = (\<lambda>_ _ _. Inr JNull), gw_getSelectedNodes = (\<lambda>_ _ _ _. Inr JNull),
       gw_getNodeDetail = (\<lambda>_ _ _ _. Inr JNull), gw_listModels = (\<lambda>_ _. Inr JNull), gw_searchAssets = (\<lambda>_ _ _. Inr JNull),
       gw_checkTaskStatus = (\<lambda>_ _ _. Inr JNull)\<rparr>),
     rn_summary = None, rn_resolve = None, rn_estimate = (\<lambda>_ _ _ _ _. Inr 3), rn_audit = None, rn_stringify = (\<lambda>_. ''j''),
     rn_parse = (\<lambda>_. None), rn_number = (\<lambda>_. ''1''), rn_approvals = memory_approvals, rn_crypto = sample_crypto,
     rn_secret = ''k'', rn_ttl = 60\<rparr>"

definition sample_world :: "(canvas_command list \<times> unit, (string, approval_record) jmap) world" where
  "sample_world = \<lparr>wd_context = \<lparr>cx_userId = ''7'', cx_sessionId = ''9'', cx_runId = None, cx_canvasId = ''3'', cx_canvasVersion = 1,
       cx_canvasVersionPinned = False, cx_referenceNodeIds = [''m''], cx_requestId = None, cx_confirmationPending = False,
       cx_continueAfterTask = None\<rparr>,
     wd_commands = new_service, wd_gateway = ([], ()), wd_proposals = [], wd_approvals = [], wd_announced = []\<rparr>"

definition image_node :: json where
  "image_node = JObj [(''type'', JStr ''image'')]"

definition created_sample :: "string \<Rightarrow> (tool_error + json) \<times> (canvas_command list \<times> unit, (string, approval_record) jmap) world" where
  "created_sample key = createNodesWithReferenceEdges sample_runtime [image_node] key sample_world"

lemma sample_created_edges:
  "\<exists>v. fst (created_sample ''k'') = Inr v \<and> reported_edges v = [(''m'', ''n'')]"
  "\<exists>v. fst (created_sample (replicate 128 (CHR ''k''))) = Inr v \<and> reported_edges v = [(''m'', ''n'')]"
proof -
  have ex: "(case r of Inr v \<Rightarrow> P v | Inl e \<Rightarrow> False) \<Longrightarrow> \<exists>v. r = Inr v \<and> P v" for r :: "tool_error + json" and P
    by (cases r) auto
  show "\<exists>v. fst (created_sample ''k'') = Inr v \<and> reported_edges v = [(''m'', ''n'')]"
    by (rule ex) code_simp
  show "\<exists>v. fst (created_sample (replicate 128 (CHR ''k''))) = Inr v \<and> reported_edges v = [(''m'', ''n'')]"
    by (rule ex) code_simp
qed

lemma sample_canvas:
  "rn_canvas sample_runtime = logged (\<lambda>g c. (Inr (if cm_operation c = Create_nodes
     then [(''createdNodes'', JArr [JObj [(''id'', JStr ''n'')]])] else []), g))"
  by (simp add: sample_runtime_def)

theorem reported_edges_were_sent_witness:
  "\<exists>c \<in> set (asked (snd (created_sample ''k''))). cm_operation c = Connect_nodes \<and> cm_payload c = [(''nodeIds'', json_texts [''m'', ''n''])]"
proof -
  from sample_created_edges(1) obtain v where v: "fst (created_sample ''k'') = Inr v" "reported_edges v = [(''m'', ''n'')]" by blast
  then have run: "createNodesWithReferenceEdges sample_runtime [image_node] ''k'' sample_world = (Inr v, snd (created_sample ''k''))"
    by (simp add: created_sample_def prod_eq_iff)
  from reported_edges_were_sent [OF sample_canvas _ run, of "''m''" "''n''"] v(2) show ?thesis
    by (auto simp: json_field_def sample_world_def)
qed

theorem long_key_loses_edges_witness:
  "\<exists>v w. created_sample (replicate 128 (CHR ''k'')) = (Inr v, w) \<and> reported_edges v = [(''m'', ''n'')] \<and> length (asked w) \<le> 1"
proof -
  let ?key = "replicate 128 (CHR ''k'')"
  from sample_created_edges(2) obtain v where v: "fst (created_sample ?key) = Inr v" "reported_edges v = [(''m'', ''n'')]" by blast
  then have run: "createNodesWithReferenceEdges sample_runtime [image_node] ?key sample_world = (Inr v, snd (created_sample ?key))"
    by (simp add: created_sample_def prod_eq_iff)
  have "length (asked (snd (created_sample ?key))) \<le> 1"
    using long_key_loses_edges [OF sample_canvas run] by (auto simp: sample_world_def)
  with v show ?thesis by (auto simp: prod_eq_iff)
qed

definition sample_ids :: tool_call_ids where
  "sample_ids = \<lparr>ti_callId = ''c'', ti_actionId = ''1'', ti_nonce = ''n'', ti_now = 0\<rparr>"

definition sample_submit :: tool_use where
  "sample_submit = Use_submit_generation \<lparr>gr_nodeId = ''n'', gr_modelType = ''t2i'', gr_modelParams = [(''prompt'', JStr ''rain'')], gr_overwrite = False\<rparr>"

lemma sample_submitted: "\<exists>a w1. use_tool sample_runtime sample_ids sample_submit sample_world = (Inr (Confirmation a), w1)"
proof -
  have ex: "(case r of Inr (Confirmation a) \<Rightarrow> True | _ \<Rightarrow> False) \<Longrightarrow> \<exists>a. r = Inr (Confirmation a)" for r :: "tool_error + tool_reply"
    by (auto split: sum.splits tool_reply.splits)
  have "\<exists>a. fst (use_tool sample_runtime sample_ids sample_submit sample_world) = Inr (Confirmation a)" by (rule ex) code_simp
  then show ?thesis by (auto simp: prod_eq_iff)
qed

theorem confirmation_blocks_writes_witness:
  "\<exists>a (w1 :: (canvas_command list \<times> unit, (string, approval_record) jmap) world) rs w2.
    use_tool sample_runtime sample_ids sample_submit sample_world = (Inr (Confirmation a), w1) \<and>
    use_tools sample_runtime [(sample_ids, Use_connect_nodes [''m'', ''n''] ''k'')] w1 = (rs, w2) \<and>
    rs ! 0 = Inl (Gateway_error ''CONFIRMATION_REQUIRED'') \<and> wd_gateway w2 = ([], ())"
proof -
  from sample_submitted obtain a w1 where u: "use_tool sample_runtime sample_ids sample_submit sample_world = (Inr (Confirmation a), w1)" by blast
  obtain rs w2 where t: "use_tools sample_runtime [(sample_ids, Use_connect_nodes [''m'', ''n''] ''k'')] w1 = (rs, w2)" by (metis surj_pair)
  from confirmation_blocks_writes [OF u t] u t show ?thesis by (auto simp: writing_def sample_world_def)
qed

end
