(* ===== verification/TaskResume.thy ===== *)
theory TaskResume
  imports TaskTerminal PlanRepository RunRepository RenderBatches RequestParsing EventStreams
begin

text \<open>
  The terminal callback of a generation task, \<open>POST /internal/agent/resume\<close> (\<^verbatim>\<open>api/app.ts\<close>,
  \<open>registerInternalRoutes\<close>), over the tables it writes: render jobs, task notices and actions, plans, runs and
  their events, messages and the points of a session.  Every statement of the handler commits by itself, so a
  handler that throws keeps what it has written: a handler is a function from the tables to its result, the
  thrown error or the value, and the tables.

  The fixed Chinese texts of the messages are constructors; \<open>sanitizeAgentReply\<close>, through which a stored message
  goes, is not modelled.  The ids of the rows and the clock come with the request.
\<close>

section \<open>The tables\<close>

datatype reply =
    Reply_generated string | Reply_on_canvas | Reply_one_done | Reply_one_failed string
  | Reply_partial_failure | Reply_failed string

record message_line =
  ml_id :: string
  ml_session_id :: string
  ml_content :: reply
  ml_meta :: "(string \<times> json) list"

record resume_db =
  rz_render :: render_db
  rz_terminal :: terminal_db
  rz_plans :: plan_db
  rz_runs :: run_db
  rz_messages :: "message_line list"
  rz_points :: "(string, num) jmap"
  rz_published :: "envelope list"

datatype resume_error =
    Resume_api api_error | Resume_render render_error | Resume_terminal terminal_error
  | Resume_plan repo_error | Resume_run run_error

type_synonym 'a handler = "resume_db \<Rightarrow> (resume_error + 'a) \<times> resume_db"

text \<open>A computation on a state that returns or throws, and changes the state in either case.\<close>

definition hreturn :: "'a \<Rightarrow> 'z \<Rightarrow> ('e + 'a) \<times> 'z" where
  "hreturn v z = (Inr v, z)"

definition hthrow :: "'e \<Rightarrow> 'z \<Rightarrow> ('e + 'a) \<times> 'z" where
  "hthrow e z = (Inl e, z)"

definition hthen :: "('z \<Rightarrow> ('e + 'a) \<times> 'z) \<Rightarrow> ('a \<Rightarrow> 'z \<Rightarrow> ('e + 'b) \<times> 'z) \<Rightarrow> 'z \<Rightarrow> ('e + 'b) \<times> 'z" where
  "hthen f g z = (case f z of (Inl e, z') \<Rightarrow> (Inl e, z') | (Inr v, z') \<Rightarrow> g v z')"

text \<open>A statement of one table: it is rolled back when it throws.\<close>

definition hstep :: "('e \<Rightarrow> 'f) \<Rightarrow> ('z \<Rightarrow> 's) \<Rightarrow> ('s \<Rightarrow> 'z \<Rightarrow> 'z) \<Rightarrow> ('s \<Rightarrow> 'e + 'a \<times> 's) \<Rightarrow> 'z \<Rightarrow> ('f + 'a) \<times> 'z" where
  "hstep err get put f z = (case f (get z) of Inl e \<Rightarrow> (Inl (err e), z) | Inr (v, s) \<Rightarrow> (Inr v, put s z))"

definition on_terminal :: "(terminal_db \<Rightarrow> terminal_error + 'a \<times> terminal_db) \<Rightarrow> 'a handler" where
  "on_terminal = hstep Resume_terminal rz_terminal (\<lambda>s z. z\<lparr>rz_terminal := s\<rparr>)"

definition on_plans :: "(plan_db \<Rightarrow> repo_error + 'a \<times> plan_db) \<Rightarrow> 'a handler" where
  "on_plans = hstep Resume_plan rz_plans (\<lambda>s z. z\<lparr>rz_plans := s\<rparr>)"

definition on_runs :: "(run_db \<Rightarrow> run_error + 'a \<times> run_db) \<Rightarrow> 'a handler" where
  "on_runs = hstep Resume_run rz_runs (\<lambda>s z. z\<lparr>rz_runs := s\<rparr>)"

definition addMessage :: "string \<Rightarrow> string \<Rightarrow> reply \<Rightarrow> (string \<times> json) list \<Rightarrow> unit handler" where
  "addMessage mid sessionId content meta z = (Inr (), z\<lparr>rz_messages := rz_messages z @
     [\<lparr>ml_id = mid, ml_session_id = sessionId, ml_content = content, ml_meta = meta\<rparr>]\<rparr>)"

text \<open>The update of \<open>points_used_total\<close>, of a session that exists.\<close>

definition charge :: "string \<Rightarrow> num \<Rightarrow> (string, num) jmap \<Rightarrow> (string, num) jmap" where
  "charge sid n ps = (case jget ps sid of None \<Rightarrow> ps | Some p \<Rightarrow> jset sid (p + n) ps)"

definition add_points :: "string \<Rightarrow> num \<Rightarrow> unit handler" where
  "add_points sessionId n z = (Inr (), z\<lparr>rz_points := charge sessionId n (rz_points z)\<rparr>)"

definition publish_event :: "agent_run_event \<Rightarrow> unit handler" where
  "publish_event e z = (Inr (), z\<lparr>rz_published := rz_published z @ [toEnvelope e]\<rparr>)"

definition publishLatestRunEvent :: "string \<Rightarrow> unit handler" where
  "publishLatestRunEvent runId z = (case listEvents pg_run_repository runId 0 (rz_runs z) of
     [] \<Rightarrow> (Inr (), z) | es \<Rightarrow> publish_event (last es) z)"

section \<open>The tasks of a batch\<close>

definition batch_task :: "string \<Rightarrow> action_row \<Rightarrow> bool" where
  "batch_task runId r \<longleftrightarrow> ar_run_id r = Some runId \<and> ar_action_type r = ''batch_task''"

definition hasPendingBatchTasks :: "terminal_db \<Rightarrow> string \<Rightarrow> bool" where
  "hasPendingBatchTasks db runId \<longleftrightarrow> (\<exists>r \<in> set (td_actions db). batch_task runId r \<and>
     ar_status r \<in> {Action_running, Action_compensation_required})"

definition hasFailedBatchTasks :: "terminal_db \<Rightarrow> string \<Rightarrow> bool" where
  "hasFailedBatchTasks db runId \<longleftrightarrow> (\<exists>r \<in> set (td_actions db). batch_task runId r \<and> ar_status r = Action_failed)"

fun isCallbackActiveRun :: "run_status \<Rightarrow> bool" where
  "isCallbackActiveRun st = (st \<in> {Run_queued, Run_running, Run_waiting_confirmation, Run_waiting_task})"

section \<open>The request\<close>

fun terminal_text :: "terminal_status \<Rightarrow> string" where
  "terminal_text Term_succeeded = ''succeeded''"
| "terminal_text Term_failed = ''failed''"
| "terminal_text Term_cancelled = ''cancelled''"
| "terminal_text Term_expired = ''expired''"
| "terminal_text Term_settlement_error = ''settlement_error''"

definition isTerminalStatus :: "string \<Rightarrow> terminal_status option" where
  "isTerminalStatus text = find (\<lambda>st. terminal_text st = text)
     [Term_succeeded, Term_failed, Term_cancelled, Term_expired, Term_settlement_error]"

fun task_outcome_of :: "terminal_status \<Rightarrow> task_outcome" where
  "task_outcome_of Term_succeeded = Task_succeeded"
| "task_outcome_of Term_failed = Task_failed"
| "task_outcome_of Term_cancelled = Task_cancelled"
| "task_outcome_of Term_expired = Task_expired"
| "task_outcome_of Term_settlement_error = Task_settlement_error"

text \<open>The notice of a body, and the error code the render batch is given, which has one spelling only.\<close>

definition notice_of :: "(string \<times> json) list \<Rightarrow> string \<Rightarrow> terminal_status \<Rightarrow> terminal_notice" where
  "notice_of body taskId status =
     (let fld = json_field body; either = (\<lambda>a b. coalesce (fld a) (fld b)) in
      \<lparr>tn_taskId = taskId, tn_userId = optionalId (either ''userId'' ''user_id''), tn_status = status,
       tn_nodeId = optionalId (either ''nodeId'' ''node_id''), tn_canvasId = optionalId (either ''canvasId'' ''canvas_id''),
       tn_output = Some (objectOrEmpty (fld ''output'')), tn_errorCode = optionalString (either ''errorCode'' ''error_code''),
       tn_actualCost = optionalInteger (either ''actualCost'' ''actual_cost'')\<rparr>)"

record callback =
  cb_notice :: terminal_notice
  cb_renderError :: "string option"
  cb_secret :: string
  cb_now :: int
  cb_message :: string
  cb_event :: string
  cb_end :: string

section \<open>The handler\<close>

definition output_text :: "terminal_notice \<Rightarrow> string option" where
  "output_text n = (case tn_output n of None \<Rightarrow> None
     | Some fs \<Rightarrow> optionalString (coalesce (json_field fs ''text'') (json_field fs ''content'')))"

definition done_reply :: "terminal_notice \<Rightarrow> reply" where
  "done_reply n = (case output_text n of None \<Rightarrow> Reply_on_canvas
     | Some t \<Rightarrow> if t = [] then Reply_on_canvas else Reply_generated t)"

definition code_or_status :: "terminal_notice \<Rightarrow> string" where
  "code_or_status n = (case tn_errorCode n of Some e \<Rightarrow> e | None \<Rightarrow> terminal_text (tn_status n))"

definition waiting_reply :: "terminal_notice \<Rightarrow> reply" where
  "waiting_reply n =
     (if tn_status n = Term_succeeded
      then (case done_reply n of Reply_on_canvas \<Rightarrow> Reply_one_done | r \<Rightarrow> r)
      else Reply_one_failed (code_or_status n))"

definition late_reply :: "terminal_notice \<Rightarrow> reply" where
  "late_reply n = (if tn_status n = Term_succeeded then done_reply n else Reply_failed (code_or_status n))"

definition task_field :: "terminal_notice \<Rightarrow> string \<times> json" where
  "task_field n = (''taskId'', JStr (tn_taskId n))"

definition output_field :: "terminal_notice \<Rightarrow> string \<times> json" where
  "output_field n = (''output'', JObj (case tn_output n of None \<Rightarrow> [] | Some fs \<Rightarrow> fs))"

definition error_field :: "string option \<Rightarrow> (string \<times> json) list" where
  "error_field e = (case e of None \<Rightarrow> [] | Some c \<Rightarrow> [(''errorCode'', JStr c)])"

definition notice_cost :: "terminal_notice \<Rightarrow> num" where
  "notice_cost n = (case tn_actualCost n of None \<Rightarrow> 0 | Some c \<Rightarrow> c)"

definition task_event :: "terminal_notice \<Rightarrow> (string \<times> json) list" where
  "task_event n =
     (let opt = (\<lambda>k v. case v of None \<Rightarrow> [] | Some j \<Rightarrow> [(k, j)]) in
      [(''task_id'', JStr (tn_taskId n)), (''status'', JStr (terminal_text (tn_status n)))]
      @ opt ''node_id'' (map_option JStr (tn_nodeId n)) @ opt ''canvas_id'' (map_option JStr (tn_canvasId n))
      @ opt ''actual_cost'' (map_option JNum (tn_actualCost n)) @ opt ''error_code'' (map_option JStr (tn_errorCode n))
      @ opt ''output'' (map_option JObj (tn_output n)))"

definition end_run :: "string \<Rightarrow> run_status \<Rightarrow> (string \<times> json) list \<Rightarrow> callback \<Rightarrow> unit handler" where
  "end_run runId st data c = on_runs (\<lambda>db.
     rbind (setStatus pg_run_repository runId st data (cb_end c) (cb_now c) db) (\<lambda>db'. Inr ((), db')))"

text \<open>What the active run of the task becomes.\<close>

definition settle_run :: "task_association \<Rightarrow> callback \<Rightarrow> unit handler" where
  "settle_run a c z =
     (let n = cb_notice c; message = addMessage (cb_message c) (ta_sessionId a) in
      if hasPendingBatchTasks (rz_terminal z) (ta_runId a)
      then hthen (message (waiting_reply n) ([task_field n, output_field n] @ error_field (tn_errorCode n))) (\<lambda>_.
           hthen (if tn_status n = Term_succeeded then add_points (ta_sessionId a) (notice_cost n) else hreturn ()) (\<lambda>_.
           on_runs (\<lambda>db. rbind (pg_updateStatus (cb_now c) (ta_runId a) Run_waiting_task db) (\<lambda>db'. Inr ((), db'))))) z
      else if tn_status n = Term_succeeded \<and> \<not> hasFailedBatchTasks (rz_terminal z) (ta_runId a)
      then hthen (message (done_reply n) [task_field n, output_field n]) (\<lambda>_.
           hthen (add_points (ta_sessionId a) (notice_cost n)) (\<lambda>_.
           end_run (ta_runId a) Run_completed [] c)) z
      else if tn_status n = Term_succeeded
      then hthen (message Reply_partial_failure [task_field n, (''status'', JStr ''partial_failure'')]) (\<lambda>_.
           end_run (ta_runId a) Run_failed [(''errorCode'', JStr ''BATCH_PARTIAL_FAILURE'')] c) z
      else hthen (message (Reply_failed (code_or_status n)) [task_field n, (''errorCode'', JStr (code_or_status n))]) (\<lambda>_.
           end_run (ta_runId a) Run_failed [(''errorCode'', JStr (code_or_status n))] c) z)"

definition settle_session :: "task_association \<Rightarrow> callback \<Rightarrow> unit handler" where
  "settle_session a c z =
     (let n = cb_notice c in
      case rr_findById pg_run_repository (rz_runs z) (ta_runId a) of
        Some run \<Rightarrow>
          if isCallbackActiveRun (ru_status run)
          then hthen (on_runs (appendEvent pg_run_repository (ta_runId a) Ev_task_status (task_event n) (cb_event c) (cb_now c))) (\<lambda>e.
               hthen (publish_event e) (\<lambda>_.
               hthen (settle_run a c) (\<lambda>_. publishLatestRunEvent (ta_runId a)))) z
          else addMessage (cb_message c) (ta_sessionId a) (late_reply n)
                 ([task_field n, output_field n] @ error_field (tn_errorCode n)) z
      | None \<Rightarrow> addMessage (cb_message c) (ta_sessionId a) (late_reply n)
                 ([task_field n, output_field n] @ error_field (tn_errorCode n)) z)"

text \<open>
  The answer of the handler.  \<open>an_continue\<close> says that the continuation is started, which then runs by itself.
\<close>

record answer =
  an_duplicate :: bool
  an_conflict :: bool
  an_planStepUpdated :: bool
  an_continue :: bool

definition continues_after :: "task_association \<Rightarrow> terminal_notice \<Rightarrow> terminal_db \<Rightarrow> bool" where
  "continues_after a n db \<longleftrightarrow> tn_status n = Term_succeeded \<and> \<not> hasPendingBatchTasks db (ta_runId a) \<and>
     \<not> hasFailedBatchTasks db (ta_runId a)"

definition plan_output :: "terminal_notice \<Rightarrow> string option" where
  "plan_output n = (if tn_status n = Term_succeeded then Some (''task-result://'' @ tn_taskId n) else None)"

definition finish_callback :: "terminal_result \<Rightarrow> callback \<Rightarrow> answer handler" where
  "finish_callback r c =
     (if tr_duplicate r \<or> tr_conflict r
      then hreturn \<lparr>an_duplicate = tr_duplicate r, an_conflict = tr_conflict r, an_planStepUpdated = False, an_continue = False\<rparr>
      else hthen (on_plans (\<lambda>db. rbind (completeTaskStep (tn_taskId (cb_notice c)) (tn_status (cb_notice c))
                 (tn_errorCode (cb_notice c)) (plan_output (cb_notice c)) db) (\<lambda>(db', p). Inr (p, db')))) (\<lambda>p.
           hthen (settle_session (tr_association r) c) (\<lambda>_ z.
             (Inr \<lparr>an_duplicate = False, an_conflict = False, an_planStepUpdated = (p \<noteq> None),
               an_continue = continues_after (tr_association r) (cb_notice c) (rz_terminal z)\<rparr>, z))))"

text \<open>The route from the lookup of a render job on: None is the early answer for a render batch.\<close>

definition terminal_callback :: "(json \<Rightarrow> bool) \<Rightarrow> string \<Rightarrow> callback \<Rightarrow> answer option handler" where
  "terminal_callback continues secret c z =
     (case markTask (tn_taskId (cb_notice c)) (task_outcome_of (tn_status (cb_notice c))) (cb_renderError c) (rz_render z) of
        Some (Inl e) \<Rightarrow> (Inl (Resume_render e), z)
      | Some (Inr render) \<Rightarrow> (Inr None, z\<lparr>rz_render := render\<rparr>)
      | None \<Rightarrow> hthen (on_terminal (handle (pg_terminal_store continues) secret (cb_notice c) (cb_secret c))) (\<lambda>r.
                hthen (finish_callback r c) (\<lambda>a. hreturn (Some a))) z)"

record stamps =
  sp_now :: int
  sp_message :: string
  sp_event :: string
  sp_end :: string

definition resume_route :: "(json \<Rightarrow> bool) \<Rightarrow> string option \<Rightarrow> string option \<Rightarrow> json option \<Rightarrow> stamps \<Rightarrow> answer option handler" where
  "resume_route continues service header request st z =
     (case (service, header) of
        (None, _) \<Rightarrow> (Inl (Resume_api (ApiError 503 ''INTERNAL_AUTH_NOT_CONFIGURED'')), z)
      | (_, None) \<Rightarrow> (Inl (Resume_api (ApiError 401 ''PERMISSION_DENIED'')), z)
      | (Some secret, Some supplied) \<Rightarrow>
          (case rbind (recordBody request) (\<lambda>body.
                rbind (requiredString (coalesce (json_field body ''taskId'') (json_field body ''task_id''))) (\<lambda>taskId.
                rbind (requiredString (json_field body ''status'')) (\<lambda>text.
                rbind (require_some (ApiError 400 ''INVALID_INPUT'') (isTerminalStatus text)) (\<lambda>status.
                throw_if (assertAuthorized secret supplied \<noteq> Inr ()) (ApiError 401 ''PERMISSION_DENIED'')
                  (Inr (notice_of body taskId status, optionalString (json_field body ''errorCode''))))))) of
             Inl e \<Rightarrow> (Inl (Resume_api e), z)
           | Inr (n, renderError) \<Rightarrow>
               (case terminal_callback continues secret \<lparr>cb_notice = n, cb_renderError = renderError, cb_secret = supplied,
                    cb_now = sp_now st, cb_message = sp_message st, cb_event = sp_event st, cb_end = sp_end st\<rparr> z of
                  (Inl (Resume_terminal terminal_error.PERMISSION_DENIED), z') \<Rightarrow> (Inl (Resume_api (ApiError 401 ''PERMISSION_DENIED'')), z')
                | (Inl (Resume_terminal terminal_error.NOT_FOUND), z') \<Rightarrow> (Inl (Resume_api (ApiError 404 ''NOT_FOUND'')), z')
                | out \<Rightarrow> out)))"

text \<open>Callbacks one after the other, whatever each answers.\<close>

fun callbacks :: "(json \<Rightarrow> bool) \<Rightarrow> string \<Rightarrow> callback list \<Rightarrow> resume_db \<Rightarrow> resume_db" where
  "callbacks continues secret [] z = z"
| "callbacks continues secret (c # cs) z = callbacks continues secret cs (snd (terminal_callback continues secret c z))"


section \<open>The run of a task\<close>

lemmas handler_defs = hreturn_def hthrow_def hthen_def hstep_def on_terminal_def on_plans_def on_runs_def
  addMessage_def add_points_def publish_event_def end_run_def

definition event_ids :: "run_db \<Rightarrow> string set" where
  "event_ids db = ev_eventId ` set (rd_events db)"

definition status_of :: "run_db \<Rightarrow> string \<Rightarrow> run_status option" where
  "status_of db i = map_option ru_status (pg_findRun db i)"

definition run_ready :: "run_db \<Rightarrow> string \<Rightarrow> bool" where
  "run_ready db i \<longleftrightarrow> runs_ok db \<and> events_ok db \<and> (\<exists>r. pg_findRun db i = Some r \<and> run_active r)"

lemma callback_active: "isCallbackActiveRun st = isActiveRunStatus st"
  by (cases st) simp_all

lemma append_ready:
  assumes "run_ready db i" "eid \<notin> event_ids db"
  shows "\<exists>e db'. appendEvent pg_run_repository i type data eid now db = Inr (e, db') \<and> run_ready db' i \<and>
    event_ids db' = insert eid (event_ids db)"
proof -
  obtain r where ok: "runs_ok db" "events_ok db" and r: "pg_findRun db i = Some r" "run_active r"
    using assms(1) by (auto simp: run_ready_def)
  have row: "r \<in> set (rd_runs db)" "ru_runId r = i" using r(1) pg_findRun_iff [OF ok(1)] by blast+
  obtain e db' where e: "pg_appendEventAtomic eid now i type data db = Inr (e, db')"
    "rd_events db' = rd_events db @ [e]" "rd_runs db' = rd_runs db"
    using atomic_succeeds [OF ok(2,1) row(1), of type eid now data] r(2) assms(2) row(2)
    by (auto simp: eventable_def event_ids_def)
  have "ev_eventId e = eid" using appendEventAtomic_Inr [OF e(1)] by auto
  moreover have "appendEvent pg_run_repository i type data eid now db = Inr (e, db')"
    using r e(1) by (simp add: appendEvent_def requireRun_def throw_if_def)
  moreover have "run_ready db' i"
    using run_step_ok [OF run_step.atomic [OF e(1)] ok] r e(3) by (simp add: run_ready_def pg_findRun_def)
  ultimately show ?thesis using e(2) by (intro exI [of _ e] exI [of _ db']) (simp add: event_ids_def)
qed

lemma waiting_ready:
  assumes "run_ready db i"
  shows "\<exists>db'. pg_updateStatus now i Run_waiting_task db = Inr db' \<and> run_ready db' i \<and>
    event_ids db' = event_ids db \<and> status_of db' i = Some Run_waiting_task"
proof -
  obtain r where ok: "runs_ok db" "events_ok db" and r: "pg_findRun db i = Some r" "run_active r"
    using assms by (auto simp: run_ready_def)
  obtain db' where u: "pg_updateStatus now i Run_waiting_task db = Inr db'"
    using updateStatus_Inr [OF ok(1) r(1), of Run_waiting_task] r(2) by auto
  have "pg_findRun db' i = Some (with_status now Run_waiting_task r)" by (rule updateStatus_found [OF u r(1)])
  moreover have "rd_events db' = rd_events db" using updateStatus_rows [OF u] by simp
  ultimately show ?thesis using u run_step_ok [OF run_step.status [OF u] ok]
    by (intro exI [of _ db']) (simp add: run_ready_def event_ids_def status_of_def)
qed

lemma end_ready:
  assumes "run_ready db i" "eid \<notin> event_ids db" "st = Run_completed \<or> st = Run_failed"
  shows "\<exists>db'. setStatus pg_run_repository i st data eid now db = Inr db' \<and> status_of db' i = Some st"
proof -
  obtain r where ok: "runs_ok db" "events_ok db" and r: "pg_findRun db i = Some r"
    using assms(1) by (auto simp: run_ready_def)
  have new: "eid \<notin> ev_eventId ` set (rd_events db)" using assms(2) by (simp add: event_ids_def)
  show ?thesis
    using assms(3) complete_any_run [OF ok r new, of data now] fail_any_run [OF ok r new, of data now]
    by (fastforce simp: status_of_def)
qed

lemma publish_latest: "publishLatestRunEvent i z = (Inr (), z\<lparr>rz_published := rz_published (snd (publishLatestRunEvent i z))\<rparr>)"
  by (simp add: publishLatestRunEvent_def publish_event_def split: list.splits)

text \<open>What an active run becomes: it waits while a task of the batch is pending, and otherwise ends.\<close>

definition settled_status :: "terminal_db \<Rightarrow> string \<Rightarrow> terminal_status \<Rightarrow> run_status" where
  "settled_status db run st = (if hasPendingBatchTasks db run then Run_waiting_task
     else if st = Term_succeeded \<and> \<not> hasFailedBatchTasks db run then Run_completed else Run_failed)"

definition charged :: "terminal_db \<Rightarrow> string \<Rightarrow> terminal_status \<Rightarrow> bool" where
  "charged db run st \<longleftrightarrow> st = Term_succeeded \<and> (hasPendingBatchTasks db run \<or> \<not> hasFailedBatchTasks db run)"

text \<open>The parts of the tables that settling a run leaves alone.\<close>

definition others_kept :: "resume_db \<Rightarrow> resume_db \<Rightarrow> bool" where
  "others_kept z z' \<longleftrightarrow> rz_terminal z' = rz_terminal z \<and> rz_plans z' = rz_plans z \<and> rz_render z' = rz_render z"

lemma settle_run_ready:
  assumes "run_ready (rz_runs z) (ta_runId a)" "cb_end c \<notin> event_ids (rz_runs z)"
  shows "\<exists>z'. settle_run a c z = (Inr (), z') \<and> others_kept z z' \<and>
    status_of (rz_runs z') (ta_runId a) = Some (settled_status (rz_terminal z) (ta_runId a) (tn_status (cb_notice c))) \<and>
    (hasPendingBatchTasks (rz_terminal z) (ta_runId a) \<longrightarrow>
       run_ready (rz_runs z') (ta_runId a) \<and> event_ids (rz_runs z') = event_ids (rz_runs z)) \<and>
    rz_points z' = (if charged (rz_terminal z) (ta_runId a) (tn_status (cb_notice c))
      then charge (ta_sessionId a) (notice_cost (cb_notice c)) (rz_points z) else rz_points z)"
proof (cases "hasPendingBatchTasks (rz_terminal z) (ta_runId a)")
  case True
  obtain db where u: "pg_updateStatus (cb_now c) (ta_runId a) Run_waiting_task (rz_runs z) = Inr db"
    "run_ready db (ta_runId a)" "event_ids db = event_ids (rz_runs z)" "status_of db (ta_runId a) = Some Run_waiting_task"
    using waiting_ready [OF assms(1)] by blast
  show ?thesis
    by (cases "tn_status (cb_notice c) = Term_succeeded")
       (simp_all add: settle_run_def True handler_defs others_kept_def
         settled_status_def charged_def u Let_def rbind_def)
next
  case False
  have e: "\<exists>db. setStatus pg_run_repository (ta_runId a) st data (cb_end c) (cb_now c) (rz_runs z) = Inr db \<and>
      status_of db (ta_runId a) = Some st" if "st = Run_completed \<or> st = Run_failed" for st data
    by (rule end_ready [OF assms that])
  consider "tn_status (cb_notice c) = Term_succeeded" "\<not> hasFailedBatchTasks (rz_terminal z) (ta_runId a)"
    | "tn_status (cb_notice c) = Term_succeeded" "hasFailedBatchTasks (rz_terminal z) (ta_runId a)"
    | "tn_status (cb_notice c) \<noteq> Term_succeeded" by blast
  then show ?thesis
  proof cases
    case 1
    then show ?thesis using e [of Run_completed "[]"] False
      by (auto simp: settle_run_def handler_defs others_kept_def
         settled_status_def charged_def Let_def rbind_def)
  next
    case 2
    then show ?thesis using e [of Run_failed "[(''errorCode'', JStr ''BATCH_PARTIAL_FAILURE'')]"] False
      by (auto simp: settle_run_def handler_defs others_kept_def settled_status_def charged_def Let_def rbind_def)
  next
    case 3
    then show ?thesis using e [of Run_failed "[(''errorCode'', JStr (code_or_status (cb_notice c)))]"] False
      by (auto simp: settle_run_def handler_defs others_kept_def settled_status_def charged_def Let_def rbind_def)
  qed
qed

lemma settle_session_ready:
  assumes "run_ready (rz_runs z) (ta_runId a)" "cb_event c \<notin> event_ids (rz_runs z)" "cb_end c \<notin> event_ids (rz_runs z)"
    "cb_end c \<noteq> cb_event c"
  shows "\<exists>z'. settle_session a c z = (Inr (), z') \<and> others_kept z z' \<and>
    status_of (rz_runs z') (ta_runId a) = Some (settled_status (rz_terminal z) (ta_runId a) (tn_status (cb_notice c))) \<and>
    (hasPendingBatchTasks (rz_terminal z) (ta_runId a) \<longrightarrow>
       run_ready (rz_runs z') (ta_runId a) \<and> event_ids (rz_runs z') = insert (cb_event c) (event_ids (rz_runs z))) \<and>
    rz_points z' = (if charged (rz_terminal z) (ta_runId a) (tn_status (cb_notice c))
      then charge (ta_sessionId a) (notice_cost (cb_notice c)) (rz_points z) else rz_points z)"
proof -
  obtain r where r: "pg_findRun (rz_runs z) (ta_runId a) = Some r" "isCallbackActiveRun (ru_status r)"
    using assms(1) by (auto simp: run_ready_def callback_active simp del: isCallbackActiveRun.simps)
  obtain e db where e: "appendEvent pg_run_repository (ta_runId a) Ev_task_status (task_event (cb_notice c)) (cb_event c) (cb_now c)
      (rz_runs z) = Inr (e, db)" "run_ready db (ta_runId a)" "event_ids db = insert (cb_event c) (event_ids (rz_runs z))"
    using append_ready [OF assms(1,2)] by blast
  let ?z = "z\<lparr>rz_runs := db, rz_published := rz_published z @ [toEnvelope e]\<rparr>"
  have fresh: "cb_end c \<notin> event_ids (rz_runs ?z)" using assms(3,4) e(3) by simp
  obtain z2 where z2: "settle_run a c ?z = (Inr (), z2)" "others_kept ?z z2"
    "status_of (rz_runs z2) (ta_runId a) = Some (settled_status (rz_terminal z) (ta_runId a) (tn_status (cb_notice c)))"
    "hasPendingBatchTasks (rz_terminal z) (ta_runId a) \<longrightarrow>
       run_ready (rz_runs z2) (ta_runId a) \<and> event_ids (rz_runs z2) = event_ids db"
    "rz_points z2 = (if charged (rz_terminal z) (ta_runId a) (tn_status (cb_notice c))
      then charge (ta_sessionId a) (notice_cost (cb_notice c)) (rz_points z) else rz_points z)"
    using settle_run_ready [OF _ fresh, of a] e(2) by auto
  have "settle_session a c z = publishLatestRunEvent (ta_runId a) z2"
    using r e(1) z2(1) by (simp add: settle_session_def handler_defs Let_def del: isCallbackActiveRun.simps)
  then show ?thesis using z2 e(3) publish_latest [of "ta_runId a" z2] by (auto simp: others_kept_def)
qed


section \<open>The tasks of a batch that have not been called back\<close>

definition task_row :: "string \<Rightarrow> string \<Rightarrow> string \<Rightarrow> action_row \<Rightarrow> bool" where
  "task_row run sid t r \<longleftrightarrow> ar_task_id r = Some t \<and> batch_task run r \<and> ar_status r = Action_running \<and> ar_session_id r = sid"

definition batch_open :: "string \<Rightarrow> string \<Rightarrow> string list \<Rightarrow> terminal_db \<Rightarrow> bool" where
  "batch_open run sid ts db \<longleftrightarrow> distinct ts \<and> distinct (map ar_id (td_actions db))
     \<and> (\<forall>t \<in> set ts. \<exists>r \<in> set (td_actions db). task_row run sid t r
          \<and> (\<forall>q \<in> set (td_actions db). ar_task_id q = Some t \<longrightarrow> q = r) \<and> (\<forall>n \<in> set (td_notices db). nr_id n \<noteq> ar_id r))
     \<and> (\<forall>n \<in> set (td_notices db). nr_task_id n \<notin> set ts)
     \<and> (\<forall>r \<in> set (td_actions db). batch_task run r \<longrightarrow> ar_status r \<in> {Action_running, Action_compensation_required} \<longrightarrow>
          (\<exists>t \<in> set ts. ar_task_id r = Some t))"

lemma open_pending: "batch_open run sid ts db \<Longrightarrow> hasPendingBatchTasks db run \<longleftrightarrow> ts \<noteq> []"
  unfolding batch_open_def hasPendingBatchTasks_def task_row_def by (cases ts) fastforce+

lemma distinct_ids: "distinct (map f xs) \<Longrightarrow> x \<in> set xs \<Longrightarrow> y \<in> set xs \<Longrightarrow> f x = f y \<Longrightarrow> x = y"
  by (auto simp: distinct_map dest: inj_onD)

definition row_marked :: "string \<Rightarrow> terminal_notice \<Rightarrow> action_row \<Rightarrow> action_row" where
  "row_marked i n = (\<lambda>r. if ar_id r = i \<and> ar_task_id r = Some (tn_taskId n)
     then r\<lparr>ar_status := action_status_for (tn_status n), ar_result := Some n, ar_error_code := tn_errorCode n\<rparr> else r)"

lemma row_marked_sel [simp]: "ar_id (row_marked i n r) = ar_id r" "ar_task_id (row_marked i n r) = ar_task_id r"
  "batch_task run (row_marked i n r) = batch_task run r" "ar_session_id (row_marked i n r) = ar_session_id r"
  by (simp_all add: row_marked_def batch_task_def)

lemma row_marked_other: "ar_task_id r \<noteq> Some (tn_taskId n) \<Longrightarrow> row_marked i n r = r"
  by (simp add: row_marked_def)

text \<open>The first callback of an open task.\<close>

lemma mark_task:
  assumes "batch_open run sid ts db" "tn_taskId n \<in> set ts" "assertAuthorized secret cred = Inr ()"
  shows "\<exists>a r db'. handle (pg_terminal_store continues) secret n cred db = Inr (result_for a False False, db') \<and>
    ta_runId a = run \<and> ta_sessionId a = sid \<and> r \<in> set (td_actions db) \<and> task_row run sid (tn_taskId n) r \<and>
    td_actions db' = map (row_marked (ar_id r) n) (td_actions db) \<and>
    td_notices db' = td_notices db @ [\<lparr>nr_id = ar_id r, nr_session_id = sid, nr_task_id = tn_taskId n,
      nr_terminal_status = tn_status n, nr_payload = n\<rparr>]"
proof -
  obtain r where r: "r \<in> set (td_actions db)" "task_row run sid (tn_taskId n) r"
    "\<forall>q \<in> set (td_actions db). ar_task_id q = Some (tn_taskId n) \<longrightarrow> q = r" "\<forall>m \<in> set (td_notices db). nr_id m \<noteq> ar_id r"
    using assms(1,2) unfolding batch_open_def by metis
  have none: "\<forall>m \<in> set (td_notices db). nr_task_id m \<noteq> tn_taskId n"
    using assms(1,2) unfolding batch_open_def by metis
  let ?rows = "filter (\<lambda>q. ar_task_id q = Some (tn_taskId n)) (td_actions db)"
  have "r \<in> set ?rows" using r(1,2) by (simp add: task_row_def)
  then have "?rows \<noteq> []" by force
  then obtain q where q: "newest ar_created_at ?rows = Some q"
    using newest_None [of ar_created_at ?rows] by (cases "newest ar_created_at ?rows") auto
  have "q = r" using newest_mem [OF q] r(3) by simp
  have run: "ar_run_id r = Some run" "ar_session_id r = sid" using r(2) by (auto simp: task_row_def batch_task_def)
  let ?a = "\<lparr>ta_taskId = tn_taskId n, ta_actionId = ar_id r, ta_runId = run, ta_sessionId = sid,
    ta_userId = Some (ar_user_id r), ta_continueAfterTask = continues (ar_params r)\<rparr>"
  have found: "pg_findTask continues db (tn_taskId n) = Some ?a"
    using q run unfolding \<open>q = r\<close> by (simp add: pg_findTask_def)
  have fresh: "pg_getTerminalStatus db (tn_taskId n) = None" using none by (simp add: pg_status_none)
  have "\<not> (\<exists>m \<in> set (td_notices db). nr_session_id m = ta_sessionId ?a \<and> nr_task_id m = tn_taskId n \<and>
      nr_terminal_status m = tn_status n)" "\<not> (\<exists>m \<in> set (td_notices db). nr_id m = ta_actionId ?a)"
    using none r(4) by auto
  then have "pg_markTerminal n ?a db = Inr (True, db\<lparr>
      td_notices := td_notices db @ [\<lparr>nr_id = ar_id r, nr_session_id = sid, nr_task_id = tn_taskId n,
        nr_terminal_status = tn_status n, nr_payload = n\<rparr>],
      td_actions := map (row_marked (ar_id r) n) (td_actions db)\<rparr>)"
    using none r(4) unfolding pg_markTerminal_def row_marked_def throw_if_def by force
  then have "handle (pg_terminal_store continues) secret n cred db = Inr (result_for ?a False False, db\<lparr>
      td_notices := td_notices db @ [\<lparr>nr_id = ar_id r, nr_session_id = sid, nr_task_id = tn_taskId n,
        nr_terminal_status = tn_status n, nr_payload = n\<rparr>],
      td_actions := map (row_marked (ar_id r) n) (td_actions db)\<rparr>)"
    using assms(3) found fresh by (simp add: handle_def decide_def mark_def pg_terminal_store_def)
  with r(1,2) show ?thesis by (intro exI) (auto intro!: exI [of _ r])
qed

lemma open_after_mark:
  assumes "batch_open run sid ts db" "r \<in> set (td_actions db)" "task_row run sid (tn_taskId n) r" "tn_taskId n \<in> set ts"
    "tn_status n \<noteq> Term_settlement_error" and db': "td_actions db' = map (row_marked (ar_id r) n) (td_actions db)"
    "td_notices db' = td_notices db @ [\<lparr>nr_id = ar_id r, nr_session_id = sid, nr_task_id = tn_taskId n,
      nr_terminal_status = tn_status n, nr_payload = n\<rparr>]"
  shows "batch_open run sid (remove1 (tn_taskId n) ts) db' \<and>
    hasFailedBatchTasks db' run = (hasFailedBatchTasks db run \<or> tn_status n \<noteq> Term_succeeded)"
proof
  let ?t = "tn_taskId n" and ?f = "row_marked (ar_id r) n"
  have dist: "distinct ts" "distinct (map ar_id (td_actions db))" using assms(1) by (simp_all add: batch_open_def)
  have only: "q = r" if "q \<in> set (td_actions db)" "ar_task_id q = Some ?t" for q
    using assms(1-4) that unfolding batch_open_def task_row_def by metis
  have st: "ar_status (?f r) = (if tn_status n = Term_succeeded then Action_succeeded else Action_failed)"
    using assms(3,5) by (simp add: row_marked_def task_row_def action_status_for_def)
  have kept: "?f q = q" if "q \<in> set (td_actions db)" "q \<noteq> r" for q
    using that only row_marked_other by blast
  have "\<exists>x \<in> set (td_actions db'). task_row run sid t x \<and> (\<forall>q \<in> set (td_actions db'). ar_task_id q = Some t \<longrightarrow> q = x) \<and>
      (\<forall>m \<in> set (td_notices db'). nr_id m \<noteq> ar_id x)" if t: "t \<in> set (remove1 ?t ts)" for t
  proof -
    have t': "t \<in> set ts" "t \<noteq> ?t" using t dist(1) by auto
    obtain x where x: "x \<in> set (td_actions db)" "task_row run sid t x"
      "\<forall>q \<in> set (td_actions db). ar_task_id q = Some t \<longrightarrow> q = x" "\<forall>m \<in> set (td_notices db). nr_id m \<noteq> ar_id x"
      using assms(1) t'(1) unfolding batch_open_def by metis
    have "x \<noteq> r" using x(2) assms(3) t'(2) by (auto simp: task_row_def)
    then have "?f x = x" "ar_id x \<noteq> ar_id r" using kept x(1) distinct_ids [OF dist(2) x(1) assms(2)] by auto
    moreover have "?f x \<in> set (td_actions db')" using x(1) db'(1) by simp
    ultimately show ?thesis using x(2-4) kept db' t'(2) assms(3) by (intro bexI [of _ x]) (auto simp: task_row_def)
  qed
  moreover have "\<exists>t \<in> set (remove1 ?t ts). ar_task_id q = Some t"
    if q: "q \<in> set (td_actions db')" "batch_task run q" "ar_status q \<in> {Action_running, Action_compensation_required}" for q
  proof -
    obtain p where p: "p \<in> set (td_actions db)" "q = ?f p" using q(1) db'(1) by auto
    have "p \<noteq> r" using q(3) st p(2) by (auto split: if_splits)
    then have "q = p" using kept p by simp
    then obtain t where "t \<in> set ts" "ar_task_id q = Some t" using assms(1) p(1) q(2,3) unfolding batch_open_def by metis
    moreover have "t \<noteq> ?t" using only [OF p(1)] \<open>p \<noteq> r\<close> \<open>q = p\<close> calculation(2) by auto
    ultimately show ?thesis using dist(1) by auto
  qed
  moreover have "distinct (map ar_id (td_actions db'))" using dist(2) db'(1) by (simp add: comp_def)
  moreover have "\<forall>m \<in> set (td_notices db'). nr_task_id m \<notin> set (remove1 ?t ts)"
    using assms(1) db'(2) dist(1) unfolding batch_open_def by auto
  ultimately show "batch_open run sid (remove1 ?t ts) db'" unfolding batch_open_def using dist(1) by simp
  have old: "ar_status r \<noteq> Action_failed" "batch_task run r" using assms(3) by (auto simp: task_row_def)
  show "hasFailedBatchTasks db' run = (hasFailedBatchTasks db run \<or> tn_status n \<noteq> Term_succeeded)"
  proof (cases "tn_status n = Term_succeeded")
    case True
    have "(\<exists>q \<in> set (td_actions db). batch_task run (?f q) \<and> ar_status (?f q) = Action_failed) \<longleftrightarrow>
        (\<exists>q \<in> set (td_actions db). batch_task run q \<and> ar_status q = Action_failed)"
      using True st old(1) kept by (intro bex_cong refl) (metis action_result.distinct row_marked_sel(3))
    then show ?thesis using True by (simp add: hasFailedBatchTasks_def db'(1))
  next
    case False
    then have "batch_task run (?f r) \<and> ar_status (?f r) = Action_failed" using st old(2) by simp
    then show ?thesis using False assms(2) by (auto simp: hasFailedBatchTasks_def db'(1))
  qed
qed


section \<open>A run that waits for a batch\<close>

text \<open>The tasks belong to neither a render job nor a step of a plan.\<close>

definition plain_tasks :: "string list \<Rightarrow> resume_db \<Rightarrow> bool" where
  "plain_tasks ts z \<longleftrightarrow> (\<forall>j \<in> set (rt_jobs (rz_render z)). \<forall>t \<in> set ts. jr_task_id j \<noteq> Some t) \<and>
     (\<forall>s \<in> set (db_steps (rz_plans z)). \<forall>t \<in> set ts. sr_task_id s \<noteq> Some t)"

definition batch_waiting :: "string \<Rightarrow> string \<Rightarrow> string list \<Rightarrow> resume_db \<Rightarrow> bool" where
  "batch_waiting run sid ts z \<longleftrightarrow> batch_open run sid ts (rz_terminal z) \<and> plain_tasks ts z \<and> run_ready (rz_runs z) run"

abbreviation cb_task :: "callback \<Rightarrow> string" where
  "cb_task c \<equiv> tn_taskId (cb_notice c)"

definition decisive :: "string \<Rightarrow> callback \<Rightarrow> bool" where
  "decisive secret c \<longleftrightarrow> assertAuthorized secret (cb_secret c) = Inr () \<and> tn_status (cb_notice c) \<noteq> Term_settlement_error"

definition success :: "callback \<Rightarrow> bool" where
  "success c \<longleftrightarrow> tn_status (cb_notice c) = Term_succeeded"


lemma find_None_all: "(\<And>x. x \<in> set xs \<Longrightarrow> \<not> P x) \<Longrightarrow> find P xs = None"
  by (simp add: find_None_iff)

lemma plain_markTask: "plain_tasks ts z \<Longrightarrow> t \<in> set ts \<Longrightarrow> markTask t o' e (rz_render z) = None"
  unfolding markTask_def plain_tasks_def by (subst find_None_all) auto

lemma plain_completeTaskStep: "plain_tasks ts z \<Longrightarrow> t \<in> set ts \<Longrightarrow> completeTaskStep t st e out (rz_plans z) = Inr (rz_plans z, None)"
  unfolding completeTaskStep_def plain_tasks_def by (subst find_None_all) auto

lemma callback_step:
  fixes continues :: "json \<Rightarrow> bool"
  assumes w: "batch_waiting run sid ts z" and t: "cb_task c \<in> set ts" and c: "decisive secret c"
    and fresh: "cb_event c \<notin> event_ids (rz_runs z)" "cb_end c \<notin> event_ids (rz_runs z)" "cb_end c \<noteq> cb_event c"
  defines "z' \<equiv> snd (terminal_callback continues secret c z)" and "rest \<equiv> remove1 (cb_task c) ts"
  shows "hasFailedBatchTasks (rz_terminal z') run = (hasFailedBatchTasks (rz_terminal z) run \<or> \<not> success c)"
    and "status_of (rz_runs z') run = Some (if rest \<noteq> [] then Run_waiting_task
       else if hasFailedBatchTasks (rz_terminal z') run then Run_failed else Run_completed)"
    and "rest \<noteq> [] \<Longrightarrow> batch_waiting run sid rest z' \<and> event_ids (rz_runs z') = insert (cb_event c) (event_ids (rz_runs z))"
    and "rz_points z' = (if success c \<and> (rest \<noteq> [] \<or> \<not> hasFailedBatchTasks (rz_terminal z) run)
       then charge sid (notice_cost (cb_notice c)) (rz_points z) else rz_points z)"
proof -
  have b: "batch_open run sid ts (rz_terminal z)" "plain_tasks ts z" "run_ready (rz_runs z) run"
    using w by (simp_all add: batch_waiting_def)
  obtain a r db where m: "handle (pg_terminal_store continues) secret (cb_notice c) (cb_secret c) (rz_terminal z) =
      Inr (result_for a False False, db)" "ta_runId a = run" "ta_sessionId a = sid" "r \<in> set (td_actions (rz_terminal z))"
    "task_row run sid (cb_task c) r" "td_actions db = map (row_marked (ar_id r) (cb_notice c)) (td_actions (rz_terminal z))"
    "td_notices db = td_notices (rz_terminal z) @ [\<lparr>nr_id = ar_id r, nr_session_id = sid, nr_task_id = cb_task c,
      nr_terminal_status = tn_status (cb_notice c), nr_payload = cb_notice c\<rparr>]"
    using mark_task [OF b(1) t, of secret "cb_secret c" continues] c unfolding decisive_def by blast
  have o': "batch_open run sid rest db"
    "hasFailedBatchTasks db run = (hasFailedBatchTasks (rz_terminal z) run \<or> \<not> success c)"
    using open_after_mark [OF b(1) m(4,5) t _ m(6,7)] c by (simp_all add: decisive_def success_def rest_def)
  have pend: "hasPendingBatchTasks db run \<longleftrightarrow> rest \<noteq> []" by (rule open_pending [OF o'(1)])
  let ?z = "z\<lparr>rz_terminal := db\<rparr>"
  have zz: "rz_runs ?z = rz_runs z" "rz_terminal ?z = db" "rz_points ?z = rz_points z" by simp_all
  obtain y where y: "settle_session a c ?z = (Inr (), y)" "others_kept ?z y"
    "status_of (rz_runs y) run = Some (settled_status db run (tn_status (cb_notice c)))"
    "rest \<noteq> [] \<longrightarrow> run_ready (rz_runs y) run \<and> event_ids (rz_runs y) = insert (cb_event c) (event_ids (rz_runs z))"
    "rz_points y = (if charged db run (tn_status (cb_notice c)) then charge sid (notice_cost (cb_notice c)) (rz_points z)
       else rz_points z)"
    using settle_session_ready [of ?z a c, unfolded zz m(2,3) pend, OF b(3) fresh] by blast
  have "z' = y"
    using plain_markTask [OF b(2) t] plain_completeTaskStep [OF b(2) t] m(1) y(1)
    by (simp add: z'_def terminal_callback_def finish_callback_def handler_defs result_for_def)
  then have terminal: "rz_terminal z' = db" and kept: "rz_plans z' = rz_plans z" "rz_render z' = rz_render z"
    using y(2) by (simp_all add: others_kept_def)
  show failed: "hasFailedBatchTasks (rz_terminal z') run = (hasFailedBatchTasks (rz_terminal z) run \<or> \<not> success c)"
    using o'(2) terminal by simp
  show "status_of (rz_runs z') run = Some (if rest \<noteq> [] then Run_waiting_task
      else if hasFailedBatchTasks (rz_terminal z') run then Run_failed else Run_completed)"
    using y(3) pend failed \<open>z' = y\<close> terminal by (auto simp: settled_status_def success_def)
  show "rz_points z' = (if success c \<and> (rest \<noteq> [] \<or> \<not> hasFailedBatchTasks (rz_terminal z) run)
      then charge sid (notice_cost (cb_notice c)) (rz_points z) else rz_points z)"
    using y(5) pend o'(2) \<open>z' = y\<close> by (auto simp: charged_def success_def)
  assume "rest \<noteq> []"
  moreover have "plain_tasks rest z'"
    using b(2) kept notin_set_remove1 unfolding plain_tasks_def rest_def by metis
  ultimately show "batch_waiting run sid rest z' \<and> event_ids (rz_runs z') = insert (cb_event c) (event_ids (rz_runs z))"
    using y(4) o'(1) \<open>z' = y\<close> terminal by (simp add: batch_waiting_def)
qed





lemma callbacks_append: "callbacks continues secret (xs @ ys) z = callbacks continues secret ys (callbacks continues secret xs z)"
  by (induction xs arbitrary: z) simp_all


section \<open>What any callback does to a run\<close>

lemma append_rows:
  "appendEvent pg_run_repository i type data eid now db = Inr (e, db') \<Longrightarrow> rd_runs db' = rd_runs db"
  by (auto simp: appendEvent_def requireRun_def result_simps dest!: appendEventAtomic_Inr store_event_Inr)

lemma append_event_rows:
  "append_event pg_run_repository r type data eid now db = Inr (e, db') \<Longrightarrow> rd_runs db' = rd_runs db"
  by (auto simp: append_event_def Let_def result_simps dest!: appendEvent_Inr store_event_Inr)

lemma setStatus_rows:
  assumes "setStatus pg_run_repository i st data eid now db = Inr db'"
  shows "rd_runs db' = map (\<lambda>r. if ru_runId r = i then with_status now st r else r) (rd_runs db)"
proof -
  obtain r db1 where db1: "pg_updateStatus now i st db = Inr db1"
    and "db' = db1 \<or> (\<exists>t e. append_event pg_run_repository r t data eid now db1 = Inr (e, db'))"
    using assms by (auto simp: setStatus_def requireRun_def result_simps split: if_splits)
  then have "rd_runs db' = rd_runs db1" using append_event_rows by blast
  then show ?thesis using updateStatus_rows [OF db1] by simp
qed

lemma ready_reaches:
  "run_ready db run \<Longrightarrow> run_reaches db db' \<Longrightarrow> rd_runs db' = rd_runs db \<Longrightarrow> run_ready db' run"
  using run_reaches_ok unfolding run_ready_def pg_findRun_def by metis

lemma ready_other:
  assumes "run_ready db run" "run_reaches db db'"
    "rd_runs db' = map (\<lambda>r. if ru_runId r = i then with_status now st r else r) (rd_runs db)" "i = run \<longrightarrow> isActiveRunStatus st"
  shows "run_ready db' run"
proof -
  let ?f = "\<lambda>r. if ru_runId r = i then with_status now st r else r"
  obtain r where r: "pg_findRun db run = Some r" "run_active r" using assms(1) by (auto simp: run_ready_def)
  then have "ru_runId r = run" by (auto simp: pg_findRun_def dest: find_SomeD)
  then have "pg_findRun db' run = Some (?f r)" "run_active (?f r)"
    using r assms(4) unfolding pg_findRun_def assms(3) by (simp_all add: find_map_row)
  then show ?thesis using run_reaches_ok [OF assms(2)] assms(1) unfolding run_ready_def by blast
qed

lemma on_runs_append:
  assumes "run_ready (rz_runs z) run" "on_runs (appendEvent pg_run_repository i type data eid now) z = (out, z')"
  shows "run_ready (rz_runs z') run \<and> rz_terminal z' = rz_terminal z"
  using assms ready_reaches [OF assms(1)] append_rows service_steps(2)
  by (cases "appendEvent pg_run_repository i type data eid now (rz_runs z)") (auto simp: on_runs_def hstep_def)

lemma end_run_other:
  assumes "run_ready (rz_runs z) run" "end_run i st data c z = (out, z')" "i \<noteq> run"
  shows "run_ready (rz_runs z') run \<and> rz_terminal z' = rz_terminal z"
proof (cases "setStatus pg_run_repository i st data (cb_end c) (cb_now c) (rz_runs z)")
  case (Inr db)
  have "run_ready db run"
    by (rule ready_other [OF assms(1) service_steps(3) [OF Inr] setStatus_rows [OF Inr]]) (use assms(3) in simp)
  then show ?thesis using assms(2) Inr by (auto simp: end_run_def on_runs_def hstep_def rbind_def)
qed (use assms in \<open>auto simp: end_run_def on_runs_def hstep_def rbind_def\<close>)

lemma wait_run_ready:
  assumes "run_ready (rz_runs z) run"
    "on_runs (\<lambda>db. rbind (pg_updateStatus now i Run_waiting_task db) (\<lambda>db'. Inr ((), db'))) z = (out, z')"
  shows "run_ready (rz_runs z') run \<and> rz_terminal z' = rz_terminal z"
proof (cases "pg_updateStatus now i Run_waiting_task (rz_runs z)")
  case (Inr db)
  have step: "run_reaches (rz_runs z) db" "rd_runs db = map (\<lambda>r. if ru_runId r = i then with_status now Run_waiting_task r else r) (rd_runs (rz_runs z))"
    using run_step.status [OF Inr] updateStatus_rows [OF Inr] by auto
  have "run_ready db run" by (rule ready_other [OF assms(1) step]) simp
  then show ?thesis using assms(2) Inr by (auto simp: on_runs_def hstep_def rbind_def)
qed (use assms in \<open>auto simp: on_runs_def hstep_def rbind_def\<close>)

text \<open>A run with a pending task of its batch stays active, whatever task is called back.\<close>

lemma settle_run_active:
  assumes "run_ready (rz_runs z) run" "hasPendingBatchTasks (rz_terminal z) run" "settle_run a c z = (out, z')"
  shows "run_ready (rz_runs z') run \<and> rz_terminal z' = rz_terminal z"
proof -
  define message where "message = addMessage (cb_message c) (ta_sessionId a)"
  have m: "\<exists>y. message v f z = (Inr (), y) \<and> rz_runs y = rz_runs z \<and> rz_terminal y = rz_terminal z" for v f
    by (simp add: message_def addMessage_def)
  have p: "\<exists>y. (if b then add_points i n else hreturn ()) x = (Inr (), y) \<and> rz_runs y = rz_runs x \<and> rz_terminal y = rz_terminal x" for b i n x
    by (simp add: add_points_def hreturn_def)
  show ?thesis
  proof (cases "hasPendingBatchTasks (rz_terminal z) (ta_runId a)")
    case True
    obtain y1 where y1: "message (waiting_reply (cb_notice c)) ([task_field (cb_notice c), output_field (cb_notice c)] @ error_field (tn_errorCode (cb_notice c))) z = (Inr (), y1)"
      "rz_runs y1 = rz_runs z" "rz_terminal y1 = rz_terminal z" using m by blast
    obtain y2 where y2: "(if tn_status (cb_notice c) = Term_succeeded then add_points (ta_sessionId a) (notice_cost (cb_notice c)) else hreturn ()) y1 = (Inr (), y2)"
      "rz_runs y2 = rz_runs y1" "rz_terminal y2 = rz_terminal y1" using p by blast
    have "on_runs (\<lambda>db. rbind (pg_updateStatus (cb_now c) (ta_runId a) Run_waiting_task db) (\<lambda>db'. Inr ((), db'))) y2 = (out, z')"
      using assms(3) True y1(1) y2(1) by (simp add: settle_run_def hthen_def Let_def flip: message_def)
    then show ?thesis using wait_run_ready y1 y2 assms(1) by metis
  next
    case False
    then have other: "ta_runId a \<noteq> run" using assms(2) by auto
    have e: "\<exists>st data. end_run (ta_runId a) st data c y = (out, z') \<Longrightarrow> rz_runs y = rz_runs z \<Longrightarrow>
        rz_terminal y = rz_terminal z \<Longrightarrow> ?thesis" for y
      using end_run_other [OF _ _ other] assms(1) by metis
    consider "tn_status (cb_notice c) = Term_succeeded" "\<not> hasFailedBatchTasks (rz_terminal z) (ta_runId a)"
      | "tn_status (cb_notice c) = Term_succeeded" "hasFailedBatchTasks (rz_terminal z) (ta_runId a)"
      | "tn_status (cb_notice c) \<noteq> Term_succeeded" by blast
    then show ?thesis
    proof cases
      case 1
      obtain y where y: "message (done_reply (cb_notice c)) [task_field (cb_notice c), output_field (cb_notice c)] z = (Inr (), y)"
        "rz_runs y = rz_runs z" "rz_terminal y = rz_terminal z" using m by blast
      have "end_run (ta_runId a) Run_completed [] c (snd (add_points (ta_sessionId a) (notice_cost (cb_notice c)) y)) = (out, z')"
        using assms(3) False 1 y(1) by (simp add: settle_run_def hthen_def add_points_def Let_def flip: message_def)
      then show ?thesis using y(2,3)
        by (intro e [of "snd (add_points (ta_sessionId a) (notice_cost (cb_notice c)) y)"]) (auto simp: add_points_def)
    next
      case 2
      obtain y where y: "message Reply_partial_failure [task_field (cb_notice c), (''status'', JStr ''partial_failure'')] z = (Inr (), y)"
        "rz_runs y = rz_runs z" "rz_terminal y = rz_terminal z" using m by blast
      have "end_run (ta_runId a) Run_failed [(''errorCode'', JStr ''BATCH_PARTIAL_FAILURE'')] c y = (out, z')"
        using assms(3) False 2 y(1) by (simp add: settle_run_def hthen_def Let_def flip: message_def)
      then show ?thesis by (intro e [OF _ y(2,3)]) blast
    next
      case 3
      obtain y where y: "message (Reply_failed (code_or_status (cb_notice c)))
          [task_field (cb_notice c), (''errorCode'', JStr (code_or_status (cb_notice c)))] z = (Inr (), y)"
        "rz_runs y = rz_runs z" "rz_terminal y = rz_terminal z" using m by blast
      have "end_run (ta_runId a) Run_failed [(''errorCode'', JStr (code_or_status (cb_notice c)))] c y = (out, z')"
        using assms(3) False 3 y(1) by (simp add: settle_run_def hthen_def Let_def flip: message_def)
      then show ?thesis by (intro e [OF _ y(2,3)]) blast
    qed
  qed
qed


lemma settle_session_active:
  assumes ready: "run_ready (rz_runs z) run" and pending: "hasPendingBatchTasks (rz_terminal z) run"
    and out: "settle_session a c z = (out, z')"
  shows "run_ready (rz_runs z') run \<and> rz_terminal z' = rz_terminal z"
proof (cases "\<exists>q. pg_findRun (rz_runs z) (ta_runId a) = Some q \<and> isCallbackActiveRun (ru_status q)")
  case False
  then have "rz_runs z' = rz_runs z \<and> rz_terminal z' = rz_terminal z"
    using out unfolding settle_session_def Let_def pg_run_sel
    by (cases "pg_findRun (rz_runs z) (ta_runId a)")
       (auto simp: addMessage_def simp del: isCallbackActiveRun.simps split: if_splits)
  then show ?thesis using ready by simp
next
  case True
  obtain o1 z1 where z1: "on_runs (appendEvent pg_run_repository (ta_runId a) Ev_task_status (task_event (cb_notice c)) (cb_event c) (cb_now c)) z = (o1, z1)"
    by fastforce
  from True out z1 have step: "(case o1 of Inl e \<Rightarrow> (Inl e, z1)
      | Inr e \<Rightarrow> hthen (publish_event e) (\<lambda>_. hthen (settle_run a c) (\<lambda>_. publishLatestRunEvent (ta_runId a))) z1) = (out, z')"
    by (auto simp: settle_session_def hthen_def Let_def simp del: isCallbackActiveRun.simps split: sum.splits prod.splits)
  note one = on_runs_append [OF ready z1]
  show ?thesis
  proof (cases o1)
    case (Inl e)
    then show ?thesis using step one by simp
  next
    case (Inr e)
    obtain y where y: "rz_runs y = rz_runs z1" "rz_terminal y = rz_terminal z1" "publish_event e z1 = (Inr (), y)"
      using that [of "z1\<lparr>rz_published := rz_published z1 @ [toEnvelope e]\<rparr>"] by (simp add: publish_event_def)
    obtain o2 z2 where z2: "settle_run a c y = (o2, z2)" by fastforce
    have two: "run_ready (rz_runs z2) run \<and> rz_terminal z2 = rz_terminal y"
      by (rule settle_run_active [OF _ _ z2]) (use one pending y in simp_all)
    have "z' = z2 \<or> z' = snd (publishLatestRunEvent (ta_runId a) z2)"
      using step Inr y(3) z2 by (auto simp: hthen_def split: sum.splits)
    then show ?thesis using two one y publish_latest [of "ta_runId a" z2] by (metis resume_db.select_convs(2,4) resume_db.surjective resume_db.update_convs(7) snd_conv)
  qed
qed

text \<open>
  A task of the batch whose settlement failed: its action waits for a compensation, which no callback carries
  out, because the task has its terminal status.
\<close>

definition stranded :: "string \<Rightarrow> string \<Rightarrow> terminal_db \<Rightarrow> bool" where
  "stranded t run db \<longleftrightarrow> (\<exists>r \<in> set (td_actions db). batch_task run r \<and> ar_status r = Action_compensation_required \<and>
     ar_task_id r = Some t) \<and> (\<exists>m \<in> set (td_notices db). nr_task_id m = t)"

lemma stranded_pending: "stranded t run db \<Longrightarrow> hasPendingBatchTasks db run"
  by (auto simp: stranded_def hasPendingBatchTasks_def)

lemma mark_stranded:
  assumes "stranded t run db" "pg_markTerminal n a db = Inr (b, db')" "tn_taskId n \<noteq> t"
  shows "stranded t run db'"
proof -
  obtain r where r: "r \<in> set (td_actions db)" "batch_task run r" "ar_status r = Action_compensation_required" "ar_task_id r = Some t"
    using assms(1) by (auto simp: stranded_def)
  have "db' = db \<or> td_actions db' = map (row_marked (ta_actionId a) n) (td_actions db) \<and> set (td_notices db) \<subseteq> set (td_notices db')"
    using assms(2) by (auto simp: pg_markTerminal_def row_marked_def result_simps split: if_splits)
  moreover have "row_marked (ta_actionId a) n r = r" using row_marked_other [of r n] r(4) assms(3) by simp
  then have "r \<in> row_marked (ta_actionId a) n ` set (td_actions db)" using r(1)
    by (intro image_eqI [of r _ r]) simp_all
  then have "r \<in> set (map (row_marked (ta_actionId a) n) (td_actions db))" by simp
  moreover obtain m where m: "m \<in> set (td_notices db)" "nr_task_id m = t" using assms(1) by (auto simp: stranded_def)
  ultimately have "r \<in> set (td_actions db')" "m \<in> set (td_notices db')" using r(1) by auto
  then show ?thesis using r(2-4) m(2) unfolding stranded_def by blast
qed

lemma handle_stranded:
  assumes "stranded t run db" "handle (pg_terminal_store continues) secret n cred db = Inr (r, db')"
  shows "stranded t run db'"
proof (cases "pg_getTerminalStatus db (tn_taskId n)")
  case None
  then have "tn_taskId n \<noteq> t" using assms(1) unfolding pg_status_none stranded_def by blast
  then show ?thesis using None assms
    by (auto simp: handle_def decide_def mark_def pg_terminal_store_def result_simps intro: mark_stranded)
next
  case (Some p)
  then have "db' = db \<or> db' = pg_warnConflict n p db"
    using assms(2) by (auto simp: handle_def decide_def pg_terminal_store_def result_simps split: if_splits)
  then show ?thesis using assms(1) by (auto simp: stranded_def pg_warnConflict_def)
qed

lemma finish_active:
  assumes "run_ready (rz_runs z) run" "hasPendingBatchTasks (rz_terminal z) run" "finish_callback r c z = (out, z')"
  shows "run_ready (rz_runs z') run \<and> rz_terminal z' = rz_terminal z"
proof (cases "tr_duplicate r \<or> tr_conflict r")
  case True
  then show ?thesis using assms by (auto simp: finish_callback_def hreturn_def)
next
  case False
  let ?step = "on_plans (\<lambda>db. rbind (completeTaskStep (tn_taskId (cb_notice c)) (tn_status (cb_notice c))
    (tn_errorCode (cb_notice c)) (plan_output (cb_notice c)) db) (\<lambda>(db', p). Inr (p, db')))"
  obtain o1 z1 where z1: "?step z = (o1, z1)" by fastforce
  have one: "rz_runs z1 = rz_runs z" "rz_terminal z1 = rz_terminal z"
    using z1 by (auto simp: on_plans_def hstep_def split: sum.splits)
  obtain o2 z2 where z2: "settle_session (tr_association r) c z1 = (o2, z2)" by fastforce
  have "z' = z1 \<or> z' = z2"
    using assms(3) False z1 z2 by (auto simp: finish_callback_def hthen_def split: sum.splits)
  then show ?thesis using settle_session_active [OF _ _ z2, of run] one assms(1,2) by auto
qed

lemma callback_stranded:
  fixes continues :: "json \<Rightarrow> bool" and secret :: string and c :: callback
  assumes "run_ready (rz_runs z) run" "stranded t run (rz_terminal z)"
  defines "z' \<equiv> snd (terminal_callback continues secret c z)"
  shows "run_ready (rz_runs z') run \<and> stranded t run (rz_terminal z')"
proof (cases "markTask (tn_taskId (cb_notice c)) (task_outcome_of (tn_status (cb_notice c))) (cb_renderError c) (rz_render z)")
  case (Some m)
  then show ?thesis using assms(1,2) by (auto simp: z'_def terminal_callback_def split: sum.splits)
next
  case None
  show ?thesis
  proof (cases "handle (pg_terminal_store continues) secret (cb_notice c) (cb_secret c) (rz_terminal z)")
    case (Inl e)
    then show ?thesis using assms(1,2) None by (simp add: z'_def terminal_callback_def hthen_def on_terminal_def hstep_def)
  next
    case (Inr rs)
    obtain r db where rs: "rs = (r, db)" by fastforce
    have s: "stranded t run db" using handle_stranded [OF assms(2)] Inr rs by blast
    obtain out y where y: "finish_callback r c (z\<lparr>rz_terminal := db\<rparr>) = (out, y)" by fastforce
    have "z' = y"
      using None Inr rs y by (simp add: z'_def terminal_callback_def hthen_def on_terminal_def hstep_def hreturn_def split: sum.splits)
    then show ?thesis using finish_active [OF _ _ y, of run] s stranded_pending [OF s] assms(1) by simp
  qed
qed

lemma callbacks_stranded:
  "run_ready (rz_runs z) run \<Longrightarrow> stranded t run (rz_terminal z) \<Longrightarrow>
   run_ready (rz_runs (callbacks continues secret cs z)) run \<and> stranded t run (rz_terminal (callbacks continues secret cs z))"
  by (induction cs arbitrary: z) (simp_all add: callback_stranded)

lemma settlement_error_strands:
  fixes continues :: "json \<Rightarrow> bool"
  assumes w: "batch_waiting run sid ts z" and t: "cb_task c \<in> set ts" and c: "assertAuthorized secret (cb_secret c) = Inr ()"
    "tn_status (cb_notice c) = Term_settlement_error"
  defines "z' \<equiv> snd (terminal_callback continues secret c z)"
  shows "run_ready (rz_runs z') run \<and> stranded (cb_task c) run (rz_terminal z')"
proof -
  have b: "batch_open run sid ts (rz_terminal z)" "plain_tasks ts z" "run_ready (rz_runs z) run"
    using w by (simp_all add: batch_waiting_def)
  obtain a r db where m: "handle (pg_terminal_store continues) secret (cb_notice c) (cb_secret c) (rz_terminal z) =
      Inr (result_for a False False, db)" "r \<in> set (td_actions (rz_terminal z))"
    "task_row run sid (cb_task c) r" "td_actions db = map (row_marked (ar_id r) (cb_notice c)) (td_actions (rz_terminal z))"
    "td_notices db = td_notices (rz_terminal z) @ [\<lparr>nr_id = ar_id r, nr_session_id = sid, nr_task_id = cb_task c,
      nr_terminal_status = tn_status (cb_notice c), nr_payload = cb_notice c\<rparr>]"
    using mark_task [OF b(1) t, of secret "cb_secret c" continues] c(1) by blast
  have "row_marked (ar_id r) (cb_notice c) r \<in> set (td_actions db)" using m(2,4) by simp
  moreover have "ar_status (row_marked (ar_id r) (cb_notice c) r) = Action_compensation_required" "batch_task run r" "ar_task_id r = Some (cb_task c)"
    using m(3) c(2) by (simp_all add: row_marked_def task_row_def action_status_for_def)
  ultimately have s: "stranded (cb_task c) run db"
    using m(5) unfolding stranded_def by (metis notice_row.select_convs(3) in_set_conv_decomp row_marked_sel(2,3))
  obtain out y where y: "finish_callback (result_for a False False) c (z\<lparr>rz_terminal := db\<rparr>) = (out, y)" by fastforce
  have "z' = y" using plain_markTask [OF b(2) t] m(1) y
    by (simp add: z'_def terminal_callback_def hthen_def on_terminal_def hstep_def hreturn_def split: sum.splits)
  then show ?thesis using finish_active [OF _ _ y, of run] s stranded_pending [OF s] b(3) by simp
qed


section \<open>What is written about the tasks\<close>

text \<open>After the terminal service no statement of the handler writes the tables of tasks.\<close>

definition quiet :: "'a handler \<Rightarrow> bool" where
  "quiet f \<longleftrightarrow> (\<forall>z. rz_terminal (snd (f z)) = rz_terminal z)"

lemma quiet_hthen: "quiet f \<Longrightarrow> (\<And>v. quiet (g v)) \<Longrightarrow> quiet (hthen f g)"
  unfolding quiet_def hthen_def by (auto split: prod.splits sum.splits) (metis snd_conv)+

lemma quiet_steps: "quiet (on_runs f)" "quiet (on_plans h)" "quiet (addMessage i sid text meta)"
  "quiet (add_points sid n)" "quiet (publish_event e)" "quiet (hreturn v)" "quiet (end_run run st data c)"
  "quiet (publishLatestRunEvent run)"
  by (auto simp: quiet_def on_runs_def on_plans_def hstep_def addMessage_def add_points_def publish_event_def
      hreturn_def end_run_def publishLatestRunEvent_def split: sum.splits list.splits)

lemma quiet_hthenD: "quiet (hthen f g) \<Longrightarrow> rz_terminal (snd (hthen f g z)) = rz_terminal z"
  and quiet_messageD: "rz_terminal (snd (addMessage i sid text meta z)) = rz_terminal z"
  by (simp_all add: quiet_def addMessage_def)

lemma quiet_settle_run: "quiet (settle_run a c)"
  unfolding quiet_def [of "settle_run a c"] settle_run_def Let_def
  by (auto intro!: quiet_hthenD quiet_hthen quiet_steps)

lemma quiet_settle_session: "quiet (settle_session a c)"
  unfolding quiet_def [of "settle_session a c"] settle_session_def Let_def
  by (auto intro!: quiet_hthenD quiet_messageD quiet_hthen quiet_steps quiet_settle_run
      simp del: isCallbackActiveRun.simps split: option.splits)

lemma finish_quiet: "finish_callback r c z = (out, z') \<Longrightarrow> rz_terminal z' = rz_terminal z"
proof -
  have f: "quiet (\<lambda>z. (Inr (h z), z))" for h :: "resume_db \<Rightarrow> answer" by (simp add: quiet_def)
  have "quiet (finish_callback r c)"
    unfolding finish_callback_def by (auto intro!: quiet_hthen quiet_steps quiet_settle_session f)
  then show "finish_callback r c z = (out, z') \<Longrightarrow> rz_terminal z' = rz_terminal z" by (metis quiet_def snd_conv)
qed

lemma callback_terminal:
  "rz_terminal (snd (terminal_callback continues secret c z)) \<in>
     {rz_terminal z, deliver (pg_terminal_store continues) secret [(cb_notice c, cb_secret c)] (rz_terminal z)}"
proof (cases "markTask (tn_taskId (cb_notice c)) (task_outcome_of (tn_status (cb_notice c))) (cb_renderError c) (rz_render z)")
  case (Some m)
  then show ?thesis by (cases m) (simp_all add: terminal_callback_def)
next
  case None
  show ?thesis
  proof (cases "handle (pg_terminal_store continues) secret (cb_notice c) (cb_secret c) (rz_terminal z)")
    case (Inl e)
    then show ?thesis using None by (simp add: terminal_callback_def hthen_def on_terminal_def hstep_def)
  next
    case (Inr rs)
    obtain r db where rs: "rs = (r, db)" by fastforce
    obtain out y where y: "finish_callback r c (z\<lparr>rz_terminal := db\<rparr>) = (out, y)" by fastforce
    have "snd (terminal_callback continues secret c z) = y"
      using None Inr rs y by (simp add: terminal_callback_def hthen_def on_terminal_def hstep_def hreturn_def split: sum.splits)
    then show ?thesis using finish_quiet [OF y] Inr rs by simp
  qed
qed

lemma deliver_append: "deliver store secret (xs @ ys) db = deliver store secret ys (deliver store secret xs db)"
  by (induction store secret xs db rule: deliver.induct) (auto split: sum.splits)

lemma callbacks_deliver:
  "\<exists>ns. rz_terminal (callbacks continues secret cs z) = deliver (pg_terminal_store continues) secret ns (rz_terminal z)"
proof (induction cs arbitrary: z)
  case Nil
  show ?case by (rule exI [of _ "[]"]) simp
next
  case (Cons c cs)
  let ?z = "snd (terminal_callback continues secret c z)" and ?d = "deliver (pg_terminal_store continues) secret"
  obtain ns where ns: "rz_terminal (callbacks continues secret (c # cs) z) = ?d ns (rz_terminal ?z)"
    using Cons [of ?z] by auto
  have "rz_terminal ?z = ?d [] (rz_terminal z) \<or> rz_terminal ?z = ?d [(cb_notice c, cb_secret c)] (rz_terminal z)"
    using callback_terminal [of continues secret c z] by simp
  then show ?case unfolding ns by (metis deliver_append)
qed

lemma settled_callback:
  assumes "findTask (pg_terminal_store continues) (rz_terminal z) (cb_task c) = Some a"
    "pg_getTerminalStatus (rz_terminal z) (cb_task c) = Some p" "assertAuthorized secret (cb_secret c) = Inr ()"
    "markTask (cb_task c) (task_outcome_of (tn_status (cb_notice c))) (cb_renderError c) (rz_render z) = None"
  shows "\<exists>db. terminal_callback continues secret c z =
    (Inr (Some \<lparr>an_duplicate = (p = tn_status (cb_notice c)), an_conflict = (p \<noteq> tn_status (cb_notice c)),
       an_planStepUpdated = False, an_continue = False\<rparr>), z\<lparr>rz_terminal := db\<rparr>)"
proof -
  have get: "getTerminalStatus (pg_terminal_store continues) = pg_getTerminalStatus"
    by (simp add: pg_terminal_store_def)
  obtain db where db: "handle (pg_terminal_store continues) secret (cb_notice c) (cb_secret c) (rz_terminal z) =
      Inr (result_for a (p = tn_status (cb_notice c)) (p \<noteq> tn_status (cb_notice c)), db)"
    using pg_terminal.handle_settled [OF assms(1), of p secret] assms(2,3) unfolding get by blast
  then show ?thesis using assms(4)
    by (auto simp: terminal_callback_def finish_callback_def handler_defs result_for_def)
qed

section \<open>Properties\<close>


text \<open>
  C36. A task of a batch whose settlement fails keeps its run active for good.  From the callback with
  \<open>settlement_error\<close> on, whatever callbacks follow for any tasks, with any secret, the run of the batch is
  active, so every message to the session under a new key is refused as busy.
\<close>

theorem settlement_error_blocks_session:
  assumes "batch_waiting run sid ts z" "cb_task c \<in> set ts" "assertAuthorized secret (cb_secret c) = Inr ()"
    and "tn_status (cb_notice c) = Term_settlement_error"
  shows "\<exists>r. pg_findRun (rz_runs (callbacks continues secret (c # cs) z)) run = Some r \<and> run_active r \<and>
    (pg_findByIdempotency (rz_runs (callbacks continues secret (c # cs) z)) (ru_sessionId r) key = None \<longrightarrow>
      startRun pg_run_repository (ru_sessionId r) key i now (rz_runs (callbacks continues secret (c # cs) z)) = Inl SESSION_BUSY)"
proof -
  let ?db = "rz_runs (callbacks continues secret (c # cs) z)"
  have "run_ready ?db run"
    using callbacks_stranded [OF conjunct1 conjunct2, OF settlement_error_strands settlement_error_strands, OF assms assms] by simp
  then obtain r where ok: "runs_ok ?db \<and> events_ok ?db" and r: "pg_findRun ?db run = Some r" "run_active r"
    by (auto simp: run_ready_def)
  have "pg_findActive ?db (ru_sessionId r) \<noteq> None"
    using pg_runs.active_found [OF ok, of run r] r by simp
  moreover have "jget (rd_sessions ?db) (ru_sessionId r) \<noteq> None"
    using ok r(1) by (auto simp: runs_ok_def pg_findRun_def dest: find_SomeD)
  ultimately show ?thesis using r pg_runs.start_busy [OF ok, of "ru_sessionId r" key i now] by auto
qed

text \<open>
  A callback that throws after its task has got its terminal status is never made up for.  Whatever callbacks
  come in between, when the same task is called back again with the right secret, the answer is a duplicate or
  a conflict, and plans, runs, messages and points are left as they are: the step of the plan and the run keep
  waiting.
\<close>

theorem failed_callback_not_retried:
  assumes "terminal_callback continues secret c z = (Inl e, z1)"
    and "pg_getTerminalStatus (rz_terminal z) (cb_task c) = None" "pg_getTerminalStatus (rz_terminal z1) (cb_task c) = Some p"
    and "cb_task m = cb_task c" "assertAuthorized secret (cb_secret m) = Inr ()"
    and "\<forall>j \<in> set (rt_jobs (rz_render (callbacks continues secret cs z1))). jr_task_id j \<noteq> Some (cb_task c)"
  shows "\<exists>a db. terminal_callback continues secret m (callbacks continues secret cs z1) =
      (Inr (Some a), (callbacks continues secret cs z1)\<lparr>rz_terminal := db\<rparr>) \<and>
    (an_duplicate a \<or> an_conflict a) \<and> \<not> an_planStepUpdated a"
proof -
  let ?st = "pg_terminal_store continues" and ?z = "callbacks continues secret cs z1"
  have get: "getTerminalStatus ?st = pg_getTerminalStatus" by (simp add: pg_terminal_store_def)
  have "rz_terminal z1 = deliver ?st secret [(cb_notice c, cb_secret c)] (rz_terminal z)"
    using callback_terminal [of continues secret c z] assms(1-3) by auto
  then obtain r where h: "handle ?st secret (cb_notice c) (cb_secret c) (rz_terminal z) = Inr (r, rz_terminal z1)"
    using assms(2,3) by (auto split: sum.splits)
  have "\<not> tr_duplicate r \<and> \<not> tr_conflict r"
    using h assms(2,3) pg_mark_status(2) [OF _ assms(2)]
    by (auto simp: handle_def decide_def mark_def get result_simps result_for_def pg_terminal_store_def split: option.splits)
      blast+
  then obtain a where a: "findTask ?st (rz_terminal z1) (cb_task c) = Some a"
    using pg_terminal.handle_fresh [OF h] by blast
  obtain ns where ns: "rz_terminal ?z = deliver ?st secret ns (rz_terminal z1)" using callbacks_deliver by blast
  have known: "findTask ?st (rz_terminal ?z) (cb_task m) = Some a" "pg_getTerminalStatus (rz_terminal ?z) (cb_task m) = Some p"
    using pg_terminal.deliver_status_kept [OF a, of p secret ns] assms(3,4) ns by (simp_all add: get)
  have "markTask (cb_task m) (task_outcome_of (tn_status (cb_notice m))) (cb_renderError m) (rz_render ?z) = None"
    unfolding markTask_def by (subst find_None_all) (use assms(4,6) in auto)
  from settled_callback [OF known assms(5) this] show ?thesis by force
qed


text \<open>The last task of a batch in which another one has failed costs nothing, though it succeeds.\<close>

lemma partial_failure_not_charged:
  assumes "batch_waiting run sid [t] z" "hasFailedBatchTasks (rz_terminal z) run" "cb_task c = t" "decisive secret c"
    "cb_event c \<notin> event_ids (rz_runs z)" "cb_end c \<notin> event_ids (rz_runs z)" "cb_end c \<noteq> cb_event c"
  shows "rz_points (snd (terminal_callback continues secret c z)) = rz_points z"
  using callback_step(4) [OF assms(1) _ assms(4-7), of continues] assms(2,3) by simp

section \<open>Instances\<close>

definition batch_action :: "string \<Rightarrow> string \<Rightarrow> action_row" where
  "batch_action i t = sample_action\<lparr>ar_id := i, ar_action_type := ''batch_task'', ar_run_id := Some ''1'', ar_task_id := Some t\<rparr>"

definition sample_resume_db :: resume_db where
  "sample_resume_db = \<lparr>rz_render = empty_render_db,
     rz_terminal = \<lparr>td_actions = [batch_action ''10'' ''t'', batch_action ''11'' ''u''], td_notices = [], td_conflicts = []\<rparr>,
     rz_plans = empty_db, rz_runs = sample_run_db, rz_messages = [], rz_points = [(''s'', 3)], rz_published = []\<rparr>"

definition sample_callback :: "terminal_status \<Rightarrow> string \<Rightarrow> string \<Rightarrow> callback" where
  "sample_callback st t e = \<lparr>cb_notice = (sample_notice st)\<lparr>tn_taskId := t, tn_actualCost := Some 4\<rparr>, cb_renderError = None,
     cb_secret = ''k'', cb_now = 9, cb_message = e, cb_event = ''a'' @ e, cb_end = ''b'' @ e\<rparr>"

lemma sample_waiting: "batch_waiting ''1'' ''s'' [''t'', ''u''] sample_resume_db"
  using reached_ok [OF sample_run_db_reached] sample_run_found(1,2)
  by (simp add: batch_waiting_def batch_open_def plain_tasks_def run_ready_def task_row_def batch_task_def
      sample_resume_db_def batch_action_def sample_action_def empty_render_db_def empty_db_def)


lemmas sample_callback_defs = sample_callback_def sample_notice_def assertAuthorized_def throw_if_def


theorem settlement_error_blocks_session_witness:
  "\<exists>r :: agent_run. pg_findRun (rz_runs (callbacks continue_flag ''k''
     [sample_callback Term_settlement_error ''u'' ''x'', sample_callback Term_succeeded ''t'' ''y''] sample_resume_db)) ''1'' = Some r \<and> run_active r"
proof -
  let ?c = "sample_callback Term_settlement_error ''u'' ''x''"
  have "cb_task ?c \<in> set [''t'', ''u'']" "assertAuthorized ''k'' (cb_secret ?c) = Inr ()"
    "tn_status (cb_notice ?c) = Term_settlement_error"
    by (simp_all add: sample_callback_defs)
  from settlement_error_blocks_session [OF sample_waiting this, of continue_flag "[sample_callback Term_succeeded ''t'' ''y'']"]
  show ?thesis by blast
qed

text \<open>A plan row whose JSON is not a plan makes the callback of its task throw.\<close>

definition damaged_db :: resume_db where
  "damaged_db = sample_resume_db\<lparr>rz_plans := empty_db\<lparr>
     db_plans := [\<lparr>pr_id = ''p'', pr_session_id = ''s'', pr_version = 1, pr_canvas_version = 7,
       pr_status = Plan_running, pr_plan_json = Other_json, pr_created_by = ''u''\<rparr>],
     db_steps := [\<lparr>sr_plan_id = ''p'', sr_step_key = ''a'', sr_tool_name = ''submit_generation'', sr_depends_on = [],
       sr_status = Running, sr_input_hash = ''h'', sr_estimated_cost = 4, sr_effect = Some Effect_create_task,
       sr_concurrency_key = None, sr_idempotency_key = Some ''i'', sr_task_id = Some ''t'', sr_lease_until = None,
       sr_attempt_count = 1, sr_output_ref = None, sr_last_error = None\<rparr>]\<rparr>\<rparr>"

lemma damaged_callback:
  "\<exists>z1. terminal_callback continue_flag ''k'' (sample_callback Term_succeeded ''t'' ''x'') damaged_db =
     (Inl (Resume_plan (Compile_error INVALID_DEPENDENCY)), z1) \<and>
   pg_getTerminalStatus (rz_terminal z1) ''t'' = Some Term_succeeded \<and> rt_jobs (rz_render z1) = []"
proof -
  let ?c = "sample_callback Term_succeeded ''t'' ''x''"
  let ?n = "(sample_notice Term_succeeded)\<lparr>tn_taskId := ''t'', tn_actualCost := Some 4\<rparr>"
  have h: "\<exists>a db. handle (pg_terminal_store continue_flag) ''k'' ?n ''k'' (rz_terminal damaged_db) = Inr (result_for a False False, db) \<and>
      pg_getTerminalStatus db ''t'' = Some Term_succeeded"
    by (simp add: damaged_db_def sample_resume_db_def batch_action_def sample_terminal_defs terminal_store_defs)
  have m: "markTask ''t'' o' e (rz_render damaged_db) = None" for o' e
    by (simp add: markTask_def damaged_db_def sample_resume_db_def empty_render_db_def)
  have p: "completeTaskStep ''t'' st e out (rz_plans damaged_db) = Inl (Compile_error INVALID_DEPENDENCY)" for st e out
    by (simp add: completeTaskStep_def toPlan_def damaged_db_def rbind_def)
  have r: "rt_jobs (rz_render damaged_db) = []" by (simp add: damaged_db_def sample_resume_db_def empty_render_db_def)
  show ?thesis using h m p r
    by (auto simp: terminal_callback_def sample_callback_def finish_callback_def handler_defs result_for_def rbind_def)
qed

theorem failed_callback_not_retried_witness:
  "\<exists>e z1 a db. terminal_callback continue_flag ''k'' (sample_callback Term_succeeded ''t'' ''x'') damaged_db = (Inl e, z1) \<and>
     terminal_callback continue_flag ''k'' (sample_callback Term_succeeded ''t'' ''y'') z1 = (Inr (Some (a :: answer)), z1\<lparr>rz_terminal := db\<rparr>) \<and>
     \<not> an_planStepUpdated a"
proof -
  let ?c = "sample_callback Term_succeeded ''t''"
  obtain e z1 where c: "terminal_callback continue_flag ''k'' (?c ''x'') damaged_db = (Inl e, z1)"
    "pg_getTerminalStatus (rz_terminal z1) ''t'' = Some Term_succeeded" "rt_jobs (rz_render z1) = []"
    using damaged_callback by blast
  have "pg_getTerminalStatus (rz_terminal damaged_db) (cb_task (?c ''x'')) = None"
    by (simp add: damaged_db_def sample_resume_db_def pg_status_none)
  from failed_callback_not_retried [OF c(1) this, of Term_succeeded "?c ''y''" "[]"] c
  show ?thesis by (auto simp: sample_callback_defs)
qed

end
