(* ===== verification/ConfirmRoutes.thy ===== *)
theory ConfirmRoutes
  imports TaskResume
begin

text \<open>
  The confirmation of a proposed generation, \<open>POST /api/v1/agent/sessions/:sessionId/confirmations/:actionId\<close>
  (\<^verbatim>\<open>api/app.ts\<close>), with \<^verbatim>\<open>application/confirmation-status.ts\<close>, over the approvals, the executor of generations and
  the tables that the callback route shares.  The table of actions is seen through the columns that approvals read
  (\<open>ad_actions\<close>) and through those that callbacks read (\<open>td_actions\<close>); its column \<open>result\<close> holds what a callback
  wrote, the results of submissions are left out, as are idempotency keys of actions.  The answers of the gateways
  are parameters, ids and the clock come with the request.
\<close>

section \<open>The state of the route\<close>

record session_line =
  sl_id :: string
  sl_user_id :: string
  sl_canvas_id :: "string option"

record confirm_state =
  cs_sessions :: "session_line list"
  cs_tables :: resume_db
  cs_approvals :: approval_db
  cs_results :: "(string, generation_result) jmap"

datatype confirm_error =
    Confirm_api api_error | Confirm_approval approval_error | Confirm_version | Confirm_gateway string
  | Confirm_tables resume_error

type_synonym 'a confirm_step = "confirm_state \<Rightarrow> (confirm_error + 'a) \<times> confirm_state"

definition in_tables :: "'a handler \<Rightarrow> 'a confirm_step" where
  "in_tables f s = (case f (cs_tables s) of (out, z) \<Rightarrow> (map_sum Confirm_tables id out, s\<lparr>cs_tables := z\<rparr>))"

definition check :: "('e \<Rightarrow> confirm_error) \<Rightarrow> 'e + 'a \<Rightarrow> 'a confirm_step" where
  "check err m s = (map_sum err id m, s)"

record confirm_env =
  cf_crypto :: crypto
  cf_secret :: string
  cf_now :: int
  cf_answers :: "gateway_request \<Rightarrow> gateway_answer"
  cf_version :: "string \<Rightarrow> string \<Rightarrow> string + num"
  cf_requestId :: "string option"
  cf_actionIds :: "nat \<Rightarrow> string"
  cf_eventIds :: "nat \<Rightarrow> string"

text \<open>A session of the user; deleted ones are found too.\<close>

definition find_session :: "session_line list \<Rightarrow> string \<Rightarrow> string \<Rightarrow> api_error + session_line" where
  "find_session rows userId sessionId =
     require_some (ApiError 404 ''NOT_FOUND'') (find (\<lambda>r. sl_id r = sessionId \<and> sl_user_id r = userId) rows)"

text \<open>The confirmation a message carries gets its status.\<close>

definition confirmation_of :: "message_line \<Rightarrow> (string \<times> json) list" where
  "confirmation_of m = objectOrEmpty (json_field (ml_meta m) ''confirmation'')"

definition persistConfirmationStatus :: "string \<Rightarrow> string \<Rightarrow> string \<Rightarrow> unit handler" where
  "persistConfirmationStatus sessionId actionId status z = (Inr (), z\<lparr>rz_messages := map (\<lambda>m.
     if ml_session_id m = sessionId \<and> json_field (confirmation_of m) ''actionId'' = Some (JStr actionId)
     then m\<lparr>ml_meta := jset ''confirmation'' (JObj (jset ''status'' (JStr status) (confirmation_of m))) (ml_meta m)\<rparr>
     else m) (rz_messages z)\<rparr>)"

definition set_action :: "string \<Rightarrow> (action_row \<Rightarrow> action_row) \<Rightarrow> unit handler" where
  "set_action actionId f = on_terminal (\<lambda>db. Inr ((),
     db\<lparr>td_actions := map (\<lambda>r. if ar_id r = actionId then f r else r) (td_actions db)\<rparr>))"

section \<open>Rejecting\<close>

definition verifyToken :: "crypto \<Rightarrow> string \<Rightarrow> string \<Rightarrow> string \<Rightarrow> bool" where
  "verifyToken c secret token signature = (secret \<noteq> [] \<and>
     (case js_split (CHR ''.'') token of
        payload # supplied # _ \<Rightarrow> payload \<noteq> [] \<and> supplied \<noteq> [] \<and> cr_hmac c secret payload = supplied \<and> cr_hmac c secret payload = signature
      | _ \<Rightarrow> False))"

definition pending_row :: "approval_db \<Rightarrow> string \<Rightarrow> string \<Rightarrow> string \<Rightarrow> approval_row option" where
  "pending_row db actionId sessionId userId = find (\<lambda>p. aw_action_id p = actionId \<and> aw_session_id p = sessionId \<and>
     aw_user_id p = userId \<and> aw_status p = Row_pending) (ad_approvals db)"

definition reject_row :: "string \<Rightarrow> unit confirm_step" where
  "reject_row actionId s = (Inr (), s\<lparr>cs_approvals := (cs_approvals s)\<lparr>ad_approvals :=
     map (\<lambda>p. if aw_action_id p = actionId \<and> aw_status p = Row_pending then p\<lparr>aw_status := Row_rejected\<rparr> else p)
       (ad_approvals (cs_approvals s))\<rparr>\<rparr>)"

definition close_waiting_run :: "string \<Rightarrow> confirm_env \<Rightarrow> unit handler" where
  "close_waiting_run sessionId env z = (case pg_findActive (rz_runs z) sessionId of
     Some run \<Rightarrow>
       if ru_status run = Run_waiting_confirmation
       then on_runs (\<lambda>db. rbind (setStatus pg_run_repository (ru_runId run) Run_completed [] (cf_eventIds env 0) (cf_now env) db)
              (\<lambda>db'. Inr ((), db'))) z
       else (Inr (), z)
   | None \<Rightarrow> (Inr (), z))"

definition reject_action :: "confirm_env \<Rightarrow> string \<Rightarrow> string \<Rightarrow> string \<Rightarrow> string \<Rightarrow> unit confirm_step" where
  "reject_action env userId sessionId actionId token s =
     (case pending_row (cs_approvals s) actionId sessionId userId of
        Some p \<Rightarrow>
          if verifyToken (cf_crypto env) (cf_secret env) token (aw_token_signature p)
          then hthen (reject_row actionId) (\<lambda>_.
               in_tables (hthen (set_action actionId (\<lambda>r. r\<lparr>ar_status := Action_rejected\<rparr>)) (\<lambda>_.
                 hthen (persistConfirmationStatus sessionId actionId ''rejected'') (\<lambda>_. close_waiting_run sessionId env)))) s
          else (Inl (Confirm_api (ApiError 400 ''CONFIRMATION_REQUIRED'')), s)
      | None \<Rightarrow> (Inl (Confirm_api (ApiError 400 ''CONFIRMATION_REQUIRED'')), s))"

section \<open>The items of a confirmed action\<close>

record generation_item =
  it_nodeId :: string
  it_modelType :: string
  it_modelParams :: "(string \<times> json) list"
  it_estimatedCost :: num

definition singleGenerationItem :: "(string \<times> json) list \<Rightarrow> api_error + generation_item" where
  "singleGenerationItem params =
     rbind (requiredId (json_field params ''nodeId'')) (\<lambda>node.
     rbind (requiredString (json_field params ''modelType'')) (\<lambda>model.
       Inr \<lparr>it_nodeId = node, it_modelType = model, it_modelParams = objectOrEmpty (json_field params ''modelParams''), it_estimatedCost = 0\<rparr>))"

definition batch_item :: "json \<Rightarrow> api_error + generation_item" where
  "batch_item value =
     (let item = objectOrEmpty (Some value) in
      rbind (requiredId (json_field item ''nodeId'')) (\<lambda>node.
      rbind (requiredString (json_field item ''modelType'')) (\<lambda>model.
      rbind (requiredInteger (json_field item ''estimatedCost'')) (\<lambda>cost.
        Inr \<lparr>it_nodeId = node, it_modelType = model, it_modelParams = objectOrEmpty (json_field item ''modelParams''), it_estimatedCost = cost\<rparr>))))"

definition batchGenerationItems :: "(string \<times> json) list \<Rightarrow> api_error + generation_item list" where
  "batchGenerationItems params = (case json_field params ''generations'' of
     Some (JArr raw) \<Rightarrow> throw_if (length raw < 2 \<or> 20 < length raw) (ApiError 400 ''INVALID_INPUT'') (rmap batch_item raw)
   | _ \<Rightarrow> api_fail)"

definition generationItemCount :: "(string \<times> json) list \<Rightarrow> nat" where
  "generationItemCount params = (case json_field params ''generations'' of Some (JArr gs) \<Rightarrow> length gs | _ \<Rightarrow> 1)"

definition confirmed_items :: "planned_action \<Rightarrow> api_error + generation_item list" where
  "confirmed_items consumed =
     (if ac_toolName consumed = ''submit_generation_batch'' then batchGenerationItems (ac_params consumed)
      else rbind (singleGenerationItem (ac_params consumed)) (\<lambda>item. Inr [item\<lparr>it_estimatedCost := ac_estimatedCost consumed\<rparr>]))"

definition generation_of_item :: "confirm_env \<Rightarrow> string \<Rightarrow> string \<Rightarrow> planned_action \<Rightarrow> nat \<Rightarrow> nat \<Rightarrow> generation_item \<Rightarrow> generation_input" where
  "generation_of_item env userId actionId consumed n index item = \<lparr>
     gi_actionId = (if n = 1 then actionId else actionId @ '':'' @ nat_text index), gi_userId = userId,
     gi_canvasId = ac_canvasId consumed, gi_nodeId = it_nodeId item, gi_modelType = it_modelType item,
     gi_modelParams = it_modelParams item, gi_requestId = cf_requestId env, gi_requestedCost = it_estimatedCost item,
     gi_costCap = it_estimatedCost item\<rparr>"

fun indexed :: "nat \<Rightarrow> 'a list \<Rightarrow> (nat \<times> 'a) list" where
  "indexed n [] = []"
| "indexed n (x # xs) = (n, x) # indexed (Suc n) xs"

definition generate_items :: "confirm_env \<Rightarrow> string \<Rightarrow> string \<Rightarrow> planned_action \<Rightarrow> generation_item list \<Rightarrow> generation_result list confirm_step" where
  "generate_items env userId actionId consumed items s =
     (case executeBatch (cf_answers env)
         (map (\<lambda>(i, item). generation_of_item env userId actionId consumed (length items) i item) (indexed 0 items)) (cs_results s) of
        (Inl e, results) \<Rightarrow> (Inl (Confirm_gateway e), s\<lparr>cs_results := results\<rparr>)
      | (Inr (rs, cost), results) \<Rightarrow> (Inr rs, s\<lparr>cs_results := results\<rparr>))"

section \<open>Recording the submitted tasks\<close>

definition submitted_status :: "generation_result \<Rightarrow> action_result" where
  "submitted_status r = (if gr_compensationRequired r then Action_compensation_required else Action_running)"

definition item_params :: "planned_action \<Rightarrow> generation_item \<Rightarrow> json" where
  "item_params consumed item = JObj [(''nodeId'', JStr (it_nodeId item)), (''modelType'', JStr (it_modelType item)),
     (''modelParams'', JObj (it_modelParams item)), (''estimatedCost'', JNum (it_estimatedCost item)),
     (''continueAfterTask'', JBool (json_field (ac_params consumed) ''continueAfterTask'' = Some (JBool True)))]"

definition batch_row :: "confirm_env \<Rightarrow> string \<Rightarrow> string \<Rightarrow> planned_action \<Rightarrow> nat \<Rightarrow> generation_item \<Rightarrow> generation_result \<Rightarrow> action_row" where
  "batch_row env userId sessionId consumed index item r = \<lparr>ar_id = cf_actionIds env index, ar_action_type = ''batch_task'',
     ar_session_id = sessionId, ar_run_id = (if ac_runId consumed = Some [] then None else ac_runId consumed), ar_user_id = userId,
     ar_task_id = Some (gr_taskId r), ar_params = item_params consumed item, ar_created_at = cf_now env,
     ar_status = submitted_status r, ar_result = None, ar_error_code = None\<rparr>"

definition insert_action :: "action_row \<Rightarrow> terminal_db \<Rightarrow> terminal_error + unit \<times> terminal_db" where
  "insert_action row db = throw_if (\<exists>r \<in> set (td_actions db). ar_id r = ar_id row) terminal_error.DB_CONSTRAINT
     (Inr ((), db\<lparr>td_actions := td_actions db @ [row]\<rparr>))"

definition insert_line :: "planned_action \<Rightarrow> action_row \<Rightarrow> generation_item \<Rightarrow> unit confirm_step" where
  "insert_line consumed row item s = (Inr (), s\<lparr>cs_approvals := (cs_approvals s)\<lparr>ad_actions := ad_actions (cs_approvals s) @
     [\<lparr>al_id = ar_id row, al_run_id = ar_run_id row, al_params = objectOrEmpty (Some (item_params consumed item)), al_risk_level = Risk_high\<rparr>]\<rparr>\<rparr>)"

fun insert_tasks :: "confirm_env \<Rightarrow> string \<Rightarrow> string \<Rightarrow> planned_action \<Rightarrow> (nat \<times> generation_item \<times> generation_result) list \<Rightarrow> unit confirm_step" where
  "insert_tasks env userId sessionId consumed [] = hreturn ()"
| "insert_tasks env userId sessionId consumed ((i, item, r) # rest) =
     (let row = batch_row env userId sessionId consumed i item r in
      hthen (in_tables (on_terminal (insert_action row))) (\<lambda>_.
      hthen (insert_line consumed row item) (\<lambda>_. insert_tasks env userId sessionId consumed rest)))"

definition record_tasks :: "confirm_env \<Rightarrow> string \<Rightarrow> string \<Rightarrow> string \<Rightarrow> planned_action \<Rightarrow> generation_item list \<Rightarrow> generation_result list \<Rightarrow> unit confirm_step" where
  "record_tasks env userId sessionId actionId consumed items results =
     (case (items, results) of
        ([item], r # _) \<Rightarrow> in_tables (set_action actionId (\<lambda>row. row\<lparr>ar_status := submitted_status r, ar_task_id := Some (gr_taskId r)\<rparr>))
      | _ \<Rightarrow> hthen (in_tables (set_action actionId (\<lambda>row. row\<lparr>ar_status := Action_running\<rparr>))) (\<lambda>_.
               insert_tasks env userId sessionId consumed (indexed 0 (zip items results))))"

definition queued_event :: "string \<Rightarrow> generation_item \<Rightarrow> generation_result \<Rightarrow> (string \<times> json) list" where
  "queued_event canvasId item r = [(''task_id'', JStr (gr_taskId r)), (''status'', JStr ''queued''),
     (''node_id'', JStr (it_nodeId item)), (''canvas_id'', JStr canvasId)]"

fun announce_tasks :: "confirm_env \<Rightarrow> string \<Rightarrow> string \<Rightarrow> (nat \<times> generation_item \<times> generation_result) list \<Rightarrow> unit handler" where
  "announce_tasks env runId canvasId [] = hreturn ()"
| "announce_tasks env runId canvasId ((i, item, r) # rest) =
     hthen (on_runs (appendEvent pg_run_repository runId Ev_task_status (queued_event canvasId item r) (cf_eventIds env i) (cf_now env))) (\<lambda>e.
     hthen (publish_event e) (\<lambda>_. announce_tasks env runId canvasId rest))"

definition announce_run :: "confirm_env \<Rightarrow> string \<Rightarrow> string \<Rightarrow> generation_item list \<Rightarrow> generation_result list \<Rightarrow> unit handler" where
  "announce_run env sessionId canvasId items results z = (case pg_findActive (rz_runs z) sessionId of
     None \<Rightarrow> (Inr (), z)
   | Some run \<Rightarrow>
       hthen (on_runs (\<lambda>db. rbind (pg_updateStatus (cf_now env) (ru_runId run) Run_waiting_task db) (\<lambda>db'. Inr ((), db')))) (\<lambda>_.
       announce_tasks env (ru_runId run) canvasId (indexed 0 (zip items results))) z)"

section \<open>Accepting\<close>

text \<open>The \<open>try\<close> of the route, and its \<open>catch\<close>: the error code of the action is that of a gateway error.\<close>

definition carry_out :: "confirm_env \<Rightarrow> string \<Rightarrow> string \<Rightarrow> string \<Rightarrow> planned_action \<Rightarrow> generation_item list \<Rightarrow> string list confirm_step" where
  "carry_out env userId sessionId actionId consumed items =
     hthen (generate_items env userId actionId consumed items) (\<lambda>results.
     hthen (record_tasks env userId sessionId actionId consumed items results) (\<lambda>_.
     hthen (in_tables (announce_run env sessionId (ac_canvasId consumed) items results)) (\<lambda>_.
       hreturn (map gr_taskId results))))"

definition or_failed :: "string \<Rightarrow> (string \<Rightarrow> string) \<Rightarrow> 'a confirm_step \<Rightarrow> 'a confirm_step" where
  "or_failed actionId code_of f s = (case f s of
     (Inr v, s') \<Rightarrow> (Inr v, s')
   | (Inl e, s') \<Rightarrow>
       (let code = (case e of Confirm_gateway m \<Rightarrow> code_of m | _ \<Rightarrow> ''GENERATION_UNAVAILABLE'')
        in hthen (in_tables (set_action actionId (\<lambda>r. r\<lparr>ar_status := Action_failed, ar_error_code := Some code\<rparr>))) (\<lambda>_. hthrow e) s'))"

definition consume_step :: "confirm_env \<Rightarrow> string \<Rightarrow> string \<Rightarrow> int \<Rightarrow> planned_action confirm_step" where
  "consume_step env actionId token version s =
     (case consumeApproval pg_approvals (cf_crypto env) (cf_secret env) actionId token version (cf_now env) (cs_approvals s) of
        Inl e \<Rightarrow> (Inl (Confirm_approval e), s)
      | Inr (consumed, approvals) \<Rightarrow> (Inr consumed, s\<lparr>cs_approvals := approvals\<rparr>))"

definition accept_action :: "confirm_env \<Rightarrow> (string \<Rightarrow> string) \<Rightarrow> string \<Rightarrow> string \<Rightarrow> string \<Rightarrow> string \<Rightarrow> string \<Rightarrow> json option \<Rightarrow>
    string list confirm_step" where
  "accept_action env code_of userId sessionId canvasId actionId token canvasVersion =
     hthen (check Confirm_api (requiredInteger canvasVersion)) (\<lambda>submitted.
     hthen (check Confirm_gateway (cf_version env userId canvasId)) (\<lambda>current.
     if submitted \<noteq> current then hthrow Confirm_version
     else hthen (consume_step env actionId token \<lfloor>submitted\<rfloor>) (\<lambda>consumed.
       if ac_userId consumed \<noteq> userId \<or> ac_sessionId consumed \<noteq> sessionId then hthrow (Confirm_api (ApiError 403 ''PERMISSION_DENIED''))
       else hthen (in_tables (persistConfirmationStatus sessionId actionId ''accepted'')) (\<lambda>_.
         hthen (check Confirm_api (confirmed_items consumed)) (\<lambda>items.
           or_failed actionId code_of (carry_out env userId sessionId actionId consumed items))))))"

text \<open>The route: None for a rejection, and the ids of the tasks for an acceptance.\<close>

definition confirm_route :: "confirm_env \<Rightarrow> (string \<Rightarrow> string) \<Rightarrow> string option \<Rightarrow> string option \<Rightarrow> string option \<Rightarrow> json option \<Rightarrow>
    string list option confirm_step" where
  "confirm_route env code_of user session action request =
     hthen (check Confirm_api (rbind (requireUserId user) (\<lambda>userId. rbind (routeId session) (\<lambda>sessionId. rbind (routeId action) (\<lambda>actionId.
       rbind (recordBody request) (\<lambda>body.
       rbind (requiredString (coalesce (json_field body ''approvalToken'') (json_field body ''token''))) (\<lambda>token.
         Inr (userId, sessionId, actionId, body, token)))))))) (\<lambda>(userId, sessionId, actionId, body, token) s.
     hthen (check Confirm_api (find_session (cs_sessions s) userId sessionId)) (\<lambda>row.
       if \<not> truthy (sl_canvas_id row) then hthrow (Confirm_api (ApiError 400 ''INVALID_INPUT''))
       else if json_field body ''accept'' \<noteq> Some (JBool True)
       then hthen (reject_action env userId sessionId actionId token) (\<lambda>_. hreturn None)
       else hthen (accept_action env code_of userId sessionId (case sl_canvas_id row of None \<Rightarrow> [] | Some i \<Rightarrow> i) actionId token (json_field body ''canvasVersion''))
              (\<lambda>ts. hreturn (Some ts))) s)"


section \<open>What a carried out batch leaves behind\<close>

lemmas confirm_defs = in_tables_def check_def hthen_def hreturn_def hthrow_def



lemma hthen_Inl: "hthen f g z = (Inl e, z') \<longleftrightarrow> f z = (Inl e, z') \<or> (\<exists>u y. f z = (Inr u, y) \<and> g u y = (Inl e, z'))"
  by (auto simp: hthen_def split: prod.splits sum.splits)









lemma set_action_tables:
  "set_action actionId f z = (Inr (), z\<lparr>rz_terminal := (rz_terminal z)\<lparr>td_actions :=
     map (\<lambda>r. if ar_id r = actionId then f r else r) (td_actions (rz_terminal z))\<rparr>\<rparr>)"
  by (simp add: set_action_def on_terminal_def hstep_def)













section \<open>A batch that fails on the way\<close>

lemma carry_out_gateway:
  assumes "carry_out env userId sid actionId consumed items s = (Inl (Confirm_gateway e), s')"
  shows "cs_tables s' = cs_tables s"
proof -
  have no: "in_tables f x \<noteq> (Inl (Confirm_gateway e), y)" for f :: "unit handler" and x y
    by (cases "fst (f (cs_tables x))") (auto simp: in_tables_def split: prod.splits)
  have ins: "insert_tasks env userId sid consumed xs x \<noteq> (Inl (Confirm_gateway e), y)" for xs x y
  proof (induction xs arbitrary: x)
    case (Cons a xs)
    obtain i item r where a: "a = (i, item, r)" by (cases a)
    have line: "insert_line consumed row it z \<noteq> (Inl (Confirm_gateway e), y)" for row it z by (simp add: insert_line_def)
    show ?case unfolding a insert_tasks.simps Let_def hthen_Inl using no line Cons by blast
  qed (simp add: hreturn_def)
  have rec: "record_tasks env userId sid actionId consumed items results x \<noteq> (Inl (Confirm_gateway e), y)" for results x y
    using no ins unfolding record_tasks_def by (auto simp: hthen_Inl hreturn_def split: list.splits)
  obtain o1 s1 where s1: "generate_items env userId actionId consumed items s = (o1, s1)" by fastforce
  have "s' = s1"
    using assms s1 rec no unfolding carry_out_def hthen_Inl hreturn_def by auto
  then show ?thesis using s1 by (auto simp: generate_items_def split: prod.splits sum.splits)
qed

lemma or_failed_tables:
  assumes "or_failed actionId code_of f s = (Inl (Confirm_gateway e), s')"
  shows "\<exists>s1. f s = (Inl (Confirm_gateway e), s1) \<and> cs_tables s' = snd (set_action actionId
    (\<lambda>r. r\<lparr>ar_status := Action_failed, ar_error_code := Some (code_of e)\<rparr>) (cs_tables s1))"
  using assms by (auto simp: or_failed_def hthen_def hthrow_def in_tables_def set_action_tables Let_def split: prod.splits sum.splits)

section \<open>Properties\<close>


text \<open>
  C38. A batch that fails on the way forgets the tasks that it has submitted.  When the gateway refuses one of the items, the
  tables keep nothing but the failure of the action, with its error code: the run stays as it was, and the callback of any
  task that neither an action nor a render job had before, those of the items submitted so far among them, is answered with
  NOT_FOUND.
\<close>

theorem half_submitted_batch_forgotten:
  assumes "or_failed actionId code_of (carry_out env userId sid actionId consumed items) s = (Inl (Confirm_gateway e), s')"
    and "\<forall>r \<in> set (td_actions (rz_terminal (cs_tables s))). ar_task_id r \<noteq> Some (cb_task c)"
    and "assertAuthorized secret (cb_secret c) = Inr ()"
    and "\<forall>j \<in> set (rt_jobs (rz_render (cs_tables s))). jr_task_id j \<noteq> Some (cb_task c)"
  shows "cs_tables s' = (cs_tables s)\<lparr>rz_terminal := (rz_terminal (cs_tables s))\<lparr>td_actions :=
      map (\<lambda>r. if ar_id r = actionId then r\<lparr>ar_status := Action_failed, ar_error_code := Some (code_of e)\<rparr> else r)
        (td_actions (rz_terminal (cs_tables s)))\<rparr>\<rparr> \<and>
    rz_runs (cs_tables s') = rz_runs (cs_tables s) \<and>
    terminal_callback continues secret c (cs_tables s') = (Inl (Resume_terminal terminal_error.NOT_FOUND), cs_tables s')"
proof -
  obtain s1 where s1: "carry_out env userId sid actionId consumed items s = (Inl (Confirm_gateway e), s1)"
    "cs_tables s' = snd (set_action actionId (\<lambda>r. r\<lparr>ar_status := Action_failed, ar_error_code := Some (code_of e)\<rparr>) (cs_tables s1))"
    using or_failed_tables [OF assms(1)] by blast
  then have s': "cs_tables s' = snd (set_action actionId (\<lambda>r. r\<lparr>ar_status := Action_failed, ar_error_code := Some (code_of e)\<rparr>) (cs_tables s))"
    using carry_out_gateway [OF s1(1)] by simp
  then have rows: "filter (\<lambda>r. ar_task_id r = Some (cb_task c)) (td_actions (rz_terminal (cs_tables s'))) = []"
    and kept: "rz_runs (cs_tables s') = rz_runs (cs_tables s)" "rz_render (cs_tables s') = rz_render (cs_tables s)"
    using assms(2) by (auto simp: set_action_tables filter_empty_conv)
  have "markTask (cb_task c) o' er (rz_render (cs_tables s')) = None" for o' er
    unfolding markTask_def kept(2) by (subst find_None_all) (use assms(4) in auto)
  moreover have "handle (pg_terminal_store continues) secret (cb_notice c) (cb_secret c) (rz_terminal (cs_tables s')) = Inl terminal_error.NOT_FOUND"
    using rows assms(3) by (simp add: handle_def decide_def pg_terminal_store_def pg_findTask_def)
  ultimately have "terminal_callback continues secret c (cs_tables s') = (Inl (Resume_terminal terminal_error.NOT_FOUND), cs_tables s')"
    by (simp add: terminal_callback_def hthen_def on_terminal_def hstep_def)
  moreover have "cs_tables s' = (cs_tables s)\<lparr>rz_terminal := (rz_terminal (cs_tables s))\<lparr>td_actions :=
      map (\<lambda>r. if ar_id r = actionId then r\<lparr>ar_status := Action_failed, ar_error_code := Some (code_of e)\<rparr> else r)
        (td_actions (rz_terminal (cs_tables s)))\<rparr>\<rparr>" by (simp add: s' set_action_tables)
  ultimately show ?thesis using kept(1) by blast
qed

text \<open>
  A rejection ends the run of the session that waits for a confirmation, whichever action that run waits for.
\<close>

lemma rejection_ends_any_waiting_run:
  assumes "close_waiting_run sessionId env z = (Inr (), z')" "pg_findActive (rz_runs z) sessionId = Some r"
    "ru_status r = Run_waiting_confirmation"
  shows "\<exists>db'. setStatus pg_run_repository (ru_runId r) Run_completed [] (cf_eventIds env 0) (cf_now env) (rz_runs z) = Inr db' \<and>
    rz_runs z' = db'"
  using assms by (auto simp: close_waiting_run_def on_runs_def hstep_def rbind_def split: sum.splits)

section \<open>Instances\<close>

fun task_per_node :: "gateway_request \<Rightarrow> gateway_answer" where
  "task_per_node (Req_estimate input) = (if gi_nodeId input = ''bad'' then Failed ''MODEL_UNAVAILABLE'' else Estimated 4 1)"
| "task_per_node (Req_freeze input cost key) = Frozen (gi_nodeId input)"
| "task_per_node _ = Done"

definition sample_env :: confirm_env where
  "sample_env = \<lparr>cf_crypto = sample_crypto, cf_secret = ''k'', cf_now = 8, cf_answers = task_per_node,
     cf_version = (\<lambda>_ _. Inr 3), cf_requestId = None, cf_actionIds = (\<lambda>i. ''2'' @ replicate i CHR ''0''),
     cf_eventIds = (\<lambda>i. ''e'' @ replicate i CHR ''0'')\<rparr>"

definition sample_confirm_state :: confirm_state where
  "sample_confirm_state = \<lparr>cs_sessions = [\<lparr>sl_id = ''s'', sl_user_id = ''7'', sl_canvas_id = Some ''5''\<rparr>],
     cs_tables = sample_resume_db\<lparr>rz_terminal := \<lparr>td_actions = [sample_action\<lparr>ar_task_id := None\<rparr>], td_notices = [], td_conflicts = []\<rparr>\<rparr>,
     cs_approvals = empty_approvals, cs_results = []\<rparr>"

definition sample_item :: "string \<Rightarrow> generation_item" where
  "sample_item node = \<lparr>it_nodeId = node, it_modelType = ''m'', it_modelParams = [], it_estimatedCost = 5\<rparr>"

definition sample_consumed :: planned_action where
  "sample_consumed = \<lparr>ac_actionId = ''10'', ac_runId = Some ''1'', ac_userId = ''7'', ac_sessionId = ''s'', ac_canvasId = ''5'',
     ac_canvasVersion = 3, ac_toolName = ''submit_generation_batch'', ac_params = [], ac_estimatedCost = 10, ac_risk = Risk_high,
     ac_actionHash = ''h'', ac_binding = binding_for 60 sample_approval_input ''h'' 0, ac_approvalToken = None, ac_status = Act_approved\<rparr>"

lemma nat_text_01: "nat_text 0 = ''0''" "nat_text (Suc 0) = ''1''"
  by code_simp+

lemmas sample_confirm_defs = sample_env_def sample_confirm_state_def sample_item_def sample_consumed_def sample_resume_db_def
  sample_action_def generation_of_item_def execute_def executeOnce_def numeral_4_Suc advance_stage_def execution_result_def nat_text_01


lemma sample_half:
  "\<exists>q results. generate_items sample_env ''7'' ''10'' sample_consumed [sample_item ''t'', sample_item ''bad''] sample_confirm_state =
     (Inl (Confirm_gateway ''MODEL_UNAVAILABLE''), sample_confirm_state\<lparr>cs_results := results\<rparr>) \<and>
     jget results ''10:0'' = Some q \<and> gr_taskId q = ''t''"
  by (simp add: generate_items_def executeBatch_def sample_confirm_defs)






theorem half_submitted_batch_forgotten_witness:
  "\<exists>(s' :: confirm_state) q. or_failed ''10'' id (carry_out sample_env ''7'' ''s'' ''10'' sample_consumed [sample_item ''t'', sample_item ''bad''])
       sample_confirm_state = (Inl (Confirm_gateway ''MODEL_UNAVAILABLE''), s') \<and>
     jget (cs_results s') ''10:0'' = Some q \<and> gr_taskId q = ''t'' \<and>
     terminal_callback continue_flag ''k'' (sample_callback Term_succeeded ''t'' ''x'') (cs_tables s') =
       (Inl (Resume_terminal terminal_error.NOT_FOUND), cs_tables s')"
proof -
  let ?items = "[sample_item ''t'', sample_item ''bad'']"
  obtain q results where g: "generate_items sample_env ''7'' ''10'' sample_consumed ?items sample_confirm_state =
      (Inl (Confirm_gateway ''MODEL_UNAVAILABLE''), sample_confirm_state\<lparr>cs_results := results\<rparr>)"
    "jget results ''10:0'' = Some q" "gr_taskId q = ''t''" using sample_half by blast
  then obtain s' where s': "or_failed ''10'' id (carry_out sample_env ''7'' ''s'' ''10'' sample_consumed ?items) sample_confirm_state =
      (Inl (Confirm_gateway ''MODEL_UNAVAILABLE''), s')" "cs_results s' = results"
    by (simp add: or_failed_def carry_out_def hthen_def in_tables_def set_action_tables hthrow_def)
  have "\<forall>r \<in> set (td_actions (rz_terminal (cs_tables sample_confirm_state))). ar_task_id r \<noteq> Some ''t''"
    "\<forall>j \<in> set (rt_jobs (rz_render (cs_tables sample_confirm_state))). jr_task_id j \<noteq> Some ''t''"
    by (simp_all add: sample_confirm_state_def sample_resume_db_def sample_action_def empty_render_db_def)
  with half_submitted_batch_forgotten [OF s'(1), of "sample_callback Term_succeeded ''t'' ''x''" "''k''" continue_flag] s' g(2,3)
  show ?thesis by (auto simp: sample_callback_defs)
qed

end
