(* ===== verification/Sessions.thy ===== *)
theory Sessions
  imports RequestParsing "HOL-Library.List_Lexorder" "HOL-Library.Char_ord" "HOL-Library.Product_Lexorder" "HOL-Library.Multiset"
begin

text \<open>
  Sessions: the in-memory service (\<^verbatim>\<open>application/session-service.ts\<close>), the routes over the table of sessions
  (\<^verbatim>\<open>api/app.ts\<close>), and the guards of \<^verbatim>\<open>application/authorization-service.ts\<close>.

  A cursor is modelled by the value its text decodes to, None for a text that is no base64url of JSON.  Times of the
  service are milliseconds; the table keeps microseconds, of which a JavaScript \<open>Date\<close> holds the whole milliseconds.
  The texts of dates, the lower case of letters and \<open>localeCompare\<close> are parameters (\<open>session_env\<close>), as are the Chinese
  title of a new session and the suffix of a copied one.  An absent or empty cursor is None.
\<close>

section \<open>Lists in pages\<close>

text \<open>An insertion sort: stable, as \<open>Array.prototype.sort\<close> is.\<close>

fun insert_by :: "('a \<Rightarrow> 'a \<Rightarrow> bool) \<Rightarrow> 'a \<Rightarrow> 'a list \<Rightarrow> 'a list" where
  "insert_by before x [] = [x]"
| "insert_by before x (y # ys) = (if before x y then x # y # ys else y # insert_by before x ys)"

definition sort_by :: "('a \<Rightarrow> 'a \<Rightarrow> bool) \<Rightarrow> 'a list \<Rightarrow> 'a list" where
  "sort_by before xs = foldr (insert_by before) xs []"

text \<open>All the pages that the cursors of a listing lead to, one after the other.\<close>

fun follow :: "('c option \<Rightarrow> 'e + ('a list \<times> 'c option)) \<Rightarrow> nat \<Rightarrow> 'c option \<Rightarrow> 'a list option" where
  "follow page 0 c = None"
| "follow page (Suc n) c = (case page c of
       Inl e \<Rightarrow> None
     | Inr (items, None) \<Rightarrow> Some items
     | Inr (items, Some d) \<Rightarrow> map_option ((@) items) (follow page n (Some d)))"

abbreviation descending :: "('a \<Rightarrow> 'k::linorder) \<Rightarrow> 'a list \<Rightarrow> bool" where
  "descending key \<equiv> sorted_wrt (\<lambda>x y. key y < key x)"

lemma mset_insert_by [simp]: "mset (insert_by before x xs) = add_mset x (mset xs)"
  by (induction xs) auto

lemma mset_sort_by [simp]: "mset (sort_by before xs) = mset xs"
  by (induction xs) (simp_all add: sort_by_def)

lemma set_insert_by [simp]: "set (insert_by before x xs) = insert x (set xs)"
  by (induction xs) auto

lemma set_sort_by [simp]: "set (sort_by before xs) = set xs"
  by (induction xs) (simp_all add: sort_by_def)

lemma length_sort_by [simp]: "length (sort_by before xs) = length xs"
  by (metis mset_sort_by size_mset)

lemma insert_by_ordered:
  assumes "\<And>a b. a \<in> insert x (set xs) \<Longrightarrow> b \<in> insert x (set xs) \<Longrightarrow> before a b \<longleftrightarrow> key b \<le> key a"
    and "sorted_wrt (\<lambda>a b. key b \<le> (key a :: 'k::linorder)) xs"
  shows "sorted_wrt (\<lambda>a b. key b \<le> key a) (insert_by before x xs)"
  using assms
proof (induction xs)
  case (Cons y ys)
  have "sorted_wrt (\<lambda>a b. key b \<le> key a) (insert_by before x ys)"
  proof (rule Cons.IH)
    show "before a b \<longleftrightarrow> key b \<le> key a" if "a \<in> insert x (set ys)" "b \<in> insert x (set ys)" for a b
      by (rule Cons.prems(1)) (use that in auto)
  qed (use Cons.prems(2) in simp)
  moreover have "before x y \<longleftrightarrow> key y \<le> key x" using Cons.prems(1) by simp
  ultimately show ?case using Cons.prems(2) by (auto intro: order_trans)
qed simp

lemma descending_distinct:
  "sorted_wrt (\<lambda>a b. key b \<le> key a) xs \<Longrightarrow> distinct (map key xs) \<Longrightarrow> descending (key :: 'a \<Rightarrow> 'k::linorder) xs"
proof (induction xs)
  case (Cons x xs)
  have "key y < key x" if "y \<in> set xs" for y
    using that Cons.prems by (auto simp: order.strict_iff_order image_iff)
  then show ?case using Cons by simp
qed simp

lemma sort_by_descending:
  assumes before: "\<And>a b. a \<in> set xs \<Longrightarrow> b \<in> set xs \<Longrightarrow> before a b \<longleftrightarrow> key b \<le> key a"
    and keys: "distinct (map key xs)"
  shows "descending (key :: 'a \<Rightarrow> 'k::linorder) (sort_by before xs)"
proof (rule descending_distinct)
  show "sorted_wrt (\<lambda>a b. key b \<le> key a) (sort_by before xs)" using before
  proof (induction xs)
    case (Cons x xs)
    then have "sorted_wrt (\<lambda>a b. key b \<le> key a) (insert_by before x (sort_by before xs))"
      by (intro insert_by_ordered) simp_all
    then show ?case by (simp add: sort_by_def)
  qed (simp add: sort_by_def)
  show "distinct (map key (sort_by before xs))"
    using keys by (metis mset_eq_imp_distinct_iff mset_map mset_sort_by)
qed

lemma descending_unique:
  "descending (key :: 'a \<Rightarrow> 'k::linorder) xs \<Longrightarrow> descending key ys \<Longrightarrow> set xs = set ys \<Longrightarrow> xs = ys"
proof (induction xs arbitrary: ys)
  case (Cons x xs)
  from Cons.prems(3) obtain y ys' where ys: "ys = y # ys'" by (cases ys) auto
  have xy: "x = y"
  proof (rule ccontr)
    assume "x \<noteq> y"
    then have "x \<in> set ys'" "y \<in> set xs" using Cons.prems(3) ys by auto
    then have "key x < key y" "key y < key x" using Cons.prems(1,2) ys by auto
    then show False by simp
  qed
  have "x \<notin> set xs" "x \<notin> set ys'" using Cons.prems(1,2) ys xy by auto
  then have "set xs = set ys'" using Cons.prems(3) ys xy by auto
  then show ?case using Cons.IH [of ys'] Cons.prems(1,2) ys xy by simp
qed simp

lemma descending_filter: "descending key xs \<Longrightarrow> descending key (filter P xs)"
  by (rule sorted_wrt_filter)

text \<open>The elements below an element of a descending list are those after it.\<close>

lemma below_drop:
  fixes key :: "'a \<Rightarrow> 'k::linorder"
  assumes "descending key xs" "i < length xs"
  shows "filter (\<lambda>x. key x < key (xs ! i)) xs = drop (Suc i) xs"
proof -
  have e: "xs = take i xs @ xs ! i # drop (Suc i) xs" using assms(2) by (rule id_take_nth_drop)
  then have s: "descending key (take i xs @ xs ! i # drop (Suc i) xs)" using assms(1) by simp
  have a: "filter (\<lambda>x. key x < key (xs ! i)) (take i xs) = []"
    using s by (auto simp: sorted_wrt_append filter_empty_conv dest: less_asym)
  have b: "filter (\<lambda>x. key x < key (xs ! i)) (drop (Suc i) xs) = drop (Suc i) xs"
    using s by (auto simp: sorted_wrt_append intro!: filter_True)
  have "filter (\<lambda>x. key x < key (xs ! i)) (take i xs @ xs ! i # drop (Suc i) xs) = drop (Suc i) xs"
    by (simp add: a b)
  then show ?thesis using e by simp
qed

text \<open>Pages of \<open>n\<close> elements, each continued below its last element, give the whole list.\<close>

lemma follow_pages:
  fixes key :: "'a \<Rightarrow> 'k::linorder"
  assumes first: "page None = Inr (take n xs, if n < length xs then Some (enc (last (take n xs))) else None)"
    and later: "\<And>x. x \<in> set xs \<Longrightarrow> page (Some (enc x)) = (let rest = filter (\<lambda>y. key y < key x) xs in
      Inr (take n rest, if n < length rest then Some (enc (last (take n rest))) else None))"
    and xs: "descending key xs" and n: "0 < n" and m: "length xs \<le> m"
  shows "follow page (Suc m) None = Some xs"
proof -
  have last: "last (take n (drop i xs)) = xs ! (i + n - 1)" if "n < length xs - i" for i
  proof -
    have "take n (drop i xs) \<noteq> []" using that n by auto
    then have "last (take n (drop i xs)) = take n (drop i xs) ! (length (take n (drop i xs)) - 1)" by (rule last_conv_nth)
    also have "length (take n (drop i xs)) = n" using that by simp
    also have "take n (drop i xs) ! (n - 1) = xs ! (i + (n - 1))" using that n by simp
    finally show ?thesis using n by simp
  qed
  have step: "follow page (Suc k) (Some (enc (xs ! i))) = Some (drop (Suc i) xs)"
    if "length xs - Suc i \<le> k" "i < length xs" for k i
    using that
  proof (induction k arbitrary: i)
    case 0
    then show ?case using later [of "xs ! i"] below_drop [OF xs, of i] by (simp add: Let_def)
  next
    case (Suc k)
    let ?p = "page (Some (enc (xs ! i)))"
    have p: "?p = Inr (take n (drop (Suc i) xs), if n < length xs - Suc i then Some (enc (xs ! (i + n))) else None)"
      using later [of "xs ! i"] below_drop [OF xs, of i] Suc.prems(2) last [of "Suc i"] by (simp add: Let_def)
    show ?case
    proof (cases "n < length xs - Suc i")
      case True
      then have "follow page (Suc k) (Some (enc (xs ! (i + n)))) = Some (drop (Suc (i + n)) xs)"
        using Suc.IH [of "i + n"] Suc.prems n by simp
      moreover have "take n (drop (Suc i) xs) @ drop (Suc (i + n)) xs = drop (Suc i) xs"
        using append_take_drop_id [of n "drop (Suc i) xs"] by (simp add: add.commute)
      ultimately show ?thesis using p True by (simp del: follow.simps(2) add: follow.simps(2) [of page "Suc k"])
    qed (use p in simp)
  qed
  show ?thesis
  proof (cases "n < length xs")
    case True
    then obtain k where k: "m = Suc k" using m by (cases m) auto
    have "follow page (Suc k) (Some (enc (xs ! (n - 1)))) = Some (drop n xs)"
      using step [of "n - 1" k] m k n True by simp
    then show ?thesis using first last [of 0] True k
      by (simp del: follow.simps(2) add: follow.simps(2) [of page "Suc k"])
  qed (use first in simp)
qed


section \<open>The in-memory service\<close>

datatype session_status = Session_active | Session_archived | Session_deleted

record session_record =
  se_id :: string
  se_userId :: string
  se_canvasId :: "string option"
  se_title :: string
  se_status :: session_status
  se_updatedAt :: num

record list_options =
  lo_limit :: int
  lo_cursor :: "json option option"
  lo_search :: "string option"
  lo_canvasId :: "string option"

record session_env =
  ev_lowerCase :: "string \<Rightarrow> string"
  ev_localeCompare :: "string \<Rightarrow> string \<Rightarrow> int"
  ev_untitled :: string
  ev_copySuffix :: string
  ev_iso :: "int \<Rightarrow> string"
  ev_dateParse :: "string \<Rightarrow> int option"
  ev_timestamptz :: "string \<Rightarrow> int option"

type_synonym session_store = "(string, session_record) jmap"

definition encodeCursor :: "session_record \<Rightarrow> json option" where
  "encodeCursor s = Some (JObj [(''updatedAt'', JNum (se_updatedAt s)), (''id'', JStr (se_id s))])"

definition decodeCursor :: "json option \<Rightarrow> string + (num \<times> string)" where
  "decodeCursor value = (case (json_field (objectOrEmpty value) ''updatedAt'', json_field (objectOrEmpty value) ''id'') of
     (Some (JNum t), Some (JStr i)) \<Rightarrow> Inr (t, i) | _ \<Rightarrow> Inl ''INVALID_CURSOR'')"

definition mem_list :: "session_store \<Rightarrow> string \<Rightarrow> session_record list" where
  "mem_list m userId = filter (\<lambda>s. se_userId s = userId) (jvalues m)"

definition mem_save :: "session_record \<Rightarrow> session_store \<Rightarrow> session_store" where
  "mem_save s m = jset (se_id s) s m"

text \<open>The status is the given one or active.\<close>

definition create_session :: "session_record \<Rightarrow> session_status option \<Rightarrow> session_store \<Rightarrow> session_store \<times> session_record" where
  "create_session s status m =
     (let created = s\<lparr>se_status := (case status of None \<Rightarrow> Session_active | Some t \<Rightarrow> t)\<rparr> in (mem_save created m, created))"

definition requireOwned :: "session_store \<Rightarrow> string \<Rightarrow> string \<Rightarrow> string + session_record" where
  "requireOwned m i userId = (case jget m i of
     None \<Rightarrow> Inl ''NOT_FOUND''
   | Some s \<Rightarrow> throw_if (se_userId s \<noteq> userId \<or> se_status s = Session_deleted) ''NOT_FOUND'' (Inr s))"

text \<open>Which sessions the options ask for, and which of them a cursor leaves.\<close>

definition wanted :: "session_env \<Rightarrow> list_options \<Rightarrow> session_record \<Rightarrow> bool" where
  "wanted env opts s \<longleftrightarrow> se_status s \<noteq> Session_deleted
     \<and> (\<not> truthy (lo_canvasId opts) \<or> se_canvasId s = lo_canvasId opts)
     \<and> (case lo_search opts of None \<Rightarrow> True | Some t \<Rightarrow>
          ev_lowerCase env t = [] \<or> js_includes (ev_lowerCase env (se_title s)) (ev_lowerCase env t))"

fun below_cursor :: "(num \<times> string) option \<Rightarrow> session_record \<Rightarrow> bool" where
  "below_cursor None s = True"
| "below_cursor (Some (t, i)) s = (se_updatedAt s < t \<or> se_updatedAt s = t \<and> se_id s < i)"

definition newer_first :: "session_env \<Rightarrow> session_record \<Rightarrow> session_record \<Rightarrow> bool" where
  "newer_first env left right = (let d = se_updatedAt right - se_updatedAt left in
     if d \<noteq> 0 then d \<le> 0 else ev_localeCompare env (se_id right) (se_id left) \<le> 0)"

definition list_sessions :: "session_env \<Rightarrow> session_store \<Rightarrow> string \<Rightarrow> list_options \<Rightarrow>
    string + (session_record list \<times> json option option)" where
  "list_sessions env m userId opts =
     rbind (case lo_cursor opts of None \<Rightarrow> Inr None | Some text \<Rightarrow> map_sum id Some (decodeCursor text)) (\<lambda>cursor.
     (let filtered = sort_by (newer_first env) (filter (below_cursor cursor) (filter (wanted env opts) (mem_list m userId)));
          items = take (nat (max 1 (lo_limit opts))) filtered
      in Inr (items, if length items < length filtered then Some (encodeCursor (last items)) else None)))"

definition rename_session :: "string \<Rightarrow> string \<Rightarrow> string \<Rightarrow> num \<Rightarrow> session_store \<Rightarrow> string + (session_store \<times> session_record)" where
  "rename_session i userId title now m = rbind (requireOwned m i userId) (\<lambda>s.
     let renamed = s\<lparr>se_title := js_trim title, se_updatedAt := now\<rparr> in Inr (mem_save renamed m, renamed))"

definition setStatus :: "session_status \<Rightarrow> string \<Rightarrow> string \<Rightarrow> num \<Rightarrow> session_store \<Rightarrow> string + session_store" where
  "setStatus status i userId now m = rbind (requireOwned m i userId) (\<lambda>s.
     Inr (mem_save (s\<lparr>se_status := status, se_updatedAt := now\<rparr>) m))"

definition archive_session :: "string \<Rightarrow> string \<Rightarrow> num \<Rightarrow> session_store \<Rightarrow> string + session_store" where
  "archive_session = setStatus Session_archived"

definition restore_session :: "string \<Rightarrow> string \<Rightarrow> num \<Rightarrow> session_store \<Rightarrow> string + session_store" where
  "restore_session = setStatus Session_active"

definition remove_session :: "string \<Rightarrow> string \<Rightarrow> num \<Rightarrow> session_store \<Rightarrow> string + session_store" where
  "remove_session = setStatus Session_deleted"

definition copyToCanvas :: "session_env \<Rightarrow> string \<Rightarrow> string \<Rightarrow> string \<Rightarrow> string \<Rightarrow> num \<Rightarrow> session_store \<Rightarrow>
    string + (session_store \<times> session_record)" where
  "copyToCanvas env i userId canvasId newId now m = rbind (requireOwned m i userId) (\<lambda>source.
     Inr (create_session \<lparr>se_id = newId, se_userId = userId, se_canvasId = Some canvasId,
       se_title = se_title source @ ev_copySuffix env, se_status = Session_active, se_updatedAt = now\<rparr> None m))"

section \<open>Guards\<close>

record authorization_error =
  ae_code :: string
  ae_statusCode :: nat

definition AuthorizationError :: "string \<Rightarrow> authorization_error" where
  "AuthorizationError code = \<lparr>ae_code = code,
     ae_statusCode = (if code = ''NOT_FOUND'' then 404 else if code = ''VERSION_CONFLICT'' then 409 else 403)\<rparr>"

definition assertOwner :: "string option \<Rightarrow> string \<Rightarrow> authorization_error + unit" where
  "assertOwner ownerId userId =
     throw_if (\<not> truthy ownerId \<or> ownerId \<noteq> Some userId) (AuthorizationError ''NOT_FOUND'') (Inr ())"

text \<open>A session without a canvas has canvas \<open>null\<close>, a request without one \<open>undefined\<close>.\<close>

definition assertSessionCanvasAccess :: "string option \<Rightarrow> string option \<Rightarrow> authorization_error + unit" where
  "assertSessionCanvasAccess sessionCanvasId requestedCanvasId =
     (if requestedCanvasId = None \<or> requestedCanvasId = sessionCanvasId then Inr ()
      else Inl (AuthorizationError ''VERSION_CONFLICT''))"

record stable_api_error =
  sa_code :: string
  sa_request_id :: string
  sa_retryable :: bool

definition formatApiError :: "authorization_error \<Rightarrow> string \<Rightarrow> stable_api_error" where
  "formatApiError e requestId = \<lparr>sa_code = ae_code e, sa_request_id = requestId, sa_retryable = False\<rparr>"

section \<open>The table of sessions and its routes\<close>

record session_table_row =
  sr_id :: int
  sr_user_id :: int
  sr_canvas_id :: "int option"
  sr_title :: string
  sr_status :: string
  sr_updated_at :: int

type_synonym session_table = "session_table_row list"

text \<open>An error of the database is answered with status 500.\<close>

definition database_error :: api_error where
  "database_error = ApiError 500 ''INTERNAL_ERROR''"

text \<open>The cast of a decimal text to \<open>bigint\<close>.\<close>

definition digits_value :: "string \<Rightarrow> int" where
  "digits_value s = foldl (\<lambda>n c. 10 * n + (int (of_char c) - 48)) 0 s"

definition bigint :: "string \<Rightarrow> api_error + int" where
  "bigint s =
     (let t = js_trim s;
          negative = take 1 t = ''-'';
          digits = (if negative \<or> take 1 t = ''+'' then drop 1 t else t);
          n = (if negative then - digits_value digits else digits_value digits)
      in throw_if (\<not> all_digits digits \<or> n < - (2 ^ 63) \<or> 2 ^ 63 \<le> n) database_error (Inr n))"

definition bigint_opt :: "string option \<Rightarrow> api_error + int option" where
  "bigint_opt v = (case v of None \<Rightarrow> Inr None | Some s \<Rightarrow> map_sum id Some (bigint s))"

text \<open>\<open>parseInt(s, 10)\<close>, None for NaN.\<close>

definition parseInt :: "string \<Rightarrow> int option" where
  "parseInt s =
     (let t = dropWhile js_space s;
          negative = take 1 t = ''-'';
          digits = takeWhile (\<lambda>c. all_digits [c]) (if negative \<or> take 1 t = ''+'' then drop 1 t else t)
      in if digits = [] then None else Some (if negative then - digits_value digits else digits_value digits))"

text \<open>\<open>LIKE\<close> with its wildcards and its escape; \<open>ILIKE\<close> compares lower case.\<close>

fun sql_like :: "string \<Rightarrow> string \<Rightarrow> bool" where
  "sql_like [] s = (s = [])"
| "sql_like (c # p) [] = (c = CHR ''%'' \<and> sql_like p [])"
| "sql_like (c # p) (d # s) =
     (if c = CHR ''%'' then sql_like p (d # s) \<or> sql_like (c # p) s
      else if c = CHR ''_'' then sql_like p s
      else if c = CHR 0x5C then (case p of [] \<Rightarrow> False | e # q \<Rightarrow> e = d \<and> sql_like q s)
      else c = d \<and> sql_like p s)"

definition ilike :: "session_env \<Rightarrow> string \<Rightarrow> string \<Rightarrow> bool" where
  "ilike env title search = sql_like (''%'' @ ev_lowerCase env search @ ''%'') (ev_lowerCase env title)"

text \<open>A \<open>Date\<close> drops the microseconds.\<close>

definition date_of :: "int \<Rightarrow> int" where
  "date_of t = t div 1000"

definition encodeSessionCursor :: "session_env \<Rightarrow> session_table_row \<Rightarrow> json option" where
  "encodeSessionCursor env r = Some (JObj [(''updatedAt'', JStr (ev_iso env (date_of (sr_updated_at r)))),
     (''id'', JStr (nat_text (nat (sr_id r))))])"

definition decodeSessionCursor :: "session_env \<Rightarrow> json option option \<Rightarrow> api_error + (string \<times> string) option" where
  "decodeSessionCursor env value = (case value of
     None \<Rightarrow> Inr None
   | Some text \<Rightarrow> (case (json_field (objectOrEmpty text) ''updatedAt'', json_field (objectOrEmpty text) ''id'') of
        (Some (JStr t), Some (JStr i)) \<Rightarrow> throw_if (ev_dateParse env t = None) (ApiError 400 ''INVALID_INPUT'') (Inr (Some (t, i)))
      | _ \<Rightarrow> api_fail))"

definition timestamp_opt :: "session_env \<Rightarrow> string option \<Rightarrow> api_error + int option" where
  "timestamp_opt env v = (case v of None \<Rightarrow> Inr None | Some s \<Rightarrow> map_sum id Some (require_some database_error (ev_timestamptz env s)))"

text \<open>Statements.  Titles have at most 128 characters, ids are unique.\<close>

definition insert_session :: "session_table_row \<Rightarrow> session_table \<Rightarrow> api_error + session_table" where
  "insert_session r rows =
     throw_if (128 < length (sr_title r) \<or> sr_id r \<in> sr_id ` set rows) database_error (Inr (rows @ [r]))"

definition requireSession_row :: "session_table \<Rightarrow> string \<Rightarrow> string \<Rightarrow> api_error + session_table_row" where
  "requireSession_row rows userId sessionId =
     rbind (bigint sessionId) (\<lambda>i. rbind (bigint userId) (\<lambda>u.
       require_some (ApiError 404 ''NOT_FOUND'') (find (\<lambda>r. sr_id r = i \<and> sr_user_id r = u) rows)))"

definition update_sessions :: "(session_table_row \<Rightarrow> bool) \<Rightarrow> (session_table_row \<Rightarrow> session_table_row) \<Rightarrow> session_table \<Rightarrow>
    api_error + session_table" where
  "update_sessions sel f rows = throw_if (list_ex (\<lambda>r. sel r \<and> 128 < length (sr_title (f r))) rows) database_error
     (Inr (map (\<lambda>r. if sel r then f r else r) rows))"

text \<open>\<open>POST /api/v1/agent/sessions\<close>: the answer is the id, the title and the canvas.\<close>

definition post_session :: "session_env \<Rightarrow> string option \<Rightarrow> json option \<Rightarrow> string \<Rightarrow> int \<Rightarrow> session_table \<Rightarrow>
    api_error + (session_table \<times> string \<times> string \<times> string option)" where
  "post_session env user request newId now rows =
     rbind (requireUserId user) (\<lambda>userId.
     rbind (recordBody request) (\<lambda>body.
     (let canvasId = optionalId (coalesce (json_field body ''canvasId'') (json_field body ''canvas_id''));
          title = (case optionalString (json_field body ''title'') of None \<Rightarrow> ev_untitled env | Some t \<Rightarrow> t)
      in rbind (bigint newId) (\<lambda>i. rbind (bigint userId) (\<lambda>u. rbind (bigint_opt canvasId) (\<lambda>c.
         rbind (insert_session \<lparr>sr_id = i, sr_user_id = u, sr_canvas_id = c, sr_title = title, sr_status = ''active'',
           sr_updated_at = now\<rparr> rows) (\<lambda>rows'. Inr (rows', newId, title, canvasId))))))))"

text \<open>\<open>GET /api/v1/agent/sessions\<close>; an absent or empty cursor is None.\<close>

record listing_query =
  lq_canvasId :: "string option"
  lq_search :: "string option"
  lq_q :: "string option"
  lq_limit :: "string option"

definition read_limit :: "string option \<Rightarrow> nat" where
  "read_limit v = (let n = (case parseInt (case v of None \<Rightarrow> ''100'' | Some s \<Rightarrow> s) of
       None \<Rightarrow> 100 | Some n \<Rightarrow> if n = 0 then 100 else n) in nat (min 100 (max 1 n)))"

definition read_listing :: "string option \<Rightarrow> listing_query \<Rightarrow> api_error + (string \<times> string option \<times> string option \<times> nat)" where
  "read_listing user q = rbind (requireUserId user) (\<lambda>userId. Inr (userId, optionalId (map_option JStr (lq_canvasId q)),
     optionalString (map_option JStr (case lq_search q of None \<Rightarrow> lq_q q | Some s \<Rightarrow> Some s)), read_limit (lq_limit q)))"

text \<open>\<open>COALESCE(status, 'active')\<close> is the status: no statement of the service writes a null one.\<close>

definition session_matches :: "session_env \<Rightarrow> int \<Rightarrow> int option \<Rightarrow> string option \<Rightarrow> session_table_row \<Rightarrow> bool" where
  "session_matches env userId canvasId search r \<longleftrightarrow> sr_user_id r = userId \<and> sr_status r \<noteq> ''deleted''
     \<and> (canvasId = None \<or> sr_canvas_id r = canvasId)
     \<and> (case search of None \<Rightarrow> True | Some s \<Rightarrow> ilike env (sr_title r) s)"

definition bind_filter :: "session_env \<Rightarrow> string \<Rightarrow> string option \<Rightarrow> string option \<Rightarrow> api_error + (session_table_row \<Rightarrow> bool)" where
  "bind_filter env userId canvasId search = rbind (bigint userId) (\<lambda>u. rbind (bigint_opt canvasId) (\<lambda>c.
     Inr (session_matches env u c search)))"

definition before_cursor :: "int option \<Rightarrow> int option \<Rightarrow> session_table_row \<Rightarrow> bool" where
  "before_cursor t i r \<longleftrightarrow> (case t of None \<Rightarrow> True
     | Some v \<Rightarrow> sr_updated_at r < v \<or> sr_updated_at r = v \<and> (case i of None \<Rightarrow> False | Some k \<Rightarrow> sr_id r < k))"

definition newest :: "session_table_row \<Rightarrow> session_table_row \<Rightarrow> bool" where
  "newest a b \<longleftrightarrow> sr_updated_at b < sr_updated_at a \<or> sr_updated_at b = sr_updated_at a \<and> sr_id b \<le> sr_id a"

definition session_page :: "session_env \<Rightarrow> session_table \<Rightarrow> string option \<Rightarrow> listing_query \<Rightarrow> json option option \<Rightarrow>
    api_error + (session_table_row list \<times> json option option)" where
  "session_page env rows user q cursor =
     rbind (read_listing user q) (\<lambda>(userId, canvasId, search, limit).
     rbind (decodeSessionCursor env cursor) (\<lambda>cur.
     rbind (bind_filter env userId canvasId search) (\<lambda>keep.
     rbind (timestamp_opt env (map_option fst cur)) (\<lambda>t.
     rbind (bigint_opt (map_option snd cur)) (\<lambda>i.
     (let found = take (limit + 1) (sort_by newest (filter (\<lambda>r. keep r \<and> before_cursor t i r) rows));
          items = take limit found
      in Inr (items, if limit < length found \<and> items \<noteq> [] then Some (encodeSessionCursor env (last items)) else None)))))))"

record session_view =
  sv_sessionId :: string
  sv_title :: string
  sv_canvasId :: "string option"
  sv_updatedAt :: string

definition id_text :: "int \<Rightarrow> string" where
  "id_text i = nat_text (nat i)"

definition sessionView :: "session_env \<Rightarrow> session_table_row \<Rightarrow> session_view" where
  "sessionView env r = \<lparr>sv_sessionId = id_text (sr_id r), sv_title = sr_title r,
     sv_canvasId = map_option id_text (sr_canvas_id r), sv_updatedAt = ev_iso env (date_of (sr_updated_at r))\<rparr>"

definition get_sessions :: "session_env \<Rightarrow> session_table \<Rightarrow> string option \<Rightarrow> listing_query \<Rightarrow> json option option \<Rightarrow>
    api_error + (session_view list \<times> json option option)" where
  "get_sessions env rows user q cursor = map_sum id (map_prod (map (sessionView env)) id) (session_page env rows user q cursor)"

text \<open>\<open>GET /api/v1/agent/sessions/:sessionId\<close>: id, title, canvas, status.\<close>

definition get_session :: "session_table \<Rightarrow> string option \<Rightarrow> string option \<Rightarrow>
    api_error + (string \<times> string \<times> string option \<times> string)" where
  "get_session rows user session = rbind (requireUserId user) (\<lambda>userId. rbind (routeId session) (\<lambda>sessionId.
     rbind (requireSession_row rows userId sessionId) (\<lambda>r.
       Inr (id_text (sr_id r), sr_title r, map_option id_text (sr_canvas_id r), sr_status r))))"

text \<open>\<open>PATCH\<close>, \<open>DELETE\<close> and \<open>POST \<dots>/copy\<close>.\<close>

definition patch_session :: "session_env \<Rightarrow> string option \<Rightarrow> string option \<Rightarrow> json option \<Rightarrow> int \<Rightarrow> session_table \<Rightarrow>
    api_error + (session_table \<times> session_view \<times> string)" where
  "patch_session env user session request now rows =
     rbind (requireUserId user) (\<lambda>userId. rbind (routeId session) (\<lambda>sessionId.
     rbind (requireSession_row rows userId sessionId) (\<lambda>row.
     rbind (recordBody request) (\<lambda>body.
     (let title = optionalString (json_field body ''title'');
          status = optionalString (json_field body ''status'');
          title' = (case title of None \<Rightarrow> sr_title row | Some t \<Rightarrow> t);
          status' = (case status of None \<Rightarrow> sr_status row | Some t \<Rightarrow> t);
          write = (\<lambda>r. r\<lparr>sr_title := (case title of None \<Rightarrow> sr_title r | Some t \<Rightarrow> t),
            sr_status := (case status of None \<Rightarrow> sr_status r | Some t \<Rightarrow> t), sr_updated_at := now\<rparr>)
      in throw_if (title = None \<and> status = None) (ApiError 400 ''INVALID_INPUT'')
         (throw_if (status \<noteq> None \<and> status \<noteq> Some ''active'' \<and> status \<noteq> Some ''archived'') (ApiError 400 ''INVALID_INPUT'')
         (rbind (update_sessions (\<lambda>r. sr_id r = sr_id row \<and> sr_user_id r = sr_user_id row \<and> sr_status r \<noteq> ''deleted'') write rows) (\<lambda>rows'.
           Inr (rows', sessionView env (row\<lparr>sr_title := title', sr_status := status', sr_updated_at := now\<rparr>), status')))))))))"

definition delete_session :: "string option \<Rightarrow> string option \<Rightarrow> int \<Rightarrow> session_table \<Rightarrow> api_error + (session_table \<times> string)" where
  "delete_session user session now rows =
     rbind (requireUserId user) (\<lambda>userId. rbind (routeId session) (\<lambda>sessionId.
     rbind (requireSession_row rows userId sessionId) (\<lambda>row.
     rbind (update_sessions (\<lambda>r. sr_id r = sr_id row \<and> sr_user_id r = sr_user_id row)
       (\<lambda>r. r\<lparr>sr_status := ''deleted'', sr_updated_at := now\<rparr>) rows) (\<lambda>rows'. Inr (rows', sessionId)))))"

definition copy_session :: "session_env \<Rightarrow> string option \<Rightarrow> string option \<Rightarrow> json option \<Rightarrow> string \<Rightarrow> int \<Rightarrow> session_table \<Rightarrow>
    api_error + (session_table \<times> string \<times> string \<times> string option \<times> string)" where
  "copy_session env user session request newId now rows =
     rbind (requireUserId user) (\<lambda>userId. rbind (routeId session) (\<lambda>sessionId.
     rbind (requireSession_row rows userId sessionId) (\<lambda>source.
     rbind (recordBody request) (\<lambda>body.
     (let canvasId = (case optionalId (json_field body ''canvasId'') of None \<Rightarrow> map_option id_text (sr_canvas_id source) | Some c \<Rightarrow> Some c);
          title = (case optionalString (json_field body ''title'') of None \<Rightarrow> sr_title source @ ev_copySuffix env | Some t \<Rightarrow> t)
      in rbind (bigint newId) (\<lambda>i. rbind (bigint userId) (\<lambda>u. rbind (bigint_opt canvasId) (\<lambda>c.
         rbind (insert_session \<lparr>sr_id = i, sr_user_id = u, sr_canvas_id = c, sr_title = title, sr_status = ''active'',
           sr_updated_at = now\<rparr> rows) (\<lambda>rows'. Inr (rows', newId, title, canvasId, id_text (sr_id source)))))))))))"

section \<open>Texts of ids\<close>

lemma digits_value_snoc: "digits_value (s @ [c]) = 10 * digits_value s + (int (of_char c) - 48)"
  by (simp add: digits_value_def)

lemma all_digits_snoc: "all_digits (s @ [c]) \<longleftrightarrow> (s = [] \<or> all_digits s) \<and> 48 \<le> (of_char c :: nat) \<and> (of_char c :: nat) \<le> 57"
  by (auto simp: all_digits_def)

lemma nat_text_digits: "all_digits (nat_text n) \<and> digits_value (nat_text n) = int n"
proof (induction n rule: nat_text.induct)
  case (1 n)
  have code: "of_char (char_of (48 + k :: nat) :: char) = (48 + k :: nat)" if "k < 10" for k
    using that by simp
  show ?case
  proof (cases "n < 10")
    case True
    have "nat_text n = [char_of (48 + n)]" by (subst nat_text.simps) (simp add: True)
    then show ?thesis using code [of n] True by (simp add: all_digits_def digits_value_def)
  next
    case False
    have "nat_text n = nat_text (n div 10) @ [char_of (48 + n mod 10)]" by (subst nat_text.simps) (simp add: False)
    moreover have "(of_char (char_of (48 + n mod 10) :: char) :: nat) = 48 + n mod 10" by (rule code) simp
    moreover have "int n = 10 * int (n div 10) + int (n mod 10)" by (simp add: zdiv_int zmod_int)
    ultimately show ?thesis using "1.IH" False by (simp add: all_digits_snoc digits_value_snoc)
  qed
qed

lemma digits_no_sign: "all_digits s \<Longrightarrow> take 1 s \<noteq> ''-'' \<and> take 1 s \<noteq> ''+''"
  by (cases s) (auto simp: all_digits_def)

lemma bigint_digits: "all_digits s \<Longrightarrow> digits_value s < 2 ^ 63 \<Longrightarrow> 0 \<le> digits_value s \<Longrightarrow> bigint s = Inr (digits_value s)"
  using digits_no_sign [of s] by (simp add: bigint_def Let_def all_digits_trim)

lemma bigint_id_text: "0 \<le> i \<Longrightarrow> i < 2 ^ 63 \<Longrightarrow> bigint (id_text i) = Inr i"
  using bigint_digits [of "nat_text (nat i)"] nat_text_digits [of "nat i"] by (simp add: id_text_def)

section \<open>Listing in pages\<close>

text \<open>What the texts of dates promise: reading what was written, to the millisecond.\<close>

definition date_laws :: "session_env \<Rightarrow> bool" where
  "date_laws env \<longleftrightarrow> (\<forall>t \<ge> 0. ev_dateParse env (ev_iso env t) = Some t \<and> ev_timestamptz env (ev_iso env t) = Some (1000 * t))"

definition table_ok :: "session_table \<Rightarrow> bool" where
  "table_ok rows \<longleftrightarrow> distinct (map sr_id rows) \<and> (\<forall>r \<in> set rows. 0 \<le> sr_id r \<and> sr_id r < 2 ^ 63 \<and> 0 \<le> sr_updated_at r
     \<and> length (sr_title r) \<le> 128 \<and> sr_status r \<in> {''active'', ''archived'', ''deleted''})"

definition row_key :: "session_table_row \<Rightarrow> int \<times> int" where
  "row_key r = (sr_updated_at r, sr_id r)"

definition whole_milliseconds :: "session_table_row \<Rightarrow> bool" where
  "whole_milliseconds r \<longleftrightarrow> sr_updated_at r mod 1000 = 0"

lemma newest_key: "newest a b \<longleftrightarrow> row_key b \<le> row_key a"
  by (auto simp: newest_def row_key_def less_eq_prod_simp)

lemma table_ok_keys: "table_ok rows \<Longrightarrow> distinct (map row_key (filter P rows))"
  by (auto simp: table_ok_def row_key_def distinct_map inj_on_def)

lemma listing_descending: "table_ok rows \<Longrightarrow> descending row_key (sort_by newest (filter P rows))"
  by (rule sort_by_descending) (simp_all add: newest_key table_ok_keys)

text \<open>The page of a cursor that the service itself wrote.\<close>

lemma page_of_cursor:
  assumes "read_listing user q = Inr (u, c, s, limit)" "bind_filter env u c s = Inr keep"
    and "table_ok rows" "date_laws env" "x \<in> set rows"
  shows "session_page env rows user q (Some (encodeSessionCursor env x)) =
     (let found = take (limit + 1) (sort_by newest (filter (\<lambda>r. keep r \<and> row_key r < (1000 * date_of (sr_updated_at x), sr_id x)) rows));
          items = take limit found
      in Inr (items, if limit < length found \<and> items \<noteq> [] then Some (encodeSessionCursor env (last items)) else None))"
proof -
  have x: "0 \<le> date_of (sr_updated_at x)" "0 \<le> sr_id x" "sr_id x < 2 ^ 63"
    using assms(3,5) by (auto simp: table_ok_def date_of_def)
  have "decodeSessionCursor env (Some (encodeSessionCursor env x)) =
      Inr (Some (ev_iso env (date_of (sr_updated_at x)), id_text (sr_id x)))"
    using assms(4) x(1) by (simp add: decodeSessionCursor_def encodeSessionCursor_def json_field_def date_laws_def id_text_def)
  moreover have "before_cursor (Some (1000 * date_of (sr_updated_at x))) (Some (sr_id x)) r
      \<longleftrightarrow> row_key r < (1000 * date_of (sr_updated_at x), sr_id x)" for r
    by (auto simp: before_cursor_def row_key_def less_prod_simp)
  ultimately show ?thesis
    using assms(1,2,4) x by (simp add: session_page_def timestamp_opt_def bigint_opt_def date_laws_def bigint_id_text)
qed

lemma first_page:
  assumes "read_listing user q = Inr (u, c, s, limit)" "bind_filter env u c s = Inr keep"
  shows "session_page env rows user q None =
     (let found = take (limit + 1) (sort_by newest (filter keep rows)); items = take limit found
      in Inr (items, if limit < length found \<and> items \<noteq> [] then Some (encodeSessionCursor env (last items)) else None))"
  using assms by (simp add: session_page_def decodeSessionCursor_def timestamp_opt_def bigint_opt_def before_cursor_def)

lemma read_limit_bounds: "1 \<le> read_limit v" "read_limit v \<le> 100"
  by (simp_all add: read_limit_def Let_def)

lemma read_listing_limit: "read_listing user q = Inr (u, c, s, limit) \<Longrightarrow> 1 \<le> limit \<and> limit \<le> 100"
  using read_limit_bounds [of "lq_limit q"] by (auto simp: read_listing_def result_simps)

text \<open>
  C39. Following the cursors of the list of sessions shows the user every session that the query asks for exactly once,
  newest first, as long as the times of the rows are whole milliseconds.
\<close>

theorem session_pages_complete:
  assumes "read_listing user q = Inr (u, c, s, limit)" "bind_filter env u c s = Inr keep"
    and "table_ok rows" "date_laws env" "list_all whole_milliseconds rows"
  shows "\<exists>xs. follow (session_page env rows user q) (Suc (length rows)) None = Some xs
    \<and> mset xs = filter_mset keep (mset rows)
    \<and> sorted_wrt (\<lambda>a b. sr_updated_at b < sr_updated_at a \<or> sr_updated_at b = sr_updated_at a \<and> sr_id b < sr_id a) xs"
proof -
  let ?xs = "sort_by newest (filter keep rows)" and ?page = "session_page env rows user q"
  have limit: "0 < limit" using read_listing_limit [OF assms(1)] by simp
  have desc: "descending row_key ?xs" using assms(3) by (rule listing_descending)
  have take: "take limit (take (limit + 1) xs) = take limit xs" "limit < length (take (limit + 1) xs) \<longleftrightarrow> limit < length xs"
    "limit < length xs \<and> take limit xs \<noteq> [] \<longleftrightarrow> limit < length xs" for xs :: "session_table_row list"
    using limit by (auto simp: min_def)
  have "follow ?page (Suc (length rows)) None = Some ?xs"
  proof (rule follow_pages [where enc = "encodeSessionCursor env" and key = row_key and n = limit])
    show "?page None = Inr (take limit ?xs, if limit < length ?xs then Some (encodeSessionCursor env (last (take limit ?xs))) else None)"
      unfolding first_page [OF assms(1,2)] Let_def take ..
  next
    fix x assume "x \<in> set ?xs"
    then have x: "x \<in> set rows" by simp
    then have "1000 * date_of (sr_updated_at x) = sr_updated_at x"
      using assms(5) by (auto simp: list_all_iff whole_milliseconds_def date_of_def)
    moreover have "sort_by newest (filter (\<lambda>r. keep r \<and> row_key r < row_key x) rows) = filter (\<lambda>y. row_key y < row_key x) ?xs"
      by (rule descending_unique [OF listing_descending [OF assms(3)] descending_filter [OF desc]]) auto
    ultimately show "?page (Some (encodeSessionCursor env x)) = (let rest = filter (\<lambda>y. row_key y < row_key x) ?xs in
        Inr (take limit rest, if limit < length rest then Some (encodeSessionCursor env (last (take limit rest))) else None))"
      unfolding page_of_cursor [OF assms(1-4) x] Let_def take row_key_def by simp
  qed (use desc limit in auto)
  moreover have "sorted_wrt (\<lambda>a b. sr_updated_at b < sr_updated_at a \<or> sr_updated_at b = sr_updated_at a \<and> sr_id b < sr_id a) ?xs"
    by (rule sorted_wrt_mono_rel [OF _ desc]) (auto simp: row_key_def less_prod_simp)
  ultimately show ?thesis by (intro exI [of _ ?xs]) simp
qed

lemma later_pages_below:
  assumes "read_listing user q = Inr (u, c, s, limit)" "bind_filter env u c s = Inr keep" "table_ok rows" "date_laws env"
  shows "x \<in> set rows \<Longrightarrow> follow (session_page env rows user q) n (Some (encodeSessionCursor env x)) = Some xs \<Longrightarrow>
    y \<in> set xs \<Longrightarrow> row_key y < (1000 * date_of (sr_updated_at x), sr_id x)"
proof (induction n arbitrary: x xs)
  case (Suc n)
  let ?found = "take (limit + 1) (sort_by newest (filter (\<lambda>r. keep r \<and> row_key r < (1000 * date_of (sr_updated_at x), sr_id x)) rows))"
  let ?items = "take limit ?found"
  have items: "z \<in> set rows \<and> row_key z < (1000 * date_of (sr_updated_at x), sr_id x)" if "z \<in> set ?items" for z
    using that by (auto dest!: in_set_takeD)
  have page: "session_page env rows user q (Some (encodeSessionCursor env x)) =
      Inr (?items, if limit < length ?found \<and> ?items \<noteq> [] then Some (encodeSessionCursor env (last ?items)) else None)"
    using page_of_cursor [OF assms Suc.prems(1)] unfolding Let_def .
  show ?case
  proof (cases "limit < length ?found \<and> ?items \<noteq> []")
    case False
    then have "xs = ?items" using Suc.prems(2) unfolding follow.simps page by auto
    then show ?thesis using Suc.prems(3) items by blast
  next
    case True
    then obtain ys where ys: "follow (session_page env rows user q) n (Some (encodeSessionCursor env (last ?items))) = Some ys"
        "xs = ?items @ ys"
      using Suc.prems(2) unfolding follow.simps page by auto
    have l: "last ?items \<in> set rows" "row_key (last ?items) < (1000 * date_of (sr_updated_at x), sr_id x)"
      using items [of "last ?items"] True by auto
    show ?thesis
    proof (cases "y \<in> set ?items")
      case False
      then have "y \<in> set ys" using Suc.prems(3) ys(2) by auto
      then have "row_key y < (1000 * date_of (sr_updated_at (last ?items)), sr_id (last ?items))"
        using Suc.IH [OF l(1) ys(1)] by blast
      also have "\<dots> \<le> row_key (last ?items)" by (simp add: row_key_def date_of_def less_eq_prod_simp) presburger
      finally show ?thesis using l(2) by simp
    qed (use items in blast)
  qed
qed simp

text \<open>Any page that is continued, whatever cursor it was asked for with.\<close>

lemma page_continued:
  assumes "session_page env rows user q start = Inr (items, Some cursor)"
  shows "items \<noteq> [] \<and> set items \<subseteq> set rows \<and> cursor = encodeSessionCursor env (last items)"
proof -
  obtain u c s limit cur keep t i where parts: "read_listing user q = Inr (u, c, s, limit)" "decodeSessionCursor env start = Inr cur"
    "bind_filter env u c s = Inr keep" "timestamp_opt env (map_option fst cur) = Inr t" "bigint_opt (map_option snd cur) = Inr i"
    using assms unfolding session_page_def rbind_Inr split_paired_Ex prod.case by blast
  define found where found: "found = take (limit + 1) (sort_by newest (filter (\<lambda>r. keep r \<and> before_cursor t i r) rows))"
  have page: "(take limit found, if limit < length found \<and> take limit found \<noteq> [] then Some (encodeSessionCursor env (last (take limit found))) else None) =
      (items, Some cursor)"
    using assms unfolding session_page_def parts rbind_def sum.case prod.case Let_def found by (rule sum.inject(2) [THEN iffD1])
  have "set (take limit found) \<subseteq> set rows" unfolding found by (auto dest!: in_set_takeD)
  with page show ?thesis by (auto split: if_split_asm)
qed

text \<open>
  C40. A cursor holds whole milliseconds, the table microseconds: a session that the query asks for, whose last change lies in
  the millisecond of the last session of a page but not at its start, is on none of the pages that follow, whichever page
  that is and from whatever cursor it was reached.  A session that was not shown up to that page is never shown.
\<close>

theorem millisecond_cursor_loses_session:
  assumes "read_listing user q = Inr (u, c, s, limit)" "bind_filter env u c s = Inr keep" "table_ok rows" "date_laws env"
    and "session_page env rows user q start = Inr (items, Some cursor)"
    and "r \<in> set rows" "keep r" "r \<notin> set items"
    and "sr_updated_at r div 1000 = sr_updated_at (last items) div 1000" "sr_updated_at r mod 1000 \<noteq> 0"
    and "follow (session_page env rows user q) n (Some cursor) = Some later"
  shows "r \<notin> set (items @ later)"
proof -
  note page = page_continued [OF assms(5)]
  have "r \<notin> set later"
  proof
    assume r: "r \<in> set later"
    have "row_key r < (1000 * date_of (sr_updated_at (last items)), sr_id (last items))"
      using later_pages_below [OF assms(1-4) _ _ r, of "last items" n] assms(11) page last_in_set [of items] by blast
    moreover have "date_of (sr_updated_at (last items)) = sr_updated_at r div 1000" using assms(9) by (simp add: date_of_def)
    ultimately have "sr_updated_at r \<le> 1000 * (sr_updated_at r div 1000)"
      unfolding row_key_def less_prod_simp by (elim disjE conjE) linarith+
    then show False
      using assms(10) mult_div_mod_eq [of 1000 "sr_updated_at r"] pos_mod_sign [of 1000 "sr_updated_at r"] by linarith
  qed
  with assms(8) show ?thesis by simp
qed

definition sample_env :: session_env where
  "sample_env = \<lparr>ev_lowerCase = ascii_lower, ev_localeCompare = (\<lambda>a b. if a < b then - 1 else if a = b then 0 else 1),
     ev_untitled = ''New'', ev_copySuffix = '' copy'', ev_iso = (\<lambda>t. nat_text (nat t)),
     ev_dateParse = (\<lambda>s. if all_digits s then Some (digits_value s) else None),
     ev_timestamptz = (\<lambda>s. if all_digits s then Some (1000 * digits_value s) else None)\<rparr>"

definition sample_session :: "int \<Rightarrow> int \<Rightarrow> session_table_row" where
  "sample_session i t = \<lparr>sr_id = i, sr_user_id = 1, sr_canvas_id = None, sr_title = ''New'', sr_status = ''active'', sr_updated_at = t\<rparr>"

definition sample_query :: listing_query where
  "sample_query = \<lparr>lq_canvasId = None, lq_search = None, lq_q = None, lq_limit = Some ''1''\<rparr>"

lemma sample_date_laws: "date_laws sample_env"
  by (simp add: date_laws_def sample_env_def nat_text_digits)

lemma sample_listing: "read_listing (Some ''1'') sample_query = Inr (''1'', None, None, 1)"
  by code_simp

lemma sample_filter: "bind_filter sample_env ''1'' None None = Inr (session_matches sample_env 1 None None)"
proof -
  have "bigint ''1'' = Inr 1" by code_simp
  then show ?thesis by (simp add: bind_filter_def bigint_opt_def)
qed

theorem session_pages_complete_witness:
  "\<exists>xs. follow (session_page sample_env [sample_session 1 5000, sample_session 2 5000, sample_session 3 7000] (Some ''1'') sample_query)
      (Suc (length [sample_session 1 5000, sample_session 2 5000, sample_session 3 7000])) None = Some xs
    \<and> mset xs = filter_mset (session_matches sample_env 1 None None)
        (mset [sample_session 1 5000, sample_session 2 5000, sample_session 3 7000])
    \<and> sorted_wrt (\<lambda>a b. sr_updated_at b < sr_updated_at a \<or> sr_updated_at b = sr_updated_at a \<and> sr_id b < sr_id a) xs"
  by (rule session_pages_complete [OF sample_listing sample_filter _ sample_date_laws])
    (simp_all add: table_ok_def sample_session_def whole_milliseconds_def)

definition sample_rows :: session_table where
  "sample_rows = [sample_session 1 5100, sample_session 2 5200, sample_session 3 4000, sample_session 4 9000]"

lemma sample_pages:
  "session_page sample_env sample_rows (Some ''1'') sample_query (Some (encodeSessionCursor sample_env (sample_session 4 9000))) =
     Inr ([sample_session 2 5200], Some (encodeSessionCursor sample_env (sample_session 2 5200)))"
  "session_page sample_env sample_rows (Some ''1'') sample_query (Some (encodeSessionCursor sample_env (sample_session 2 5200))) =
     Inr ([sample_session 3 4000], None)"
  by (subst page_of_cursor [OF sample_listing sample_filter _ sample_date_laws],
      simp_all add: table_ok_def sample_rows_def sample_session_def session_matches_def row_key_def date_of_def less_prod_simp sort_by_def newest_def)+

text \<open>The second page of a list: its cursor leaves out the first session, which changed in the same millisecond.\<close>

theorem millisecond_cursor_loses_session_witness:
  "session_matches sample_env 1 None None (sample_session 1 5100)
    \<and> session_page sample_env sample_rows (Some ''1'') sample_query (Some (encodeSessionCursor sample_env (sample_session 4 9000))) =
        Inr ([sample_session 2 5200], Some (encodeSessionCursor sample_env (sample_session 2 5200)))
    \<and> follow (session_page sample_env sample_rows (Some ''1'') sample_query) 1
        (Some (encodeSessionCursor sample_env (sample_session 2 5200))) = Some [sample_session 3 4000]
    \<and> sample_session 1 5100 \<notin> set ([sample_session 2 5200] @ [sample_session 3 4000])"
proof (intro conjI)
  show f: "follow (session_page sample_env sample_rows (Some ''1'') sample_query) 1
      (Some (encodeSessionCursor sample_env (sample_session 2 5200))) = Some [sample_session 3 4000]"
    by (simp add: sample_pages)
  show k: "session_matches sample_env 1 None None (sample_session 1 5100)" by (simp add: session_matches_def sample_session_def)
  show "sample_session 1 5100 \<notin> set ([sample_session 2 5200] @ [sample_session 3 4000])"
    by (rule millisecond_cursor_loses_session [OF sample_listing sample_filter _ sample_date_laws sample_pages(1) _ k _ _ _ f])
      (simp_all add: table_ok_def sample_rows_def sample_session_def)
qed (rule sample_pages)

section \<open>What the routes keep\<close>

inductive session_write :: "session_env \<Rightarrow> int \<Rightarrow> session_table \<Rightarrow> session_table \<Rightarrow> bool" for env :: session_env and now :: int where
  posted: "post_session env user request newId now rows = Inr (rows', posted_out) \<Longrightarrow> session_write env now rows rows'"
| patched: "patch_session env user session request now rows = Inr (rows', patched_out) \<Longrightarrow> session_write env now rows rows'"
| deleted: "delete_session user session now rows = Inr (rows', deleted_out) \<Longrightarrow> session_write env now rows rows'"
| copied: "copy_session env user session request newId now rows = Inr (rows', copied_out) \<Longrightarrow> session_write env now rows rows'"

inductive_cases session_writeE: "session_write env now rows rows'"

text \<open>A write appends an active session, or changes rows without touching id and owner and without reviving a deleted one.\<close>

definition kept_row :: "session_table_row \<Rightarrow> session_table_row \<Rightarrow> bool" where
  "kept_row r r' \<longleftrightarrow> sr_id r' = sr_id r \<and> sr_user_id r' = sr_user_id r \<and> sr_canvas_id r' = sr_canvas_id r
     \<and> (sr_status r = ''deleted'' \<longrightarrow> sr_status r' = ''deleted'' \<and> sr_title r' = sr_title r)"

lemma update_sessions_kept: "update_sessions sel f rows = Inr rows' \<Longrightarrow> (\<And>r. sel r \<Longrightarrow> kept_row r (f r)) \<Longrightarrow> list_all2 kept_row rows rows'"
  by (auto simp: update_sessions_def result_simps list_all2_conv_all_nth kept_row_def)

lemma insert_session_appends: "insert_session r rows = Inr rows' \<Longrightarrow> rows' = rows @ [r] \<and> sr_id r \<notin> sr_id ` set rows \<and> length (sr_title r) \<le> 128"
  by (auto simp: insert_session_def result_simps)

lemma session_write_cases:
  assumes "session_write env now rows rows'"
  shows "list_all2 kept_row rows rows' \<or> (\<exists>r. rows' = rows @ [r] \<and> sr_id r \<notin> sr_id ` set rows \<and> sr_status r = ''active'')"
  using assms
proof (rule session_writeE)
  fix user request newId out assume "post_session env user request newId now rows = Inr (rows', out)"
  then show ?thesis by (auto simp: post_session_def result_simps Let_def dest!: insert_session_appends)
next
  fix user session request out assume "patch_session env user session request now rows = Inr (rows', out)"
  then show ?thesis
    by (auto simp: patch_session_def result_simps Let_def kept_row_def intro!: disjI1 elim!: update_sessions_kept)
next
  fix user session out assume "delete_session user session now rows = Inr (rows', out)"
  then show ?thesis
    by (auto simp: delete_session_def result_simps kept_row_def intro!: disjI1 elim!: update_sessions_kept)
next
  fix user session request newId out assume "copy_session env user session request newId now rows = Inr (rows', out)"
  then show ?thesis by (auto simp: copy_session_def result_simps Let_def dest!: insert_session_appends)
qed

lemma kept_deleted:
  assumes "list_all2 kept_row rows rows'" "r \<in> set rows" "sr_status r = ''deleted''"
  shows "\<exists>r' \<in> set rows'. sr_id r' = sr_id r \<and> sr_user_id r' = sr_user_id r \<and> sr_title r' = sr_title r \<and> sr_status r' = ''deleted''"
proof -
  obtain i where "i < length rows" "rows ! i = r" using assms(2) by (auto simp: in_set_conv_nth)
  then have "kept_row r (rows' ! i)" "rows' ! i \<in> set rows'" using assms(1) by (auto simp: list_all2_conv_all_nth)
  then show ?thesis using assms(3) by (auto simp: kept_row_def)
qed

lemma page_items_listed: "session_page env rows user q cursor = Inr (items, next) \<Longrightarrow> r \<in> set items \<Longrightarrow> sr_status r \<noteq> ''deleted''"
  by (auto simp: session_page_def bind_filter_def session_matches_def result_simps Let_def split: prod.splits dest!: in_set_takeD)

text \<open>A deleted session stays deleted whatever requests follow, keeps its title and its owner, and is on no page.\<close>

theorem deleted_session_is_final:
  assumes "(\<lambda>a b. \<exists>now. session_write env now a b)\<^sup>*\<^sup>* rows rows'" "r \<in> set rows" "sr_status r = ''deleted''"
  shows "\<exists>r' \<in> set rows'. sr_id r' = sr_id r \<and> sr_user_id r' = sr_user_id r \<and> sr_title r' = sr_title r \<and> sr_status r' = ''deleted''
    \<and> (\<forall>user q cursor items next. session_page env rows' user q cursor = Inr (items, next) \<longrightarrow> r' \<notin> set items)"
proof -
  have "\<exists>r' \<in> set rows'. sr_id r' = sr_id r \<and> sr_user_id r' = sr_user_id r \<and> sr_title r' = sr_title r \<and> sr_status r' = ''deleted''"
    using assms(1)
  proof (induction rule: rtranclp_induct)
    case base
    then show ?case using assms(2,3) by blast
  next
    case (step a b)
    then obtain r' now where r': "r' \<in> set a" "sr_id r' = sr_id r" "sr_user_id r' = sr_user_id r" "sr_title r' = sr_title r"
        "sr_status r' = ''deleted''" and w: "session_write env now a b" by blast
    from session_write_cases [OF w] show ?case
    proof
      assume "list_all2 kept_row a b"
      then show ?thesis using kept_deleted [of a b r'] r' by simp
    next
      assume "\<exists>r. b = a @ [r] \<and> sr_id r \<notin> sr_id ` set a \<and> sr_status r = ''active''"
      then show ?thesis using r' by auto
    qed
  qed
  then show ?thesis using page_items_listed by blast
qed

text \<open>A rename of a deleted session is answered as done and changes nothing: \<open>requireSession\<close> finds deleted sessions.\<close>

theorem deleted_session_renamed_in_answer_only:
  assumes "requireUserId user = Inr userId" "routeId session = Inr sessionId" "requireSession_row rows userId sessionId = Inr row"
    and "recordBody request = Inr body" "optionalString (json_field body ''title'') = Some title" "json_field body ''status'' = None"
    and "sr_status row = ''deleted''" "distinct (map sr_id rows)"
  shows "\<exists>view. patch_session env user session request now rows = Inr (rows, view, ''deleted'') \<and> sv_title view = title"
proof -
  have "row \<in> set rows" using assms(3) by (auto simp: requireSession_row_def result_simps find_Some_iff)
  then have none: "\<not> (sr_id r = sr_id row \<and> sr_user_id r = sr_user_id row \<and> sr_status r \<noteq> ''deleted'')" if "r \<in> set rows" for r
    using that assms(7,8) by (auto simp: distinct_map inj_on_def)
  have "list_ex (\<lambda>r. sr_id r = sr_id row \<and> sr_user_id r = sr_user_id row \<and> sr_status r \<noteq> ''deleted'' \<and> P r) rows = False" for P
    using none by (auto simp: list_ex_iff)
  moreover have "map (\<lambda>r. if sr_id r = sr_id row \<and> sr_user_id r = sr_user_id row \<and> sr_status r \<noteq> ''deleted'' then g r else r) rows = rows" for g
    using none by (intro map_idI) auto
  ultimately show ?thesis
    using assms(1-7) by (simp add: patch_session_def update_sessions_def sessionView_def)
qed

text \<open>A title that has room for 128 characters but not for the suffix: the copy fails in the database.\<close>

lemma long_title_not_copied:
  assumes "requireUserId user = Inr userId" "routeId session = Inr sessionId" "requireSession_row rows userId sessionId = Inr row"
    and "recordBody request = Inr body" "optionalString (json_field body ''title'') = None"
    and "128 < length (sr_title row) + length (ev_copySuffix env)"
  shows "copy_session env user session request newId now rows = Inl database_error"
  using assms by (auto simp: copy_session_def insert_session_def rbind_def bigint_def bigint_opt_def throw_if_def Let_def split: sum.splits option.splits if_splits)

section \<open>What the in-memory service lists\<close>

text \<open>\<open>localeCompare\<close> orders texts of digits as their characters do.\<close>

definition locale_law :: "session_env \<Rightarrow> bool" where
  "locale_law env \<longleftrightarrow> (\<forall>a b. all_digits a \<and> all_digits b \<longrightarrow> (ev_localeCompare env a b \<le> 0 \<longleftrightarrow> a \<le> b))"

definition store_ok :: "session_store \<Rightarrow> bool" where
  "store_ok m \<longleftrightarrow> jmap_ok m \<and> (\<forall>(k, s) \<in> set m. se_id s = k \<and> all_digits k)"

definition record_key :: "session_record \<Rightarrow> num \<times> string" where
  "record_key s = (se_updatedAt s, se_id s)"

lemma store_ids: "store_ok m \<Longrightarrow> map se_id (jvalues m) = map fst m"
  by (auto simp: store_ok_def)

lemma service_listing_descending:
  assumes "store_ok m" "locale_law env"
  shows "descending record_key (sort_by (newer_first env) (filter P (mem_list m userId)))"
proof (rule sort_by_descending)
  have ids: "all_digits (se_id s)" if "s \<in> set (jvalues m)" for s
    using that assms(1) by (auto simp: store_ok_def)
  fix a b assume "a \<in> set (filter P (mem_list m userId))" "b \<in> set (filter P (mem_list m userId))"
  then have "all_digits (se_id a)" "all_digits (se_id b)" using ids by (auto simp: mem_list_def)
  then have "ev_localeCompare env (se_id b) (se_id a) \<le> 0 \<longleftrightarrow> se_id b \<le> se_id a" using assms(2) by (simp add: locale_law_def)
  then show "newer_first env a b \<longleftrightarrow> record_key b \<le> record_key a"
    by (auto simp: newer_first_def record_key_def less_eq_prod_simp Let_def)
next
  have "distinct (map se_id (jvalues m))" unfolding store_ids [OF assms(1)] using assms(1) by (simp only: store_ok_def)
  then show "distinct (map record_key (filter P (mem_list m userId)))"
    by (auto simp: mem_list_def record_key_def distinct_map inj_on_def)
qed

text \<open>Following the cursors of the service shows every session the options ask for exactly once, in order.\<close>

theorem service_pages_complete:
  assumes "store_ok m" "locale_law env"
  shows "follow (\<lambda>c. list_sessions env m userId (opts\<lparr>lo_cursor := c\<rparr>)) (Suc (length m)) None =
    Some (sort_by (newer_first env) (filter (wanted env opts) (mem_list m userId)))"
proof (rule follow_pages [where enc = encodeCursor and key = record_key and n = "nat (max 1 (lo_limit opts))"])
  let ?xs = "sort_by (newer_first env) (filter (wanted env opts) (mem_list m userId))"
  let ?page = "\<lambda>c. list_sessions env m userId (opts\<lparr>lo_cursor := c\<rparr>)" and ?n = "nat (max 1 (lo_limit opts))"
  have w: "wanted env (opts\<lparr>lo_cursor := c\<rparr>) = wanted env opts" for c by (simp add: wanted_def fun_eq_iff)
  have shorter: "length (take ?n ys) < length ys \<longleftrightarrow> ?n < length ys" for ys :: "session_record list" by (simp add: min_def)
  have all: "below_cursor None = (\<lambda>_. True)" by (simp add: fun_eq_iff)
  show "?page None = Inr (take ?n ?xs, if ?n < length ?xs then Some (encodeCursor (last (take ?n ?xs))) else None)"
    unfolding list_sessions_def w Let_def by (simp add: all min_def)
  show desc: "descending record_key ?xs" by (rule service_listing_descending [OF assms])
  fix x assume x: "x \<in> set ?xs"
  have "decodeCursor (encodeCursor x) = Inr (se_updatedAt x, se_id x)"
    by (simp add: decodeCursor_def encodeCursor_def json_field_def)
  moreover have "below_cursor (Some (se_updatedAt x, se_id x)) = (\<lambda>s. record_key s < record_key x)"
    by (auto simp: fun_eq_iff record_key_def less_prod_simp)
  moreover have rest: "sort_by (newer_first env) (filter (\<lambda>s. record_key s < record_key x) (filter (wanted env opts) (mem_list m userId))) =
      filter (\<lambda>s. record_key s < record_key x) ?xs"
    unfolding filter_filter
    by (rule descending_unique [OF service_listing_descending [OF assms] descending_filter [OF desc [unfolded filter_filter]]]) auto
  ultimately show "?page (Some (encodeCursor x)) = (let rest = filter (\<lambda>y. record_key y < record_key x) ?xs in
      Inr (take ?n rest, if ?n < length rest then Some (encodeCursor (last (take ?n rest))) else None))"
    unfolding list_sessions_def w Let_def by (simp add: shorter [simplified] del: length_sort_by)
qed (auto simp: mem_list_def intro: le_trans [OF length_filter_le])

section \<open>Wildcards in a search\<close>

lemma sql_like_percent [simp]: "sql_like ''%'' s"
  by (induction s) simp_all

text \<open>The text of a search is not escaped: an underscore finds every session with a title, where the in-memory service
  finds the titles that contain one.\<close>

theorem underscore_finds_every_title:
  assumes "ev_lowerCase env ''_'' = ''_''" "ev_lowerCase env title \<noteq> []"
  shows "ilike env title ''_''"
proof -
  obtain c s where "ev_lowerCase env title = c # s" using assms(2) by (cases "ev_lowerCase env title") auto
  then show ?thesis by (simp add: ilike_def assms(1))
qed

end
