(* ===== verification/Spec2Isabelle.thy ===== *)
theory Spec2Isabelle
  imports PlanExecution ReadGate Approval RunRoutes PgDramaState RenderRoutes SnowflakeIds DramaStory PostProduction RuntimeTools ConfirmRoutes Sessions
begin

text \<open>
  A verification library for the agent service of VibePaper.

  \<^bold>\<open>The program.\<close>  VibePaper is a canvas for the production of short dramas.  Its agent service, the package
  \<^verbatim>\<open>src/pi-main/packages/vibepaper-agent-service\<close> (the paths below are relative to its \<^verbatim>\<open>src\<close>), is the part that decides:
  it drives a language model through conversations, plans the model's work as steps over canvas tools, asks the
  user to approve what costs points, submits generation tasks, takes their terminal callbacks, and keeps the
  state of a drama from its story bible to its final cut.  The model, the canvas, the generation service and the
  HTTP server are outside; the database is PostgreSQL.

  \<^bold>\<open>The parts and their theories.\<close>

  \<^item> Shared vocabulary, \<^verbatim>\<open>Prelude\<close>: JavaScript values, strings and insertion-ordered maps, exceptions as sums, the
    collections of simplification rules.

  \<^item> Plans.  \<^verbatim>\<open>ToolManifest\<close> (\<^verbatim>\<open>domain/tool-manifest.ts\<close>, \<^verbatim>\<open>domain/tool-policy.ts\<close>, \<^verbatim>\<open>application/profile-selector.ts\<close>) is
    the table of tools; \<^verbatim>\<open>AgentPlan\<close> (\<^verbatim>\<open>domain/agent-plan.ts\<close>) the data of a plan; \<^verbatim>\<open>PlanScheduler\<close>
    (\<^verbatim>\<open>application/ready-set-scheduler.ts\<close>) partitions ready steps; \<^verbatim>\<open>PlanCompiler\<close> (\<^verbatim>\<open>application/plan-compiler.ts\<close>) accepts or
    refuses a plan; \<^verbatim>\<open>PlanState\<close> (\<^verbatim>\<open>application/plan-step-state.ts\<close>) is the state machine of steps with leases;
    \<^verbatim>\<open>Dependencies\<close> (\<^verbatim>\<open>application/canvas-dependency-compiler.ts\<close>) the impact of a change; \<^verbatim>\<open>PlanRepository\<close>
    (\<^verbatim>\<open>infrastructure/pg-plan-repository.ts\<close>) the tables and transactions; \<^verbatim>\<open>ReadTools\<close>, \<^verbatim>\<open>ReadGate\<close> and \<^verbatim>\<open>PlanExecution\<close>
    (\<^verbatim>\<open>tools/read-tools.ts\<close>, \<^verbatim>\<open>application/read-plan-step-executor.ts\<close>, \<^verbatim>\<open>application/read-execution-gate.ts\<close>,
    \<^verbatim>\<open>application/plan-execution-service.ts\<close>) the concurrent execution of the read steps.

  \<^item> Runs.  \<^verbatim>\<open>SessionRuns\<close> and \<^verbatim>\<open>RunRepository\<close> (\<^verbatim>\<open>domain/agent-run.ts\<close>, \<^verbatim>\<open>application/session-run-service.ts\<close>,
    \<^verbatim>\<open>infrastructure/pg-run-repository.ts\<close>) are the runs of a session and their numbered events; \<^verbatim>\<open>EventStreams\<close>
    (\<^verbatim>\<open>application/run-event-stream.ts\<close> and the event route of \<^verbatim>\<open>api/app.ts\<close>) delivers them live; \<^verbatim>\<open>RunRoutes\<close> is the life of
    a run in the message and cancel routes of \<^verbatim>\<open>api/app.ts\<close>.

  \<^item> Tools and approvals.  \<^verbatim>\<open>RuntimeTools\<close> (\<^verbatim>\<open>tools/runtime-tools.ts\<close>, \<^verbatim>\<open>tools/generation-tools.ts\<close>) is what the model can
    call; \<^verbatim>\<open>CanvasCommands\<close> (\<^verbatim>\<open>application/canvas-command-service.ts\<close>) the idempotent commands behind it; \<^verbatim>\<open>Approval\<close>
    (\<^verbatim>\<open>domain/action-approval.ts\<close>, \<^verbatim>\<open>application/approval-service.ts\<close>, \<^verbatim>\<open>infrastructure/pg-approval-repository.ts\<close>) the signed
    confirmations; \<^verbatim>\<open>GenerationActions\<close> (\<^verbatim>\<open>domain/generation-intent.ts\<close>, \<^verbatim>\<open>application/generation-action-executor.ts\<close>) what an
    approved action does, which calls the gateways that freeze points and queue tasks.

  \<^item> Callbacks.  \<^verbatim>\<open>TaskTerminal\<close> (\<^verbatim>\<open>application/task-terminal-service.ts\<close>, \<^verbatim>\<open>infrastructure/pg-task-terminal-store.ts\<close>) records
    the terminal status of a task once; \<^verbatim>\<open>TaskResume\<close> is the route of \<^verbatim>\<open>api/app.ts\<close> that takes a callback and lets it act on render
    batches, plans, runs, messages and points, the place where most of the other components meet.

  \<^item> Confirmations and sessions.  \<^verbatim>\<open>ConfirmRoutes\<close> (\<^verbatim>\<open>api/app.ts\<close>, \<^verbatim>\<open>application/confirmation-status.ts\<close>) accepts or
    rejects a proposed generation; \<^verbatim>\<open>Sessions\<close> (\<^verbatim>\<open>application/session-service.ts\<close>, \<^verbatim>\<open>application/authorization-service.ts\<close>,
    \<^verbatim>\<open>api/app.ts\<close>) creates, lists in pages, renames, deletes and copies sessions.

  \<^item> Render batches.  \<^verbatim>\<open>RenderBatches\<close> (\<^verbatim>\<open>domain/render-input-hash.ts\<close>, \<^verbatim>\<open>application/render-batch-service.ts\<close>,
    \<^verbatim>\<open>infrastructure/pg-render-batch-repository.ts\<close>) and \<^verbatim>\<open>RenderRoutes\<close>, its routes over approvals and the executor.

  \<^item> Drama.  \<^verbatim>\<open>DramaState\<close> and \<^verbatim>\<open>PgDramaState\<close> (\<^verbatim>\<open>domain/drama-state.ts\<close>, \<^verbatim>\<open>infrastructure/pg-drama-state-store.ts\<close>), \<^verbatim>\<open>DramaStory\<close>
    (\<^verbatim>\<open>domain/drama-story.ts\<close>, \<^verbatim>\<open>application/drama-story-service.ts\<close>, \<^verbatim>\<open>infrastructure/pg-drama-story-repository.ts\<close>), and
    \<^verbatim>\<open>PostProduction\<close> (\<^verbatim>\<open>domain/audio-subtitle-composite.ts\<close>, \<^verbatim>\<open>application/post-production-service.ts\<close>,
    \<^verbatim>\<open>infrastructure/pg-post-production-repository.ts\<close>).

  \<^item> Edges.  \<^verbatim>\<open>RequestParsing\<close> reads requests and holds the plan routes (\<^verbatim>\<open>api/app.ts\<close>); \<^verbatim>\<open>SnowflakeIds\<close>
    (\<^verbatim>\<open>infrastructure/ids.ts\<close>) generates ids.

  \<^bold>\<open>How state and operations correspond.\<close>  A class with fields is a record, a method the function from its arguments and
  the state to the result and the new state.  A repository on PostgreSQL is a record of tables, a table the list of its
  rows; a transaction is one function, which throws when a constraint of the migrations refuses a write and then leaves
  the tables alone.  An interface with several implementations (run repository, approval repository, terminal store) is a
  record of functions; its contract is a locale, interpreted on every implementation.  A route that
  awaits several times is cut where another request can come in between when the properties depend on it (the event
  stream, the read gate, the executor, the post-production service), and is one step otherwise; a route that throws keeps
  what it wrote before.

  \<^bold>\<open>What the lemmas show.\<close>  Each theory proves an invariant of its state that every operation keeps, the effect
  of the operations on every branch, and the laws its clients use; a theory ends with the properties and their instances.
  Across the parts: the repository of plans refines the pure step machine; stored plans keep their execution order; no
  step is executed twice, an expired lease is taken over, and some step can always be claimed; concurrent reads start no
  effect; an approval is consumed once, for the request it was given for; a session has one active run whose
  events a client can resume; the first terminal callback of a task decides; a generation is paid once however its
  calls interleave; a batch of tasks ends its run with the last callback; batches stay within their limits; the pages of sessions are complete; the two story
  services agree; ids never repeat and fit 63 bits.  Where the code does not do what it means to, a theorem says what it does.

  \<^bold>\<open>Bounds and fuel.\<close>  \<open>hasCycle\<close> gives its search one unit of fuel for every step and one more; \<open>cycle_search_correct\<close>
  proves it enough.  \<open>actionContinueAfterTask\<close> has fuel for the nesting of JSON strings in a column.  The wait of the
  id generator is \<open>partial_function\<close>; \<open>next_id_returns\<close> proves that it returns under a clock that moves on.  The other
  recursions are structural or have a measure.  Interleavings are schedules, lists of choices, quantified over in the
  properties.

  \<^bold>\<open>Parameters.\<close>  The gateways to canvas and generation service, SHA-256, HMAC, base64url with JSON, \<open>localeCompare\<close>,
  \<open>JSON.parse\<close> of stored text and \<open>JSON.stringify\<close> of scalars are arguments.  Ids, nonces and the clock are arguments of
  the operation that draws them.

  \<^bold>\<open>Not modelled.\<close>  Characters are code units below 256; numbers are rationals, without rounding, NaN and infinities; the
  human-readable texts beside error codes are left out; so are column widths but those of a session's title and of the
  story tables.  Of the service: the call of the language
  model and the prompts around it (\<^verbatim>\<open>application/agent-runtime.ts\<close>, \<^verbatim>\<open>pi/\<close>, \<^verbatim>\<open>application/intent-router.ts\<close>), whose behaviour is the
  model's; the HTTP client \<^verbatim>\<open>infrastructure/tool-gateway.ts\<close>, server, configuration, Nacos, telemetry, migrations and
  connection pool, which are input and output; the evaluation harness \<^verbatim>\<open>evals/\<close>; the stores of memories, artifacts and skills, the
  texts of a turn's context and their compaction, reviews, enterprise policy, continuity rules, and the routes that only parse
  a body and call one method of a modelled service.  Of the repository: the vendored packages of
  \<^verbatim>\<open>pi-main\<close> (model providers, terminal interface, coding agent), the web interface, and the services in Java and Python.
\<close>

end
